(* ===== verification/Prelude.thy ===== *)
theory Prelude
  imports Complex_Main "HOL-Library.Word" "HOL-Library.Multiset"
begin

unbundle bit_operations_syntax

text \<open>
  Shared vocabulary of the development: the type names of the model, the collections of
  rewrite rules the components register their facts in, and the generic lemmas about
  counted loops over flat buffers.

  A C++ loop \<^verbatim>\<open>for (j = 0; j < n; j++) buf[g(j)] = ...\<close> is a \<^const>\<open>fold\<close> over
  \<open>[0..<n]\<close> whose body is a list update.  The lemmas below give the contents of the
  buffer after such a loop, position by position.
\<close>

type_synonym byte = "8 word"
type_synonym buffer = "byte list"

named_theorems gf_simps \<open>homomorphism rules from bytes to the field GF(256)\<close>
named_theorems len_simps \<open>buffer lengths after loops\<close>
named_theorems plan_defs \<open>definitions of the repair planner\<close>

subsection \<open>Counted loops over one buffer\<close>

lemma length_fold_update [len_simps]:
  "length (fold (\<lambda>j m. m[g j := h j m]) js m) = length m"
  by (induction js arbitrary: m) auto

lemma length_fold_invar:
  "(\<And>x m. length (f x m) = length m) \<Longrightarrow> length (fold f xs m) = length m"
  by (induction xs arbitrary: m) auto

lemma fold_update_other:
  "(\<And>j. j \<in> set js \<Longrightarrow> g j \<noteq> p) \<Longrightarrow> fold (\<lambda>j m. m[g j := h j m]) js m ! p = m ! p"
  by (induction js arbitrary: m) auto

text \<open>
  Each step writes its own cell, from a value that the earlier steps do not change: the
  loop then writes, at \<open>g j\<close>, the value computed from the initial buffer.
\<close>

lemma fold_update_nth:
  assumes "distinct (map g js)" and "j \<in> set js" and "g j < length m"
    and "\<And>i v m'. i \<in> set js \<Longrightarrow> i \<noteq> j \<Longrightarrow> h j (m'[g i := v]) = h j m'"
  shows "fold (\<lambda>j m. m[g j := h j m]) js m ! g j = h j m"
  using assms
proof (induction js arbitrary: m)
  case Nil
  then show ?case by simp
next
  case (Cons i js)
  show ?case
  proof (cases "i = j")
    case True
    have "g k \<noteq> g j" if "k \<in> set js" for k
      using Cons.prems(1) True imageI [OF that, of g] by auto
    then show ?thesis using True Cons.prems(3) by (simp add: fold_update_other)
  next
    case False
    with Cons.prems have "fold (\<lambda>j m. m[g j := h j m]) js (m[g i := h i m]) ! g j
        = h j (m[g i := h i m])"
      by (intro Cons.IH) auto
    also have "\<dots> = h j m" using Cons.prems(4) False by simp
    finally show ?thesis by simp
  qed
qed

lemma fold_pair:
  "fold (\<lambda>j (a, b). (f j a, g j b)) js (a, b) = (fold f js a, fold g js b)"
  by (induction js arbitrary: a b) auto

lemma flat_index_inj:
  fixes n :: nat
  assumes "b < n" "d < n"
  shows "a * n + b = c * n + d \<longleftrightarrow> a = c \<and> b = d"
proof
  assume eq: "a * n + b = c * n + d"
  have "(a * n + b) div n = (c * n + d) div n" "(a * n + b) mod n = (c * n + d) mod n"
    using eq by simp_all
  with assms show "a = c \<and> b = d" by simp
qed simp

lemma flat_index_less:
  fixes n :: nat
  assumes "a < m" "b < n"
  shows "a * n + b < m * n"
proof -
  have "a * n + b < Suc a * n" using assms(2) by simp
  also have "\<dots> \<le> m * n" using assms(1) by (intro mult_right_mono) auto
  finally show ?thesis .
qed

text \<open>
  One pass over row \<open>j\<close> of a flat matrix with \<open>n\<close> columns, each cell computed from cells of
  its own column.
\<close>

lemma row_pass_nth:
  assumes "length m = R * n" "j < R" "a < R" "c < n"
    and indep: "\<And>k k' v m'. k < n \<Longrightarrow> k' < n \<Longrightarrow> k \<noteq> k' \<Longrightarrow> h k (m'[j * n + k' := v]) = h k m'"
  shows "fold (\<lambda>k m. m[j * n + k := h k m]) [0..<n] m ! (a * n + c)
       = (if a = j then h c m else m ! (a * n + c))"
proof (cases "a = j")
  case True
  have "fold (\<lambda>k m. m[j * n + k := h k m]) [0..<n] m ! (j * n + c) = h c m"
    using assms by (intro fold_update_nth [where g = "\<lambda>k. j * n + k"])
      (auto simp: distinct_map inj_on_def flat_index_less)
  with True show ?thesis by simp
next
  case False
  with assms(3,4) show ?thesis by (subst fold_update_other) (auto simp: flat_index_inj)
qed

text \<open>Rows \<open>lo..<hi\<close> of a flat matrix written cell by cell.\<close>

lemma length_rows_write [len_simps]:
  "length (fold (\<lambda>i a. fold (\<lambda>j a. a[i * n + j := g i j]) [0..<n] a) is m) = length m"
  by (induction "is" arbitrary: m) (auto simp: len_simps)

lemma rows_write_nth:
  assumes "length m = R * n" "lo \<le> hi" "hi \<le> R" "a < R" "c < n"
  shows "fold (\<lambda>i a. fold (\<lambda>j a. a[i * n + j := g i j]) [0..<n] a) [lo..<hi] m ! (a * n + c)
       = (if lo \<le> a \<and> a < hi then g a c else m ! (a * n + c))"
  using assms(2,3)
proof (induction hi rule: dec_induct)
  case (step hi)
  then show ?case
    using row_pass_nth [of "fold (\<lambda>i a. fold (\<lambda>j a. a[i * n + j := g i j]) [0..<n] a) [lo..<hi] m"
        R n hi a c "\<lambda>j _. g hi j"] assms
    by (auto simp: len_simps less_Suc_eq)
qed auto

lemma fold_counter:
  "fold (\<lambda>j (a, p). (a[p := f j], Suc p)) [0..<q] (a, p) = (fold (\<lambda>j a. a[p + j := f j]) [0..<q] a, p + q)"
  by (induction q) auto

lemma fold_xor_start:
  fixes a :: byte
  shows "fold (\<lambda>j s. s XOR f j) js a = a XOR fold (\<lambda>j s. s XOR f j) js 0"
proof (induction js arbitrary: a)
  case (Cons j js)
  show ?case using Cons.IH [of "a XOR f j"] Cons.IH [of "f j"] by (simp add: xor.assoc)
qed simp

subsection \<open>Tables of equal-sized chunks\<close>

lemma concat_chunk_nth:
  assumes "\<And>x. x \<in> set xss \<Longrightarrow> length x = w" and "i < length xss" and "j < w"
  shows "concat xss ! (i * w + j) = xss ! i ! j"
  using assms
proof (induction xss arbitrary: i)
  case (Cons x xss)
  show ?case
  proof (cases i)
    case (Suc i')
    have "concat (x # xss) ! (i * w + j) = concat xss ! (i' * w + j)"
      using Suc Cons.prems by (simp add: nth_append add.assoc)
    also have "\<dots> = xss ! i' ! j" using Suc Cons.prems by (intro Cons.IH) auto
    finally show ?thesis using Suc by simp
  qed (use Cons.prems in \<open>simp add: nth_append\<close>)
qed simp

lemma length_concat_chunks:
  "(\<And>x. x \<in> set xss \<Longrightarrow> length x = w) \<Longrightarrow> length (concat xss) = length xss * w"
  by (induction xss) auto

lemma concat_map_upt_nth:
  assumes "\<And>i. i < m \<Longrightarrow> length (g i) = w" "i < m" "j < w"
  shows "concat (map g [0..<m]) ! (i * w + j) = g i ! j"
  using assms by (subst concat_chunk_nth) auto

subsection \<open>First success\<close>

text \<open>A loop that returns the first successful result of an attempt.\<close>

fun first_some :: "('a \<Rightarrow> 'b option) \<Rightarrow> 'a list \<Rightarrow> 'b option" where
  "first_some f [] = None"
| "first_some f (x # xs) = (case f x of Some y \<Rightarrow> Some y | None \<Rightarrow> first_some f xs)"

lemma first_some_Some: "first_some f xs = Some y \<Longrightarrow> \<exists>x \<in> set xs. f x = Some y"
  by (induction xs) (auto split: option.splits)

lemma first_some_None: "first_some f xs = None \<longleftrightarrow> (\<forall>x \<in> set xs. f x = None)"
  by (induction xs) (auto split: option.splits)

lemma map_sum_eq_Inr [simp]: "map_sum f g x = Inr y \<longleftrightarrow> (\<exists>u. x = Inr u \<and> y = g u)"
  by (cases x) auto

lemma sum_list_butlast:
  fixes f :: "'a \<Rightarrow> 'b :: comm_monoid_add"
  shows "xs \<noteq> [] \<Longrightarrow> (\<Sum>x\<leftarrow>xs. f x) = (\<Sum>x\<leftarrow>butlast xs. f x) + f (last xs)"
  by (induction xs rule: rev_induct) auto

lemma distinct_concat_disjoint:
  assumes "distinct is" "\<And>i. i \<in> set is \<Longrightarrow> distinct (g i)"
    and "\<And>i j. i \<in> set is \<Longrightarrow> j \<in> set is \<Longrightarrow> i \<noteq> j \<Longrightarrow> set (g i) \<inter> set (g j) = {}"
  shows "distinct (concat (map g is))"
  using assms by (induction "is") auto

end
