(* ===== verification/GF256.thy ===== *)
theory GF256
  imports Prelude
begin

unbundle bit_operations_syntax

text \<open>
  Arithmetic of GF(2^8) as \<^verbatim>\<open>unilrc_encoder.cpp\<close> computes it: multiplication and inverse by
  logarithm and exponential tables (\<^verbatim>\<open>unilrc_encoder.h\<close>), powers by square-and-multiply.

  The locale \<open>byte_field\<close> is the interface the codecs rely on: bytes with XOR as addition
  form a field.  It is interpreted on the table-driven \<open>gf_mul\<close> and \<open>gf_inv\<close>, and the type
  \<open>gf256\<close> of tagged bytes is an instance of the library's class \<open>field\<close>, so that sums and
  linear algebra over it use the library's rules.
\<close>

section \<open>The tables and the operations\<close>

definition gff_base :: "byte list" where
  "gff_base = [
    0x01, 0x02, 0x04, 0x08, 0x10, 0x20, 0x40, 0x80, 0x1d, 0x3a, 0x74, 0xe8, 0xcd, 0x87, 0x13,
    0x26, 0x4c, 0x98, 0x2d, 0x5a, 0xb4, 0x75, 0xea, 0xc9, 0x8f, 0x03, 0x06, 0x0c, 0x18, 0x30,
    0x60, 0xc0, 0x9d, 0x27, 0x4e, 0x9c, 0x25, 0x4a, 0x94, 0x35, 0x6a, 0xd4, 0xb5, 0x77, 0xee,
    0xc1, 0x9f, 0x23, 0x46, 0x8c, 0x05, 0x0a, 0x14, 0x28, 0x50, 0xa0, 0x5d, 0xba, 0x69, 0xd2,
    0xb9, 0x6f, 0xde, 0xa1, 0x5f, 0xbe, 0x61, 0xc2, 0x99, 0x2f, 0x5e, 0xbc, 0x65, 0xca, 0x89,
    0x0f, 0x1e, 0x3c, 0x78, 0xf0, 0xfd, 0xe7, 0xd3, 0xbb, 0x6b, 0xd6, 0xb1, 0x7f, 0xfe, 0xe1,
    0xdf, 0xa3, 0x5b, 0xb6, 0x71, 0xe2, 0xd9, 0xaf, 0x43, 0x86, 0x11, 0x22, 0x44, 0x88, 0x0d,
    0x1a, 0x34, 0x68, 0xd0, 0xbd, 0x67, 0xce, 0x81, 0x1f, 0x3e, 0x7c, 0xf8, 0xed, 0xc7, 0x93,
    0x3b, 0x76, 0xec, 0xc5, 0x97, 0x33, 0x66, 0xcc, 0x85, 0x17, 0x2e, 0x5c, 0xb8, 0x6d, 0xda,
    0xa9, 0x4f, 0x9e, 0x21, 0x42, 0x84, 0x15, 0x2a, 0x54, 0xa8, 0x4d, 0x9a, 0x29, 0x52, 0xa4,
    0x55, 0xaa, 0x49, 0x92, 0x39, 0x72, 0xe4, 0xd5, 0xb7, 0x73, 0xe6, 0xd1, 0xbf, 0x63, 0xc6,
    0x91, 0x3f, 0x7e, 0xfc, 0xe5, 0xd7, 0xb3, 0x7b, 0xf6, 0xf1, 0xff, 0xe3, 0xdb, 0xab, 0x4b,
    0x96, 0x31, 0x62, 0xc4, 0x95, 0x37, 0x6e, 0xdc, 0xa5, 0x57, 0xae, 0x41, 0x82, 0x19, 0x32,
    0x64, 0xc8, 0x8d, 0x07, 0x0e, 0x1c, 0x38, 0x70, 0xe0, 0xdd, 0xa7, 0x53, 0xa6, 0x51, 0xa2,
    0x59, 0xb2, 0x79, 0xf2, 0xf9, 0xef, 0xc3, 0x9b, 0x2b, 0x56, 0xac, 0x45, 0x8a, 0x09, 0x12,
    0x24, 0x48, 0x90, 0x3d, 0x7a, 0xf4, 0xf5, 0xf7, 0xf3, 0xfb, 0xeb, 0xcb, 0x8b, 0x0b, 0x16,
    0x2c, 0x58, 0xb0, 0x7d, 0xfa, 0xe9, 0xcf, 0x83, 0x1b, 0x36, 0x6c, 0xd8, 0xad, 0x47, 0x8e,
    0x01]"

definition gflog_base :: "byte list" where
  "gflog_base = [
    0x00, 0xff, 0x01, 0x19, 0x02, 0x32, 0x1a, 0xc6, 0x03, 0xdf, 0x33, 0xee, 0x1b, 0x68, 0xc7,
    0x4b, 0x04, 0x64, 0xe0, 0x0e, 0x34, 0x8d, 0xef, 0x81, 0x1c, 0xc1, 0x69, 0xf8, 0xc8, 0x08,
    0x4c, 0x71, 0x05, 0x8a, 0x65, 0x2f, 0xe1, 0x24, 0x0f, 0x21, 0x35, 0x93, 0x8e, 0xda, 0xf0,
    0x12, 0x82, 0x45, 0x1d, 0xb5, 0xc2, 0x7d, 0x6a, 0x27, 0xf9, 0xb9, 0xc9, 0x9a, 0x09, 0x78,
    0x4d, 0xe4, 0x72, 0xa6, 0x06, 0xbf, 0x8b, 0x62, 0x66, 0xdd, 0x30, 0xfd, 0xe2, 0x98, 0x25,
    0xb3, 0x10, 0x91, 0x22, 0x88, 0x36, 0xd0, 0x94, 0xce, 0x8f, 0x96, 0xdb, 0xbd, 0xf1, 0xd2,
    0x13, 0x5c, 0x83, 0x38, 0x46, 0x40, 0x1e, 0x42, 0xb6, 0xa3, 0xc3, 0x48, 0x7e, 0x6e, 0x6b,
    0x3a, 0x28, 0x54, 0xfa, 0x85, 0xba, 0x3d, 0xca, 0x5e, 0x9b, 0x9f, 0x0a, 0x15, 0x79, 0x2b,
    0x4e, 0xd4, 0xe5, 0xac, 0x73, 0xf3, 0xa7, 0x57, 0x07, 0x70, 0xc0, 0xf7, 0x8c, 0x80, 0x63,
    0x0d, 0x67, 0x4a, 0xde, 0xed, 0x31, 0xc5, 0xfe, 0x18, 0xe3, 0xa5, 0x99, 0x77, 0x26, 0xb8,
    0xb4, 0x7c, 0x11, 0x44, 0x92, 0xd9, 0x23, 0x20, 0x89, 0x2e, 0x37, 0x3f, 0xd1, 0x5b, 0x95,
    0xbc, 0xcf, 0xcd, 0x90, 0x87, 0x97, 0xb2, 0xdc, 0xfc, 0xbe, 0x61, 0xf2, 0x56, 0xd3, 0xab,
    0x14, 0x2a, 0x5d, 0x9e, 0x84, 0x3c, 0x39, 0x53, 0x47, 0x6d, 0x41, 0xa2, 0x1f, 0x2d, 0x43,
    0xd8, 0xb7, 0x7b, 0xa4, 0x76, 0xc4, 0x17, 0x49, 0xec, 0x7f, 0x0c, 0x6f, 0xf6, 0x6c, 0xa1,
    0x3b, 0x52, 0x29, 0x9d, 0x55, 0xaa, 0xfb, 0x60, 0x86, 0xb1, 0xbb, 0xcc, 0x3e, 0x5a, 0xcb,
    0x59, 0x5f, 0xb0, 0x9c, 0xa9, 0xa0, 0x51, 0x0b, 0xf5, 0x16, 0xeb, 0x7a, 0x75, 0x2c, 0xd7,
    0x4f, 0xae, 0xd5, 0xe9, 0xe6, 0xe7, 0xad, 0xe8, 0x74, 0xd6, 0xf4, 0xea, 0xa8, 0x50, 0x58,
    0xaf]"

text \<open>
  \<^verbatim>\<open>gf_mul\<close> adds two table entries as \<^verbatim>\<open>int\<close>, so the sum does not wrap; the index is at most
  255, and the table has 256 entries.
\<close>

definition gf_mul :: "byte \<Rightarrow> byte \<Rightarrow> byte" where
  "gf_mul a b =
     (if a = 0 \<or> b = 0 then 0
      else let i = unat (gflog_base ! unat a) + unat (gflog_base ! unat b)
           in gff_base ! (if i > 254 then i - 255 else i))"

definition gf_inv :: "byte \<Rightarrow> byte" where
  "gf_inv a = (if a = 0 then 0 else gff_base ! (255 - unat (gflog_base ! unat a)))"

fun gf_pow_loop :: "byte \<Rightarrow> byte \<Rightarrow> nat \<Rightarrow> byte" where
  "gf_pow_loop result base e =
     (if e = 0 then result
      else gf_pow_loop (if odd e then gf_mul result base else result) (gf_mul base base) (e div 2))"

declare gf_pow_loop.simps [simp del]

definition gf_pow :: "byte \<Rightarrow> 32 word \<Rightarrow> byte" where
  "gf_pow base e = gf_pow_loop 1 base (unat e)"

text \<open>Multiplication by the generator \<open>2\<close> modulo the polynomial \<open>0x11d\<close>, one shift at a time.\<close>

definition xtime :: "byte \<Rightarrow> byte" where
  "xtime a = push_bit 1 a XOR (if a AND 0x80 \<noteq> 0 then 0x1d else 0)"

section \<open>The interface: bytes with XOR form a field\<close>

locale byte_field =
  fixes mul :: "byte \<Rightarrow> byte \<Rightarrow> byte" and inv :: "byte \<Rightarrow> byte"
  assumes mul_assoc: "mul (mul a b) c = mul a (mul b c)"
    and mul_comm: "mul a b = mul b a"
    and mul_one: "mul 1 a = a"
    and mul_xor: "mul a (b XOR c) = mul a b XOR mul a c"
    and inv_zero: "inv 0 = 0"
    and mul_inv: "a \<noteq> 0 \<Longrightarrow> mul a (inv a) = 1"
begin

lemma mul_zero: "mul a 0 = 0"
  using mul_xor [of a 0 0] by simp

lemma zero_mul: "mul 0 a = 0"
  using mul_zero mul_comm by metis

lemma xor_mul: "mul (b XOR c) a = mul b a XOR mul c a"
  using mul_xor mul_comm by metis

lemma mul_eq_0_iff: "mul a b = 0 \<longleftrightarrow> a = 0 \<or> b = 0"
proof
  assume eq: "mul a b = 0"
  show "a = 0 \<or> b = 0"
  proof (rule disjCI)
    assume "b \<noteq> 0"
    have "a = mul (mul a b) (inv b)"
      using mul_inv [OF \<open>b \<noteq> 0\<close>] by (simp add: mul_assoc mul_comm [of a 1] mul_one)
    then show "a = 0" by (simp add: eq zero_mul)
  qed
qed (auto simp: mul_zero zero_mul)

lemma inv_nonzero: "a \<noteq> 0 \<Longrightarrow> inv a \<noteq> 0"
  using mul_inv [of a] mul_zero [of a] by auto

lemma inv_unique: "mul a b = 1 \<Longrightarrow> b = inv a"
proof -
  assume eq: "mul a b = 1"
  then have nz: "a \<noteq> 0" using zero_mul by auto
  have "mul (inv a) (mul a b) = mul (mul a (inv a)) b"
    using mul_assoc mul_comm by metis
  then have "mul (inv a) 1 = mul 1 b" by (simp only: eq mul_inv [OF nz])
  then show ?thesis by (simp add: mul_one mul_comm [of _ 1])
qed

lemma inv_inv: "inv (inv a) = a"
proof (cases "a = 0")
  case False
  have "mul (inv a) a = 1" using mul_inv [OF False] by (simp add: mul_comm)
  then show ?thesis using inv_unique by metis
qed (simp add: inv_zero)

end

section \<open>The table-driven operations implement the interface\<close>

subsection \<open>The generator's powers\<close>

lemma xtime_0 [simp]: "xtime 0 = 0"
  by (simp add: xtime_def)

lemma and_0x80_iff: "(a :: byte) AND 0x80 \<noteq> 0 \<longleftrightarrow> bit a 7"
  using and_exp_eq_0_iff_not_bit [of a 7] by simp

lemma xtime_xor: "xtime (a XOR b) = xtime a XOR xtime b"
  by (auto simp: xtime_def and_0x80_iff push_bit_xor bit_xor_iff xor.assoc xor.left_commute)

lemma xtime_pow_0 [simp]: "(xtime ^^ i) 0 = 0"
  by (induction i) auto

lemma xtime_pow_xor: "(xtime ^^ i) (a XOR b) = (xtime ^^ i) a XOR (xtime ^^ i) b"
  by (induction i) (auto simp: xtime_xor)

lemma gff_base_steps: "map xtime (butlast gff_base) = tl gff_base"
  by code_simp

lemma gff_base_log: "map (\<lambda>l. gff_base ! unat l) (tl gflog_base) = map word_of_nat [1..<256]"
  by code_simp


definition gen_exp :: "nat \<Rightarrow> byte" where
  "gen_exp i = (xtime ^^ i) 1"

definition gf_log :: "byte \<Rightarrow> nat" where
  "gf_log a = unat (gflog_base ! unat a)"

lemma length_gff_base: "length gff_base = 256"
  by (simp add: gff_base_def)

lemma length_gflog_base: "length gflog_base = 256"
  by (simp add: gflog_base_def)

lemma gff_base_nth: "i < 256 \<Longrightarrow> gff_base ! i = gen_exp i"
proof (induction i)
  case 0
  show ?case by (simp add: gen_exp_def gff_base_def)
next
  case (Suc i)
  have "gff_base ! Suc i = tl gff_base ! i"
    using Suc.prems by (simp add: nth_tl length_gff_base)
  also have "\<dots> = xtime (gff_base ! i)"
    using Suc.prems by (simp add: gff_base_steps [symmetric] nth_butlast length_gff_base)
  also have "\<dots> = gen_exp (Suc i)" using Suc by (simp add: gen_exp_def)
  finally show ?case .
qed

lemma gen_exp_add: "(xtime ^^ i) (gen_exp j) = gen_exp (i + j)"
  by (simp add: gen_exp_def funpow_add)

lemma gen_exp_255: "gen_exp 255 = 1"
  using gff_base_nth [of 255] by (simp add: gff_base_def)

lemma gen_exp_periodic: "gen_exp (i + 255) = gen_exp i"
  using gen_exp_add [of i 255] by (simp add: gen_exp_255) (simp add: gen_exp_def)

lemma gen_exp_nonzero: "gen_exp i \<noteq> 0"
proof
  assume z: "gen_exp i = 0"
  have "gen_exp (255 * i) = 1"
  proof (induction i)
    case (Suc i)
    show ?case using gen_exp_periodic [of "255 * i"] Suc by (simp add: add.commute)
  qed (simp add: gen_exp_def)
  moreover have "gen_exp (254 * i + i) = 0" using gen_exp_add [of "254 * i" i] z by simp
  ultimately show False by simp
qed

lemma unat_byte_less: "unat (a :: byte) < 256"
  using unsigned_less [of a, where 'a = nat] by simp

lemma gf_log_le: "gf_log a \<le> 255"
  using unat_byte_less [of "gflog_base ! unat a"] by (simp add: gf_log_def)

lemma gen_exp_log: "a \<noteq> 0 \<Longrightarrow> gen_exp (gf_log a) = a"
proof -
  assume "a \<noteq> 0"
  then have pos: "0 < unat a" by (simp add: unat_gt_0)
  have lt: "unat a - 1 < 255" using unat_byte_less [of a] pos by simp
  have "map (\<lambda>l. gff_base ! unat l) (tl gflog_base) ! (unat a - 1)
      = (map word_of_nat [1..<256] :: byte list) ! (unat a - 1)"
    by (simp only: gff_base_log)
  then have "gff_base ! unat (gflog_base ! unat a) = (word_of_nat (unat a) :: byte)"
    using pos lt by (simp add: nth_tl length_gflog_base)
  then show ?thesis
    using gff_base_nth [of "gf_log a"] gf_log_le [of a] by (simp add: gf_log_def)
qed

lemma gf_mul_gen_exp:
  assumes "a \<noteq> 0" "b \<noteq> 0"
  shows "gf_mul a b = gen_exp (gf_log a + gf_log b)"
proof -
  let ?i = "gf_log a + gf_log b"
  have "gf_mul a b = gff_base ! (if ?i > 254 then ?i - 255 else ?i)"
    using assms by (simp add: gf_mul_def gf_log_def Let_def)
  also have "\<dots> = gen_exp (if ?i > 254 then ?i - 255 else ?i)"
    using gf_log_le [of a] gf_log_le [of b] by (intro gff_base_nth) auto
  also have "\<dots> = gen_exp ?i"
    using gen_exp_periodic [of "?i - 255"] by auto
  finally show ?thesis .
qed

text \<open>Multiplication by \<open>a\<close> is \<open>log a\<close> shift steps, hence linear in the other factor.\<close>

lemma gf_mul_shifts: "a \<noteq> 0 \<Longrightarrow> gf_mul a b = (xtime ^^ gf_log a) b"
proof (cases "b = 0")
  case True
  then show ?thesis by (simp add: gf_mul_def)
next
  case False
  moreover assume "a \<noteq> 0"
  ultimately show ?thesis
    using gen_exp_add [of "gf_log a" "gf_log b"] by (simp add: gf_mul_gen_exp gen_exp_log)
qed

lemma gf_mul_nonzero: "a \<noteq> 0 \<Longrightarrow> b \<noteq> 0 \<Longrightarrow> gf_mul a b \<noteq> 0"
  by (simp add: gf_mul_gen_exp gen_exp_nonzero)

lemma gf_mul_comm: "gf_mul a b = gf_mul b a"
  by (simp add: gf_mul_def add.commute disj_commute)

lemma gf_mul_zeros [simp]: "gf_mul 0 b = 0" "gf_mul a 0 = 0"
  by (simp_all add: gf_mul_def)

lemma gf_mul_xor_right: "gf_mul a (b XOR c) = gf_mul a b XOR gf_mul a c"
  by (cases "a = 0") (simp_all add: gf_mul_shifts xtime_pow_xor)

lemma gf_mul_assoc: "gf_mul (gf_mul a b) c = gf_mul a (gf_mul b c)"
proof (cases "a = 0 \<or> b = 0 \<or> c = 0")
  case False
  then have "gf_mul (gf_mul a b) c = (xtime ^^ gf_log c) ((xtime ^^ gf_log a) b)"
    using gf_mul_comm [of "gf_mul a b" c] by (simp add: gf_mul_shifts)
  also have "\<dots> = (xtime ^^ (gf_log c + gf_log a)) (gen_exp (gf_log b))"
    using False by (simp add: funpow_add gen_exp_log)
  also have "\<dots> = (xtime ^^ (gf_log a + gf_log b)) (gen_exp (gf_log c))"
    by (simp add: gen_exp_add ac_simps)
  also have "\<dots> = gf_mul a (gf_mul b c)"
    using False by (simp add: gf_mul_shifts funpow_add gen_exp_log)
  finally show ?thesis .
qed auto

lemma gf_mul_one: "gf_mul 1 b = b"
proof (cases "b = 0")
  case False
  have "gf_log 1 = 255" by (simp add: gf_log_def gflog_base_def)
  then show ?thesis
    using False gen_exp_periodic [of "gf_log b"]
    by (simp add: gf_mul_gen_exp gen_exp_log add.commute)
qed simp

lemma gf_mul_gf_inv: "a \<noteq> 0 \<Longrightarrow> gf_mul a (gf_inv a) = 1"
proof -
  assume nz: "a \<noteq> 0"
  have "gf_inv a = gen_exp (255 - gf_log a)"
    using nz gff_base_nth [of "255 - gf_log a"] by (simp add: gf_inv_def gf_log_def)
  then show ?thesis
    using nz gf_log_le [of a] by (simp add: gf_mul_shifts gen_exp_add gen_exp_255)
qed

interpretation gf: byte_field gf_mul gf_inv
  by unfold_locales (fact gf_mul_assoc gf_mul_comm gf_mul_one gf_mul_xor_right gf_mul_gf_inv
      | simp add: gf_inv_def)+

section \<open>The field of tagged bytes\<close>

datatype gf256 = GF (byte_of: byte)

instantiation gf256 :: field
begin

definition zero_gf256 :: gf256 where "0 = GF 0"
definition one_gf256 :: gf256 where "1 = GF 1"
definition plus_gf256 :: "gf256 \<Rightarrow> gf256 \<Rightarrow> gf256" where "x + y = GF (byte_of x XOR byte_of y)"
definition minus_gf256 :: "gf256 \<Rightarrow> gf256 \<Rightarrow> gf256" where "x - y = GF (byte_of x XOR byte_of y)"
definition uminus_gf256 :: "gf256 \<Rightarrow> gf256" where "- (x :: gf256) = x"
definition times_gf256 :: "gf256 \<Rightarrow> gf256 \<Rightarrow> gf256" where
  "x * y = GF (gf_mul (byte_of x) (byte_of y))"
definition inverse_gf256 :: "gf256 \<Rightarrow> gf256" where "inverse x = GF (gf_inv (byte_of x))"
definition divide_gf256 :: "gf256 \<Rightarrow> gf256 \<Rightarrow> gf256" where
  "x div y = GF (gf_mul (byte_of x) (gf_inv (byte_of y)))"

instance
proof
  fix a b c :: gf256
  show "a * b * c = a * (b * c)" by (simp add: times_gf256_def gf.mul_assoc)
  show "a * b = b * a" by (simp add: times_gf256_def gf_mul_comm)
  show "1 * a = a" by (simp add: times_gf256_def one_gf256_def gf.mul_one)
  show "a + b + c = a + (b + c)" by (simp add: plus_gf256_def xor.assoc)
  show "a + b = b + a" by (simp add: plus_gf256_def xor.commute)
  show "0 + a = a" by (simp add: plus_gf256_def zero_gf256_def)
  show "- a + a = 0" by (simp add: plus_gf256_def uminus_gf256_def zero_gf256_def)
  show "a - b = a + - b" by (simp add: plus_gf256_def minus_gf256_def uminus_gf256_def)
  show "(a + b) * c = a * c + b * c" by (simp add: plus_gf256_def times_gf256_def gf.xor_mul)
  show "(0::gf256) \<noteq> 1" by (simp add: zero_gf256_def one_gf256_def)
  show "a \<noteq> 0 \<Longrightarrow> inverse a * a = 1"
    by (cases a) (simp add: times_gf256_def inverse_gf256_def one_gf256_def zero_gf256_def
        gf.mul_comm [of "gf_inv _"] gf.mul_inv)
  show "a div b = a * inverse b" by (simp add: divide_gf256_def times_gf256_def inverse_gf256_def)
  show "inverse (0::gf256) = 0" by (simp add: inverse_gf256_def zero_gf256_def gf.inv_zero)
qed

end

lemma GF_hom [gf_simps]:
  "GF (a XOR b) = GF a + GF b" "GF (gf_mul a b) = GF a * GF b" "GF (gf_inv a) = inverse (GF a)"
  "GF 0 = 0" "GF 1 = 1"
  by (simp_all add: plus_gf256_def times_gf256_def inverse_gf256_def zero_gf256_def one_gf256_def)

lemma GF_eq_0_iff [simp]: "GF a = 0 \<longleftrightarrow> a = 0"
  by (simp add: zero_gf256_def)

lemma gf256_add_self [simp]: "(x :: gf256) + x = 0"
  by (simp add: plus_gf256_def zero_gf256_def)

lemma gf256_minus [simp]: "- (x :: gf256) = x" "(x :: gf256) - y = x + y"
  by (simp_all add: uminus_gf256_def minus_gf256_def plus_gf256_def)

lemma gf256_add_eq_0_iff: "(x :: gf256) + y = 0 \<longleftrightarrow> x = y"
  using add_eq_0_iff2 [of x y] by simp

text \<open>The accumulation loops \<^verbatim>\<open>s ^= ...\<close> compute sums in the field.\<close>

lemma GF_fold_xor:
  "GF (fold (\<lambda>j s. s XOR f j) js a) = GF a + (\<Sum>j\<leftarrow>js. GF (f j))"
  by (induction js arbitrary: a) (simp_all add: GF_hom add.assoc)

lemma GF_fold_xor_upt [gf_simps]:
  "GF (fold (\<lambda>j s. s XOR f j) [0..<n] a) = GF a + (\<Sum>j<n. GF (f j))"
  by (simp add: GF_fold_xor interv_sum_list_conv_sum_set_nat atLeast0LessThan)

lemma GF_eqD: "GF a = GF b \<Longrightarrow> a = b"
  by simp

lemma gf_pow_loop_eq: "GF (gf_pow_loop res base e) = GF res * GF base ^ e"
proof (induction res base e rule: gf_pow_loop.induct)
  case (1 res base e)
  show ?case
  proof (cases "e = 0")
    case False
    have "GF base ^ e = (GF base * GF base) ^ (e div 2) * (if odd e then GF base else 1)"
      by (cases "odd e") (auto simp: power_mult_distrib power_add [symmetric]
          power_Suc2 [symmetric] mult_2 [symmetric] simp del: power_Suc elim!: evenE oddE)
    then show ?thesis using False "1.IH" [OF False]
      by (subst gf_pow_loop.simps) (auto simp: gf_simps mult_ac)
  qed (simp add: gf_pow_loop.simps)
qed

end
