(* ===== verification/Kernel.thy ===== *)
theory Kernel
  imports GF256
begin

unbundle bit_operations_syntax

text \<open>
  The encoding kernel of \<^verbatim>\<open>unilrc_encoder.cpp\<close> in its portable build (\<^verbatim>\<open>ENABLE_AVX2_ASM\<close> is off by
  default): the 32-byte multiplication tables, their construction with 64-bit words and
  byte by byte, the table-driven product of a coefficient matrix with data blocks, the
  vector-matrix product, and the XOR of several buffers.

  Blocks are byte lists; an array of block pointers is a list of blocks.
\<close>

section \<open>Multiplication tables\<close>

text \<open>The eight bytes of a 64-bit word in memory order on a little-endian machine.\<close>

definition le_bytes :: "64 word \<Rightarrow> byte list" where
  "le_bytes w = map (\<lambda>i. ucast (drop_bit (8 * i) w)) [0..<8]"

definition gf_vect_mul_init :: "byte \<Rightarrow> byte list" where
  "gf_vect_mul_init c =
     (let c2 = xtime c; c4 = xtime c2; c8 = xtime c4;
          v1 = ucast c * (0x0100010001000100 :: 64 word);
          v2 = ucast c2 * (0x0101000001010000 :: 64 word);
          v4 = ucast c4 * (0x0101010100000000 :: 64 word);
          v8 = ucast c8 * (0x0101010101010101 :: 64 word);
          v4 = v1 XOR v2 XOR v4;
          t0 = v4; t1 = v8 XOR v4;
          c17 = xtime c8; c18 = xtime c17; c20 = xtime c18; c24 = xtime c20;
          v10 = ucast c17 * (0x0100010001000100 :: 64 word);
          v20 = ucast c18 * (0x0101000001010000 :: 64 word);
          v40 = ucast c20 * (0x0101010100000000 :: 64 word);
          v80 = ucast c24 * (0x0101010101010101 :: 64 word);
          v40 = v10 XOR v20 XOR v40;
          t2 = v40; t3 = v80 XOR v40
      in le_bytes t0 @ le_bytes t1 @ le_bytes t2 @ le_bytes t3)"

text \<open>The branch compiled on other machines, which stores byte by byte.\<close>

definition gf_vect_mul_init_bytes :: "byte \<Rightarrow> byte list" where
  "gf_vect_mul_init_bytes c =
     (let c2 = xtime c; c4 = xtime c2; c8 = xtime c4;
          c3 = c2 XOR c; c5 = c4 XOR c; c6 = c4 XOR c2; c7 = c4 XOR c3;
          c9 = c8 XOR c; c10 = c8 XOR c2; c11 = c8 XOR c3; c12 = c8 XOR c4;
          c13 = c8 XOR c5; c14 = c8 XOR c6; c15 = c8 XOR c7;
          c17 = xtime c8; c18 = xtime c17; c19 = c18 XOR c17; c20 = xtime c18;
          c21 = c20 XOR c17; c22 = c20 XOR c18; c23 = c20 XOR c19; c24 = xtime c20;
          c25 = c24 XOR c17; c26 = c24 XOR c18; c27 = c24 XOR c19; c28 = c24 XOR c20;
          c29 = c24 XOR c21; c30 = c24 XOR c22; c31 = c24 XOR c23
      in [0, c, c2, c3, c4, c5, c6, c7, c8, c9, c10, c11, c12, c13, c14, c15,
          0, c17, c18, c19, c20, c21, c22, c23, c24, c25, c26, c27, c28, c29, c30, c31])"

section \<open>Products with data blocks\<close>

text \<open>Every caller allocates \<open>k * rows * 32\<close> bytes for the tables; the result is their contents.\<close>

definition ec_init_tables :: "nat \<Rightarrow> nat \<Rightarrow> buffer \<Rightarrow> buffer" where
  "ec_init_tables k rows a =
     concat (map (\<lambda>i. concat (map (\<lambda>j. gf_vect_mul_init (a ! (i * k + j))) [0..<k])) [0..<rows])"

definition ec_encode_data_base ::
  "nat \<Rightarrow> nat \<Rightarrow> nat \<Rightarrow> buffer \<Rightarrow> buffer list \<Rightarrow> buffer list \<Rightarrow> buffer list" where
  "ec_encode_data_base len srcs dests v src dest =
     fold (\<lambda>l dst. dst[l :=
        fold (\<lambda>i d. d[i :=
           fold (\<lambda>j s. s XOR gf_mul (src ! j ! i) (v ! (j * 32 + l * srcs * 32 + 1))) [0..<srcs] 0])
          [0..<len] (dst ! l)]) [0..<dests] dest"

text \<open>Without the assembly kernels the dispatcher is the portable loop.\<close>

definition ec_encode_data_avx2 ::
  "nat \<Rightarrow> nat \<Rightarrow> nat \<Rightarrow> buffer \<Rightarrow> buffer list \<Rightarrow> buffer list \<Rightarrow> buffer list" where
  "ec_encode_data_avx2 len k rows g_tbls data coding = ec_encode_data_base len k rows g_tbls data coding"

definition encode_data ::
  "nat \<Rightarrow> nat \<Rightarrow> nat \<Rightarrow> buffer \<Rightarrow> buffer list \<Rightarrow> buffer list \<Rightarrow> buffer list" where
  "encode_data len k rows matrix data coding =
     ec_encode_data_avx2 len k rows (ec_init_tables k rows matrix) data coding"

definition gf_mul_vect_matrix :: "buffer \<Rightarrow> buffer \<Rightarrow> buffer \<Rightarrow> nat \<Rightarrow> buffer" where
  "gf_mul_vect_matrix vect matrix dest k =
     fold (\<lambda>i d. fold (\<lambda>j d. d[i := d ! i XOR gf_mul (vect ! j) (matrix ! (j * k + i))]) [0..<k]
        (d[i := 0])) [0..<k] dest"

text \<open>The last of the \<open>vects\<close> pointers is the destination; a null source counts as zeros.\<close>

definition xor_avx :: "int \<Rightarrow> int \<Rightarrow> buffer option list \<Rightarrow> buffer option list" where
  "xor_avx vects len array =
     (if vects \<le> 0 \<or> len \<le> 0 then array
      else case array ! (nat vects - 1) of
        None \<Rightarrow> array
      | Some dest \<Rightarrow> array[nat vects - 1 := Some
          (fold (\<lambda>i d. d[i :=
             fold (\<lambda>v acc. acc XOR (case array ! v of Some src \<Rightarrow> src ! i | None \<Rightarrow> 0))
               [0..<nat vects - 1] 0]) [0..<nat len] dest)])"

section \<open>The tables\<close>

text \<open>A 64-bit word with prescribed bytes.\<close>

definition digits64 :: "nat \<Rightarrow> (nat \<Rightarrow> byte) \<Rightarrow> 64 word" where
  "digits64 m d = (\<Sum>i<m. push_bit (8 * i) (ucast (d i)))"

lemma bit_byte_less: "bit (c :: byte) n \<Longrightarrow> n < 8"
  using bit_imp_le_length [of c n] by simp

lemma bit_digits64:
  "m \<le> 8 \<Longrightarrow> bit (digits64 m d) n \<longleftrightarrow> n < 8 * m \<and> bit (d (n div 8)) (n mod 8)"
proof (induction m arbitrary: n)
  case (Suc m)
  let ?p = "push_bit (8 * m) (ucast (d m)) :: 64 word"
  have p: "bit ?p n \<longleftrightarrow> 8 * m \<le> n \<and> n < 8 * Suc m \<and> bit (d m) (n - 8 * m)" for n
  proof -
    have "bit (d m) (n - 8 * m) \<Longrightarrow> n - 8 * m < 8" by (rule bit_byte_less)
    then show ?thesis using Suc.prems by (auto simp: bit_push_bit_iff bit_ucast_iff)
  qed
  have IH: "bit (digits64 m d) n \<longleftrightarrow> n < 8 * m \<and> bit (d (n div 8)) (n mod 8)" for n
    using Suc.prems by (intro Suc.IH) simp
  have "digits64 m d AND ?p = 0"
    by (rule bit_eqI) (auto simp: bit_and_iff IH p)
  then have sum: "digits64 (Suc m) d = digits64 m d OR ?p"
    using disjunctive_add_eq_or [of "digits64 m d" ?p] by (simp add: digits64_def)
  have dm: "n div 8 = m \<and> n mod 8 = n - 8 * m" if "8 * m \<le> n" "n < 8 * Suc m"
  proof -
    have "n = 8 * m + (n - 8 * m)" "n - 8 * m < 8" using that by simp_all
    then show ?thesis by (metis div_mult_self4 div_less add_0_right mod_mult_self4 mod_less zero_neq_numeral)
  qed
  show ?case
  proof (cases "n < 8 * m")
    case True
    then show ?thesis by (simp add: sum bit_or_iff p IH)
  next
    case False
    then show ?thesis using dm by (auto simp: sum bit_or_iff p IH)
  qed
qed (simp add: digits64_def)

lemma le_bytes_digits64: "le_bytes (digits64 8 d) = map d [0..<8]"
proof -
  have "ucast (drop_bit (8 * i) (digits64 8 d)) = d i" if "i < 8" for i
    using that by (auto intro!: bit_eqI simp: bit_simps bit_digits64 dest: bit_byte_less)
  then show ?thesis by (simp add: le_bytes_def)
qed

lemma digits64_xor: "digits64 8 d XOR digits64 8 e = digits64 8 (\<lambda>i. d i XOR e i)"
  by (auto intro!: bit_eqI simp: bit_xor_iff bit_digits64)

lemma digits64_8:
  "digits64 8 d = ucast (d 0) + (ucast (d 1) * 2 ^ 8 + (ucast (d 2) * 2 ^ 16 + (ucast (d 3) * 2 ^ 24 +
     (ucast (d 4) * 2 ^ 32 + (ucast (d 5) * 2 ^ 40 + (ucast (d 6) * 2 ^ 48 + ucast (d 7) * 2 ^ 56))))))"
  by (simp add: digits64_def push_bit_eq_mult lessThan_nat_numeral lessThan_Suc add_ac mult_ac)

text \<open>The four multipliers copy a byte to some of the eight lanes; no lane overflows.\<close>

lemma spread_lanes:
  "ucast c * (0x0100010001000100 :: 64 word) = digits64 8 (\<lambda>i. if odd i then c else 0)"
  "ucast c * (0x0101000001010000 :: 64 word) = digits64 8 (\<lambda>i. if i mod 4 \<ge> 2 then c else 0)"
  "ucast c * (0x0101010100000000 :: 64 word) = digits64 8 (\<lambda>i. if i \<ge> 4 then c else 0)"
  "ucast c * (0x0101010101010101 :: 64 word) = digits64 8 (\<lambda>_. c)"
  by (simp_all add: digits64_8 flip: distrib_left)

lemma upt_8: "[0..<8] = [0, 1, 2, 3, 4, 5, 6, 7]"
  by (simp add: upt_rec)

lemma gf_vect_mul_init_eq_bytes: "gf_vect_mul_init c = gf_vect_mul_init_bytes c"
  unfolding gf_vect_mul_init_def gf_vect_mul_init_bytes_def Let_def spread_lanes digits64_xor
    le_bytes_digits64 upt_8
  by (simp add: xor.assoc xor.commute xor.left_commute)

lemma gf_mul_powers_of_2:
  "gf_mul c 2 = xtime c" "gf_mul c 4 = xtime (xtime c)" "gf_mul c 8 = xtime (xtime (xtime c))"
  "gf_mul c 16 = xtime (xtime (xtime (xtime c)))"
  "gf_mul c 32 = xtime (xtime (xtime (xtime (xtime c))))"
  "gf_mul c 64 = xtime (xtime (xtime (xtime (xtime (xtime c)))))"
  "gf_mul c 128 = xtime (xtime (xtime (xtime (xtime (xtime (xtime c))))))"
proof -
  have "gf_log 2 = Suc 0" "gf_log 4 = Suc (Suc 0)" "gf_log 8 = Suc (Suc (Suc 0))" "gf_log 16 = Suc (Suc (Suc (Suc 0)))"
    "gf_log 32 = Suc (Suc (Suc (Suc (Suc 0))))" "gf_log 64 = Suc (Suc (Suc (Suc (Suc (Suc 0)))))" "gf_log 128 = Suc (Suc (Suc (Suc (Suc (Suc (Suc 0))))))"
    by (simp_all add: gf_log_def gflog_base_def)
  moreover have "gf_mul c b = (xtime ^^ gf_log b) c" if "b \<noteq> 0" for b
    using gf_mul_comm [of c b] that by (simp add: gf_mul_shifts)
  ultimately show "gf_mul c 2 = xtime c" "gf_mul c 4 = xtime (xtime c)"
    "gf_mul c 8 = xtime (xtime (xtime c))" "gf_mul c 16 = xtime (xtime (xtime (xtime c)))"
    "gf_mul c 32 = xtime (xtime (xtime (xtime (xtime c))))"
    "gf_mul c 64 = xtime (xtime (xtime (xtime (xtime (xtime c)))))"
    "gf_mul c 128 = xtime (xtime (xtime (xtime (xtime (xtime (xtime c))))))"
    by simp_all
qed

lemma gf_vect_mul_init_bytes_low:
  "take 16 (gf_vect_mul_init_bytes c) = map (\<lambda>i. gf_mul c (word_of_nat i)) [0..<16]"
  using gf_mul_xor_right [of c 2 1] gf_mul_xor_right [of c 4 1] gf_mul_xor_right [of c 4 2]
    gf_mul_xor_right [of c 4 3] gf_mul_xor_right [of c 8 1] gf_mul_xor_right [of c 8 2]
    gf_mul_xor_right [of c 8 3] gf_mul_xor_right [of c 8 4] gf_mul_xor_right [of c 8 5]
    gf_mul_xor_right [of c 8 6] gf_mul_xor_right [of c 8 7]
  by (simp add: gf_vect_mul_init_bytes_def Let_def gf_mul_powers_of_2 gf.mul_one gf_mul_comm [of c 1] upt_rec)

lemma gf_vect_mul_init_bytes_high:
  "drop 16 (gf_vect_mul_init_bytes c) = map (\<lambda>i. gf_mul c (word_of_nat (16 * i))) [0..<16]"
  using gf_mul_xor_right [of c 32 16] gf_mul_xor_right [of c 64 16] gf_mul_xor_right [of c 64 32]
    gf_mul_xor_right [of c 64 48] gf_mul_xor_right [of c 128 16] gf_mul_xor_right [of c 128 32]
    gf_mul_xor_right [of c 128 48] gf_mul_xor_right [of c 128 64] gf_mul_xor_right [of c 128 80]
    gf_mul_xor_right [of c 128 96] gf_mul_xor_right [of c 128 112]
  by (simp add: gf_vect_mul_init_bytes_def Let_def gf_mul_powers_of_2 upt_rec)

lemma length_gf_vect_mul_init [simp]: "length (gf_vect_mul_init c) = 32"
  by (simp add: gf_vect_mul_init_eq_bytes gf_vect_mul_init_bytes_def Let_def)

lemma gf_vect_mul_init_1 [simp]: "gf_vect_mul_init c ! Suc 0 = c"
  by (simp add: gf_vect_mul_init_eq_bytes gf_vect_mul_init_bytes_def Let_def)

section \<open>Products\<close>

lemma ec_init_tables_nth:
  assumes "l < rows" "j < k"
  shows "ec_init_tables k rows a ! (j * 32 + l * k * 32 + 1) = a ! (l * k + j)"
proof -
  let ?row = "\<lambda>i. map (\<lambda>j. gf_vect_mul_init (a ! (i * k + j))) [0..<k]"
  have len: "length (concat (?row i)) = k * 32" for i
    by (subst length_concat_chunks [where w = 32]) auto
  have idx: "j * 32 + l * k * 32 + 1 = l * (k * 32) + (j * 32 + 1)" by simp
  have "j * 32 + 1 < k * 32" using assms(2) by linarith
  then have "ec_init_tables k rows a ! (j * 32 + l * k * 32 + 1) = concat (?row l) ! (j * 32 + 1)"
    unfolding ec_init_tables_def idx
    using assms(1) len by (subst concat_chunk_nth [where w = "k * 32"]) auto
  also have "\<dots> = ?row l ! j ! 1"
    using assms(2) by (intro concat_chunk_nth) auto
  finally show ?thesis using assms(2) by simp
qed

lemma fold_fill:
  "length d = len \<Longrightarrow> fold (\<lambda>i d. d[i := f i]) [0..<len] d = map f [0..<len]"
  by (rule nth_equalityI) (auto simp: len_simps intro!: fold_update_nth [where g = "\<lambda>i. i" and h = "\<lambda>i _. f i"])

text \<open>A destination array of \<open>dests\<close> blocks of \<open>len\<close> bytes each.\<close>

definition blocks_ok :: "nat \<Rightarrow> nat \<Rightarrow> buffer list \<Rightarrow> bool" where
  "blocks_ok n len bs \<longleftrightarrow> length bs = n \<and> (\<forall>b \<in> set bs. length b = len)"

lemma blocks_ok_nth: "blocks_ok n len bs \<Longrightarrow> i < n \<Longrightarrow> length (bs ! i) = len"
  by (auto simp: blocks_ok_def)

lemma ec_encode_data_base_blocks:
  assumes "blocks_ok dests len dest"
  shows "ec_encode_data_base len srcs dests v src dest =
     map (\<lambda>l. map (\<lambda>i. fold (\<lambda>j s. s XOR gf_mul (src ! j ! i) (v ! (j * 32 + l * srcs * 32 + 1)))
        [0..<srcs] 0) [0..<len]) [0..<dests]"
    (is "?lhs = map ?row [0..<dests]")
proof (rule nth_equalityI)
  have "length ?lhs = length dest"
    by (simp add: ec_encode_data_base_def len_simps)
  then show "length ?lhs = length (map ?row [0..<dests])"
    using assms by (simp add: blocks_ok_def)
  fix l assume "l < length ?lhs"
  then have l: "l < dests" "l < length dest"
    using assms \<open>length ?lhs = length dest\<close> by (simp_all add: blocks_ok_def)
  have "?lhs ! l = fold (\<lambda>i d. d[i := ?row l ! i]) [0..<len] (dest ! l)"
    unfolding ec_encode_data_base_def
    using l by (subst fold_update_nth [where g = "\<lambda>l. l"]) (auto intro!: fold_cong)
  also have "\<dots> = map (\<lambda>i. ?row l ! i) [0..<len]"
    using assms l by (intro fold_fill) (simp add: blocks_ok_nth)
  also have "\<dots> = ?row l" by (rule nth_equalityI) auto
  finally show "?lhs ! l = map ?row [0..<dests] ! l" using l by simp
qed

text \<open>The kernel's contract: block \<open>l\<close> of the result is row \<open>l\<close> of the matrix times the data.\<close>

lemma encode_data_blocks_ok:
  "blocks_ok rows len coding \<Longrightarrow> blocks_ok rows len (encode_data len k rows matrix data coding)"
  by (auto simp: encode_data_def ec_encode_data_avx2_def ec_encode_data_base_blocks blocks_ok_def)

lemma encode_data_nth:
  assumes "blocks_ok rows len coding" "l < rows" "i < len"
  shows "GF (encode_data len k rows matrix data coding ! l ! i)
       = (\<Sum>j<k. GF (matrix ! (l * k + j)) * GF (data ! j ! i))"
proof -
  have "GF (encode_data len k rows matrix data coding ! l ! i)
      = (\<Sum>j<k. GF (data ! j ! i) * GF (ec_init_tables k rows matrix ! (j * 32 + l * k * 32 + 1)))"
    using assms by (simp add: encode_data_def ec_encode_data_avx2_def ec_encode_data_base_blocks gf_simps)
  also have "\<dots> = (\<Sum>j<k. GF (matrix ! (l * k + j)) * GF (data ! j ! i))"
    using assms(2) by (intro sum.cong refl) (simp add: ec_init_tables_nth [simplified] mult.commute [of "GF (data ! _ ! i)"])
  finally show ?thesis .
qed

lemma gf_mul_vect_matrix_nth:
  assumes "length dest = k" "i < k"
  shows "GF (gf_mul_vect_matrix vect matrix dest k ! i)
       = (\<Sum>j<k. GF (vect ! j) * GF (matrix ! (j * k + i)))"
    and "length (gf_mul_vect_matrix vect matrix dest k) = k"
proof -
  let ?s = "\<lambda>i. fold (\<lambda>j s. s XOR gf_mul (vect ! j) (matrix ! (j * k + i))) [0..<k] 0"
  have inner: "fold (\<lambda>j d. d[i := d ! i XOR f j]) js d = d[i := fold (\<lambda>j s. s XOR f j) js (d ! i)]"
    if "i < length d" for i f js and d :: buffer
    using that by (induction js arbitrary: d) auto
  have "fold (\<lambda>i d. fold (\<lambda>j d. d[i := d ! i XOR gf_mul (vect ! j) (matrix ! (j * k + i))]) [0..<k]
        (d[i := 0])) js d = fold (\<lambda>i d. d[i := ?s i]) js d"
    if "set js \<subseteq> {..<k}" "length d = k" for js and d :: buffer
    using that by (induction js arbitrary: d) (auto simp: inner)
  then have eq: "gf_mul_vect_matrix vect matrix dest k = map ?s [0..<k]"
    using assms(1) fold_fill [of dest k ?s] by (simp add: gf_mul_vect_matrix_def lessThan_atLeast0)
  show "GF (gf_mul_vect_matrix vect matrix dest k ! i)
       = (\<Sum>j<k. GF (vect ! j) * GF (matrix ! (j * k + i)))"
    using assms(2) by (simp add: eq gf_simps)
  show "length (gf_mul_vect_matrix vect matrix dest k) = k" by (simp add: eq)
qed

text \<open>The XOR kernel on non-null buffers: the last buffer becomes the sum of the others.\<close>

lemma xor_avx_sum:
  assumes "length (dest :: buffer) = len" "0 < len"
  shows "xor_avx (int (length srcs) + 1) (int len) (map Some srcs @ [Some dest])
       = map Some srcs @ [Some (map (\<lambda>i. fold (\<lambda>v acc. acc XOR srcs ! v ! i) [0..<length srcs] 0) [0..<len])]"
proof -
  have "fold (\<lambda>v acc. acc XOR (case (map Some srcs @ [Some dest]) ! v of Some src \<Rightarrow> src ! i | None \<Rightarrow> 0))
       [0..<length srcs] 0 = fold (\<lambda>v acc. acc XOR srcs ! v ! i) [0..<length srcs] 0" for i
    by (rule fold_cong) (auto simp: nth_append)
  then show ?thesis using assms
    by (simp add: xor_avx_def nth_append list_update_append fold_fill nat_add_distrib)
qed

section \<open>Multiplication against its definition by shifts and additions\<close>

text \<open>
  A byte is the XOR of the powers of two of its set bits, so the table-driven product is the
  schoolbook one: add the multiples of the left factor by the powers of the generator.
\<close>

lemma bit_fold_bits:
  "m \<le> 8 \<Longrightarrow> bit (fold (\<lambda>i acc. if bit b i then acc XOR 2 ^ i else acc) [0..<m] (0 :: byte)) n
     \<longleftrightarrow> n < m \<and> bit b n"
  by (induction m) (auto simp: bit_xor_iff bit_exp_iff less_Suc_eq possible_bit_def)

lemma byte_bits: "fold (\<lambda>i acc. if bit b i then acc XOR 2 ^ i else acc) [0..<8] 0 = (b :: byte)"
  by (rule bit_word_eqI) (simp add: bit_fold_bits)

lemma gf_mul_fold: "gf_mul a (fold (\<lambda>i acc. if P i then acc XOR g i else acc) is c)
   = fold (\<lambda>i acc. if P i then acc XOR gf_mul a (g i) else acc) is (gf_mul a c)"
  by (induction "is" arbitrary: c) (simp_all add: gf_mul_xor_right)

lemma gf_mul_two_power: "i < 8 \<Longrightarrow> gf_mul a (2 ^ i) = (xtime ^^ i) a"
proof -
  assume "i < 8"
  then consider "i = 0" | "i = 1" | "i = 2" | "i = 3" | "i = 4" | "i = 5" | "i = 6" | "i = 7" by linarith
  then show ?thesis
    by cases (simp_all add: gf_mul_comm [of a 1] gf_mul_one gf_mul_powers_of_2 eval_nat_numeral funpow_swap1)
qed

lemma gf_mul_shift_add:
  "gf_mul a b = fold (\<lambda>i acc. if bit b i then acc XOR (xtime ^^ i) a else acc) [0..<8] 0"
proof -
  have "gf_mul a b = gf_mul a (fold (\<lambda>i acc. if bit b i then acc XOR 2 ^ i else acc) [0..<8] 0)"
    by (simp only: byte_bits)
  also have "\<dots> = fold (\<lambda>i acc. if bit b i then acc XOR gf_mul a (2 ^ i) else acc) [0..<8] 0"
    by (simp only: gf_mul_fold gf_mul_zeros)
  also have "\<dots> = fold (\<lambda>i acc. if bit b i then acc XOR (xtime ^^ i) a else acc) [0..<8] 0"
    by (rule fold_cong) (auto simp: fun_eq_iff gf_mul_two_power)
  finally show ?thesis .
qed

end
