(* ===== verification/GaussJordan.thy ===== *)
theory GaussJordan
  imports GF256
begin

unbundle bit_operations_syntax

text \<open>
  \<^verbatim>\<open>gf_invert_matrix\<close> of \<^verbatim>\<open>unilrc_encoder.cpp\<close>: in-place Gauss-Jordan elimination on two flat
  row-major buffers of \<open>n * n\<close> bytes, with a row swap when the pivot is zero.  Shown: the
  result code is 0 exactly when the matrix is nonsingular, the output is then a two-sided
  inverse over GF(256), and on failure a nonzero vector of the kernel exists.
\<close>

section \<open>The routine\<close>

text \<open>The identity is written over whatever \<^verbatim>\<open>out_mat\<close> held.\<close>

definition set_identity :: "nat \<Rightarrow> buffer \<Rightarrow> buffer" where
  "set_identity n out_mat =
     fold (\<lambda>i m. m[i * n + i := 1]) [0..<n] (fold (\<lambda>i m. m[i := 0]) [0..<n * n] out_mat)"

definition swap_cells :: "nat \<Rightarrow> nat \<Rightarrow> nat \<Rightarrow> nat \<Rightarrow> buffer \<Rightarrow> buffer" where
  "swap_cells n i j k m = (m[i * n + k := m ! (j * n + k)])[j * n + k := m ! (i * n + k)]"

definition swap_rows :: "nat \<Rightarrow> nat \<Rightarrow> nat \<Rightarrow> buffer \<times> buffer \<Rightarrow> buffer \<times> buffer" where
  "swap_rows n i j = fold (\<lambda>k (a, b). (swap_cells n i j k a, swap_cells n i j k b)) [0..<n]"

definition scale_row :: "nat \<Rightarrow> nat \<Rightarrow> buffer \<times> buffer \<Rightarrow> buffer \<times> buffer" where
  "scale_row n i st =
     (let temp = gf_inv (fst st ! (i * n + i))
      in fold (\<lambda>j (a, b). (a[i * n + j := gf_mul (a ! (i * n + j)) temp],
                           b[i * n + j := gf_mul (b ! (i * n + j)) temp])) [0..<n] st)"

definition add_row :: "nat \<Rightarrow> nat \<Rightarrow> nat \<Rightarrow> byte \<Rightarrow> buffer \<times> buffer \<Rightarrow> buffer \<times> buffer" where
  "add_row n i j temp =
     fold (\<lambda>k (a, b). (a[j * n + k := a ! (j * n + k) XOR gf_mul temp (a ! (i * n + k))],
                       b[j * n + k := b ! (j * n + k) XOR gf_mul temp (b ! (i * n + k))])) [0..<n]"

definition eliminate_rows :: "nat \<Rightarrow> nat \<Rightarrow> buffer \<times> buffer \<Rightarrow> buffer \<times> buffer" where
  "eliminate_rows n i =
     fold (\<lambda>j st. if j = i then st else add_row n i j (fst st ! (j * n + i)) st) [0..<n]"

text \<open>The pivot search: \<open>None\<close> is the return of \<open>-1\<close>.\<close>

definition pivot_row :: "nat \<Rightarrow> nat \<Rightarrow> buffer \<times> buffer \<Rightarrow> (buffer \<times> buffer) option" where
  "pivot_row n i st =
     (if fst st ! (i * n + i) = 0
      then (case find (\<lambda>j. fst st ! (j * n + i) \<noteq> 0) [Suc i..<n] of
              None \<Rightarrow> None
            | Some j \<Rightarrow> Some (swap_rows n i j st))
      else Some st)"

fun invert_loop :: "nat \<Rightarrow> nat list \<Rightarrow> buffer \<times> buffer \<Rightarrow> int \<times> buffer \<times> buffer" where
  "invert_loop n [] st = (0, st)"
| "invert_loop n (i # is) st =
     (case pivot_row n i st of
        None \<Rightarrow> (- 1, st)
      | Some st' \<Rightarrow> invert_loop n is (eliminate_rows n i (scale_row n i st')))"

text \<open>The result code with the final contents of \<^verbatim>\<open>in_mat\<close> and \<^verbatim>\<open>out_mat\<close>.\<close>

definition gf_invert_matrix :: "buffer \<Rightarrow> buffer \<Rightarrow> nat \<Rightarrow> int \<times> buffer \<times> buffer" where
  "gf_invert_matrix in_mat out_mat n = invert_loop n [0..<n] (in_mat, set_identity n out_mat)"

section \<open>Matrices over GF(256)\<close>

type_synonym gmat = "nat \<Rightarrow> nat \<Rightarrow> gf256"

definition ent :: "nat \<Rightarrow> buffer \<Rightarrow> gmat" where
  "ent n m i j = GF (m ! (i * n + j))"

definition mvec :: "nat \<Rightarrow> gmat \<Rightarrow> (nat \<Rightarrow> gf256) \<Rightarrow> nat \<Rightarrow> gf256" where
  "mvec n M x a = (\<Sum>c<n. M a c * x c)"

definition delta :: gmat where
  "delta a c = (if a = c then 1 else 0)"

definition trivial_kernel :: "nat \<Rightarrow> gmat \<Rightarrow> bool" where
  "trivial_kernel n M \<longleftrightarrow> (\<forall>x. (\<forall>a<n. mvec n M x a = 0) \<longrightarrow> (\<forall>a<n. x a = 0))"

definition left_inverse :: "nat \<Rightarrow> gmat \<Rightarrow> gmat \<Rightarrow> bool" where
  "left_inverse n B A \<longleftrightarrow> (\<forall>a<n. \<forall>c<n. (\<Sum>b<n. B a b * A b c) = delta a c)"

lemma mvec_cong: "(\<And>c. c < n \<Longrightarrow> M a c = M' a' c) \<Longrightarrow> mvec n M x a = mvec n M' x a'"
  by (simp add: mvec_def)

lemma mvec_delta: "a < n \<Longrightarrow> mvec n delta x a = x a"
  by (simp add: mvec_def delta_def if_distrib [of "\<lambda>t. t * _"] sum.delta cong: if_cong)

lemma mvec_scale: "(\<And>c. c < n \<Longrightarrow> M' a c = t * M a c) \<Longrightarrow> mvec n M' x a = t * mvec n M x a"
  by (simp add: mvec_def sum_distrib_left mult.assoc)

lemma mvec_combine:
  "(\<And>c. c < n \<Longrightarrow> M' a c = M a c + t * M i c) \<Longrightarrow> mvec n M' x a = mvec n M x a + t * mvec n M x i"
  by (simp add: mvec_def sum_distrib_left sum.distrib distrib_right mult.assoc)

lemma mvec_mult:
  "(\<And>b. b < n \<Longrightarrow> y b = mvec n A x b) \<Longrightarrow>
   mvec n B y a = (\<Sum>c<n. (\<Sum>b<n. B a b * A b c) * x c)"
proof -
  assume y: "\<And>b. b < n \<Longrightarrow> y b = mvec n A x b"
  have "mvec n B y a = (\<Sum>b<n. \<Sum>c<n. B a b * A b c * x c)"
    by (simp add: mvec_def [of n B] y) (simp add: mvec_def sum_distrib_left mult.assoc)
  also have "\<dots> = (\<Sum>c<n. (\<Sum>b<n. B a b * A b c) * x c)"
    by (subst sum.swap) (simp add: sum_distrib_right)
  finally show ?thesis .
qed

lemma left_inverse_solves:
  assumes "left_inverse n B A" and "a < n" and "\<And>b. b < n \<Longrightarrow> y b = mvec n A x b"
  shows "mvec n B y a = x a"
proof -
  have "mvec n B y a = (\<Sum>c<n. (\<Sum>b<n. B a b * A b c) * x c)"
    using assms(3) by (rule mvec_mult)
  also have "\<dots> = mvec n delta x a"
    using assms(1,2) by (auto simp: mvec_def left_inverse_def intro!: sum.cong)
  finally show ?thesis using assms(2) by (simp add: mvec_delta)
qed

lemma left_inverse_trivial_kernel: "left_inverse n B A \<Longrightarrow> trivial_kernel n A"
proof (unfold trivial_kernel_def, intro allI impI)
  fix x a
  assume "left_inverse n B A" "\<forall>b<n. mvec n A x b = 0" "a < n"
  then have "mvec n B (\<lambda>_. 0) a = x a" by (intro left_inverse_solves) auto
  then show "x a = 0" by (simp add: mvec_def)
qed

lemma left_inverse_is_right:
  assumes "left_inverse n B A" and "trivial_kernel n B"
  shows "left_inverse n A B"
  unfolding left_inverse_def
proof (intro allI impI)
  fix a c assume ac: "a < n" "c < n"
  let ?x = "\<lambda>b. mvec n A (\<lambda>d. B d c) b + delta b c"
  have "mvec n B ?x d = 0" if "d < n" for d
  proof -
    have "mvec n B ?x d = mvec n B (\<lambda>b. mvec n A (\<lambda>d. B d c) b) d + mvec n B (\<lambda>b. delta b c) d"
      by (simp add: mvec_def distrib_left sum.distrib)
    also have "mvec n B (\<lambda>b. mvec n A (\<lambda>d. B d c) b) d = B d c"
      using assms(1) that by (rule left_inverse_solves) simp
    also have "mvec n B (\<lambda>b. delta b c) d = B d c"
      using ac by (simp add: mvec_def delta_def if_distrib [of "\<lambda>t. _ * t"] cong: if_cong)
    finally show ?thesis by simp
  qed
  with ac(1) have "?x a = 0"
    using assms(2) [unfolded trivial_kernel_def, rule_format, of ?x] by simp
  then show "(\<Sum>b<n. A a b * B b c) = delta a c"
    by (simp add: mvec_def gf256_add_eq_0_iff)
qed

section \<open>The effect of each step\<close>

definition sized :: "nat \<Rightarrow> buffer \<times> buffer \<Rightarrow> bool" where
  "sized n st \<longleftrightarrow> length (fst st) = n * n \<and> length (snd st) = n * n"

lemma length_set_identity [len_simps]: "length (set_identity n m) = length m"
  by (simp add: set_identity_def len_simps)

lemma set_identity_ent:
  assumes "length m = n * n" "a < n" "c < n"
  shows "ent n (set_identity n m) a c = delta a c"
proof -
  let ?z = "fold (\<lambda>i m. m[i := 0]) [0..<n * n] m"
  have lt: "a * n + c < n * n" using assms by (simp add: flat_index_less)
  have z: "?z ! (a * n + c) = 0"
    using fold_update_nth [of "\<lambda>i. i" "[0..<n * n]" "a * n + c" m "\<lambda>_ _. 0"] lt assms(1) by simp
  show ?thesis
  proof (cases "a = c")
    case True
    have "fold (\<lambda>i m. m[i * n + i := 1]) [0..<n] ?z ! (a * n + a) = 1"
      using assms(1,2) lt True flat_index_inj
      by (intro fold_update_nth [where g = "\<lambda>i. i * n + i" and h = "\<lambda>_ _. 1"])
        (auto simp: distinct_map inj_on_def len_simps)
    then show ?thesis using True by (simp add: ent_def set_identity_def delta_def gf_simps)
  next
    case False
    then have "fold (\<lambda>i m. m[i * n + i := 1]) [0..<n] ?z ! (a * n + c) = 0"
      using assms(2,3) by (subst fold_update_other) (auto simp: flat_index_inj z)
    then show ?thesis using False by (simp add: ent_def set_identity_def delta_def gf_simps)
  qed
qed

text \<open>The three row operations, on each of the two buffers.\<close>

lemma length_swap_cells_fold [len_simps]:
  "length (fold (swap_cells n i j) ks m) = length m"
  by (induction ks arbitrary: m) (auto simp: swap_cells_def)

lemma swap_cells_nth:
  assumes "length m = n * n" "i < n" "j < n" "i \<noteq> j" "q < n" "a < n" "c < n"
  shows "swap_cells n i j q m ! (a * n + c)
       = m ! ((if c = q then (if a = i then j else if a = j then i else a) else a) * n + c)"
proof -
  have "i * n + q < n * n" "j * n + q < n * n" using assms by (simp_all add: flat_index_less)
  then show ?thesis using assms by (auto simp: swap_cells_def nth_list_update flat_index_inj)
qed

lemma swap_cells_fold_nth:
  assumes "length m = n * n" "i < n" "j < n" "i \<noteq> j" "a < n" "c < n" "q \<le> n"
  shows "fold (swap_cells n i j) [0..<q] m ! (a * n + c)
       = m ! ((if c < q then (if a = i then j else if a = j then i else a) else a) * n + c)"
  using assms(5-7)
proof (induction q arbitrary: a c)
  case (Suc q)
  have "fold (swap_cells n i j) [0..<Suc q] m ! (a * n + c)
      = fold (swap_cells n i j) [0..<q] m !
          ((if c = q then (if a = i then j else if a = j then i else a) else a) * n + c)"
    using swap_cells_nth [of "fold (swap_cells n i j) [0..<q] m" n i j q a c] Suc.prems assms(1-4)
    by (simp add: len_simps)
  also have "\<dots> = m ! ((if c < Suc q then (if a = i then j else if a = j then i else a) else a) * n + c)"
    using Suc.prems assms(2,3) by (subst Suc.IH) (auto simp: less_Suc_eq)
  finally show ?case .
qed simp

lemma swap_rows_ent:
  assumes "sized n st" "i < n" "j < n" "i \<noteq> j" "a < n" "c < n"
  shows "ent n (fst (swap_rows n i j st)) a c
       = ent n (fst st) (if a = i then j else if a = j then i else a) c"
    and "ent n (snd (swap_rows n i j st)) a c
       = ent n (snd st) (if a = i then j else if a = j then i else a) c"
  using assms swap_cells_fold_nth [of "fst st" n i j a c n] swap_cells_fold_nth [of "snd st" n i j a c n]
  by (cases st; simp add: swap_rows_def fold_pair ent_def sized_def)+

lemma scale_row_ent:
  assumes "sized n st" "i < n" "a < n" "c < n"
  shows "ent n (fst (scale_row n i st)) a c
       = (if a = i then inverse (ent n (fst st) i i) else 1) * ent n (fst st) a c"
    and "ent n (snd (scale_row n i st)) a c
       = (if a = i then inverse (ent n (fst st) i i) else 1) * ent n (snd st) a c"
  using assms
    row_pass_nth [of "fst st" n n i a c "\<lambda>k m. gf_mul (m ! (i * n + k)) (gf_inv (fst st ! (i * n + i)))"]
    row_pass_nth [of "snd st" n n i a c "\<lambda>k m. gf_mul (m ! (i * n + k)) (gf_inv (fst st ! (i * n + i)))"]
  by (cases st; simp add: scale_row_def Let_def fold_pair ent_def sized_def gf_simps mult.commute)+

lemma add_row_ent:
  assumes "sized n st" "i < n" "j < n" "i \<noteq> j" "a < n" "c < n"
  shows "ent n (fst (add_row n i j t st)) a c
       = ent n (fst st) a c + (if a = j then GF t * ent n (fst st) i c else 0)"
    and "ent n (snd (add_row n i j t st)) a c
       = ent n (snd st) a c + (if a = j then GF t * ent n (snd st) i c else 0)"
  using assms
    row_pass_nth [of "fst st" n n j a c "\<lambda>k m. m ! (j * n + k) XOR gf_mul t (m ! (i * n + k))"]
    row_pass_nth [of "snd st" n n j a c "\<lambda>k m. m ! (j * n + k) XOR gf_mul t (m ! (i * n + k))"]
  by (cases st; simp add: add_row_def fold_pair ent_def sized_def gf_simps flat_index_inj)+

lemma sized_swap_rows: "sized n st \<Longrightarrow> sized n (swap_rows n i j st)"
  by (cases st) (simp add: swap_rows_def fold_pair sized_def len_simps)

lemma sized_scale_row: "sized n st \<Longrightarrow> sized n (scale_row n i st)"
  by (cases st) (simp add: scale_row_def Let_def fold_pair sized_def len_simps)

lemma sized_add_row: "sized n st \<Longrightarrow> sized n (add_row n i j t st)"
  by (cases st) (simp add: add_row_def fold_pair sized_def len_simps)

lemma eliminate_fold_ent:
  assumes "sized n st" "i < n" "q \<le> n"
  defines "st' \<equiv> fold (\<lambda>j st. if j = i then st else add_row n i j (fst st ! (j * n + i)) st) [0..<q] st"
  shows "sized n st' \<and> (\<forall>a<n. \<forall>c<n.
     ent n (fst st') a c = ent n (fst st) a c +
        (if a < q \<and> a \<noteq> i then ent n (fst st) a i * ent n (fst st) i c else 0) \<and>
     ent n (snd st') a c = ent n (snd st) a c +
        (if a < q \<and> a \<noteq> i then ent n (fst st) a i * ent n (snd st) i c else 0))"
  using assms(3) unfolding st'_def
proof (induction q)
  case (Suc q)
  let ?F = "\<lambda>q. fold (\<lambda>j st. if j = i then st else add_row n i j (fst st ! (j * n + i)) st) [0..<q] st"
  from Suc have IH: "sized n (?F q)"
    and ent: "\<And>a c. a < n \<Longrightarrow> c < n \<Longrightarrow> ent n (fst (?F q)) a c = ent n (fst st) a c +
        (if a < q \<and> a \<noteq> i then ent n (fst st) a i * ent n (fst st) i c else 0)"
      "\<And>a c. a < n \<Longrightarrow> c < n \<Longrightarrow> ent n (snd (?F q)) a c = ent n (snd st) a c +
        (if a < q \<and> a \<noteq> i then ent n (fst st) a i * ent n (snd st) i c else 0)"
    by auto
  have q: "q < n" using Suc.prems by simp
  have t: "GF (fst (?F q) ! (q * n + i)) = ent n (fst st) q i" if "q \<noteq> i"
    using ent(1) [OF q assms(2)] by (simp add: ent_def)
  show ?case
  proof (cases "q = i")
    case True
    then show ?thesis using IH ent by (auto simp: less_Suc_eq)
  next
    case False
    then show ?thesis using IH q assms(2) t
      by (auto simp: add_row_ent ent sized_add_row less_Suc_eq)
  qed
qed (simp add: assms)

lemma eliminate_rows_ent:
  assumes "sized n st" "i < n"
  shows "sized n (eliminate_rows n i st) \<and> (\<forall>a<n. \<forall>c<n.
     ent n (fst (eliminate_rows n i st)) a c = ent n (fst st) a c +
        (if a \<noteq> i then ent n (fst st) a i * ent n (fst st) i c else 0) \<and>
     ent n (snd (eliminate_rows n i st)) a c = ent n (snd st) a c +
        (if a \<noteq> i then ent n (fst st) a i * ent n (snd st) i c else 0))"
  using eliminate_fold_ent [OF assms order.refl] by (simp add: eliminate_rows_def)

section \<open>Correctness\<close>

text \<open>
  Between two steps: \<open>out * A = in\<close>, the kernel of \<open>in\<close> lies in the kernel of the input \<open>A\<close>
  and \<open>out\<close> has a trivial kernel.
\<close>

definition row_inv :: "nat \<Rightarrow> gmat \<Rightarrow> buffer \<times> buffer \<Rightarrow> bool" where
  "row_inv n A st \<longleftrightarrow> sized n st
     \<and> (\<forall>a<n. \<forall>c<n. (\<Sum>b<n. ent n (snd st) a b * A b c) = ent n (fst st) a c)
     \<and> (\<forall>x. (\<forall>a<n. mvec n (ent n (fst st)) x a = 0) \<longrightarrow> (\<forall>a<n. mvec n A x a = 0))
     \<and> trivial_kernel n (ent n (snd st))"

definition unit_cols :: "nat \<Rightarrow> nat \<Rightarrow> buffer \<times> buffer \<Rightarrow> bool" where
  "unit_cols n i st \<longleftrightarrow> (\<forall>a<n. \<forall>c<i. ent n (fst st) a c = delta a c)"

text \<open>
  Every row operation has the form \<open>M' a = s a * M (\<pi> a) + w a * M i\<close> with the same
  coefficients on both buffers.
\<close>

lemma mvec_row_op:
  assumes "\<And>c. c < n \<Longrightarrow> M' a c = s * M p c + w * M i c"
  shows "mvec n M' x a = s * mvec n M x p + w * mvec n M x i"
  using assms by (simp add: mvec_def sum_distrib_left sum.distrib distrib_right mult.assoc)

lemma row_op_kernel:
  assumes op: "\<And>a c. a < n \<Longrightarrow> c < n \<Longrightarrow> M' a c = s a * M (\<pi> a) c + w a * M i c"
    and s: "\<And>a. a < n \<Longrightarrow> s a \<noteq> 0"
    and surj: "\<And>b. b < n \<Longrightarrow> \<exists>a<n. \<pi> a = b" and base: "a0 < n" "\<pi> a0 = i" "w a0 = 0"
    and zero: "\<And>a. a < n \<Longrightarrow> mvec n M' x a = 0" and b: "b < n"
  shows "mvec n M x b = 0"
proof -
  have eq: "s a * mvec n M x (\<pi> a) + w a * mvec n M x i = 0" if "a < n" for a
    using zero [OF that] mvec_row_op [of n M' a "s a" M "\<pi> a" "w a" i x] op that by simp
  have i0: "mvec n M x i = 0" using eq [of a0] base s [of a0] by simp
  obtain a where a: "a < n" "\<pi> a = b" using surj [OF b] by blast
  show ?thesis using eq [OF a(1)] s [OF a(1)] by (simp add: i0 a(2))
qed

lemma row_op_inv:
  assumes inv: "row_inv n A st" and "sized n st'"
    and op: "\<And>a c. a < n \<Longrightarrow> c < n \<Longrightarrow>
        ent n (fst st') a c = s a * ent n (fst st) (\<pi> a) c + w a * ent n (fst st) i c"
      "\<And>a c. a < n \<Longrightarrow> c < n \<Longrightarrow>
        ent n (snd st') a c = s a * ent n (snd st) (\<pi> a) c + w a * ent n (snd st) i c"
    and s: "\<And>a. a < n \<Longrightarrow> s a \<noteq> 0" and ran: "i < n" "\<And>a. a < n \<Longrightarrow> \<pi> a < n"
    and surj: "\<And>b. b < n \<Longrightarrow> \<exists>a<n. \<pi> a = b" and base: "a0 < n" "\<pi> a0 = i" "w a0 = 0"
  shows "row_inv n A st'"
  unfolding row_inv_def
proof (intro conjI allI impI)
  show "sized n st'" by fact
next
  fix a c assume ac: "a < n" "c < n"
  have "(\<Sum>b<n. ent n (snd st') a b * A b c)
      = s a * (\<Sum>b<n. ent n (snd st) (\<pi> a) b * A b c) + w a * (\<Sum>b<n. ent n (snd st) i b * A b c)"
    using op(2) ac by (simp add: sum_distrib_left sum.distrib distrib_right mult.assoc)
  also have "\<dots> = ent n (fst st') a c"
    using inv op(1) ac ran by (simp add: row_inv_def)
  finally show "(\<Sum>b<n. ent n (snd st') a b * A b c) = ent n (fst st') a c" .
next
  fix x a assume "\<forall>a<n. mvec n (ent n (fst st')) x a = 0" "a < n"
  then have "\<forall>b<n. mvec n (ent n (fst st)) x b = 0"
    using row_op_kernel [of n "ent n (fst st')" s "ent n (fst st)" \<pi> w i a0 x, OF op(1) s surj base] by blast
  then show "mvec n A x a = 0" using inv \<open>a < n\<close> by (simp add: row_inv_def)
next
  show "trivial_kernel n (ent n (snd st'))"
    unfolding trivial_kernel_def
  proof (intro allI impI)
    fix x a assume "\<forall>a<n. mvec n (ent n (snd st')) x a = 0" "a < n"
    then have "\<forall>b<n. mvec n (ent n (snd st)) x b = 0"
      using row_op_kernel [of n "ent n (snd st')" s "ent n (snd st)" \<pi> w i a0 x, OF op(2) s surj base] by blast
    then show "x a = 0" using inv \<open>a < n\<close> by (auto simp: row_inv_def trivial_kernel_def)
  qed
qed

lemma swap_rows_inv:
  assumes "row_inv n A st" "i < n" "j < n" "i \<noteq> j"
  shows "row_inv n A (swap_rows n i j st)"
proof (rule row_op_inv [where s = "\<lambda>_. 1" and w = "\<lambda>_. 0" and i = i and ?a0.0 = j
      and \<pi> = "\<lambda>a. if a = i then j else if a = j then i else a", OF assms(1)])
  have "sized n st" using assms(1) by (simp add: row_inv_def)
  then show "sized n (swap_rows n i j st)" by (rule sized_swap_rows)
  show "\<exists>a<n. (if a = i then j else if a = j then i else a) = b" if "b < n" for b
    using that assms(2-4) by (intro exI [of _ "if b = i then j else if b = j then i else b"]) auto
qed (use assms in \<open>auto simp: swap_rows_ent row_inv_def\<close>)

lemma scale_row_inv:
  assumes "row_inv n A st" "i < n" "ent n (fst st) i i \<noteq> 0"
  shows "row_inv n A (scale_row n i st)"
  using assms
  by (intro row_op_inv [where s = "\<lambda>a. if a = i then inverse (ent n (fst st) i i) else 1"
      and w = "\<lambda>_. 0" and i = i and \<pi> = "\<lambda>a. a" and ?a0.0 = i, OF assms(1)])
    (auto simp: scale_row_ent row_inv_def sized_scale_row)

lemma eliminate_rows_inv:
  assumes "row_inv n A st" "i < n"
  shows "row_inv n A (eliminate_rows n i st)"
proof -
  have "sized n st" using assms(1) by (simp add: row_inv_def)
  note el = eliminate_rows_ent [OF this assms(2)]
  show ?thesis using assms el
    by (intro row_op_inv [where s = "\<lambda>_. 1" and \<pi> = "\<lambda>a. a" and i = i and ?a0.0 = i
        and w = "\<lambda>a. if a \<noteq> i then ent n (fst st) a i else 0", OF assms(1)]) auto
qed

text \<open>One iteration of the outer loop keeps the invariant and clears column \<open>i\<close>.\<close>

lemma pivot_row_inv:
  assumes "row_inv n A st" "unit_cols n i st" "i < n" "pivot_row n i st = Some st'"
  shows "row_inv n A st'" "unit_cols n i st'" "ent n (fst st') i i \<noteq> 0"
proof -
  have "row_inv n A st' \<and> unit_cols n i st' \<and> ent n (fst st') i i \<noteq> 0"
  proof (cases "fst st ! (i * n + i) = 0")
    case False
    then show ?thesis using assms by (auto simp: pivot_row_def ent_def)
  next
    case True
    with assms(4) obtain j where "find (\<lambda>j. fst st ! (j * n + i) \<noteq> 0) [Suc i..<n] = Some j"
      and st': "st' = swap_rows n i j st"
      by (auto simp: pivot_row_def split: option.splits)
    then have j: "i < j" "j < n" "ent n (fst st) j i \<noteq> 0"
      by (auto simp: find_Some_iff ent_def nth_append)
    have "sized n st" using assms(1) by (simp add: row_inv_def)
    then show ?thesis
      using assms(1-3) j unfolding st'
      by (auto simp: swap_rows_inv unit_cols_def swap_rows_ent delta_def)
  qed
  then show "row_inv n A st'" "unit_cols n i st'" "ent n (fst st') i i \<noteq> 0" by auto
qed

lemma invert_step:
  assumes "row_inv n A st" "unit_cols n i st" "i < n" "pivot_row n i st = Some st'"
  shows "row_inv n A (eliminate_rows n i (scale_row n i st'))"
    and "unit_cols n (Suc i) (eliminate_rows n i (scale_row n i st'))"
proof -
  note piv = pivot_row_inv [OF assms]
  have sc: "row_inv n A (scale_row n i st')" using piv assms(3) by (simp add: scale_row_inv)
  then show "row_inv n A (eliminate_rows n i (scale_row n i st'))"
    using assms(3) by (rule eliminate_rows_inv)
  have sz: "sized n st'" "sized n (scale_row n i st')" using piv sc by (simp_all add: row_inv_def)
  note el = eliminate_rows_ent [OF sz(2) assms(3)]
  have "ent n (fst (eliminate_rows n i (scale_row n i st'))) a c = delta a c"
    if "a < n" "c < Suc i" for a c
    using that assms(3) piv el
    by (cases "c = i") (auto simp: unit_cols_def scale_row_ent [OF sz(1)] delta_def)
  then show "unit_cols n (Suc i) (eliminate_rows n i (scale_row n i st'))"
    by (simp add: unit_cols_def)
qed

text \<open>No pivot: the columns reduced so far span column \<open>i\<close>, which gives a vector of the kernel.\<close>

lemma pivot_row_None:
  assumes "row_inv n A st" "unit_cols n i st" "i < n" "pivot_row n i st = None"
  shows "\<not> trivial_kernel n A"
proof
  assume triv: "trivial_kernel n A"
  let ?M = "ent n (fst st)"
  have col: "?M a i = 0" if "i \<le> a" "a < n" for a
    using assms(4) that
    by (cases "a = i") (auto simp: pivot_row_def ent_def gf_simps find_None_iff split: option.splits if_splits)
  let ?x = "\<lambda>c. if c < i then ?M c i else if c = i then 1 else 0"
  have "mvec n ?M ?x a = 0" if a: "a < n" for a
  proof -
    have "mvec n ?M ?x a = (\<Sum>c<n. (if c < i then delta a c * ?M c i else 0) + (if c = i then ?M a i else 0))"
      unfolding mvec_def using assms(2) a by (intro sum.cong) (auto simp: unit_cols_def)
    also have "\<dots> = (\<Sum>c<n. if c < i then delta a c * ?M c i else 0) + ?M a i"
      using assms(3) by (simp add: sum.distrib)
    also have "(\<Sum>c<n. if c < i then delta a c * ?M c i else 0) = (\<Sum>c<n. if c = a then (if a < i then ?M a i else 0) else 0)"
      by (intro sum.cong) (auto simp: delta_def)
    finally show ?thesis using a col [of a] by auto
  qed
  then have "\<forall>a<n. mvec n A ?x a = 0" using assms(1) unfolding row_inv_def by blast
  then have "?x i = 0" using triv assms(3) unfolding trivial_kernel_def by blast
  then show False by simp
qed

lemma invert_loop_correct:
  assumes "row_inv n A st" "unit_cols n i st" "i \<le> n" "invert_loop n [i..<n] st = (ret, st')"
  shows "if ret = 0 then row_inv n A st' \<and> unit_cols n n st' else ret = - 1 \<and> \<not> trivial_kernel n A"
  using assms
proof (induction "n - i" arbitrary: i st)
  case 0
  then show ?case by simp
next
  case (Suc d)
  then have i: "i < n" by simp
  note unroll = upt_conv_Cons [OF i]
  show ?case
  proof (cases "pivot_row n i st")
    case None
    then show ?thesis using Suc.prems i pivot_row_None [OF Suc.prems(1,2) i None] by (simp add: unroll)
  next
    case (Some st1)
    note step = invert_step [OF Suc.prems(1,2) i Some]
    show ?thesis using Suc.prems(4) Some i Suc.hyps(2)
      by (intro Suc.hyps(1) [OF _ step]) (auto simp: unroll)
  qed
qed

lemma gf_invert_matrix_run:
  assumes "length m = n * n" "length o1 = n * n" "gf_invert_matrix m o1 n = (ret, m', inv_m)"
  shows "if ret = 0 then row_inv n (ent n m) (m', inv_m) \<and> unit_cols n n (m', inv_m)
         else ret = - 1 \<and> \<not> trivial_kernel n (ent n m)"
proof (rule invert_loop_correct)
  let ?st = "(m, set_identity n o1)"
  have id: "(\<Sum>b<n. ent n (set_identity n o1) a b * ent n m b c) = ent n m a c" if "a < n" for a c
    using that assms(2) set_identity_ent mvec_delta [of a n "\<lambda>b. ent n m b c"] by (simp add: mvec_def)
  have "mvec n (ent n (set_identity n o1)) x a = x a" if "a < n" for x a
    using that assms(2) set_identity_ent mvec_delta [of a n x] by (simp add: mvec_def)
  then show "row_inv n (ent n m) ?st"
    using assms id by (simp add: row_inv_def sized_def len_simps trivial_kernel_def)
  show "invert_loop n [0..<n] ?st = (ret, m', inv_m)"
    using assms(3) by (simp add: gf_invert_matrix_def)
qed (auto simp: unit_cols_def)

text \<open>The facts the decoders use.\<close>

lemma gf_invert_matrix_inverse:
  assumes "length m = n * n" "length o1 = n * n" "gf_invert_matrix m o1 n = (0, m', inv_m)"
  shows "length inv_m = n * n" "left_inverse n (ent n inv_m) (ent n m)"
    "left_inverse n (ent n m) (ent n inv_m)"
proof -
  have r: "row_inv n (ent n m) (m', inv_m)" "unit_cols n n (m', inv_m)"
    using gf_invert_matrix_run [OF assms] by auto
  then show "length inv_m = n * n" and l: "left_inverse n (ent n inv_m) (ent n m)"
    by (auto simp: row_inv_def sized_def unit_cols_def left_inverse_def)
  show "left_inverse n (ent n m) (ent n inv_m)"
    using l r(1) by (simp add: left_inverse_is_right row_inv_def)
qed

end
