(* ===== verification/Layout.thy ===== *)
theory Layout
  imports GF256 "HOL-Library.Signed_Division"
begin

unbundle bit_operations_syntax

text \<open>
  The gLRC layout of \<^verbatim>\<open>unilrc_encoder.cpp\<close> and \<^verbatim>\<open>glrc_repair_ilp.cpp\<close>.  A stripe has \<open>k\<close> data
  blocks \<open>0..<k\<close>, \<open>r\<close> global parities \<open>k..<k+r\<close> and \<open>z\<close> local parities \<open>k+r..<k+r+z\<close>.  The first
  \<open>k + r\<close> blocks (the payload) are cut into \<open>z\<close> consecutive groups whose sizes differ by at
  most one, and group \<open>g\<close> is completed by local parity \<open>k + r + g\<close>.

  Functions of the source that test their \<^verbatim>\<open>int\<close> arguments for negative values take \<open>int\<close>
  arguments here, and their divisions truncate (\<open>sdiv\<close>, \<open>smod\<close>); block identifiers that
  index vectors are \<open>nat\<close>.
\<close>

section \<open>Group arithmetic\<close>

definition glrc_payload_blocks_in_group :: "int \<Rightarrow> int \<Rightarrow> int \<Rightarrow> int \<Rightarrow> int" where
  "glrc_payload_blocks_in_group group_id k r z =
     (if z \<le> 0 \<or> group_id < 0 \<or> group_id \<ge> z then 0
      else let total_payload = k + r;
               base = total_payload sdiv z;
               larger_group_count = total_payload smod z;
               first_larger_group = z - larger_group_count
           in base + (if larger_group_count > 0 \<and> group_id \<ge> first_larger_group then 1 else 0))"

definition glrc_payload_group_id :: "int \<Rightarrow> int \<Rightarrow> int \<Rightarrow> int \<Rightarrow> int" where
  "glrc_payload_group_id payload_block_index k r z =
     (let total_payload = k + r in
      if z \<le> 1 \<or> total_payload \<le> 0 then 0
      else if payload_block_index < 0 then 0
      else if payload_block_index \<ge> total_payload then z - 1
      else let base = total_payload sdiv z;
               larger_group_count = total_payload smod z;
               smaller_group_count = z - larger_group_count;
               smaller_payload_count = smaller_group_count * base
           in if base > 0 \<and> payload_block_index < smaller_payload_count
              then payload_block_index sdiv base
              else smaller_group_count + (payload_block_index - smaller_payload_count) sdiv (base + 1))"

definition glrc_data_group_id :: "int \<Rightarrow> int \<Rightarrow> int \<Rightarrow> int \<Rightarrow> int" where
  "glrc_data_group_id data_block_index k r z = glrc_payload_group_id data_block_index k r z"

definition payload_start_loop :: "int \<Rightarrow> int \<Rightarrow> int \<Rightarrow> int \<Rightarrow> int" where
  "payload_start_loop group_id k r z =
     fold (\<lambda>g s. s + glrc_payload_blocks_in_group (int g) k r z) [0..<nat group_id] 0"

definition glrc_data_blocks_in_group :: "int \<Rightarrow> int \<Rightarrow> int \<Rightarrow> int \<Rightarrow> int" where
  "glrc_data_blocks_in_group group_id k r z =
     (if z \<le> 0 \<or> group_id < 0 \<or> group_id \<ge> z then 0
      else let payload_start = payload_start_loop group_id k r z;
               payload_end = payload_start + glrc_payload_blocks_in_group group_id k r z
           in max 0 (min payload_end k - payload_start))"

definition glrc_global_blocks_in_group :: "int \<Rightarrow> int \<Rightarrow> int \<Rightarrow> int \<Rightarrow> int" where
  "glrc_global_blocks_in_group group_id k r z =
     (if z \<le> 0 \<or> group_id < 0 \<or> group_id \<ge> z then 0
      else let payload_start = payload_start_loop group_id k r z;
               payload_end = payload_start + glrc_payload_blocks_in_group group_id k r z
           in max 0 (payload_end - max payload_start k))"

definition glrc_fill_data_blocks_per_group :: "int \<Rightarrow> int \<Rightarrow> int \<Rightarrow> int list" where
  "glrc_fill_data_blocks_per_group k r z =
     map (\<lambda>i. glrc_data_blocks_in_group (int i) k r z) [0..<nat z]"

text \<open>The argument of \<^verbatim>\<open>gf_inv\<close> is an \<^verbatim>\<open>int\<close> converted to \<^verbatim>\<open>unsigned char\<close>.\<close>

definition glrc_local_block_coefficient :: "int \<Rightarrow> int \<Rightarrow> int \<Rightarrow> byte" where
  "glrc_local_block_coefficient block_id k r =
     (if block_id \<ge> 0 \<and> block_id < k then gf_inv (word_of_int (block_id XOR (k + r))) else 1)"

section \<open>Placement groups\<close>

definition glrc_build_placement_groups :: "nat \<Rightarrow> nat \<Rightarrow> nat \<Rightarrow> nat list list" where
  "glrc_build_placement_groups k r z =
     snd (fold (\<lambda>g (payload_block_id, groups).
        let payload_count = nat (glrc_payload_blocks_in_group (int g) (int k) (int r) (int z))
        in (payload_block_id + payload_count,
            groups[g := groups ! g @ [payload_block_id..<payload_block_id + payload_count] @ [k + r + g]]))
      [0..<z] (0, replicate z []))"

section \<open>The groups in closed form\<close>

definition small_groups :: "nat \<Rightarrow> nat \<Rightarrow> nat \<Rightarrow> nat" where
  "small_groups k r z = z - (k + r) mod z"

definition group_start :: "nat \<Rightarrow> nat \<Rightarrow> nat \<Rightarrow> nat \<Rightarrow> nat" where
  "group_start k r z g = g * ((k + r) div z) + (g - small_groups k r z)"

lemma sdiv_nonneg: "0 \<le> a \<Longrightarrow> 0 \<le> b \<Longrightarrow> (a :: int) sdiv b = a div b"
  by (auto simp: signed_divide_int_def sgn_if)

lemma smod_nonneg: "0 \<le> a \<Longrightarrow> 0 \<le> b \<Longrightarrow> (a :: int) smod b = a mod b"
  by (auto simp: signed_modulo_int_def sgn_if)

lemma sdiv_of_nat: "int a sdiv int b = int (a div b)"
  by (simp add: sdiv_nonneg zdiv_int)

lemma small_groups_bounds: "0 < z \<Longrightarrow> 0 < small_groups k r z \<and> small_groups k r z \<le> z"
  by (simp add: small_groups_def)

lemma payload_blocks_nat:
  assumes "g < z"
  shows "glrc_payload_blocks_in_group (int g) (int k) (int r) (int z)
       = int ((k + r) div z + (if small_groups k r z \<le> g then 1 else 0))"
proof -
  have "(k + r) mod z < z" using assms by simp
  moreover have "(int k + int r) sdiv int z = int ((k + r) div z)"
    "(int k + int r) smod int z = int ((k + r) mod z)"
    by (simp_all add: sdiv_nonneg smod_nonneg zdiv_int zmod_int)
  ultimately show ?thesis using assms
    by (auto simp: glrc_payload_blocks_in_group_def Let_def small_groups_def)
qed

lemma group_start_0 [simp]: "group_start k r z 0 = 0"
  by (simp add: group_start_def)

lemma group_start_Suc:
  "g < z \<Longrightarrow> group_start k r z (Suc g)
     = group_start k r z g + nat (glrc_payload_blocks_in_group (int g) (int k) (int r) (int z))"
  by (auto simp: payload_blocks_nat group_start_def)

lemma group_start_z: "0 < z \<Longrightarrow> group_start k r z z = k + r"
proof -
  assume "0 < z"
  then have "(k + r) mod z < z" by simp
  then have "group_start k r z z = z * ((k + r) div z) + (k + r) mod z"
    by (simp add: group_start_def small_groups_def)
  then show ?thesis by simp
qed

lemma group_start_mono: "g \<le> h \<Longrightarrow> group_start k r z g \<le> group_start k r z h"
  by (simp add: group_start_def add_mono mult_right_mono diff_le_mono)

lemma payload_start_loop_eq:
  "g \<le> z \<Longrightarrow> payload_start_loop (int g) (int k) (int r) (int z) = int (group_start k r z g)"
proof (induction g)
  case (Suc g)
  have "payload_start_loop (int (Suc g)) (int k) (int r) (int z)
      = payload_start_loop (int g) (int k) (int r) (int z)
        + glrc_payload_blocks_in_group (int g) (int k) (int r) (int z)"
    using nat_int [of "Suc g"] nat_int [of g] by (simp only: payload_start_loop_def) simp
  then show ?case using Suc by (simp add: group_start_Suc payload_blocks_nat)
qed (simp add: payload_start_loop_def)

lemma nat_group_split:
  "0 < z \<Longrightarrow> k + r = small_groups k r z * ((k + r) div z) + (k + r) mod z * ((k + r) div z + 1)"
proof -
  assume "0 < z"
  have z: "small_groups k r z + (k + r) mod z = z"
    using mod_less_divisor [OF \<open>0 < z\<close>, of "k + r"] by (simp add: small_groups_def)
  have "small_groups k r z * ((k + r) div z) + (k + r) mod z * ((k + r) div z + 1)
      = (small_groups k r z + (k + r) mod z) * ((k + r) div z) + (k + r) mod z"
    by (simp add: algebra_simps)
  also have "\<dots> = k + r" by (simp only: z) simp
  finally show ?thesis by simp
qed

text \<open>The arithmetic group number is the group whose interval holds the block.\<close>

lemma payload_group_id_interval:
  assumes "p < k + r" "0 < z"
  obtains g where "glrc_payload_group_id (int p) (int k) (int r) (int z) = int g" "g < z"
    "group_start k r z g \<le> p" "p < group_start k r z (Suc g)"
proof (cases "z = 1")
  case True
  then show ?thesis using assms that [of 0] group_start_z [of z k r]
    by (simp add: glrc_payload_group_id_def Let_def)
next
  case False
  let ?b = "(k + r) div z" and ?s = "small_groups k r z"
  have sb: "0 < ?s" "?s \<le> z" using small_groups_bounds assms(2) by auto
  have s_int: "int z - (int k + int r) smod int z = int ?s"
    using mod_less_divisor [OF assms(2), of "k + r"]
    by (simp add: smod_nonneg small_groups_def zmod_int)
  have eq: "glrc_payload_group_id (int p) (int k) (int r) (int z)
      = (if 0 < ?b \<and> p < ?s * ?b then int (p div ?b) else int (?s + (p - ?s * ?b) div (?b + 1)))"
  proof -
    have "(int k + int r) sdiv int z = int ?b" by (simp add: sdiv_nonneg zdiv_int)
    moreover have "int ?b > 0 \<and> int p < int ?s * int ?b \<longleftrightarrow> 0 < ?b \<and> p < ?s * ?b"
      by (simp flip: of_nat_mult)
    moreover have "(int p - int ?s * int ?b) sdiv (int ?b + 1) = int ((p - ?s * ?b) div (?b + 1))"
      if "\<not> p < ?s * ?b"
    proof -
      have "int p - int ?s * int ?b = int (p - ?s * ?b)" "int ?b + 1 = int (?b + 1)"
        using that by (simp_all only: of_nat_diff of_nat_mult not_less of_nat_add of_nat_1)
      then show ?thesis by (simp only: sdiv_of_nat)
    qed
    moreover have "int p sdiv int ?b = int (p div ?b)" by (rule sdiv_of_nat)
    ultimately show ?thesis
      using assms False unfolding glrc_payload_group_id_def Let_def s_int by auto
  qed
  show ?thesis
  proof (cases "0 < ?b \<and> p < ?s * ?b")
    case True
    let ?g = "p div ?b"
    have g: "?g < ?s" using True by (simp add: div_less_iff_less_mult)
    have "?g * ?b \<le> p" by simp
    moreover have "p < Suc ?g * ?b" using True dividend_less_div_times [of ?b p] by simp
    ultimately show ?thesis using g sb eq True that [of ?g] by (simp add: group_start_def)
  next
    case False
    have ge: "?s * ?b \<le> p" using False by (cases "?b = 0") auto
    let ?q = "(p - ?s * ?b) div (?b + 1)" let ?g = "?s + ?q"
    have "p - ?s * ?b < (k + r) mod z * (?b + 1)"
      using assms(1) nat_group_split [OF assms(2), of k r] ge by linarith
    then have "?q < (k + r) mod z" by (simp add: div_less_iff_less_mult)
    then have gz: "?g < z" using assms(2) by (simp add: small_groups_def)
    have "?q * (?b + 1) \<le> p - ?s * ?b" by (rule div_times_less_eq_dividend)
    moreover have "p - ?s * ?b < ?q * (?b + 1) + (?b + 1)"
      using dividend_less_div_times [of "?b + 1" "p - ?s * ?b"] by simp
    ultimately have "group_start k r z ?g \<le> p \<and> p < group_start k r z (Suc ?g)"
      using ge by (auto simp: group_start_def algebra_simps)
    then show ?thesis using gz eq False that [of ?g] by simp
  qed
qed

lemma group_interval_unique:
  assumes "group_start k r z g \<le> p" "p < group_start k r z (Suc g)"
    and "group_start k r z h \<le> p" "p < group_start k r z (Suc h)"
  shows "g = h"
proof (rule ccontr)
  assume "g \<noteq> h"
  then consider "Suc g \<le> h" | "Suc h \<le> g" by linarith
  then show False
    using assms group_start_mono [of "Suc g" h k r z] group_start_mono [of "Suc h" g k r z]
    by cases auto
qed

definition group_of :: "nat \<Rightarrow> nat \<Rightarrow> nat \<Rightarrow> nat \<Rightarrow> nat" where
  "group_of k r z p = nat (glrc_payload_group_id (int p) (int k) (int r) (int z))"

lemma group_of_less: "p < k + r \<Longrightarrow> 0 < z \<Longrightarrow> group_of k r z p < z"
  by (erule (1) payload_group_id_interval) (simp add: group_of_def)

lemma group_of_iff:
  assumes "p < k + r" "0 < z"
  shows "group_of k r z p = g \<longleftrightarrow> group_start k r z g \<le> p \<and> p < group_start k r z (Suc g)"
  using assms
  by (elim payload_group_id_interval) (auto simp: group_of_def dest: group_interval_unique)

subsection \<open>The placement groups\<close>

lemma placement_fold:
  assumes "m \<le> z"
  shows "fold (\<lambda>g (payload_block_id, groups).
        let payload_count = nat (glrc_payload_blocks_in_group (int g) (int k) (int r) (int z))
        in (payload_block_id + payload_count,
            groups[g := groups ! g @ [payload_block_id..<payload_block_id + payload_count] @ [k + r + g]]))
      [0..<m] (0, replicate z [])
    = (group_start k r z m,
       map (\<lambda>g. if g < m then [group_start k r z g..<group_start k r z (Suc g)] @ [k + r + g] else []) [0..<z])"
  using assms
proof (induction m)
  case 0
  show ?case by (simp add: map_replicate_const)
next
  case (Suc m)
  then show ?case
    by (simp add: Let_def group_start_Suc) (auto intro!: nth_equalityI simp: nth_list_update less_Suc_eq group_start_Suc)
qed

lemma placement_groups_eq:
  "glrc_build_placement_groups k r z =
     map (\<lambda>g. [group_start k r z g..<group_start k r z (Suc g)] @ [k + r + g]) [0..<z]"
  using placement_fold [OF order.refl, of k r z] by (simp add: glrc_build_placement_groups_def cong: if_cong)

lemma length_placement_groups [simp]: "length (glrc_build_placement_groups k r z) = z"
  by (simp add: placement_groups_eq)

lemma in_placement_group:
  assumes "g < z"
  shows "b \<in> set (glrc_build_placement_groups k r z ! g)
     \<longleftrightarrow> (b < k + r \<and> group_of k r z b = g) \<or> b = k + r + g"
proof -
  have "group_start k r z (Suc g) \<le> k + r"
    using assms group_start_mono [of "Suc g" z k r z] by (simp add: group_start_z)
  then show ?thesis using assms group_of_iff [of b k r z g] by (auto simp: placement_groups_eq)
qed

lemma distinct_placement_group: "g < z \<Longrightarrow> distinct (glrc_build_placement_groups k r z ! g)"
  using group_start_mono [of "Suc g" z k r z] by (auto simp: placement_groups_eq group_start_z)

text \<open>Every block of the stripe is in exactly one group.\<close>

lemma placement_groups_partition:
  assumes "0 < z" "b < k + r + z"
  shows "\<exists>!g. g < z \<and> b \<in> set (glrc_build_placement_groups k r z ! g)"
proof (cases "b < k + r")
  case True
  then show ?thesis using assms group_of_less [of b k r z]
    by (intro ex1I [of _ "group_of k r z b"]) (auto simp: in_placement_group)
next
  case False
  then show ?thesis using assms
    by (intro ex1I [of _ "b - (k + r)"]) (auto simp: in_placement_group)
qed

lemma data_and_global_blocks:
  assumes "g < z"
  shows "glrc_data_blocks_in_group (int g) (int k) (int r) (int z)
       + glrc_global_blocks_in_group (int g) (int k) (int r) (int z)
       = glrc_payload_blocks_in_group (int g) (int k) (int r) (int z)"
  using assms
  by (simp add: glrc_data_blocks_in_group_def glrc_global_blocks_in_group_def Let_def
      payload_start_loop_eq payload_blocks_nat)

lemma payload_blocks_total:
  assumes "0 < z"
  shows "(\<Sum>g<z. glrc_payload_blocks_in_group (int g) (int k) (int r) (int z)) = int (k + r)"
proof -
  have "(\<Sum>g<m. glrc_payload_blocks_in_group (int g) (int k) (int r) (int z)) = int (group_start k r z m)"
    if "m \<le> z" for m
    using that by (induction m) (simp_all add: group_start_Suc payload_blocks_nat)
  then show ?thesis using assms by (simp add: group_start_z)
qed

end
