(* ===== verification/Codes.thy ===== *)
theory Codes
  imports Kernel GaussJordan Layout
begin

unbundle bit_operations_syntax

text \<open>
  The generator matrices of \<^verbatim>\<open>unilrc_encoder.cpp\<close> (RS, UniLRC, Azure LRC, Optimal LRC, gLRC and
  Uniform LRC), the encoders and partial encoders built on them, and the single-failure
  decoders.  A generator matrix is a flat row-major buffer with \<open>k\<close> columns: \<open>k\<close> identity
  rows, \<open>r\<close> global parity rows, \<open>z\<close> local parity rows.

  Buffers from \<^verbatim>\<open>new unsigned char[n]\<close> are uninitialised in the source; every cell the code
  reads is written before, and the model starts them at zero.
\<close>

section \<open>Generator matrices\<close>

definition memset :: "buffer \<Rightarrow> byte \<Rightarrow> nat \<Rightarrow> buffer" where
  "memset buf c len = replicate len c @ drop len buf"

definition gf_gen_local_vector :: "buffer \<Rightarrow> nat \<Rightarrow> nat \<Rightarrow> buffer" where
  "gf_gen_local_vector a k p = fold (\<lambda>i a. a[i := gf_inv (word_of_nat (i XOR (k + p)))]) [0..<k] a"

definition identity_rows :: "nat \<Rightarrow> buffer \<Rightarrow> buffer" where
  "identity_rows k a = fold (\<lambda>i a. a[k * i + i := 1]) [0..<k] a"

definition gf_gen_rs_matrix1 :: "buffer \<Rightarrow> nat \<Rightarrow> nat \<Rightarrow> buffer" where
  "gf_gen_rs_matrix1 a m k =
     fst (fold (\<lambda>i (a, gen).
        (fst (fold (\<lambda>j (a, p). (a[k * i + j := p], gf_mul p gen)) [0..<k] (a, 1)), gf_mul gen 2))
      [k..<m] (identity_rows k (memset a 0 (k * m)), 2))"

text \<open>The running pointer \<^verbatim>\<open>p\<close> is the index of the next cell.\<close>

definition gf_gen_cauchy_matrix1 :: "buffer \<Rightarrow> nat \<Rightarrow> nat \<Rightarrow> buffer" where
  "gf_gen_cauchy_matrix1 a m k =
     fst (fold (\<lambda>i st. fold (\<lambda>j (a, p). (a[p := gf_inv (word_of_nat (i XOR j))], Suc p)) [0..<k] st)
      [k..<m] (identity_rows k (memset a 0 (k * m)), k * k))"

definition gen_unilrc_matrix :: "buffer \<Rightarrow> nat \<Rightarrow> nat \<Rightarrow> nat \<Rightarrow> buffer" where
  "gen_unilrc_matrix encode_matrix k r z =
     (let m = k + r;
          e0 = gf_gen_rs_matrix1 (memset encode_matrix 0 ((m + z) * k)) m k;
          e1 = fold (\<lambda>i e. e[(m + i div (k div z)) * k + i := 1]) [0..<k] e0
      in fold (\<lambda>i e. fold (\<lambda>j e. fold (\<lambda>l e.
             e[(m + i) * k + j := e ! ((m + i) * k + j) XOR e ! ((k + i * r div z + l) * k + j)])
           [0..<r div z] e) [0..<k] e) [0..<z] e1)"

definition gen_azure_lrc_matrix :: "buffer \<Rightarrow> nat \<Rightarrow> nat \<Rightarrow> nat \<Rightarrow> buffer" where
  "gen_azure_lrc_matrix encode_matrix k r z =
     (let m = k + r;
          e0 = gf_gen_rs_matrix1 (memset encode_matrix 0 ((m + z) * k)) m k
      in fold (\<lambda>i e. e[(m + i div (k div z)) * k + i := 1]) [0..<k] e0)"

definition gen_optimal_lrc_matrix :: "buffer \<Rightarrow> nat \<Rightarrow> nat \<Rightarrow> nat \<Rightarrow> buffer" where
  "gen_optimal_lrc_matrix encode_matrix k r z =
     (let m = k + r;
          e0 = gf_gen_cauchy_matrix1 (memset encode_matrix 0 ((m + z) * k)) m k;
          local_vector = gf_gen_local_vector (replicate k 0) k r;
          e1 = fold (\<lambda>i e. e[(m + i div (k div z)) * k + i := local_vector ! i]) [0..<k] e0
      in fold (\<lambda>i e. fold (\<lambda>j e. fold (\<lambda>l e.
             e[(m + i) * k + j := e ! ((m + i) * k + j) XOR e ! ((k + l) * k + j)])
           [0..<r] e) [0..<k] e) [0..<z] e1)"

definition gen_glrc_matrix :: "buffer \<Rightarrow> nat \<Rightarrow> nat \<Rightarrow> nat \<Rightarrow> buffer" where
  "gen_glrc_matrix encode_matrix k r z =
     (let m = k + r;
          e0 = gf_gen_cauchy_matrix1 (memset encode_matrix 0 ((m + z) * k)) m k;
          local_vector = gf_gen_local_vector (replicate k 0) k r;
          e1 = fold (\<lambda>j e. let row = nat (glrc_data_group_id (int j) (int k) (int r) (int z))
                 in e[(m + row) * k + j := local_vector ! j]) [0..<k] e0
      in fold (\<lambda>l e. let group_id = nat (glrc_payload_group_id (int (k + l)) (int k) (int r) (int z))
             in fold (\<lambda>j e. e[(m + group_id) * k + j :=
                  e ! ((m + group_id) * k + j) XOR e ! ((k + l) * k + j)]) [0..<k] e) [0..<r] e1)"

definition gen_uniform_lrc_matrix :: "buffer \<Rightarrow> nat \<Rightarrow> nat \<Rightarrow> nat \<Rightarrow> buffer" where
  "gen_uniform_lrc_matrix encode_matrix k r z = gen_glrc_matrix encode_matrix k r z"

section \<open>Encoders\<close>

definition clear_blocks :: "nat \<Rightarrow> nat \<Rightarrow> buffer list \<Rightarrow> buffer list" where
  "clear_blocks n block_size ptrs = fold (\<lambda>i p. p[i := memset (p ! i) 0 block_size]) [0..<n] ptrs"

text \<open>Parity from the rows of a generator matrix below the first \<open>k\<close> rows.\<close>

definition encode_with :: "buffer \<Rightarrow> nat \<Rightarrow> nat \<Rightarrow> buffer list \<Rightarrow> buffer list \<Rightarrow> nat \<Rightarrow> buffer list" where
  "encode_with encode_matrix k rows data_ptrs parity_ptrs block_size =
     (let g_tbls = ec_init_tables k rows (drop (k * k) encode_matrix)
      in ec_encode_data_avx2 block_size k rows g_tbls data_ptrs (clear_blocks rows block_size parity_ptrs))"

text \<open>The same from the first \<open>data_block_num\<close> columns, copied to a compact matrix.\<close>

definition partial_encode_with ::
  "buffer \<Rightarrow> nat \<Rightarrow> nat \<Rightarrow> nat \<Rightarrow> buffer list \<Rightarrow> buffer list \<Rightarrow> nat \<Rightarrow> buffer list" where
  "partial_encode_with encode_matrix k rows data_block_num data_ptrs parity_ptrs block_size =
     (let sub_matrix = concat (map (\<lambda>i. take data_block_num (drop ((k + i) * k) encode_matrix)) [0..<rows]);
          g_tbls = ec_init_tables data_block_num rows sub_matrix
      in ec_encode_data_avx2 block_size data_block_num rows g_tbls data_ptrs
           (clear_blocks rows block_size parity_ptrs))"

definition encode_rs :: "nat \<Rightarrow> nat \<Rightarrow> nat \<Rightarrow> buffer list \<Rightarrow> buffer list \<Rightarrow> nat \<Rightarrow> buffer list" where
  "encode_rs k r z = encode_with (gf_gen_rs_matrix1 (replicate ((k + r) * k) 0) (k + r) k) k r"

definition partial_encode_rs ::
  "nat \<Rightarrow> nat \<Rightarrow> nat \<Rightarrow> nat \<Rightarrow> buffer list \<Rightarrow> buffer list \<Rightarrow> nat \<Rightarrow> buffer list" where
  "partial_encode_rs k r z = partial_encode_with (gf_gen_rs_matrix1 (replicate ((k + r) * k) 0) (k + r) k) k r"

definition encode_unilrc :: "nat \<Rightarrow> nat \<Rightarrow> nat \<Rightarrow> buffer list \<Rightarrow> buffer list \<Rightarrow> nat \<Rightarrow> buffer list" where
  "encode_unilrc k r z = encode_with (gen_unilrc_matrix (replicate ((k + r + z) * k) 0) k r z) k (r + z)"

definition partial_encode_unilrc ::
  "nat \<Rightarrow> nat \<Rightarrow> nat \<Rightarrow> nat \<Rightarrow> buffer list \<Rightarrow> buffer list \<Rightarrow> nat \<Rightarrow> buffer list" where
  "partial_encode_unilrc k r z =
     partial_encode_with (gen_unilrc_matrix (replicate ((k + r + z) * k) 0) k r z) k (r + z)"

definition encode_azure_lrc :: "nat \<Rightarrow> nat \<Rightarrow> nat \<Rightarrow> buffer list \<Rightarrow> buffer list \<Rightarrow> nat \<Rightarrow> buffer list" where
  "encode_azure_lrc k r z = encode_with (gen_azure_lrc_matrix (replicate ((k + r + z) * k) 0) k r z) k (r + z)"

definition partial_encode_azure_lrc ::
  "nat \<Rightarrow> nat \<Rightarrow> nat \<Rightarrow> nat \<Rightarrow> buffer list \<Rightarrow> buffer list \<Rightarrow> nat \<Rightarrow> buffer list" where
  "partial_encode_azure_lrc k r z =
     partial_encode_with (gen_azure_lrc_matrix (replicate ((k + r + z) * k) 0) k r z) k (r + z)"

definition encode_optimal_lrc :: "nat \<Rightarrow> nat \<Rightarrow> nat \<Rightarrow> buffer list \<Rightarrow> buffer list \<Rightarrow> nat \<Rightarrow> buffer list" where
  "encode_optimal_lrc k r z =
     encode_with (gen_optimal_lrc_matrix (replicate ((k + r + z) * k) 0) k r z) k (r + z)"

definition partial_encode_optimal_lrc ::
  "nat \<Rightarrow> nat \<Rightarrow> nat \<Rightarrow> nat \<Rightarrow> buffer list \<Rightarrow> buffer list \<Rightarrow> nat \<Rightarrow> buffer list" where
  "partial_encode_optimal_lrc k r z =
     partial_encode_with (gen_optimal_lrc_matrix (replicate ((k + r + z) * k) 0) k r z) k (r + z)"

definition encode_glrc :: "nat \<Rightarrow> nat \<Rightarrow> nat \<Rightarrow> buffer list \<Rightarrow> buffer list \<Rightarrow> nat \<Rightarrow> buffer list" where
  "encode_glrc k r z = encode_with (gen_glrc_matrix (replicate ((k + r + z) * k) 0) k r z) k (r + z)"

definition partial_encode_glrc ::
  "nat \<Rightarrow> nat \<Rightarrow> nat \<Rightarrow> nat \<Rightarrow> buffer list \<Rightarrow> buffer list \<Rightarrow> nat \<Rightarrow> buffer list" where
  "partial_encode_glrc k r z =
     partial_encode_with (gen_glrc_matrix (replicate ((k + r + z) * k) 0) k r z) k (r + z)"

definition encode_uniform_lrc :: "nat \<Rightarrow> nat \<Rightarrow> nat \<Rightarrow> buffer list \<Rightarrow> buffer list \<Rightarrow> nat \<Rightarrow> buffer list" where
  "encode_uniform_lrc k r z =
     encode_with (gen_uniform_lrc_matrix (replicate ((k + r + z) * k) 0) k r z) k (r + z)"

definition partial_encode_uniform_lrc ::
  "nat \<Rightarrow> nat \<Rightarrow> nat \<Rightarrow> nat \<Rightarrow> buffer list \<Rightarrow> buffer list \<Rightarrow> nat \<Rightarrow> buffer list" where
  "partial_encode_uniform_lrc k r z =
     partial_encode_with (gen_uniform_lrc_matrix (replicate ((k + r + z) * k) 0) k r z) k (r + z)"

section \<open>Single-failure decoders\<close>

definition decode_unilrc :: "nat \<Rightarrow> buffer list \<Rightarrow> buffer \<Rightarrow> nat \<Rightarrow> buffer" where
  "decode_unilrc block_num block_ptrs res_ptr block_size =
     (let vect_ptrs = map (\<lambda>i. Some (block_ptrs ! i)) [0..<block_num] @ [Some (memset res_ptr 0 block_size)]
      in the (xor_avx (int block_num + 1) (int block_size) vect_ptrs ! block_num))"

text \<open>One recovered block: \<open>decode_vector\<close> times the given blocks.\<close>

definition decode_with_vector :: "buffer \<Rightarrow> nat \<Rightarrow> buffer list \<Rightarrow> buffer \<Rightarrow> nat \<Rightarrow> buffer" where
  "decode_with_vector decode_vector block_num block_ptrs res_ptr block_size =
     ec_encode_data_avx2 block_size block_num 1 (ec_init_tables block_num 1 decode_vector)
       block_ptrs [memset res_ptr 0 block_size] ! 0"

definition decode_optimal_lrc ::
  "nat \<Rightarrow> nat \<Rightarrow> nat \<Rightarrow> nat \<Rightarrow> nat list \<Rightarrow> buffer list \<Rightarrow> buffer \<Rightarrow> nat \<Rightarrow> nat \<Rightarrow> buffer" where
  "decode_optimal_lrc k r z block_num block_indexes block_ptrs res_ptr block_size failed_block_id =
     (let local_vector = gf_gen_local_vector (replicate k 0) k r;
          decode_vector =
            (if block_indexes ! 0 \<ge> k then replicate block_num 1
             else map (\<lambda>i. local_vector ! (block_indexes ! i)) [0..<block_num]);
          decode_vector =
            (if failed_block_id < k
             then map (\<lambda>i. gf_mul (decode_vector ! i) (gf_inv (local_vector ! failed_block_id))) [0..<block_num]
             else decode_vector)
      in decode_with_vector decode_vector block_num block_ptrs res_ptr block_size)"

definition decode_uniform_lrc ::
  "nat \<Rightarrow> nat \<Rightarrow> nat \<Rightarrow> nat \<Rightarrow> nat list \<Rightarrow> buffer list \<Rightarrow> buffer \<Rightarrow> nat \<Rightarrow> nat \<Rightarrow> buffer" where
  "decode_uniform_lrc k r z block_num block_indexes block_ptrs res_ptr block_size failed_block_id =
     (let local_vector = gf_gen_local_vector (replicate k 0) k r;
          decode_vector = map (\<lambda>i. if block_indexes ! i < k then local_vector ! (block_indexes ! i) else 1)
            [0..<block_num];
          decode_vector =
            (if failed_block_id < k
             then map (\<lambda>i. gf_mul (decode_vector ! i) (gf_inv (local_vector ! failed_block_id))) [0..<block_num]
             else decode_vector)
      in decode_with_vector decode_vector block_num block_ptrs res_ptr block_size)"

definition decode_glrc ::
  "nat \<Rightarrow> nat \<Rightarrow> nat \<Rightarrow> nat \<Rightarrow> nat list \<Rightarrow> buffer list \<Rightarrow> buffer \<Rightarrow> nat \<Rightarrow> nat \<Rightarrow> buffer" where
  "decode_glrc k r z block_num block_indexes block_ptrs res_ptr block_size failed_block_id =
     (let decode_vector = map (\<lambda>i. glrc_local_block_coefficient (int (block_indexes ! i)) (int k) (int r))
            [0..<block_num];
          factor = gf_inv (glrc_local_block_coefficient (int failed_block_id) (int k) (int r));
          decode_vector = map (\<lambda>i. gf_mul (decode_vector ! i) factor) [0..<block_num]
      in decode_with_vector decode_vector block_num block_ptrs res_ptr block_size)"

text \<open>
  Azure LRC: XOR within the local group, or, for a failed global parity, a combination of the
  first \<open>k\<close> surviving rows from row \<open>k / z\<close> on.  A block that is in no used row reads the
  default 0 of the \<^verbatim>\<open>unordered_map\<close>.
\<close>

definition decode_azure_lrc ::
  "nat \<Rightarrow> nat \<Rightarrow> nat \<Rightarrow> nat \<Rightarrow> nat list \<Rightarrow> buffer list \<Rightarrow> buffer \<Rightarrow> nat \<Rightarrow> nat \<Rightarrow> buffer" where
  "decode_azure_lrc k r z block_num block_indexes block_ptrs res_ptr block_size failed_block_id =
     (if failed_block_id < k \<or> failed_block_id \<ge> k + r
      then decode_unilrc block_num block_ptrs res_ptr block_size
      else let m = k + r;
               encode_matrix = gf_gen_rs_matrix1 (replicate (m * k) 0) m k;
               used_row = take k (filter (\<lambda>i. i \<noteq> failed_block_id) [k div z..<k + r]);
               idx_to_row = map_of (zip used_row [0..<length used_row]);
               temp_matrix = concat (map (\<lambda>i. map (\<lambda>j. encode_matrix ! (used_row ! i * k + j)) [0..<k]) [0..<k]);
               invert_matrix = snd (snd (gf_invert_matrix temp_matrix (replicate (k * k) 0) k));
               vect_all = gf_mul_vect_matrix (drop (failed_block_id * k) encode_matrix) invert_matrix
                 (replicate k 0) k;
               decode_vector = map (\<lambda>i. vect_all ! (case idx_to_row (block_indexes ! i) of Some j \<Rightarrow> j | None \<Rightarrow> 0))
                 [0..<block_num]
           in decode_with_vector decode_vector block_num block_ptrs res_ptr block_size)"

section \<open>The gLRC generator matrix\<close>

definition cauchy :: "nat \<Rightarrow> nat \<Rightarrow> gf256" where
  "cauchy i j = GF (gf_inv (word_of_nat (i XOR j)))"

text \<open>A buffer that holds \<open>R\<close> rows of \<open>n\<close> cells.\<close>

definition cell :: "nat \<Rightarrow> buffer \<Rightarrow> gmat" where
  "cell n m i j = GF (m ! (i * n + j))"

lemma length_memset [len_simps]: "n \<le> length buf \<Longrightarrow> length (memset buf c n) = length buf"
  by (simp add: memset_def)

lemma length_identity_rows [len_simps]: "length (identity_rows k a) = length a"
  by (simp add: identity_rows_def len_simps)

lemma identity_rows_cell:
  assumes "length a = R * k" "k \<le> R" "i < R" "j < k" "a ! (i * k + j) = 0"
  shows "identity_rows k a ! (i * k + j) = (if i = j then 1 else 0)"
proof (cases "i = j")
  case True
  have "identity_rows k a ! (k * i + i) = 1"
    unfolding identity_rows_def using assms True flat_index_less [of i R i k]
    by (intro fold_update_nth [where g = "\<lambda>i. k * i + i" and h = "\<lambda>_ _. 1"])
      (auto simp: distinct_map inj_on_def mult.commute [of k] flat_index_inj)
  then show ?thesis using True by (simp add: mult.commute)
next
  case False
  then show ?thesis using assms unfolding identity_rows_def
    by (subst fold_update_other) (auto simp: mult.commute [of k] flat_index_inj)
qed

lemma cauchy_rows_eq:
  assumes "k \<le> m"
  shows "fold (\<lambda>i st. fold (\<lambda>j (a, p). (a[p := f i j], Suc p)) [0..<k] st) [k..<m] (a, k * k)
       = (fold (\<lambda>i a. fold (\<lambda>j a. a[i * k + j := f i j]) [0..<k] a) [k..<m] a, m * k)"
  using assms
proof (induction m rule: dec_induct)
  case (step m)
  then show ?case by (simp add: fold_counter)
qed simp

lemma length_cauchy_matrix [len_simps]:
  "k \<le> m \<Longrightarrow> k * m \<le> length a \<Longrightarrow> length (gf_gen_cauchy_matrix1 a m k) = length a"
  by (simp add: gf_gen_cauchy_matrix1_def cauchy_rows_eq len_simps)

lemma cauchy_matrix_nth:
  assumes "length a = R * k" "k \<le> m" "m \<le> R" "i < R" "j < k"
  shows "gf_gen_cauchy_matrix1 a m k ! (i * k + j)
       = (if i < k then (if i = j then 1 else 0)
          else if i < m then gf_inv (word_of_nat (i XOR j)) else a ! (i * k + j))"
proof -
  let ?a0 = "memset a 0 (k * m)"
  have km: "k * m \<le> R * k" using assms(3) by (simp add: mult.commute)
  have l0: "length ?a0 = R * k" using assms(1) km by (simp add: len_simps)
  have z: "?a0 ! (i * k + j) = (if i < m then 0 else a ! (i * k + j))"
  proof (cases "i < m")
    case True
    then have "i * k + j < k * m" using assms(5) flat_index_less [of i m j k] by (simp add: mult.commute)
    then show ?thesis using True by (simp add: memset_def nth_append)
  next
    case False
    then have "k * m \<le> i * k + j" by (simp add: mult.commute trans_le_add1)
    then show ?thesis using False assms(1) km by (simp add: memset_def nth_append)
  qed
  have id: "identity_rows k ?a0 ! (i * k + j) = (if i < k then (if i = j then 1 else 0) else ?a0 ! (i * k + j))"
  proof (cases "i < k")
    case True
    then show ?thesis using identity_rows_cell [of ?a0 R k i j] l0 z assms by simp
  next
    case False
    then show ?thesis unfolding identity_rows_def using assms(5)
      by (subst fold_update_other) (auto simp: mult.commute [of k] flat_index_inj)
  qed
  show ?thesis
    unfolding gf_gen_cauchy_matrix1_def using assms l0 id z
    by (simp add: cauchy_rows_eq rows_write_nth [where R = R] len_simps)
qed

lemma local_vector_nth:
  "i < k \<Longrightarrow> gf_gen_local_vector (replicate k 0) k r ! i = gf_inv (word_of_nat (i XOR (k + r)))"
  unfolding gf_gen_local_vector_def
  by (intro fold_update_nth [where g = "\<lambda>i. i" and h = "\<lambda>i _. gf_inv (word_of_nat (i XOR (k + r)))"]) auto

lemma local_coefficient_data:
  "b < k \<Longrightarrow> glrc_local_block_coefficient (int b) (int k) (int r) = gf_inv (word_of_nat (b XOR (k + r)))"
  by (simp add: glrc_local_block_coefficient_def of_nat_xor_eq [symmetric] flip: of_nat_add)

text \<open>The row of local parity \<open>g\<close>: the group's data coefficients plus its global parities' rows.\<close>

definition glrc_local_row :: "nat \<Rightarrow> nat \<Rightarrow> nat \<Rightarrow> nat \<Rightarrow> nat \<Rightarrow> gf256" where
  "glrc_local_row k r z g j =
     (if group_of k r z j = g then GF (glrc_local_block_coefficient (int j) (int k) (int r)) else 0)
     + (\<Sum>l<r. if group_of k r z (k + l) = g then cauchy (k + l) j else 0)"

lemma glrc_matrix_data_pass:
  fixes e0 :: buffer
  assumes "length e0 = (k + r + z) * k" "0 < z" "a < k + r + z" "j < k"
    and lv: "\<And>j. j < k \<Longrightarrow> lv ! j = v j"
  shows "fold (\<lambda>j e. let row = nat (glrc_data_group_id (int j) (int k) (int r) (int z))
            in e[(k + r + row) * k + j := lv ! j]) [0..<k] e0 ! (a * k + j)
       = (if a = k + r + group_of k r z j then v j else e0 ! (a * k + j))"
proof -
  have "fold (\<lambda>j e. e[(k + r + group_of k r z j) * k + j := lv ! j]) [0..<k] e0 ! (a * k + j)
      = (if a = k + r + group_of k r z j then v j else e0 ! (a * k + j))"
  proof (cases "a = k + r + group_of k r z j")
    case True
    have "fold (\<lambda>j e. e[(k + r + group_of k r z j) * k + j := lv ! j]) [0..<k] e0
        ! ((k + r + group_of k r z j) * k + j) = lv ! j"
      using assms(1,3,4) True flat_index_less [of a "k + r + z" j k]
      by (intro fold_update_nth [where g = "\<lambda>j. (k + r + group_of k r z j) * k + j" and h = "\<lambda>j _. lv ! j"])
        (auto simp: distinct_map inj_on_def flat_index_inj)
    then show ?thesis using True assms(4) lv by simp
  next
    case False
    then show ?thesis using assms(4) by (subst fold_update_other) (auto simp: flat_index_inj)
  qed
  then show ?thesis by (simp add: Let_def glrc_data_group_id_def group_of_def)
qed

lemma glrc_matrix_global_pass:
  fixes e1 :: buffer
  assumes "length e1 = (k + r + z) * k" "0 < z" "q \<le> r" "a < k + r + z" "j < k"
  defines "e \<equiv> fold (\<lambda>l e. let group_id = nat (glrc_payload_group_id (int (k + l)) (int k) (int r) (int z))
             in fold (\<lambda>j e. e[(k + r + group_id) * k + j :=
                  e ! ((k + r + group_id) * k + j) XOR e ! ((k + l) * k + j)]) [0..<k] e) [0..<q] e1"
  shows "length e = (k + r + z) * k \<and> cell k e a j = cell k e1 a j +
     (if a < k + r then 0 else \<Sum>l<q. if group_of k r z (k + l) = a - (k + r) then cell k e1 (k + l) j else 0)"
  using assms(3-5) unfolding e_def
proof (induction q arbitrary: a)
  case 0
  then show ?case using assms(1) by simp
next
  case (Suc q)
  let ?F = "\<lambda>q. fold (\<lambda>l e. let group_id = nat (glrc_payload_group_id (int (k + l)) (int k) (int r) (int z))
             in fold (\<lambda>j e. e[(k + r + group_id) * k + j :=
                  e ! ((k + r + group_id) * k + j) XOR e ! ((k + l) * k + j)]) [0..<k] e) [0..<q] e1"
  let ?g = "group_of k r z (k + q)"
  have g: "?g < z" using Suc.prems assms(2) by (intro group_of_less) auto
  have IH: "length (?F q) = (k + r + z) * k"
    "\<And>a. a < k + r + z \<Longrightarrow> cell k (?F q) a j = cell k e1 a j +
     (if a < k + r then 0 else \<Sum>l<q. if group_of k r z (k + l) = a - (k + r) then cell k e1 (k + l) j else 0)"
    using Suc by auto
  have step: "?F (Suc q) = fold (\<lambda>j e. e[(k + r + ?g) * k + j :=
      e ! ((k + r + ?g) * k + j) XOR e ! ((k + q) * k + j)]) [0..<k] (?F q)"
    by (simp add: Let_def group_of_def)
  have len: "length (?F (Suc q)) = (k + r + z) * k"
    by (simp only: step len_simps IH(1))
  have ne: "k + q \<noteq> k + r + ?g" using Suc.prems by simp
  have "?F (Suc q) ! (a * k + j) = (if a = k + r + ?g
      then ?F q ! (a * k + j) XOR ?F q ! ((k + q) * k + j) else ?F q ! (a * k + j))"
    unfolding step using Suc.prems g ne IH(1)
    by (subst row_pass_nth [where R = "k + r + z"]) (auto simp: flat_index_inj)
  then have "cell k (?F (Suc q)) a j = cell k (?F q) a j
      + (if a = k + r + ?g then cell k (?F q) (k + q) j else 0)"
    by (simp add: cell_def gf_simps)
  also have "\<dots> = cell k e1 a j + (if a < k + r then 0 else
      \<Sum>l<Suc q. if group_of k r z (k + l) = a - (k + r) then cell k e1 (k + l) j else 0)"
    using IH(2) [of a] IH(2) [of "k + q"] Suc.prems by (auto simp: add.assoc)
  finally show ?case using len by blast
qed

theorem gen_glrc_matrix_cell:
  assumes "length e = (k + r + z) * k" "0 < z" "a < k + r + z" "j < k"
  shows "cell k (gen_glrc_matrix e k r z) a j
       = (if a < k then delta a j else if a < k + r then cauchy a j else glrc_local_row k r z (a - (k + r)) j)"
proof -
  let ?e0 = "gf_gen_cauchy_matrix1 (memset e 0 ((k + r + z) * k)) (k + r) k"
  let ?lv = "gf_gen_local_vector (replicate k 0) k r"
  define e1 where "e1 = fold (\<lambda>j e. let row = nat (glrc_data_group_id (int j) (int k) (int r) (int z))
      in e[(k + r + row) * k + j := ?lv ! j]) [0..<k] ?e0"
  have mm: "k * (k + r) \<le> (k + r + z) * k" by (simp add: algebra_simps)
  have l0: "length (memset e 0 ((k + r + z) * k)) = (k + r + z) * k" using assms(1) by (simp add: len_simps)
  then have len0: "length ?e0 = (k + r + z) * k" using mm by (simp add: len_simps)
  have e0: "cell k ?e0 a j = (if a < k then delta a j else if a < k + r then cauchy a j else 0)"
    if "a < k + r + z" for a
    using that assms(4) l0 flat_index_less [OF that assms(4)]
    by (simp add: cell_def cauchy_matrix_nth [where R = "k + r + z"] memset_def nth_append delta_def
        cauchy_def gf_simps)
  have len1: "length e1 = (k + r + z) * k" using len0 by (simp add: e1_def Let_def len_simps)
  have "e1 ! (a * k + j) = (if a = k + r + group_of k r z j
      then glrc_local_block_coefficient (int j) (int k) (int r) else ?e0 ! (a * k + j))" if "a < k + r + z" for a
    unfolding e1_def by (rule glrc_matrix_data_pass) (use len0 assms that in \<open>simp_all add: local_vector_nth local_coefficient_data\<close>)
  then have e1: "cell k e1 a j = (if a < k then delta a j else if a < k + r then cauchy a j
      else if a - (k + r) = group_of k r z j then GF (glrc_local_block_coefficient (int j) (int k) (int r)) else 0)"
    if "a < k + r + z" for a
    using e0 [OF that] that by (auto simp: cell_def)
  have "cell k (gen_glrc_matrix e k r z) a j = cell k e1 a j + (if a < k + r then 0
      else \<Sum>l<r. if group_of k r z (k + l) = a - (k + r) then cell k e1 (k + l) j else 0)"
    using glrc_matrix_global_pass [OF len1 assms(2) order.refl assms(3,4)]
    by (simp only: gen_glrc_matrix_def e1_def Let_def)
  also have "\<dots> = (if a < k then delta a j else if a < k + r then cauchy a j
      else glrc_local_row k r z (a - (k + r)) j)"
    using assms(3) by (auto simp: e1 glrc_local_row_def intro!: sum.cong)
  finally show ?thesis .
qed

section \<open>What the encoders compute\<close>

lemma clear_blocks_ok: "blocks_ok n len ps \<Longrightarrow> blocks_ok n len (clear_blocks n len ps)"
proof -
  assume ok: "blocks_ok n len ps"
  have "blocks_ok n len (fold (\<lambda>i p. p[i := memset (p ! i) 0 len]) js ps)" if "set js \<subseteq> {..<n}" for js
    using ok that
  proof (induction js arbitrary: ps)
    case (Cons j js)
    have "length (memset (ps ! j) 0 len) = len"
      using Cons.prems blocks_ok_nth [of n len ps j] by (simp add: memset_def)
    then have "blocks_ok n len (ps[j := memset (ps ! j) 0 len])"
      using Cons.prems by (auto simp: blocks_ok_def dest!: set_update_subset_insert [THEN subsetD])
    with Cons show ?case by simp
  qed simp
  then show ?thesis by (simp add: clear_blocks_def lessThan_atLeast0)
qed

lemma encode_with_blocks_ok:
  "blocks_ok rows bs ps \<Longrightarrow> blocks_ok rows bs (encode_with m k rows ds ps bs)"
  using encode_data_blocks_ok [of rows bs "clear_blocks rows bs ps" k "drop (k * k) m" ds]
  by (simp add: encode_with_def encode_data_def clear_blocks_ok)

lemma encode_with_nth:
  assumes "blocks_ok rows bs ps" "length m = R * k" "k + rows \<le> R" "l < rows" "i < bs"
  shows "GF (encode_with m k rows ds ps bs ! l ! i) = (\<Sum>j<k. cell k m (k + l) j * GF (ds ! j ! i))"
proof -
  have "drop (k * k) m ! (l * k + j) = m ! ((k + l) * k + j)" for j
    using assms(2-4) mult_right_mono [of k R k] by (simp add: add_mult_distrib add.assoc)
  then show ?thesis
    using assms encode_data_nth [of rows bs "clear_blocks rows bs ps" l i k "drop (k * k) m" ds]
    by (simp add: encode_with_def encode_data_def clear_blocks_ok cell_def)
qed

text \<open>
  Encoding a prefix of the data is encoding the data with the missing blocks zero.  This holds
  for every generator matrix, so for each code of the family.
\<close>

lemma partial_encode_with_nth:
  assumes "blocks_ok rows bs ps" "length m = R * k" "k + rows \<le> R" "d \<le> k" "l < rows" "i < bs"
  shows "GF (partial_encode_with m k rows d ds ps bs ! l ! i) = (\<Sum>j<d. cell k m (k + l) j * GF (ds ! j ! i))"
proof -
  let ?sub = "concat (map (\<lambda>i. take d (drop ((k + i) * k) m)) [0..<rows])"
  have len: "length (take d (drop ((k + i) * k) m)) = d" if "i < rows" for i
  proof -
    have "(k + i) * k + k \<le> R * k"
      using assms(3) that mult_right_mono [of "Suc (k + i)" R k] by simp
    then show ?thesis using assms(2,4) by simp
  qed
  have "?sub ! (l * d + j) = m ! ((k + l) * k + j)" if "j < d" for j
  proof -
    have "(k + l) * k \<le> R * k" using assms(3,5) by (intro mult_right_mono) auto
    then show ?thesis
      using that len assms(5) by (subst concat_chunk_nth [where w = d]) (auto simp: assms(2))
  qed
  then show ?thesis
    using assms encode_data_nth [of rows bs "clear_blocks rows bs ps" l i d ?sub ds]
    by (simp add: partial_encode_with_def encode_data_def clear_blocks_ok cell_def Let_def)
qed

lemma partial_encode_with_blocks_ok:
  "blocks_ok rows bs ps \<Longrightarrow> blocks_ok rows bs (partial_encode_with m k rows d ds ps bs)"
  by (simp add: partial_encode_with_def Let_def flip: encode_data_def)
    (intro encode_data_blocks_ok clear_blocks_ok)

lemma partial_encode_with_zero_padding:
  assumes "blocks_ok rows bs ps" "length m = R * k" "k + rows \<le> R" "length ds = d" "d \<le> k"
  shows "partial_encode_with m k rows d ds ps bs
       = encode_with m k rows (ds @ replicate (k - d) (replicate bs 0)) ps bs" (is "?l = ?r")
proof -
  have ok: "blocks_ok rows bs ?l" "blocks_ok rows bs ?r"
    using assms(1) by (simp_all add: partial_encode_with_blocks_ok encode_with_blocks_ok)
  have "GF (?l ! l ! i) = GF (?r ! l ! i)" if "l < rows" "i < bs" for l i
  proof -
    have "GF (?r ! l ! i) = (\<Sum>j<k. if j < d then cell k m (k + l) j * GF (ds ! j ! i) else 0)"
      unfolding encode_with_nth [OF assms(1-3) that]
      using assms(4,5) that(2) by (intro sum.cong) (auto simp: nth_append gf_simps)
    also have "\<dots> = (\<Sum>j<d. cell k m (k + l) j * GF (ds ! j ! i))"
      using assms(5) by (intro sum.mono_neutral_cong_right) auto
    finally show ?thesis using partial_encode_with_nth [OF assms(1-3,5) that] by simp
  qed
  then have "?l ! l = ?r ! l" if "l < rows" for l
    using ok that by (intro nth_equalityI) (auto simp: blocks_ok_nth)
  with ok show ?thesis by (intro nth_equalityI) (auto simp: blocks_ok_def)
qed

end
