(* ===== verification/Decode.thy ===== *)
theory Decode
  imports Codes
begin

unbundle bit_operations_syntax

text \<open>
  The multi-failure gLRC decoders of \<^verbatim>\<open>unilrc_encoder.cpp\<close>.  Recovery equation \<open>e < z\<close> is the
  local equation of group \<open>e\<close>; equation \<open>z + g\<close> is the equation of global parity \<open>g\<close>.  A decoder
  takes as many equations as there are failed blocks, inverts their failed-block
  coefficients once, and applies the inverse to the right-hand sides formed from the
  helper blocks.

  The locale \<open>parity_code\<close> is the contract between the code and its decoders: every
  equation vanishes on every codeword.  It is interpreted on the coefficient rows that
  \<^verbatim>\<open>build_block_coef_row\<close> builds and on the codewords that \<^verbatim>\<open>encode_glrc\<close> produces.

  A \<^verbatim>\<open>false\<close> return is \<^const>\<open>None\<close>.  \<^verbatim>\<open>new unsigned char[block_size]\<close> is uninitialised; where the
  source leaves part of such a buffer unwritten, its contents are the argument \<open>fresh\<close>.
\<close>

section \<open>Coefficient rows and the inverse\<close>

definition build_block_coef_row :: "nat \<Rightarrow> nat \<Rightarrow> nat \<Rightarrow> nat \<Rightarrow> nat \<Rightarrow> buffer \<Rightarrow> nat list list \<Rightarrow> buffer" where
  "build_block_coef_row k r z n eq_index encode_matrix groups =
     (if eq_index < z
      then fold (\<lambda>b c. c[b := glrc_local_block_coefficient (int b) (int k) (int r)]) (groups ! eq_index)
             (replicate n 0)
      else let g = eq_index - z
           in (fold (\<lambda>i c. c[i := encode_matrix ! ((k + g) * k + i)]) [0..<k] (replicate n 0))[k + g := 1])"

definition glrc_ilp_build_inverse ::
  "nat \<Rightarrow> nat \<Rightarrow> nat \<Rightarrow> nat \<Rightarrow> nat list \<Rightarrow> nat list \<Rightarrow> buffer \<Rightarrow> nat list list \<Rightarrow> buffer option" where
  "glrc_ilp_build_inverse k r z n failed_block_ids selected_equation_indices encode_matrix groups =
     (let f = length failed_block_ids;
          A = concat (map (\<lambda>ei.
                let coef_row = build_block_coef_row k r z n (selected_equation_indices ! ei) encode_matrix groups
                in map (\<lambda>t. coef_row ! (failed_block_ids ! t)) [0..<f]) [0..<f])
      in case gf_invert_matrix A (replicate (f * f) 0) f of
           (ret, _, A_inv) \<Rightarrow> if ret = 0 then Some A_inv else None)"

text \<open>The matrix every entry point generates before it decodes.\<close>

definition glrc_encode_matrix :: "nat \<Rightarrow> nat \<Rightarrow> nat \<Rightarrow> buffer" where
  "glrc_encode_matrix k r z = gen_glrc_matrix (replicate ((k + r + z) * k) 0) k r z"

definition glrc_ilp_prepare_inverse ::
  "nat \<Rightarrow> nat \<Rightarrow> nat \<Rightarrow> nat list \<Rightarrow> nat list \<Rightarrow> buffer option" where
  "glrc_ilp_prepare_inverse k r z failed_block_ids selected_equation_indices =
     (let f = length failed_block_ids in
      if f = 0 \<or> length selected_equation_indices \<noteq> f then None
      else glrc_ilp_build_inverse k r z (k + r + z) failed_block_ids selected_equation_indices
             (glrc_encode_matrix k r z) (glrc_build_placement_groups k r z))"

definition glrc_ilp_decode_matrix_invertible ::
  "nat \<Rightarrow> nat \<Rightarrow> nat \<Rightarrow> nat list \<Rightarrow> nat list \<Rightarrow> bool" where
  "glrc_ilp_decode_matrix_invertible k r z failed_block_ids selected_equation_indices =
     (let f = length failed_block_ids in
      if f = 0 \<or> length selected_equation_indices \<noteq> f then False
      else glrc_ilp_build_inverse k r z (k + r + z) failed_block_ids selected_equation_indices
             (glrc_encode_matrix k r z) (glrc_build_placement_groups k r z) \<noteq> None)"

section \<open>Helper terms\<close>

text \<open>Position of a block among the helpers; a later duplicate overwrites an earlier one.\<close>

definition helper_pos :: "nat list \<Rightarrow> nat \<rightharpoonup> nat" where
  "helper_pos helper_block_ids =
     fold (\<lambda>i m. m(helper_block_ids ! i \<mapsto> i)) [0..<length helper_block_ids] Map.empty"

text \<open>The terms of one equation: survivors with a nonzero coefficient; \<open>None\<close> if one is no helper.\<close>

fun eq_terms_loop :: "buffer \<Rightarrow> nat list \<Rightarrow> (nat \<rightharpoonup> nat) \<Rightarrow> nat list \<Rightarrow> (nat \<times> byte) list option" where
  "eq_terms_loop coef_row failed pos [] = Some []"
| "eq_terms_loop coef_row failed pos (b # bs) =
     (if coef_row ! b = 0 \<or> b \<in> set failed then eq_terms_loop coef_row failed pos bs
      else case pos b of
        None \<Rightarrow> None
      | Some h \<Rightarrow> map_option ((#) (h, coef_row ! b)) (eq_terms_loop coef_row failed pos bs))"

fun all_eq_terms :: "(nat \<Rightarrow> (nat \<times> byte) list option) \<Rightarrow> nat list \<Rightarrow> (nat \<times> byte) list list option" where
  "all_eq_terms terms [] = Some []"
| "all_eq_terms terms (ei # eis) =
     (case terms ei of
        None \<Rightarrow> None
      | Some ts \<Rightarrow> map_option ((#) ts) (all_eq_terms terms eis))"

definition eq_helper_terms ::
  "nat \<Rightarrow> nat \<Rightarrow> nat \<Rightarrow> nat list \<Rightarrow> nat list \<Rightarrow> nat list \<Rightarrow> (nat \<times> byte) list list option" where
  "eq_helper_terms k r z helper_block_ids failed_block_ids selected_equation_indices =
     all_eq_terms (\<lambda>ei. eq_terms_loop
        (build_block_coef_row k r z (k + r + z) (selected_equation_indices ! ei) (glrc_encode_matrix k r z)
           (glrc_build_placement_groups k r z))
        failed_block_ids (helper_pos helper_block_ids) [0..<k + r + z]) [0..<length failed_block_ids]"

definition glrc_ilp_prepare_helper_decode ::
  "nat \<Rightarrow> nat \<Rightarrow> nat \<Rightarrow> nat list \<Rightarrow> nat list \<Rightarrow> nat list \<Rightarrow> (buffer \<times> nat list list \<times> buffer list) option" where
  "glrc_ilp_prepare_helper_decode k r z helper_block_ids failed_block_ids selected_equation_indices =
     (let f = length failed_block_ids in
      if f = 0 \<or> length selected_equation_indices \<noteq> f \<or> helper_block_ids = [] then None
      else case glrc_ilp_build_inverse k r z (k + r + z) failed_block_ids selected_equation_indices
             (glrc_encode_matrix k r z) (glrc_build_placement_groups k r z) of
        None \<Rightarrow> None
      | Some A_inv \<Rightarrow>
          (case eq_helper_terms k r z helper_block_ids failed_block_ids selected_equation_indices of
             None \<Rightarrow> None
           | Some terms \<Rightarrow> Some (A_inv, map (map fst) terms, map (map snd) terms)))"

section \<open>Decoding whole blocks\<close>

definition direct_matrix_row :: "nat \<Rightarrow> nat \<Rightarrow> buffer \<Rightarrow> (nat \<times> byte) list list \<Rightarrow> nat \<Rightarrow> buffer" where
  "direct_matrix_row f helper_count A_inv terms target =
     fold (\<lambda>equation row.
        let inverse_coef = A_inv ! (target * f + equation) in
        if inverse_coef = 0 then row
        else fold (\<lambda>(h, c) row. row[h := row ! h XOR gf_mul inverse_coef c]) (terms ! equation) row)
      [0..<f] (replicate helper_count 0)"

definition decode_glrc_ilp ::
  "nat \<Rightarrow> nat \<Rightarrow> nat \<Rightarrow> nat \<Rightarrow> nat list \<Rightarrow> buffer list \<Rightarrow> nat list \<Rightarrow> nat list \<Rightarrow> buffer list option" where
  "decode_glrc_ilp k r z block_size helper_block_ids helper_ptrs failed_block_ids selected_equation_indices =
     (let f = length failed_block_ids in
      if f = 0 \<or> length selected_equation_indices \<noteq> f then None
      else case glrc_ilp_build_inverse k r z (k + r + z) failed_block_ids selected_equation_indices
             (glrc_encode_matrix k r z) (glrc_build_placement_groups k r z) of
        None \<Rightarrow> None
      | Some A_inv \<Rightarrow>
          (case eq_helper_terms k r z helper_block_ids failed_block_ids selected_equation_indices of
             None \<Rightarrow> None
           | Some terms \<Rightarrow>
               let helper_count = length helper_block_ids in
               if helper_count = 0 then None
               else let direct_matrix = concat (map (direct_matrix_row f helper_count A_inv terms) [0..<f]);
                        g_tbls = ec_init_tables helper_count f direct_matrix
                    in Some (ec_encode_data_avx2 block_size helper_count f g_tbls helper_ptrs
                         (replicate f (replicate block_size 0)))))"

section \<open>Decoding byte ranges\<close>

definition inverse_times :: "buffer \<Rightarrow> nat \<Rightarrow> buffer \<Rightarrow> nat \<Rightarrow> byte" where
  "inverse_times A_inv f col_b t = fold (\<lambda>j acc. acc XOR gf_mul (A_inv ! (t * f + j)) (col_b ! j)) [0..<f] 0"

text \<open>One byte column is solved and stored in all recovered blocks, for each offset of a range.\<close>

definition decode_columns :: "buffer \<Rightarrow> nat \<Rightarrow> (nat \<Rightarrow> buffer) \<Rightarrow> nat list \<Rightarrow> buffer list \<Rightarrow> buffer list" where
  "decode_columns A_inv f col_b offs recovered =
     fold (\<lambda>off rec. fold (\<lambda>t rec. rec[t := (rec ! t)[off := inverse_times A_inv f (col_b off) t]]) [0..<f] rec)
       offs recovered"

definition decode_glrc_ilp_range ::
  "nat \<Rightarrow> nat \<Rightarrow> nat \<Rightarrow> int \<Rightarrow> nat list \<Rightarrow> buffer list \<Rightarrow> nat list \<Rightarrow> nat list \<Rightarrow> int \<Rightarrow> int \<Rightarrow> buffer list
    \<Rightarrow> buffer list option" where
  "decode_glrc_ilp_range k r z block_size helper_block_ids helper_ptrs failed_block_ids
      selected_equation_indices range_off range_len fresh =
     (if range_off < 0 \<or> range_len < 0 \<or> range_off + range_len > block_size then None
      else if range_len = 0 then Some fresh
      else let f = length failed_block_ids in
        if f = 0 \<or> length selected_equation_indices \<noteq> f then None
        else case glrc_ilp_build_inverse k r z (k + r + z) failed_block_ids selected_equation_indices
               (glrc_encode_matrix k r z) (glrc_build_placement_groups k r z) of
          None \<Rightarrow> None
        | Some A_inv \<Rightarrow>
            (case eq_helper_terms k r z helper_block_ids failed_block_ids selected_equation_indices of
               None \<Rightarrow> None
             | Some terms \<Rightarrow> Some (decode_columns A_inv f
                 (\<lambda>off. map (\<lambda>ei. fold (\<lambda>(h, c) rhs. rhs XOR gf_mul c (helper_ptrs ! h ! off)) (terms ! ei) 0) [0..<f])
                 [nat range_off..<nat (range_off + range_len)] fresh)))"

definition decode_glrc_ilp_rhs_range ::
  "nat \<Rightarrow> nat \<Rightarrow> nat \<Rightarrow> int \<Rightarrow> buffer list \<Rightarrow> nat list \<Rightarrow> nat list \<Rightarrow> int \<Rightarrow> int \<Rightarrow> buffer list option" where
  "decode_glrc_ilp_rhs_range k r z block_size rhs_ptrs failed_block_ids selected_equation_indices
      range_off range_len =
     (if range_off < 0 \<or> range_len < 0 \<or> range_off + range_len > block_size then None
      else let f = length failed_block_ids in
        if f = 0 \<or> length selected_equation_indices \<noteq> f then None
        else case glrc_ilp_build_inverse k r z (k + r + z) failed_block_ids selected_equation_indices
               (glrc_encode_matrix k r z) (glrc_build_placement_groups k r z) of
          None \<Rightarrow> None
        | Some A_inv \<Rightarrow> Some (decode_columns A_inv f (\<lambda>off. map (\<lambda>ei. rhs_ptrs ! ei ! off) [0..<f])
            [nat range_off..<nat (range_off + range_len)] (replicate f (replicate (nat block_size) 0))))"

definition decode_glrc_ilp_rhs_compact ::
  "buffer list \<Rightarrow> buffer \<Rightarrow> int \<Rightarrow> int \<Rightarrow> buffer list option" where
  "decode_glrc_ilp_rhs_compact rhs_ptrs A_inv failed_count range_len =
     (let f = failed_count in
      if f \<le> 0 \<or> range_len < 0 \<or> int (length rhs_ptrs) \<noteq> f \<or> int (length A_inv) \<noteq> f * f then None
      else Some (decode_columns A_inv (nat f) (\<lambda>off. map (\<lambda>ei. rhs_ptrs ! ei ! off) [0..<nat f])
             [0..<nat range_len] (replicate (nat f) (replicate (nat range_len) 0))))"

section \<open>Decoding compact shards with precomputed terms\<close>

text \<open>Right-hand sides of all equations over a range of the helper buffers; \<open>None\<close> on a size mismatch.\<close>

fun compact_rhs :: "buffer list \<Rightarrow> nat \<Rightarrow> nat \<Rightarrow> nat list list \<Rightarrow> buffer list \<Rightarrow> buffer list option" where
  "compact_rhs helper_ptrs helper_off range_len (idxs # idxss) (coefs # coefss) =
     (if length idxs \<noteq> length coefs then None
      else let term_count = length idxs;
               rhs0 = replicate range_len 0;
               srcs = map (\<lambda>ti. drop helper_off (helper_ptrs ! (idxs ! ti))) [0..<term_count];
               rhs = (if term_count = 0 then rhs0
                      else ec_encode_data_avx2 range_len term_count 1 (ec_init_tables term_count 1 coefs)
                             srcs [rhs0] ! 0)
           in map_option ((#) rhs) (compact_rhs helper_ptrs helper_off range_len idxss coefss))"
| "compact_rhs helper_ptrs helper_off range_len _ _ = Some []"

definition decode_glrc_ilp_helper_compact ::
  "buffer list \<Rightarrow> buffer \<Rightarrow> nat list list \<Rightarrow> buffer list \<Rightarrow> int \<Rightarrow> int \<Rightarrow> int \<Rightarrow> int \<Rightarrow> buffer list option" where
  "decode_glrc_ilp_helper_compact helper_ptrs A_inv eq_helper_indices eq_helper_coefs failed_count
      helper_base_off range_off range_len =
     (let f = failed_count in
      if f \<le> 0 \<or> helper_base_off < 0 \<or> range_off < helper_base_off \<or> range_len < 0
         \<or> int (length A_inv) \<noteq> f * f \<or> int (length eq_helper_indices) \<noteq> f
         \<or> int (length eq_helper_coefs) \<noteq> f then None
      else let recovered = replicate (nat f) (replicate (nat range_len) 0) in
        if range_len = 0 then Some recovered
        else case compact_rhs helper_ptrs (nat (range_off - helper_base_off)) (nat range_len)
                    eq_helper_indices eq_helper_coefs of
          None \<Rightarrow> None
        | Some rhs \<Rightarrow> Some (ec_encode_data_avx2 (nat range_len) (nat f) (nat f)
            (ec_init_tables (nat f) (nat f) A_inv) rhs recovered))"

text \<open>The variant with the tables built beforehand and reusable result buffers.\<close>

fun prepared_rhs :: "buffer list \<Rightarrow> nat \<Rightarrow> nat \<Rightarrow> nat list list \<Rightarrow> buffer list \<Rightarrow> buffer list \<Rightarrow> buffer list option" where
  "prepared_rhs helper_ptrs helper_off range_len (idxs # idxss) (tbl # tbls) (rhs0 # rhss) =
     (let term_count = length idxs in
      if term_count = 0
      then map_option ((#) rhs0) (prepared_rhs helper_ptrs helper_off range_len idxss tbls rhss)
      else if length tbl \<noteq> term_count * 32 then None
      else let srcs = map (\<lambda>ti. drop helper_off (helper_ptrs ! (idxs ! ti))) [0..<term_count]
           in map_option ((#) (ec_encode_data_avx2 range_len term_count 1 tbl srcs [rhs0] ! 0))
                (prepared_rhs helper_ptrs helper_off range_len idxss tbls rhss))"
| "prepared_rhs helper_ptrs helper_off range_len _ _ _ = Some []"

definition reuse_buffers :: "bool \<Rightarrow> nat \<Rightarrow> nat \<Rightarrow> buffer list \<Rightarrow> buffer list" where
  "reuse_buffers clear f range_len bufs =
     map (\<lambda>b. if length b \<noteq> range_len \<or> clear then replicate range_len 0 else b)
       (if length bufs \<noteq> f then replicate f (replicate range_len 0) else bufs)"

definition decode_glrc_ilp_helper_compact_prepared ::
  "buffer list \<Rightarrow> nat list list \<Rightarrow> buffer list \<Rightarrow> buffer \<Rightarrow> int \<Rightarrow> int \<Rightarrow> int \<Rightarrow> int \<Rightarrow> buffer list \<Rightarrow> buffer list
    \<Rightarrow> (buffer list \<times> buffer list) option" where
  "decode_glrc_ilp_helper_compact_prepared helper_ptrs eq_helper_indices eq_helper_g_tbls inv_g_tbls
      failed_count helper_base_off range_off range_len rhs recovered =
     (let f = failed_count in
      if f \<le> 0 \<or> helper_base_off < 0 \<or> range_off < helper_base_off \<or> range_len < 0
         \<or> int (length eq_helper_indices) \<noteq> f \<or> int (length eq_helper_g_tbls) \<noteq> f
         \<or> int (length inv_g_tbls) \<noteq> f * f * 32 then None
      else let rhs = reuse_buffers True (nat f) (nat range_len) rhs;
               recovered = reuse_buffers False (nat f) (nat range_len) recovered in
        if range_len = 0 then Some (rhs, recovered)
        else case prepared_rhs helper_ptrs (nat (range_off - helper_base_off)) (nat range_len)
                    eq_helper_indices eq_helper_g_tbls rhs of
          None \<Rightarrow> None
        | Some rhs \<Rightarrow> Some (rhs, ec_encode_data_avx2 (nat range_len) (nat f) (nat f) inv_g_tbls rhs recovered))"

section \<open>Codes given by parity equations\<close>

lemma sum_lessThan_split:
  fixes f :: "nat \<Rightarrow> 'a :: comm_monoid_add"
  shows "(\<Sum>b<m + n. f b) = (\<Sum>b<m. f b) + (\<Sum>b<n. f (m + b))"
  by (induction n) (auto simp: add.assoc)

lemma sum_set_nth:
  "distinct F \<Longrightarrow> (\<Sum>b\<in>set F. f b) = (\<Sum>t<length F. f (F ! t))"
  using sum.reindex_bij_betw [OF bij_betw_nth [OF _ refl refl], of F f] by simp

locale parity_code =
  fixes eqs :: "nat \<Rightarrow> nat \<Rightarrow> gf256" and n :: nat and neq :: nat and column :: "(nat \<Rightarrow> gf256) \<Rightarrow> bool"
  assumes parity: "column x \<Longrightarrow> e < neq \<Longrightarrow> (\<Sum>b<n. eqs e b * x b) = 0"
begin

text \<open>Failed-block coefficients, and the right-hand side the survivors give.\<close>

definition failed_coefs :: "nat list \<Rightarrow> nat list \<Rightarrow> gmat" where
  "failed_coefs F sel ei t = eqs (sel ! ei) (F ! t)"

definition survivor_rhs :: "nat list \<Rightarrow> nat list \<Rightarrow> (nat \<Rightarrow> gf256) \<Rightarrow> nat \<Rightarrow> gf256" where
  "survivor_rhs F sel x ei = (\<Sum>b | b < n \<and> b \<notin> set F. eqs (sel ! ei) b * x b)"

lemma rhs_is_failed_combination:
  assumes "column x" "distinct F" "set F \<subseteq> {..<n}" "sel ! ei < neq"
  shows "survivor_rhs F sel x ei = mvec (length F) (failed_coefs F sel) (\<lambda>t. x (F ! t)) ei"
proof -
  have split: "{..<n} = set F \<union> {b. b < n \<and> b \<notin> set F}" using assms(3) by auto
  have "0 = (\<Sum>b<n. eqs (sel ! ei) b * x b)" using parity [OF assms(1,4)] by simp
  also have "\<dots> = (\<Sum>b\<in>set F. eqs (sel ! ei) b * x b) + survivor_rhs F sel x ei"
    unfolding survivor_rhs_def by (subst split) (intro sum.union_disjoint, auto)
  also have "(\<Sum>b\<in>set F. eqs (sel ! ei) b * x b) = mvec (length F) (failed_coefs F sel) (\<lambda>t. x (F ! t)) ei"
    using assms(2) by (simp add: sum_set_nth mvec_def failed_coefs_def)
  finally show ?thesis by (metis gf256_add_eq_0_iff)
qed

text \<open>An inverse of the failed-block coefficients recovers every failed block.\<close>

lemma inverse_recovers:
  assumes "column x" "distinct F" "set F \<subseteq> {..<n}" "length sel = length F" "set sel \<subseteq> {..<neq}"
    and "left_inverse (length F) B (failed_coefs F sel)" "t < length F"
    and "\<And>ei. ei < length F \<Longrightarrow> rhs ei = survivor_rhs F sel x ei"
  shows "mvec (length F) B rhs t = x (F ! t)"
proof (rule left_inverse_solves [OF assms(6,7)])
  fix ei assume ei: "ei < length F"
  then have "sel ! ei < neq" using assms(4,5) by (metis lessThan_iff nth_mem subsetD)
  then show "rhs ei = mvec (length F) (failed_coefs F sel) (\<lambda>t. x (F ! t)) ei"
    using rhs_is_failed_combination [OF assms(1-3)] assms(8) [OF ei] by simp
qed

text \<open>Two codewords that agree on the survivors agree on the failed blocks.\<close>

lemma failed_determined:
  assumes "column x" "column y" "distinct F" "set F \<subseteq> {..<n}" "length sel = length F" "set sel \<subseteq> {..<neq}"
    and "trivial_kernel (length F) (failed_coefs F sel)" "\<And>b. b < n \<Longrightarrow> b \<notin> set F \<Longrightarrow> x b = y b" "t < length F"
  shows "x (F ! t) = y (F ! t)"
proof -
  have "mvec (length F) (failed_coefs F sel) (\<lambda>t. x (F ! t) + y (F ! t)) ei = 0" if ei: "ei < length F" for ei
  proof -
    have sel: "sel ! ei < neq" using ei assms(5,6) by (metis lessThan_iff nth_mem subsetD)
    have "survivor_rhs F sel x ei = survivor_rhs F sel y ei"
      unfolding survivor_rhs_def using assms(8) by (intro sum.cong) auto
    then show ?thesis
      using rhs_is_failed_combination [OF assms(1,3,4) sel] rhs_is_failed_combination [OF assms(2,3,4) sel]
      by (simp add: mvec_def distrib_left sum.distrib gf256_add_eq_0_iff)
  qed
  then have "x (F ! t) + y (F ! t) = 0"
    using assms(7) [unfolded trivial_kernel_def, rule_format, of "\<lambda>t. x (F ! t) + y (F ! t)"] assms(9) by simp
  then show ?thesis by (simp add: gf256_add_eq_0_iff)
qed

end

section \<open>The gLRC equations vanish on encoded stripes\<close>

definition glrc_codeword :: "nat \<Rightarrow> nat \<Rightarrow> nat \<Rightarrow> nat \<Rightarrow> buffer list \<Rightarrow> bool" where
  "glrc_codeword k r z bs blocks \<longleftrightarrow> blocks_ok (k + r + z) bs blocks
     \<and> drop k blocks = encode_glrc k r z (take k blocks) (replicate (r + z) (replicate bs 0)) bs"

definition glrc_eq :: "nat \<Rightarrow> nat \<Rightarrow> nat \<Rightarrow> nat \<Rightarrow> nat \<Rightarrow> gf256" where
  "glrc_eq k r z e b =
     GF (build_block_coef_row k r z (k + r + z) e (glrc_encode_matrix k r z)
       (glrc_build_placement_groups k r z) ! b)"

definition glrc_column :: "nat \<Rightarrow> nat \<Rightarrow> nat \<Rightarrow> (nat \<Rightarrow> gf256) \<Rightarrow> bool" where
  "glrc_column k r z x \<longleftrightarrow> 0 < z \<and>
     (\<exists>bs blocks i. glrc_codeword k r z bs blocks \<and> i < bs \<and> x = (\<lambda>b. GF (blocks ! b ! i)))"

lemma length_glrc_matrix: "length (glrc_encode_matrix k r z) = (k + r + z) * k"
proof -
  have mm: "k * (k + r) \<le> (k + r + z) * k" by (simp add: algebra_simps)
  show ?thesis
    unfolding glrc_encode_matrix_def gen_glrc_matrix_def Let_def
    by (subst length_fold_invar, simp add: len_simps)
      (subst length_fold_invar, simp, simp add: len_simps mm)
qed

lemma glrc_matrix_cell:
  "0 < z \<Longrightarrow> a < k + r + z \<Longrightarrow> j < k \<Longrightarrow> cell k (glrc_encode_matrix k r z) a j
     = (if a < k then delta a j else if a < k + r then cauchy a j else glrc_local_row k r z (a - (k + r)) j)"
  unfolding glrc_encode_matrix_def by (rule gen_glrc_matrix_cell) auto

lemma codeword_parity:
  assumes "glrc_codeword k r z bs blocks" "0 < z" "i < bs" "l < r + z"
  shows "GF (blocks ! (k + l) ! i)
       = (\<Sum>j<k. (if l < r then cauchy (k + l) j else glrc_local_row k r z (l - r) j) * GF (blocks ! j ! i))"
proof -
  have ok: "blocks_ok (k + r + z) bs blocks" using assms(1) by (simp add: glrc_codeword_def)
  have "blocks ! (k + l) = drop k blocks ! l" using ok assms(4) by (simp add: blocks_ok_def)
  also have "\<dots> = encode_with (glrc_encode_matrix k r z) k (r + z) (take k blocks)
      (replicate (r + z) (replicate bs 0)) bs ! l"
    using assms(1) by (simp add: glrc_codeword_def encode_glrc_def glrc_encode_matrix_def)
  finally have "GF (blocks ! (k + l) ! i)
      = (\<Sum>j<k. cell k (glrc_encode_matrix k r z) (k + l) j * GF (take k blocks ! j ! i))"
    using assms by (simp add: encode_with_nth [where R = "k + r + z"] length_glrc_matrix blocks_ok_def add.assoc)
  also have "\<dots> = (\<Sum>j<k. (if l < r then cauchy (k + l) j else glrc_local_row k r z (l - r) j)
      * GF (blocks ! j ! i))"
    using assms(2,4) by (intro sum.cong refl) (simp add: glrc_matrix_cell)
  finally show ?thesis .
qed

lemma glrc_eq_local:
  assumes "e < z" "b < k + r + z"
  shows "glrc_eq k r z e b = (if b \<in> set (glrc_build_placement_groups k r z ! e)
     then GF (glrc_local_block_coefficient (int b) (int k) (int r)) else 0)"
proof -
  let ?grp = "glrc_build_placement_groups k r z ! e"
  have "fold (\<lambda>b c. c[b := glrc_local_block_coefficient (int b) (int k) (int r)]) ?grp (replicate (k + r + z) 0) ! b
      = (if b \<in> set ?grp then glrc_local_block_coefficient (int b) (int k) (int r) else 0)"
  proof (cases "b \<in> set ?grp")
    case True
    then show ?thesis using assms distinct_placement_group [OF assms(1)]
      by (subst fold_update_nth [where g = "\<lambda>b. b" and h = "\<lambda>b _. glrc_local_block_coefficient (int b) (int k) (int r)"])
        auto
  next
    case False
    then show ?thesis using assms by (subst fold_update_other) auto
  qed
  then show ?thesis using assms(1) by (simp add: glrc_eq_def build_block_coef_row_def gf_simps)
qed

lemma glrc_eq_global:
  assumes "g < r" "0 < z" "b < k + r + z"
  shows "glrc_eq k r z (z + g) b = (if b < k then cauchy (k + g) b else if b = k + g then 1 else 0)"
proof -
  let ?c = "fold (\<lambda>i c. c[i := glrc_encode_matrix k r z ! ((k + g) * k + i)]) [0..<k] (replicate (k + r + z) 0)"
  have "?c ! b = (if b < k then glrc_encode_matrix k r z ! ((k + g) * k + b) else 0)"
  proof (cases "b < k")
    case True
    then show ?thesis
      by (subst fold_update_nth [where g = "\<lambda>i. i" and h = "\<lambda>i _. glrc_encode_matrix k r z ! ((k + g) * k + i)"]) auto
  next
    case False
    then show ?thesis using assms(3) by (subst fold_update_other) auto
  qed
  then show ?thesis
    using assms glrc_matrix_cell [of z "k + g" k r b]
    by (auto simp: glrc_eq_def build_block_coef_row_def Let_def gf_simps nth_list_update len_simps cell_def)
qed

lemma glrc_local_equation:
  assumes "glrc_codeword k r z bs blocks" "i < bs" "e < z"
  shows "(\<Sum>b<k + r + z. glrc_eq k r z e b * GF (blocks ! b ! i)) = 0"
proof -
  have z: "0 < z" using assms(3) by simp
  let ?x = "\<lambda>b. GF (blocks ! b ! i)" and ?lc = "\<lambda>b. GF (glrc_local_block_coefficient (int b) (int k) (int r))"
  let ?D = "\<Sum>j<k. (if group_of k r z j = e then ?lc j else 0) * ?x j"
  let ?G = "\<Sum>l<r. if group_of k r z (k + l) = e then ?x (k + l) else 0"
  have lc1: "?lc b = 1" if "k \<le> b" for b using that by (simp add: glrc_local_block_coefficient_def gf_simps)
  have eq: "glrc_eq k r z e b = (if (b < k + r \<and> group_of k r z b = e) \<or> b = k + r + e then ?lc b else 0)"
    if "b < k + r + z" for b
    using that assms(3) by (simp add: glrc_eq_local in_placement_group)
  have "(\<Sum>j<k. glrc_eq k r z e j * ?x j) = ?D" by (intro sum.cong) (auto simp: eq)
  moreover have "(\<Sum>l<r. glrc_eq k r z e (k + l) * ?x (k + l)) = ?G"
    using lc1 [of "k + _"] by (intro sum.cong) (auto simp: eq)
  moreover have "(\<Sum>g<z. glrc_eq k r z e (k + r + g) * ?x (k + r + g)) = (\<Sum>g<z. if g = e then ?x (k + r + g) else 0)"
    using lc1 [of "k + r + _"] by (intro sum.cong) (auto simp: eq)
  ultimately have "(\<Sum>b<k + r + z. glrc_eq k r z e b * ?x b)
      = ?D + ?G + (\<Sum>g<z. if g = e then ?x (k + r + g) else 0)"
    by (simp add: sum_lessThan_split)
  also have "(\<Sum>g<z. if g = e then ?x (k + r + g) else 0) = ?x (k + (r + e))"
    using assms(3) by (simp add: add.assoc)
  also have "\<dots> = (\<Sum>j<k. glrc_local_row k r z e j * ?x j)"
    using codeword_parity [OF assms(1) z assms(2), of "r + e"] assms(3) by simp
  also have "\<dots> = ?D + (\<Sum>j<k. (\<Sum>l<r. if group_of k r z (k + l) = e then cauchy (k + l) j else 0) * ?x j)"
    by (simp add: glrc_local_row_def distrib_right sum.distrib)
  also have "(\<Sum>j<k. (\<Sum>l<r. if group_of k r z (k + l) = e then cauchy (k + l) j else 0) * ?x j)
      = (\<Sum>l<r. \<Sum>j<k. if group_of k r z (k + l) = e then cauchy (k + l) j * ?x j else 0)"
    by (subst sum.swap) (auto simp: sum_distrib_right intro!: sum.cong)
  also have "\<dots> = ?G"
    using codeword_parity [OF assms(1) z assms(2)] by (intro sum.cong) auto
  finally show ?thesis by (simp add: add.assoc add.left_commute)
qed

lemma glrc_global_equation:
  assumes "glrc_codeword k r z bs blocks" "0 < z" "i < bs" "g < r"
  shows "(\<Sum>b<k + r + z. glrc_eq k r z (z + g) b * GF (blocks ! b ! i)) = 0"
proof -
  let ?x = "\<lambda>b. GF (blocks ! b ! i)"
  have eq: "glrc_eq k r z (z + g) b = (if b < k then cauchy (k + g) b else if b = k + g then 1 else 0)"
    if "b < k + r + z" for b
    using that assms(2,4) by (simp add: glrc_eq_global)
  have "(\<Sum>j<k. glrc_eq k r z (z + g) j * ?x j) = (\<Sum>j<k. cauchy (k + g) j * ?x j)"
    by (intro sum.cong) (auto simp: eq)
  moreover have "(\<Sum>l<r. glrc_eq k r z (z + g) (k + l) * ?x (k + l)) = (\<Sum>l<r. if l = g then ?x (k + l) else 0)"
    by (intro sum.cong) (auto simp: eq)
  moreover have "(\<Sum>l<z. glrc_eq k r z (z + g) (k + r + l) * ?x (k + r + l)) = (\<Sum>l<z. 0)"
    using assms(4) by (intro sum.cong) (auto simp: eq)
  ultimately have "(\<Sum>b<k + r + z. glrc_eq k r z (z + g) b * ?x b)
      = (\<Sum>j<k. cauchy (k + g) j * ?x j) + (\<Sum>l<r. if l = g then ?x (k + l) else 0) + (\<Sum>l<z. 0)"
    by (simp add: sum_lessThan_split)
  also have "\<dots> = (\<Sum>j<k. cauchy (k + g) j * ?x j) + ?x (k + g)"
    using assms(4) by simp
  also have "\<dots> = 0" using codeword_parity [OF assms(1-3), of g] assms(4) by simp
  finally show ?thesis .
qed

interpretation glrc: parity_code "glrc_eq k r z" "k + r + z" "z + r" "glrc_column k r z" for k r z
proof
  fix x e assume col: "glrc_column k r z x" and e: "e < z + r"
  then obtain bs blocks i where cw: "glrc_codeword k r z bs blocks" "0 < z" "i < bs"
    and x: "x = (\<lambda>b. GF (blocks ! b ! i))"
    by (auto simp: glrc_column_def)
  show "(\<Sum>b<k + r + z. glrc_eq k r z e b * x b) = 0"
  proof (cases "e < z")
    case True
    then show ?thesis unfolding x using glrc_local_equation [OF cw(1,3)] by blast
  next
    case False
    then show ?thesis unfolding x using glrc_global_equation [OF cw, of "e - z"] e by simp
  qed
qed

section \<open>The pieces of the decoders\<close>

lemma left_inverse_cong:
  "left_inverse n B A \<Longrightarrow> (\<And>a c. a < n \<Longrightarrow> c < n \<Longrightarrow> A a c = A' a c) \<Longrightarrow> left_inverse n B A'"
  by (auto simp: left_inverse_def)

lemma left_inverse_cong_left:
  "left_inverse n B A \<Longrightarrow> (\<And>a c. a < n \<Longrightarrow> c < n \<Longrightarrow> B a c = B' a c) \<Longrightarrow> left_inverse n B' A"
  by (auto simp: left_inverse_def)

lemma trivial_kernel_cong:
  "(\<And>a c. a < n \<Longrightarrow> c < n \<Longrightarrow> A a c = A' a c) \<Longrightarrow> trivial_kernel n A \<longleftrightarrow> trivial_kernel n A'"
  by (simp add: trivial_kernel_def mvec_def)

lemma build_inverse_result:
  defines "M \<equiv> \<lambda>k r z. glrc_encode_matrix k r z" and "G \<equiv> \<lambda>k r z. glrc_build_placement_groups k r z"
  shows "case glrc_ilp_build_inverse k r z (k + r + z) F sel (M k r z) (G k r z) of
     Some B \<Rightarrow> length B = length F * length F
       \<and> left_inverse (length F) (ent (length F) B) (glrc.failed_coefs k r z F sel)
       \<and> left_inverse (length F) (glrc.failed_coefs k r z F sel) (ent (length F) B)
   | None \<Rightarrow> \<not> trivial_kernel (length F) (glrc.failed_coefs k r z F sel)"
proof -
  let ?f = "length F"
  let ?row = "\<lambda>ei. map (\<lambda>t. build_block_coef_row k r z (k + r + z) (sel ! ei) (M k r z) (G k r z) ! (F ! t)) [0..<?f]"
  let ?A = "concat (map ?row [0..<?f])"
  have len: "length ?A = ?f * ?f" by (subst length_concat_chunks [where w = ?f]) auto
  have A: "ent ?f ?A ei t = glrc.failed_coefs k r z F sel ei t" if "ei < ?f" "t < ?f" for ei t
    using that by (simp add: ent_def concat_map_upt_nth glrc.failed_coefs_def glrc_eq_def M_def G_def)
  obtain ret m' B where run: "gf_invert_matrix ?A (replicate (?f * ?f) 0) ?f = (ret, m', B)"
    by (metis prod_cases3)
  have res: "glrc_ilp_build_inverse k r z (k + r + z) F sel (M k r z) (G k r z) = (if ret = 0 then Some B else None)"
    using run by (simp add: glrc_ilp_build_inverse_def Let_def)
  show ?thesis
  proof (cases "ret = 0")
    case True
    then show ?thesis
      using gf_invert_matrix_inverse [OF len _ run [unfolded True]] left_inverse_cong [OF _ A]
        left_inverse_cong_left [OF _ A] res by simp
  next
    case False
    then show ?thesis
      using gf_invert_matrix_run [OF len _ run] trivial_kernel_cong [OF A] res by simp
  qed
qed

lemma build_inverse_Some:
  assumes "glrc_ilp_build_inverse k r z (k + r + z) F sel (glrc_encode_matrix k r z)
      (glrc_build_placement_groups k r z) = Some B"
  shows "length B = length F * length F"
    "left_inverse (length F) (ent (length F) B) (glrc.failed_coefs k r z F sel)"
    "left_inverse (length F) (glrc.failed_coefs k r z F sel) (ent (length F) B)"
  using build_inverse_result [where k = k and r = r and z = z and F = F and sel = sel, unfolded assms] by auto

lemma helper_pos_fold:
  "q \<le> length hs \<Longrightarrow> fold (\<lambda>i m. m(hs ! i \<mapsto> i)) [0..<q] Map.empty b = Some h \<Longrightarrow> h < q \<and> hs ! h = b"
  by (induction q) (auto split: if_splits)

lemma helper_pos_Some: "helper_pos hs b = Some h \<Longrightarrow> h < length hs \<and> hs ! h = b"
  unfolding helper_pos_def by (rule helper_pos_fold) simp

lemma helper_pos_mem: "b \<in> set hs \<Longrightarrow> \<exists>h. helper_pos hs b = Some h"
proof -
  have "b \<in> set (take q hs) \<Longrightarrow> q \<le> length hs \<Longrightarrow>
      \<exists>h. fold (\<lambda>i m. m(hs ! i \<mapsto> i)) [0..<q] Map.empty b = Some h" for q
    by (induction q) (auto simp: take_Suc_conv_app_nth)
  from this [of "length hs"] show "b \<in> set hs \<Longrightarrow> ?thesis" by (simp add: helper_pos_def)
qed

text \<open>The sum of an equation's terms over the helpers is its sum over the surviving blocks.\<close>

lemma eq_terms_loop_sum:
  assumes "eq_terms_loop row F (helper_pos hs) bs = Some ts"
  shows "(\<forall>(h, c)\<in>set ts. h < length hs)
     \<and> (\<Sum>(h, c)\<leftarrow>ts. GF c * x (hs ! h)) = (\<Sum>b\<leftarrow>bs. if b \<in> set F then 0 else GF (row ! b) * x b)"
  using assms
proof (induction bs arbitrary: ts)
  case (Cons b bs)
  show ?case
  proof (cases "row ! b = 0 \<or> b \<in> set F")
    case True
    then show ?thesis using Cons by (auto simp: gf_simps)
  next
    case False
    with Cons.prems obtain h ts' where h: "helper_pos hs b = Some h"
      and ts': "eq_terms_loop row F (helper_pos hs) bs = Some ts'" "ts = (h, row ! b) # ts'"
      by (auto split: option.splits)
    then show ?thesis using Cons.IH [OF ts'(1)] helper_pos_Some [OF h] False by auto
  qed
qed simp

lemma eq_terms_loop_Some:
  "(\<And>b. b \<in> set bs \<Longrightarrow> row ! b \<noteq> 0 \<Longrightarrow> b \<notin> set F \<Longrightarrow> b \<in> set hs) \<Longrightarrow>
   \<exists>ts. eq_terms_loop row F (helper_pos hs) bs = Some ts"
proof (induction bs)
  case (Cons b bs)
  then obtain ts where "eq_terms_loop row F (helper_pos hs) bs = Some ts" by auto
  moreover have "row ! b = 0 \<or> b \<in> set F \<or> (\<exists>h. helper_pos hs b = Some h)"
    using Cons.prems [of b] helper_pos_mem [of b hs] by auto
  ultimately show ?case by auto
qed simp

lemma all_eq_terms_nth:
  "all_eq_terms terms eis = Some tss \<Longrightarrow> length tss = length eis \<and>
     (\<forall>i<length eis. terms (eis ! i) = Some (tss ! i))"
proof (induction eis arbitrary: tss)
  case (Cons ei eis)
  then show ?case by (auto split: option.splits simp: nth_Cons' less_Suc_eq_0_disj)
qed simp

lemma all_eq_terms_Some:
  "(\<And>ei. ei \<in> set eis \<Longrightarrow> \<exists>ts. terms ei = Some ts) \<Longrightarrow> \<exists>tss. all_eq_terms terms eis = Some tss"
  by (induction eis) (fastforce split: option.splits)+

text \<open>The terms of all equations, over an arbitrary stripe column \<open>x\<close>.\<close>

definition terms_ok :: "nat \<Rightarrow> nat \<Rightarrow> nat \<Rightarrow> nat list \<Rightarrow> nat list \<Rightarrow> nat list \<Rightarrow> (nat \<times> byte) list list \<Rightarrow> bool" where
  "terms_ok k r z hs F sel tss \<longleftrightarrow> length tss = length F \<and> (\<forall>ei<length F.
     (\<forall>(h, c)\<in>set (tss ! ei). h < length hs) \<and>
     (\<forall>x. (\<Sum>(h, c)\<leftarrow>tss ! ei. GF c * x (hs ! h)) = glrc.survivor_rhs k r z F sel x ei))"

lemma eq_helper_terms_ok:
  assumes "eq_helper_terms k r z hs F sel = Some tss"
  shows "terms_ok k r z hs F sel tss"
proof -
  let ?row = "\<lambda>ei. build_block_coef_row k r z (k + r + z) (sel ! ei) (glrc_encode_matrix k r z)
      (glrc_build_placement_groups k r z)"
  have rhs: "(\<Sum>b\<leftarrow>[0..<k + r + z]. if b \<in> set F then 0 else GF (?row ei ! b) * x b)
      = glrc.survivor_rhs k r z F sel x ei" for ei x
    unfolding interv_sum_list_conv_sum_set_nat glrc.survivor_rhs_def
    by (rule sum.mono_neutral_cong_right) (auto simp: glrc_eq_def)
  have "length tss = length F" "\<forall>ei<length F. eq_terms_loop (?row ei) F (helper_pos hs) [0..<k + r + z] = Some (tss ! ei)"
    using all_eq_terms_nth [OF assms [unfolded eq_helper_terms_def]] by auto
  then show ?thesis unfolding terms_ok_def
    using eq_terms_loop_sum [of "?row _" F hs "[0..<k + r + z]", unfolded rhs] by blast
qed

text \<open>Every survivor with a nonzero coefficient in a selected equation is a helper.\<close>

definition helpers_cover :: "nat \<Rightarrow> nat \<Rightarrow> nat \<Rightarrow> nat list \<Rightarrow> nat list \<Rightarrow> nat list \<Rightarrow> bool" where
  "helpers_cover k r z hs F sel \<longleftrightarrow>
     (\<forall>e \<in> set sel. \<forall>b < k + r + z. glrc_eq k r z e b \<noteq> 0 \<longrightarrow> b \<notin> set F \<longrightarrow> b \<in> set hs)"

lemma eq_helper_terms_Some:
  assumes "helpers_cover k r z hs F sel" "length sel = length F"
  shows "\<exists>tss. eq_helper_terms k r z hs F sel = Some tss"
  unfolding eq_helper_terms_def
proof (rule all_eq_terms_Some, rule eq_terms_loop_Some)
  fix ei b assume "ei \<in> set [0..<length F]" "b \<in> set [0..<k + r + z]" "b \<notin> set F"
    and "build_block_coef_row k r z (k + r + z) (sel ! ei) (glrc_encode_matrix k r z)
      (glrc_build_placement_groups k r z) ! b \<noteq> 0"
  then show "b \<in> set hs" using assms by (auto simp: helpers_cover_def glrc_eq_def)
qed

subsection \<open>Products with the inverse\<close>

lemma inverse_times_mvec:
  "GF (inverse_times B f col t) = mvec f (ent f B) (\<lambda>j. GF (col ! j)) t"
  by (simp add: inverse_times_def gf_simps mvec_def ent_def)

text \<open>The weight of a coefficient row against the helpers, and how an update changes it.\<close>

lemma row_weight_update:
  fixes row :: buffer
  assumes "h < length row"
  shows "(\<Sum>i<length row. GF (row[h := row ! h XOR v] ! i) * y i)
       = (\<Sum>i<length row. GF (row ! i) * y i) + GF v * y h"
proof -
  have "(\<Sum>i<length row. GF (row[h := row ! h XOR v] ! i) * y i)
      = (\<Sum>i<length row. GF (row ! i) * y i + (if i = h then GF v * y h else 0))"
    by (intro sum.cong) (auto simp: nth_list_update gf_simps distrib_right)
  also have "\<dots> = (\<Sum>i<length row. GF (row ! i) * y i) + GF v * y h"
    using assms by (simp add: sum.distrib)
  finally show ?thesis .
qed

lemma add_terms_weight:
  fixes row :: buffer and ic :: byte
  assumes "\<forall>(h, c)\<in>set ts. h < length row"
  defines "row' \<equiv> fold (\<lambda>(h, c) row. row[h := row ! h XOR gf_mul ic c]) ts row"
  shows "length row' = length row \<and> (\<Sum>i<length row. GF (row' ! i) * y i)
       = (\<Sum>i<length row. GF (row ! i) * y i) + GF ic * (\<Sum>(h, c)\<leftarrow>ts. GF c * y h)"
  using assms(1) unfolding row'_def
proof (induction ts arbitrary: row)
  case (Cons t ts)
  obtain h c where t: "t = (h, c)" by (cases t)
  have "h < length row" "\<forall>(h, c)\<in>set ts. h < length (row[h := row ! h XOR gf_mul ic c])"
    using Cons.prems t by auto
  then show ?case
    using Cons.IH [of "row[h := row ! h XOR gf_mul ic c]"] row_weight_update [of h row "gf_mul ic c" y] Cons.prems t
    by (simp add: gf_simps algebra_simps)
qed simp

lemma direct_matrix_row_weight:
  assumes "\<forall>ei<f. \<forall>(h, c)\<in>set (tss ! ei). h < hc"
  shows "length (direct_matrix_row f hc B tss t) = hc"
    "(\<Sum>i<hc. GF (direct_matrix_row f hc B tss t ! i) * y i)
       = mvec f (ent f B) (\<lambda>ei. \<Sum>(h, c)\<leftarrow>tss ! ei. GF c * y h) t"
proof -
  let ?step = "\<lambda>equation row. let inverse_coef = B ! (t * f + equation) in
        if inverse_coef = 0 then row
        else fold (\<lambda>(h, c) row. row[h := row ! h XOR gf_mul inverse_coef c]) (tss ! equation) row"
  have "length (fold ?step [0..<q] (replicate hc 0)) = hc \<and>
    (\<Sum>i<hc. GF (fold ?step [0..<q] (replicate hc 0) ! i) * y i)
      = (\<Sum>ei<q. ent f B t ei * (\<Sum>(h, c)\<leftarrow>tss ! ei. GF c * y h))" if "q \<le> f" for q
    using that
  proof (induction q)
    case (Suc q)
    let ?row = "fold ?step [0..<q] (replicate hc 0)"
    have IH: "length ?row = hc" "(\<Sum>i<hc. GF (?row ! i) * y i)
      = (\<Sum>ei<q. ent f B t ei * (\<Sum>(h, c)\<leftarrow>tss ! ei. GF c * y h))" using Suc by auto
    have "q < f" using Suc.prems by simp
    then have ok: "\<forall>(h, c)\<in>set (tss ! q). h < length ?row" using assms IH(1) by simp
    show ?case
      using add_terms_weight [OF ok, of "B ! (t * f + q)" y] IH
      by (simp add: Let_def ent_def gf_simps)
  qed (simp add: gf_simps)
  from this [of f] show "length (direct_matrix_row f hc B tss t) = hc"
    "(\<Sum>i<hc. GF (direct_matrix_row f hc B tss t ! i) * y i)
       = mvec f (ent f B) (\<lambda>ei. \<Sum>(h, c)\<leftarrow>tss ! ei. GF c * y h) t"
    by (auto simp: direct_matrix_row_def mvec_def)
qed

end
