(* ===== verification/Recovery.thy ===== *)
theory Recovery
  imports Decode
begin

unbundle bit_operations_syntax

text \<open>
  Correctness of the gLRC decoders of theory \<open>Decode\<close>: on a stripe that \<^verbatim>\<open>encode_glrc\<close> produced, every
  decoder returns exactly the failed blocks, and returns at all exactly when the
  failed-block coefficients are invertible and the helpers cover the selected equations.
  The proofs rest on the facts \<open>glrc.inverse_recovers\<close> and \<open>glrc.failed_determined\<close> that the interpretation
  of \<open>parity_code\<close> supplies.
\<close>

section \<open>When the inverse exists and when the terms exist\<close>

lemma build_inverse_iff:
  "glrc_ilp_build_inverse k r z (k + r + z) F sel (glrc_encode_matrix k r z) (glrc_build_placement_groups k r z)
     \<noteq> None \<longleftrightarrow> trivial_kernel (length F) (glrc.failed_coefs k r z F sel)"
  using build_inverse_result [where k = k and r = r and z = z and F = F and sel = sel]
  by (auto split: option.splits dest: left_inverse_trivial_kernel)

lemma invertible_iff:
  "glrc_ilp_decode_matrix_invertible k r z F sel \<longleftrightarrow>
     F \<noteq> [] \<and> length sel = length F \<and> trivial_kernel (length F) (glrc.failed_coefs k r z F sel)"
  using build_inverse_iff by (auto simp: glrc_ilp_decode_matrix_invertible_def Let_def)

lemma eq_terms_loop_covers:
  "eq_terms_loop row F (helper_pos hs) bs = Some ts \<Longrightarrow> b \<in> set bs \<Longrightarrow> row ! b \<noteq> 0 \<Longrightarrow> b \<notin> set F \<Longrightarrow> b \<in> set hs"
proof (induction bs arbitrary: ts)
  case (Cons c bs)
  have "eq_terms_loop row F (helper_pos hs) bs \<noteq> None"
    and "row ! c \<noteq> 0 \<Longrightarrow> c \<notin> set F \<Longrightarrow> \<exists>h. helper_pos hs c = Some h"
    using Cons.prems(1) by (auto split: option.splits if_splits)
  then show ?case using Cons.IH Cons.prems(2-4) helper_pos_Some nth_mem by fastforce
qed simp

lemma eq_helper_terms_iff:
  assumes "length sel = length F"
  shows "eq_helper_terms k r z hs F sel \<noteq> None \<longleftrightarrow> helpers_cover k r z hs F sel"
proof
  assume "eq_helper_terms k r z hs F sel \<noteq> None"
  then obtain tss where tss: "eq_helper_terms k r z hs F sel = Some tss" by auto
  show "helpers_cover k r z hs F sel"
    unfolding helpers_cover_def
  proof (intro ballI allI impI)
    fix e b assume "e \<in> set sel" and b: "b < k + r + z" "glrc_eq k r z e b \<noteq> 0" "b \<notin> set F"
    then obtain ei where ei: "ei < length F" "e = sel ! ei" using assms by (auto simp: in_set_conv_nth)
    have "eq_terms_loop (build_block_coef_row k r z (k + r + z) e (glrc_encode_matrix k r z)
        (glrc_build_placement_groups k r z)) F (helper_pos hs) [0..<k + r + z] = Some (tss ! ei)"
      using all_eq_terms_nth [OF tss [unfolded eq_helper_terms_def]] ei by simp
    then show "b \<in> set hs"
      by (rule eq_terms_loop_covers) (use b in \<open>auto simp: glrc_eq_def gf_simps\<close>)
  qed
qed (use eq_helper_terms_Some [OF _ assms] in auto)

section \<open>One byte column\<close>

definition repair_task :: "nat \<Rightarrow> nat \<Rightarrow> nat \<Rightarrow> nat \<Rightarrow> buffer list \<Rightarrow> nat list \<Rightarrow> nat list \<Rightarrow> bool" where
  "repair_task k r z bs blocks F sel \<longleftrightarrow> 0 < z \<and> glrc_codeword k r z bs blocks \<and> distinct F
     \<and> set F \<subseteq> {..<k + r + z} \<and> length sel = length F \<and> set sel \<subseteq> {..<z + r}"

lemma repair_taskD:
  assumes "repair_task k r z bs blocks F sel"
  shows "0 < z" "glrc_codeword k r z bs blocks" "distinct F" "set F \<subseteq> {..<k + r + z}" "length sel = length F"
    "set sel \<subseteq> {..<z + r}" "blocks_ok (k + r + z) bs blocks"
  using assms by (auto simp: repair_task_def glrc_codeword_def)

lemma task_column:
  "repair_task k r z bs blocks F sel \<Longrightarrow> i < bs \<Longrightarrow> glrc_column k r z (\<lambda>b. GF (blocks ! b ! i))"
  unfolding glrc_column_def by (auto dest: repair_taskD(1,2))

lemma column_solved:
  assumes "repair_task k r z bs blocks F sel" "i < bs" "t < length F"
    and "left_inverse (length F) (ent (length F) B) (glrc.failed_coefs k r z F sel)"
    and "\<And>ei. ei < length F \<Longrightarrow> rhs ei = glrc.survivor_rhs k r z F sel (\<lambda>b. GF (blocks ! b ! i)) ei"
  shows "mvec (length F) (ent (length F) B) rhs t = GF (blocks ! (F ! t) ! i)"
  by (rule glrc.inverse_recovers [OF task_column [OF assms(1,2)] repair_taskD(3-6) [OF assms(1)] assms(4,3,5)])

lemma failed_block_length:
  "repair_task k r z bs blocks F sel \<Longrightarrow> t < length F \<Longrightarrow> length (blocks ! (F ! t)) = bs"
  by (metis blocks_ok_nth lessThan_iff nth_mem repair_taskD(4,7) subsetD)

lemma buffer_eqI:
  "length a = length b \<Longrightarrow> (\<And>i. i < length b \<Longrightarrow> GF (a ! i) = GF (b ! i)) \<Longrightarrow> a = b"
  by (rule nth_equalityI) (auto dest: GF_eqD)

lemma terms_ok_sum:
  "terms_ok k r z hs F sel tss \<Longrightarrow> ei < length F \<Longrightarrow>
     (\<Sum>(h, c)\<leftarrow>tss ! ei. GF c * x (hs ! h)) = glrc.survivor_rhs k r z F sel x ei"
  by (auto simp: terms_ok_def)

lemma terms_ok_index:
  "terms_ok k r z hs F sel tss \<Longrightarrow> ei < length F \<Longrightarrow> (h, c) \<in> set (tss ! ei) \<Longrightarrow> h < length hs"
  by (auto simp: terms_ok_def)

lemma terms_ok_sum_map:
  assumes "terms_ok k r z hs F sel tss" "ei < length F"
  shows "(\<Sum>(h, c)\<leftarrow>tss ! ei. GF c * GF (map g hs ! h ! i))
     = glrc.survivor_rhs k r z F sel (\<lambda>b. GF (g b ! i)) ei"
proof -
  have "(\<Sum>(h, c)\<leftarrow>tss ! ei. GF c * GF (map g hs ! h ! i)) = (\<Sum>(h, c)\<leftarrow>tss ! ei. GF c * GF (g (hs ! h) ! i))"
    using terms_ok_index [OF assms] by (intro arg_cong [where f = sum_list] map_cong) auto
  then show ?thesis using terms_ok_sum [OF assms] by simp
qed

section \<open>Decoding whole blocks\<close>

lemma direct_encode_recovers:
  assumes task: "repair_task k r z bs blocks F sel"
    and inv: "left_inverse (length F) (ent (length F) B) (glrc.failed_coefs k r z F sel)"
    and terms: "terms_ok k r z hs F sel tss"
  shows "encode_data bs (length hs) (length F)
       (concat (map (direct_matrix_row (length F) (length hs) B tss) [0..<length F]))
       (map ((!) blocks) hs) (replicate (length F) (replicate bs 0))
     = map ((!) blocks) F"
proof (rule nth_equalityI)
  let ?f = "length F" and ?hc = "length hs"
  let ?D = "concat (map (direct_matrix_row ?f ?hc B tss) [0..<?f])"
  let ?enc = "encode_data bs ?hc ?f ?D (map ((!) blocks) hs) (replicate ?f (replicate bs 0))"
  have ok0: "blocks_ok ?f bs (replicate ?f (replicate bs 0))" by (auto simp: blocks_ok_def)
  then have ok: "blocks_ok ?f bs ?enc" by (rule encode_data_blocks_ok)
  then show "length ?enc = length (map ((!) blocks) F)" by (simp add: blocks_ok_def)
  have tss: "\<forall>ei<?f. \<forall>(h, c)\<in>set (tss ! ei). h < ?hc" using terms by (simp add: terms_ok_def)
  fix t assume "t < length ?enc"
  then have t: "t < ?f" using ok by (simp add: blocks_ok_def)
  show "?enc ! t = map ((!) blocks) F ! t"
  proof (rule buffer_eqI)
    show "length (?enc ! t) = length (map ((!) blocks) F ! t)"
      using blocks_ok_nth [OF ok t] failed_block_length [OF task t] t by simp
    fix i assume "i < length (map ((!) blocks) F ! t)"
    then have i: "i < bs" using failed_block_length [OF task t] t by simp
    let ?y = "\<lambda>h. GF (blocks ! (hs ! h) ! i)"
    have "GF (?enc ! t ! i) = (\<Sum>j<?hc. GF (?D ! (t * ?hc + j)) * GF (map ((!) blocks) hs ! j ! i))"
      by (rule encode_data_nth [OF ok0 t i])
    also have "\<dots> = (\<Sum>j<?hc. GF (direct_matrix_row ?f ?hc B tss t ! j) * ?y j)"
      using t direct_matrix_row_weight(1) [OF tss] by (intro sum.cong) (auto simp: concat_map_upt_nth)
    also have "\<dots> = mvec ?f (ent ?f B) (\<lambda>ei. \<Sum>(h, c)\<leftarrow>tss ! ei. GF c * ?y h) t"
      by (rule direct_matrix_row_weight(2) [OF tss])
    also have "\<dots> = GF (blocks ! (F ! t) ! i)"
      by (rule column_solved [OF task i t inv terms_ok_sum [OF terms]])
    finally show "GF (?enc ! t ! i) = GF (map ((!) blocks) F ! t ! i)" using t by simp
  qed
qed

lemma decode_glrc_ilp_result:
  assumes task: "repair_task k r z bs blocks F sel"
  shows "decode_glrc_ilp k r z bs hs (map ((!) blocks) hs) F sel =
     (if hs \<noteq> [] \<and> glrc_ilp_decode_matrix_invertible k r z F sel \<and> helpers_cover k r z hs F sel
      then Some (map ((!) blocks) F) else None)"
proof -
  have len: "length sel = length F" by (rule repair_taskD(5) [OF task])
  show ?thesis
  proof (cases "F = [] \<or> \<not> trivial_kernel (length F) (glrc.failed_coefs k r z F sel)")
    case True
    then have "decode_glrc_ilp k r z bs hs (map ((!) blocks) hs) F sel = None"
      using build_inverse_iff [of k r z F sel] by (auto simp: decode_glrc_ilp_def Let_def)
    with True show ?thesis by (auto simp: invertible_iff)
  next
    case False
    then obtain B where B: "glrc_ilp_build_inverse k r z (k + r + z) F sel (glrc_encode_matrix k r z)
        (glrc_build_placement_groups k r z) = Some B"
      using build_inverse_iff [of k r z F sel] by auto
    show ?thesis
    proof (cases "eq_helper_terms k r z hs F sel")
      case None
      then show ?thesis
        using eq_helper_terms_iff [OF len, of k r z hs] B by (auto simp: decode_glrc_ilp_def Let_def)
    next
      case (Some tss)
      then show ?thesis
        using eq_helper_terms_iff [OF len, of k r z hs] B False len
          direct_encode_recovers [OF task build_inverse_Some(2) [OF B] eq_helper_terms_ok [OF Some]]
        by (auto simp: decode_glrc_ilp_def Let_def invertible_iff encode_data_def)
    qed
  qed
qed

section \<open>Decoding byte ranges\<close>

text \<open>Bytes \<open>off\<close> to \<open>off + len\<close> of \<open>old\<close> replaced by those of \<open>new\<close>.\<close>

definition patch :: "nat \<Rightarrow> nat \<Rightarrow> buffer \<Rightarrow> buffer \<Rightarrow> buffer" where
  "patch off len old new = take off old @ take len (drop off new) @ drop (off + len) old"

lemma patch_full: "length old = length new \<Longrightarrow> patch 0 (length new) old new = new"
  by (simp add: patch_def)

lemma fold_write_patch:
  assumes "length old = n" "length new = n" "off + len \<le> n" "\<And>i. off \<le> i \<Longrightarrow> i < off + len \<Longrightarrow> v i = new ! i"
  shows "fold (\<lambda>i b. b[i := v i]) [off..<off + len] old = patch off len old new"
proof (rule nth_equalityI)
  show "length (fold (\<lambda>i b. b[i := v i]) [off..<off + len] old) = length (patch off len old new)"
    using assms(1-3) by (simp add: patch_def length_fold_update [where g = "\<lambda>i. i"])
  fix i assume "i < length (fold (\<lambda>i b. b[i := v i]) [off..<off + len] old)"
  then have i: "i < n" using assms(1) by (simp add: length_fold_update [where g = "\<lambda>i. i"])
  show "fold (\<lambda>i b. b[i := v i]) [off..<off + len] old ! i = patch off len old new ! i"
  proof (cases "off \<le> i \<and> i < off + len")
    case True
    then have "fold (\<lambda>i b. b[i := v i]) [off..<off + len] old ! i = v i"
      using assms(1) i by (intro fold_update_nth [where g = "\<lambda>i. i" and h = "\<lambda>i _. v i"]) auto
    with True show ?thesis using assms i by (auto simp: patch_def nth_append)
  next
    case False
    then have "fold (\<lambda>i b. b[i := v i]) [off..<off + len] old ! i = old ! i"
      by (subst fold_update_other [where g = "\<lambda>i. i"]) auto
    with False show ?thesis using assms(1-3) i by (auto simp: patch_def nth_append)
  qed
qed

lemma fold_blockwise:
  "fold (\<lambda>t rec. rec[t := g t (rec ! t)]) [0..<length rec] rec = map (\<lambda>t. g t (rec ! t)) [0..<length rec]"
proof (rule nth_equalityI)
  fix i assume "i < length (fold (\<lambda>t rec. rec[t := g t (rec ! t)]) [0..<length rec] rec)"
  then have i: "i < length rec" by (simp add: length_fold_update [where g = "\<lambda>i. i"])
  then have "fold (\<lambda>t rec. rec[t := g t (rec ! t)]) [0..<length rec] rec ! i = g i (rec ! i)"
    by (intro fold_update_nth [where g = "\<lambda>t. t" and h = "\<lambda>t rec. g t (rec ! t)"]) auto
  with i show "fold (\<lambda>t rec. rec[t := g t (rec ! t)]) [0..<length rec] rec ! i
      = map (\<lambda>t. g t (rec ! t)) [0..<length rec] ! i" by simp
qed (simp add: length_fold_update [where g = "\<lambda>i. i"])

lemma decode_columns_eq:
  "length rec = f \<Longrightarrow> decode_columns B f col offs rec
     = map (\<lambda>t. fold (\<lambda>off b. b[off := inverse_times B f (col off) t]) offs (rec ! t)) [0..<f]"
proof (induction offs arbitrary: rec)
  case Nil
  then show ?case by (auto simp: decode_columns_def map_nth)
next
  case (Cons off offs)
  let ?rec = "map (\<lambda>t. (rec ! t)[off := inverse_times B f (col off) t]) [0..<f]"
  have "decode_columns B f col (off # offs) rec = decode_columns B f col offs ?rec"
    using Cons.prems fold_blockwise [of "\<lambda>t b. b[off := inverse_times B f (col off) t]" rec]
    by (simp add: decode_columns_def)
  also have "\<dots> = map (\<lambda>t. fold (\<lambda>off b. b[off := inverse_times B f (col off) t]) (off # offs) (rec ! t)) [0..<f]"
    by (subst Cons.IH) auto
  finally show ?case .
qed

text \<open>
  The column decoders write the failed blocks' bytes into the range, for blocks given whole
  or from byte \<open>base\<close> on.
\<close>

lemma decode_columns_patch:
  assumes task: "repair_task k r z bs blocks F sel"
    and inv: "left_inverse (length F) (ent (length F) B) (glrc.failed_coefs k r z F sel)"
    and rec: "blocks_ok (length F) n rec" and range: "off + len \<le> n" "base + n \<le> bs"
    and col: "\<And>i ei. off \<le> i \<Longrightarrow> i < off + len \<Longrightarrow> ei < length F \<Longrightarrow>
        GF (col i ! ei) = glrc.survivor_rhs k r z F sel (\<lambda>b. GF (blocks ! b ! (base + i))) ei"
  shows "decode_columns B (length F) col [off..<off + len] rec
     = map (\<lambda>t. patch off len (rec ! t) (take n (drop base (blocks ! (F ! t))))) [0..<length F]"
proof -
  have len: "length rec = length F" using rec by (simp add: blocks_ok_def)
  have cell: "inverse_times B (length F) (col i) t = take n (drop base (blocks ! (F ! t))) ! i"
    if "off \<le> i" "i < off + len" "t < length F" for i t
  proof -
    have "GF (inverse_times B (length F) (col i) t) = GF (blocks ! (F ! t) ! (base + i))"
      unfolding inverse_times_mvec
      by (rule column_solved [OF task _ that(3) inv]) (use col that range in auto)
    then show ?thesis using that range failed_block_length [OF task that(3)] by (auto dest: GF_eqD)
  qed
  show ?thesis
    unfolding decode_columns_eq [OF len]
  proof (rule map_cong [OF refl])
    fix t assume "t \<in> set [0..<length F]"
    then have t: "t < length F" by simp
    show "fold (\<lambda>off b. b[off := inverse_times B (length F) (col off) t]) [off..<off + len] (rec ! t)
        = patch off len (rec ! t) (take n (drop base (blocks ! (F ! t))))"
      by (rule fold_write_patch [where n = n])
        (use cell t range blocks_ok_nth [OF rec t] failed_block_length [OF task t] in auto)
  qed
qed

lemma fold_pair_xor:
  "GF (fold (\<lambda>(h, c) rhs. rhs XOR gf_mul c (y h)) ts a) = GF a + (\<Sum>(h, c)\<leftarrow>ts. GF c * GF (y h))"
  by (induction ts arbitrary: a) (auto simp: gf_simps add.assoc)

text \<open>The three outcomes of an entry point that first builds the inverse and then the terms.\<close>

lemma decode_cases:
  assumes "length sel = length F" "F \<noteq> []"
  obtains (singular) "\<not> glrc_ilp_decode_matrix_invertible k r z F sel"
      "glrc_ilp_build_inverse k r z (k + r + z) F sel (glrc_encode_matrix k r z)
        (glrc_build_placement_groups k r z) = None"
  | (uncovered) B where "\<not> helpers_cover k r z hs F sel" "eq_helper_terms k r z hs F sel = None"
      "glrc_ilp_build_inverse k r z (k + r + z) F sel (glrc_encode_matrix k r z)
        (glrc_build_placement_groups k r z) = Some B"
  | (ready) B tss where "glrc_ilp_decode_matrix_invertible k r z F sel" "helpers_cover k r z hs F sel"
      "glrc_ilp_build_inverse k r z (k + r + z) F sel (glrc_encode_matrix k r z)
        (glrc_build_placement_groups k r z) = Some B"
      "eq_helper_terms k r z hs F sel = Some tss"
  using assms build_inverse_iff [of k r z F sel] invertible_iff [of k r z F sel]
    eq_helper_terms_iff [OF assms(1), of k r z hs] by blast

lemma decode_glrc_ilp_range_result:
  assumes task: "repair_task k r z bs blocks F sel" "F \<noteq> []"
    and fresh: "blocks_ok (length F) bs fresh" and range: "off + len \<le> bs" "0 < len"
  shows "decode_glrc_ilp_range k r z (int bs) hs (map ((!) blocks) hs) F sel (int off) (int len) fresh =
     (if glrc_ilp_decode_matrix_invertible k r z F sel \<and> helpers_cover k r z hs F sel
      then Some (map (\<lambda>t. patch off len (fresh ! t) (blocks ! (F ! t))) [0..<length F]) else None)"
proof -
  have len: "length sel = length F" by (rule repair_taskD(5) [OF task(1)])
  have off: "nat (int off) = off" "nat (int off + int len) = off + len" by simp_all
  from len task(2) show ?thesis
  proof (cases rule: decode_cases [where k = k and r = r and z = z and hs = hs])
    case (ready B tss)
    let ?col = "\<lambda>i. map (\<lambda>ei. fold (\<lambda>(h, c) rhs. rhs XOR gf_mul c (map ((!) blocks) hs ! h ! i)) (tss ! ei) 0)
        [0..<length F]"
    note ok = eq_helper_terms_ok [OF ready(4)]
    have "decode_columns B (length F) ?col [off..<off + len] fresh
        = map (\<lambda>t. patch off len (fresh ! t) (take bs (drop 0 (blocks ! (F ! t))))) [0..<length F]"
    proof (rule decode_columns_patch [OF task(1) build_inverse_Some(2) [OF ready(3)] fresh range(1)])
      fix i ei assume ei: "ei < length F"
      show "GF (?col i ! ei) = glrc.survivor_rhs k r z F sel (\<lambda>b. GF (blocks ! b ! (0 + i))) ei"
        using ei by (simp add: fold_pair_xor terms_ok_sum_map [OF ok ei] gf_simps)
    qed simp
    moreover have "take bs (blocks ! (F ! t)) = blocks ! (F ! t)" if "t < length F" for t
      using failed_block_length [OF task(1) that] by simp
    ultimately show ?thesis
      using ready range task(2) len by (simp add: decode_glrc_ilp_range_def Let_def off cong: map_cong)
  qed (use range task(2) len in \<open>auto simp: decode_glrc_ilp_range_def Let_def\<close>)
qed

text \<open>Right-hand-side buffers that hold what the survivors contribute, from byte \<open>base\<close> of the stripe on.\<close>

definition rhs_ok :: "nat \<Rightarrow> nat \<Rightarrow> nat \<Rightarrow> buffer list \<Rightarrow> nat list \<Rightarrow> nat list \<Rightarrow> nat \<Rightarrow> nat \<Rightarrow> nat \<Rightarrow> buffer list \<Rightarrow> bool" where
  "rhs_ok k r z blocks F sel base off len rhs \<longleftrightarrow> (\<forall>i ei. off \<le> i \<longrightarrow> i < off + len \<longrightarrow> ei < length F \<longrightarrow>
     GF (rhs ! ei ! i) = glrc.survivor_rhs k r z F sel (\<lambda>b. GF (blocks ! b ! (base + i))) ei)"

lemma rhs_okD:
  "rhs_ok k r z blocks F sel base off len rhs \<Longrightarrow> off \<le> i \<Longrightarrow> i < off + len \<Longrightarrow> ei < length F \<Longrightarrow>
     GF (rhs ! ei ! i) = glrc.survivor_rhs k r z F sel (\<lambda>b. GF (blocks ! b ! (base + i))) ei"
  by (simp add: rhs_ok_def)

lemma decode_glrc_ilp_rhs_range_result:
  assumes task: "repair_task k r z bs blocks F sel" and range: "off + len \<le> bs"
    and rhs: "rhs_ok k r z blocks F sel 0 off len rhs"
  shows "decode_glrc_ilp_rhs_range k r z (int bs) rhs F sel (int off) (int len) =
     (if glrc_ilp_decode_matrix_invertible k r z F sel
      then Some (map (\<lambda>t. patch off len (replicate bs 0) (blocks ! (F ! t))) [0..<length F]) else None)"
proof (cases "glrc_ilp_decode_matrix_invertible k r z F sel")
  case True
  then obtain B where B: "glrc_ilp_build_inverse k r z (k + r + z) F sel (glrc_encode_matrix k r z)
        (glrc_build_placement_groups k r z) = Some B" and F: "F \<noteq> []" "length sel = length F"
    using build_inverse_iff [of k r z F sel] by (auto simp: invertible_iff)
  have off: "nat (int off) = off" "nat (int off + int len) = off + len" by simp_all
  have "decode_columns B (length F) (\<lambda>i. map (\<lambda>ei. rhs ! ei ! i) [0..<length F]) [off..<off + len]
      (replicate (length F) (replicate bs 0))
    = map (\<lambda>t. patch off len (replicate (length F) (replicate bs 0) ! t) (take bs (drop 0 (blocks ! (F ! t))))) [0..<length F]"
    by (rule decode_columns_patch [OF task build_inverse_Some(2) [OF B] _ range])
      (use rhs_okD [OF rhs] in \<open>auto simp: blocks_ok_def\<close>)
  moreover have "take bs (blocks ! (F ! t)) = blocks ! (F ! t)" if "t < length F" for t
    using failed_block_length [OF task that] by simp
  ultimately show ?thesis
    using True B F range by (simp add: decode_glrc_ilp_rhs_range_def Let_def off cong: map_cong)
next
  case False
  then show ?thesis
    using build_inverse_iff [of k r z F sel] range
    by (auto simp: decode_glrc_ilp_rhs_range_def Let_def invertible_iff)
qed

lemma decode_glrc_ilp_rhs_compact_result:
  assumes task: "repair_task k r z bs blocks F sel" and range: "base + len \<le> bs"
    and inv: "glrc_ilp_prepare_inverse k r z F sel = Some A_inv"
    and rhs: "rhs_ok k r z blocks F sel base 0 len rhs" "length rhs = length F"
  shows "decode_glrc_ilp_rhs_compact rhs A_inv (int (length F)) (int len)
     = Some (map (\<lambda>b. take len (drop base (blocks ! b))) F)"
proof -
  have F: "F \<noteq> []" and B: "glrc_ilp_build_inverse k r z (k + r + z) F sel (glrc_encode_matrix k r z)
        (glrc_build_placement_groups k r z) = Some A_inv"
    using inv by (auto simp: glrc_ilp_prepare_inverse_def Let_def split: if_splits)
  have "decode_columns A_inv (length F) (\<lambda>i. map (\<lambda>ei. rhs ! ei ! i) [0..<length F]) [0..<0 + len]
      (replicate (length F) (replicate len 0))
    = map (\<lambda>t. patch 0 len (replicate (length F) (replicate len 0) ! t) (take len (drop base (blocks ! (F ! t))))) [0..<length F]"
    by (rule decode_columns_patch [OF task build_inverse_Some(2) [OF B] _ _ range])
      (use rhs_okD [OF rhs(1)] in \<open>auto simp: blocks_ok_def\<close>)
  also have "\<dots> = map (\<lambda>b. take len (drop base (blocks ! b))) F"
    using failed_block_length [OF task] range by (intro nth_equalityI) (auto simp: patch_def)
  finally show ?thesis
    using F rhs(2) build_inverse_Some(1) [OF B] by (simp add: decode_glrc_ilp_rhs_compact_def cong: map_cong)
qed

section \<open>Decoding compact shards\<close>

definition compact_row :: "buffer list \<Rightarrow> nat \<Rightarrow> nat \<Rightarrow> nat list \<Rightarrow> buffer \<Rightarrow> buffer" where
  "compact_row ptrs off len idxs coefs =
     encode_data len (length idxs) 1 coefs (map (\<lambda>ti. drop off (ptrs ! (idxs ! ti))) [0..<length idxs])
       [replicate len 0] ! 0"

lemma encode_no_sources: "encode_data len 0 1 coefs [] [replicate len 0] ! 0 = replicate len 0"
  by (simp add: encode_data_def ec_encode_data_avx2_def ec_encode_data_base_blocks blocks_ok_def map_replicate_const)

lemma compact_rhs_eq:
  "length idxss = length coefss \<Longrightarrow> (\<And>i. i < length idxss \<Longrightarrow> length (idxss ! i) = length (coefss ! i)) \<Longrightarrow>
   compact_rhs ptrs off len idxss coefss = Some (map2 (compact_row ptrs off len) idxss coefss)"
proof (induction ptrs off len idxss coefss rule: compact_rhs.induct)
  case (1 ptrs off len idxs idxss coefs coefss)
  have "length idxs = length coefs" "\<And>i. i < length idxss \<Longrightarrow> length (idxss ! i) = length (coefss ! i)"
    using "1.prems"(2) [of 0] "1.prems"(2) [of "Suc _"] by auto
  with 1 show ?case
    using encode_no_sources [of len coefs] by (auto simp: Let_def compact_row_def encode_data_def)
qed auto

lemma compact_row_nth:
  assumes "length (compact_row ptrs off len (map fst ts) (map snd ts)) = len" "i < len"
  shows "GF (compact_row ptrs off len (map fst ts) (map snd ts) ! i)
     = (\<Sum>(h, c)\<leftarrow>ts. GF c * GF (drop off (ptrs ! h) ! i))"
proof -
  have "GF (compact_row ptrs off len (map fst ts) (map snd ts) ! i)
      = (\<Sum>j<length ts. GF (snd (ts ! j)) * GF (drop off (ptrs ! fst (ts ! j)) ! i))"
    unfolding compact_row_def using assms(2)
    by (subst encode_data_nth) (auto simp: blocks_ok_def intro!: sum.cong)
  also have "\<dots> = (\<Sum>(h, c)\<leftarrow>ts. GF c * GF (drop off (ptrs ! h) ! i))"
    by (simp add: sum_list_sum_nth case_prod_beta atLeast0LessThan)
  finally show ?thesis .
qed

lemma length_compact_row [simp]: "length (compact_row ptrs off len idxs coefs) = len"
  unfolding compact_row_def
  by (rule blocks_ok_nth [OF encode_data_blocks_ok]) (auto simp: blocks_ok_def)

text \<open>The inverse applied, as an encoding matrix, to the right-hand sides.\<close>

lemma inverse_encode_recovers:
  assumes task: "repair_task k r z bs blocks F sel"
    and inv: "left_inverse (length F) (ent (length F) B) (glrc.failed_coefs k r z F sel)"
    and range: "off + len \<le> bs"
    and rhs: "\<And>ei i. ei < length F \<Longrightarrow> i < len \<Longrightarrow>
      GF (rhs ! ei ! i) = glrc.survivor_rhs k r z F sel (\<lambda>b. GF (blocks ! b ! (off + i))) ei"
  shows "encode_data len (length F) (length F) B rhs (replicate (length F) (replicate len 0))
     = map (\<lambda>b. take len (drop off (blocks ! b))) F" (is "?enc = ?out")
proof (rule nth_equalityI)
  let ?f = "length F"
  have ok0: "blocks_ok ?f len (replicate ?f (replicate len 0))" by (auto simp: blocks_ok_def)
  note oke = encode_data_blocks_ok [OF ok0, where k = ?f and matrix = B and data = rhs]
  then show "length ?enc = length ?out" by (simp add: blocks_ok_def)
  fix t assume "t < length ?enc"
  then have t: "t < ?f" using oke by (simp add: blocks_ok_def)
  note lb = failed_block_length [OF task t] and le = blocks_ok_nth [OF oke t]
  show "?enc ! t = ?out ! t"
  proof (rule buffer_eqI)
    show "length (?enc ! t) = length (?out ! t)" using t lb le range by simp
    fix i assume "i < length (?out ! t)"
    then have i: "i < len" "off + i < bs" using t lb range by simp_all
    have "GF (?enc ! t ! i) = mvec ?f (ent ?f B) (\<lambda>j. GF (rhs ! j ! i)) t"
      by (simp add: encode_data_nth [OF ok0 t i(1)] mvec_def ent_def)
    also have "\<dots> = GF (blocks ! (F ! t) ! (off + i))"
      by (rule column_solved [OF task i(2) t inv rhs [OF _ i(1)]])
    finally show "GF (?enc ! t ! i) = GF (?out ! t ! i)" using t i lb by simp
  qed
qed

text \<open>
  Helper shards hold bytes \<open>base\<close> to \<open>base + slen\<close> of the helper blocks; the decoder
  reconstructs the bytes \<open>off\<close> to \<open>off + len\<close> of the failed blocks from them.
\<close>

lemma shard_rhs_survivors:
  assumes ok: "terms_ok k r z hs F sel tss" and blocks: "blocks_ok (k + r + z) bs blocks"
    and range: "base \<le> off" "off + len \<le> base + slen" "base + slen \<le> bs"
    and hs: "set hs \<subseteq> {..<k + r + z}" and ei: "ei < length F" and i: "i < len"
  shows "GF (compact_row (map (\<lambda>b. take slen (drop base (blocks ! b))) hs) (off - base) len
       (map fst (tss ! ei)) (map snd (tss ! ei)) ! i)
     = glrc.survivor_rhs k r z F sel (\<lambda>b. GF (blocks ! b ! (off + i))) ei"
proof -
  let ?ptrs = "map (\<lambda>b. take slen (drop base (blocks ! b))) hs"
  have byte: "drop (off - base) (?ptrs ! h) ! i = blocks ! (hs ! h) ! (off + i)" if h: "h < length hs" for h
  proof -
    have "hs ! h < k + r + z" using nth_mem [OF h] hs by auto
    then have "length (blocks ! (hs ! h)) = bs" by (rule blocks_ok_nth [OF blocks])
    then show ?thesis using h range i by simp
  qed
  have "(\<Sum>(h, c)\<leftarrow>tss ! ei. GF c * GF (drop (off - base) (?ptrs ! h) ! i))
      = (\<Sum>(h, c)\<leftarrow>tss ! ei. GF c * GF (blocks ! (hs ! h) ! (off + i)))"
    using terms_ok_index [OF ok ei] byte by (intro arg_cong [where f = sum_list] map_cong) auto
  then show ?thesis using i terms_ok_sum [OF ok ei] by (simp add: compact_row_nth)
qed

lemma decode_glrc_ilp_helper_compact_result:
  assumes task: "repair_task k r z bs blocks F sel"
    and prep: "glrc_ilp_prepare_helper_decode k r z hs F sel = Some (A_inv, idxs, coefs)"
    and range: "base \<le> off" "off + len \<le> base + slen" "base + slen \<le> bs"
    and hs: "set hs \<subseteq> {..<k + r + z}"
  shows "decode_glrc_ilp_helper_compact (map (\<lambda>b. take slen (drop base (blocks ! b))) hs) A_inv idxs coefs
       (int (length F)) (int base) (int off) (int len)
     = Some (map (\<lambda>b. take len (drop off (blocks ! b))) F)"
proof -
  obtain tss where F: "F \<noteq> []" and B: "glrc_ilp_build_inverse k r z (k + r + z) F sel (glrc_encode_matrix k r z)
        (glrc_build_placement_groups k r z) = Some A_inv"
    and tss: "eq_helper_terms k r z hs F sel = Some tss" "idxs = map (map fst) tss" "coefs = map (map snd) tss"
    using prep by (auto simp: glrc_ilp_prepare_helper_decode_def Let_def split: if_splits option.splits)
  note ok = eq_helper_terms_ok [OF tss(1)]
  have ltss: "length tss = length F" using ok by (simp add: terms_ok_def)
  let ?f = "length F" and ?ptrs = "map (\<lambda>b. take slen (drop base (blocks ! b))) hs"
  let ?rhs = "map2 (compact_row ?ptrs (off - base) len) idxs coefs"
  have crhs: "compact_rhs ?ptrs (off - base) len idxs coefs = Some ?rhs"
    by (rule compact_rhs_eq) (auto simp: tss)
  have enc: "encode_data len ?f ?f A_inv ?rhs (replicate ?f (replicate len 0))
      = map (\<lambda>b. take len (drop off (blocks ! b))) F"
    by (rule inverse_encode_recovers [OF task build_inverse_Some(2) [OF B]])
      (use range ltss shard_rhs_survivors [OF ok repair_taskD(7) [OF task] range hs] in \<open>auto simp: tss\<close>)
  have empty: "replicate ?f [] = map (\<lambda>b. take len (drop off (blocks ! b))) F" if "len = 0"
    using that by (intro nth_equalityI) auto
  show ?thesis
    using F range crhs ltss enc empty build_inverse_Some(1) [OF B]
    by (auto simp: decode_glrc_ilp_helper_compact_def Let_def encode_data_def tss nat_diff_distrib)
qed

text \<open>The prepared variant reuses the caller's buffers and still computes the same blocks.\<close>

lemma reuse_buffers_clear: "reuse_buffers True f n bufs = replicate f (replicate n 0)"
  by (auto simp: reuse_buffers_def map_replicate_const)

lemma reuse_buffers_ok: "blocks_ok f n (reuse_buffers False f n bufs)"
  by (auto simp: reuse_buffers_def blocks_ok_def)

lemma length_ec_init_tables: "length (ec_init_tables k rows a) = rows * k * 32"
proof -
  have "length (concat (map (\<lambda>j. gf_vect_mul_init (a ! (i * k + j))) [0..<k])) = k * 32" for i
    by (subst length_concat_chunks [where w = 32]) auto
  then show ?thesis
    unfolding ec_init_tables_def by (subst length_concat_chunks [where w = "k * 32"]) auto
qed

lemma prepared_rhs_eq:
  "length idxss = length coefss \<Longrightarrow> (\<And>i. i < length idxss \<Longrightarrow> length (idxss ! i) = length (coefss ! i)) \<Longrightarrow>
   prepared_rhs ptrs off len idxss (map (\<lambda>c. ec_init_tables (length c) 1 c) coefss)
     (replicate (length idxss) (replicate len 0)) = compact_rhs ptrs off len idxss coefss"
proof (induction ptrs off len idxss coefss rule: compact_rhs.induct)
  case (1 ptrs off len idxs idxss coefs coefss)
  have "length idxs = length coefs" "\<And>i. i < length idxss \<Longrightarrow> length (idxss ! i) = length (coefss ! i)"
    using "1.prems"(2) [of 0] "1.prems"(2) [of "Suc _"] by auto
  with 1 show ?case by (auto simp: Let_def length_ec_init_tables)
qed auto

lemma prepared_eq_compact:
  assumes "length A_inv = nat f * nat f" "length idxs = length coefs"
    and "\<And>i. i < length idxs \<Longrightarrow> length (idxs ! i) = length (coefs ! i)" "range_len \<noteq> 0"
  shows "map_option snd (decode_glrc_ilp_helper_compact_prepared ptrs idxs
       (map (\<lambda>c. ec_init_tables (length c) 1 c) coefs) (ec_init_tables (nat f) (nat f) A_inv) f
       base off range_len rhs recovered)
     = decode_glrc_ilp_helper_compact ptrs A_inv idxs coefs f base off range_len"
proof (cases "f \<le> 0 \<or> base < 0 \<or> off < base \<or> range_len < 0 \<or> int (length idxs) \<noteq> f")
  case True
  then show ?thesis
    by (auto simp: decode_glrc_ilp_helper_compact_prepared_def decode_glrc_ilp_helper_compact_def Let_def)
next
  case False
  have enc: "ec_encode_data_avx2 n m l v src dest = ec_encode_data_avx2 n m l v src (replicate l (replicate n 0))"
    if "blocks_ok l n dest" for n m l v src dest
    using that ec_encode_data_base_blocks [of l n "replicate l (replicate n 0)"]
    by (simp add: ec_encode_data_avx2_def ec_encode_data_base_blocks blocks_ok_def)
  have f: "f = int (length idxs)" using False by simp
  show ?thesis
    using False assms prepared_rhs_eq [OF assms(2,3)] enc [OF reuse_buffers_ok]
    by (auto simp: decode_glrc_ilp_helper_compact_prepared_def decode_glrc_ilp_helper_compact_def Let_def f
        reuse_buffers_clear length_ec_init_tables split: option.splits)
qed

lemma encode_glrc_codeword:
  assumes "blocks_ok k bs data"
  shows "glrc_codeword k r z bs (data @ encode_glrc k r z data (replicate (r + z) (replicate bs 0)) bs)"
proof -
  have "blocks_ok (r + z) bs (encode_glrc k r z data (replicate (r + z) (replicate bs 0)) bs)"
    unfolding encode_glrc_def by (rule encode_with_blocks_ok) (simp add: blocks_ok_def)
  with assms show ?thesis by (auto simp: glrc_codeword_def blocks_ok_def)
qed

lemma prepare_helper_decode_iff:
  assumes "length sel = length F"
  shows "(\<exists>A_inv idxs coefs. glrc_ilp_prepare_helper_decode k r z hs F sel = Some (A_inv, idxs, coefs)) \<longleftrightarrow>
     hs \<noteq> [] \<and> glrc_ilp_decode_matrix_invertible k r z F sel \<and> helpers_cover k r z hs F sel"
  using assms eq_helper_terms_iff [OF assms, of k r z hs]
  by (auto simp: glrc_ilp_prepare_helper_decode_def glrc_ilp_decode_matrix_invertible_def Let_def split: option.splits)

end
