(* ===== verification/RepairPlan.thy ===== *)
theory RepairPlan
  imports Recovery "HOL-Library.Product_Lexorder" "HOL-Library.List_Lexorder"
begin

text \<open>
  The repair planners of \<^verbatim>\<open>glrc_repair_ilp.cpp\<close>: given the failed blocks, each chooses as many
  recovery equations as there are failures and the surviving blocks (helpers) to read.

  An out-parameter \<^verbatim>\<open>plan\<close> together with the \<^verbatim>\<open>bool\<close> result is the returned plan: in every branch of
  the source the result equals the field \<^verbatim>\<open>success\<close>.  The measured \<^verbatim>\<open>ilp_solve_time_sec\<close> is the argument
  \<open>elapsed\<close>.  \<^verbatim>\<open>std::unordered_set\<close> of the failed ids is the set of the list.  The standard leaves the
  order of elements that compare equal under \<^verbatim>\<open>std::sort\<close> open, and one comparator here has ties: the
  planners that use it take the sorting function as the argument \<open>std_sort\<close>, of which only the
  standard's guarantee \<open>is_std_sort\<close> is ever assumed.
\<close>

section \<open>Equations and plans\<close>

datatype GlrcEquationType = LOCAL | GLOBAL

record GlrcEquation =
  eq_type :: GlrcEquationType
  eq_index_of :: nat
  eq_name :: string
  involved_blocks :: "nat list"

record GlrcIlpRepairPlan =
  success :: bool
  failed_block_ids :: "nat list"
  selected_equations :: "string list"
  selected_equation_indices :: "nat list"
  helper_block_ids :: "nat list"
  helper_block_count :: nat
  ilp_solve_time_sec :: real
  error_message :: string

definition empty_plan :: GlrcIlpRepairPlan where
  "empty_plan = \<lparr>success = False, failed_block_ids = [], selected_equations = [], selected_equation_indices = [],
     helper_block_ids = [], helper_block_count = 0, ilp_solve_time_sec = 0, error_message = []\<rparr>"

text \<open>\<^verbatim>\<open>std::to_string\<close> of a non-negative integer.\<close>

fun to_string :: "nat \<Rightarrow> string" where
  "to_string n = (if n < 10 then [char_of (48 + n)] else to_string (n div 10) @ [char_of (48 + n mod 10)])"

declare to_string.simps [simp del]

text \<open>\<^verbatim>\<open>std::to_string\<close> of a signed integer.\<close>

definition int_to_string :: "int \<Rightarrow> string" where
  "int_to_string i = (if i < 0 then ''-'' @ to_string (nat (- i)) else to_string (nat i))"

definition build_equation_from_group :: "nat \<Rightarrow> nat list list \<Rightarrow> GlrcEquation" where
  "build_equation_from_group group_id groups =
     \<lparr>eq_type = LOCAL, eq_index_of = group_id, eq_name = ''L'' @ to_string group_id, involved_blocks = groups ! group_id\<rparr>"

definition build_global_equation :: "nat \<Rightarrow> nat \<Rightarrow> GlrcEquation" where
  "build_global_equation k global_id =
     \<lparr>eq_type = GLOBAL, eq_index_of = global_id, eq_name = ''G'' @ to_string global_id,
      involved_blocks = [0..<k] @ [k + global_id]\<rparr>"

definition all_recovery_equations :: "nat \<Rightarrow> nat \<Rightarrow> nat \<Rightarrow> GlrcEquation list" where
  "all_recovery_equations k r z =
     (let groups = glrc_build_placement_groups k r z
      in map (\<lambda>i. build_equation_from_group i groups) [0..<z] @ map (build_global_equation k) [0..<r])"

definition glrc_build_recovery_equations :: "nat \<Rightarrow> nat \<Rightarrow> nat \<Rightarrow> nat list \<Rightarrow> GlrcEquation list \<times> nat list" where
  "glrc_build_recovery_equations k r z failed =
     (let all_equations = all_recovery_equations k r z
      in (all_equations,
          filter (\<lambda>idx. \<exists>b \<in> set (involved_blocks (all_equations ! idx)). b \<in> set failed) [0..<length all_equations]))"

section \<open>Helpers and combinations\<close>

definition helper_blocks_for_equation :: "GlrcEquation \<Rightarrow> nat list \<Rightarrow> nat list" where
  "helper_blocks_for_equation eq failed = filter (\<lambda>b. b \<notin> set failed) (involved_blocks eq)"

text \<open>The returned count is the length of the list.\<close>

definition union_helpers :: "nat list \<Rightarrow> GlrcEquation list \<Rightarrow> nat list \<Rightarrow> nat list" where
  "union_helpers selected all_equations failed =
     sort (remdups (concat (map (\<lambda>idx. helper_blocks_for_equation (all_equations ! idx) failed) selected)))"

definition combination_covers :: "nat list \<Rightarrow> GlrcEquation list \<Rightarrow> nat list \<Rightarrow> bool" where
  "combination_covers combo all_equations failed \<longleftrightarrow>
     card (set (filter (\<lambda>b. b \<in> set failed) (concat (map (\<lambda>idx. involved_blocks (all_equations ! idx)) combo))))
       = card (set failed)"

text \<open>The loop bound \<^verbatim>\<open>i <= n - (f - current.size())\<close> as an exclusive natural-number bound.\<close>

function enumerate_combinations :: "nat \<Rightarrow> nat \<Rightarrow> nat \<Rightarrow> nat list \<Rightarrow> nat list list" where
  "enumerate_combinations n f start current =
     (if length current = f then [current]
      else concat (map (\<lambda>i. enumerate_combinations n f (i + 1) (current @ [i]))
             [start..<Suc n - (f - length current)]))"
  by pat_completeness auto
termination
  by (relation "measure (\<lambda>(n, f, start, current). Suc n - start)") auto

declare enumerate_combinations.simps [simp del]

section \<open>Exhaustive search for the fewest helpers\<close>

definition INT_MAX :: nat where
  "INT_MAX = 2147483647"

definition ilp_step :: "nat \<Rightarrow> nat \<Rightarrow> nat \<Rightarrow> nat list \<Rightarrow> GlrcEquation list \<Rightarrow> nat list \<Rightarrow> nat list
    \<Rightarrow> nat \<times> nat list \<times> nat list \<Rightarrow> nat \<times> nat list \<times> nat list" where
  "ilp_step k r z failed all_equations candidate_indices positions best =
     (let selected = map ((!) candidate_indices) positions in
      if \<not> combination_covers selected all_equations failed then best
      else if \<not> glrc_ilp_decode_matrix_invertible k r z failed selected then best
      else let helpers = union_helpers selected all_equations failed; cnt = length helpers
           in if cnt < fst best then (cnt, selected, helpers) else best)"

definition glrc_solve_repair_ilp :: "real \<Rightarrow> nat \<Rightarrow> nat \<Rightarrow> nat \<Rightarrow> nat list \<Rightarrow> GlrcIlpRepairPlan" where
  "glrc_solve_repair_ilp elapsed k r z failed =
     (let plan = empty_plan\<lparr>failed_block_ids := failed\<rparr> in
      if failed = [] then plan\<lparr>error_message := ''empty failure set''\<rparr>
      else case glrc_build_recovery_equations k r z failed of (all_equations, candidate_indices) \<Rightarrow>
        let f = length failed in
        if length candidate_indices < f then plan\<lparr>error_message := ''not enough candidate equations''\<rparr>
        else let combos = enumerate_combinations (length candidate_indices) f 0 []
             in case fold (ilp_step k r z failed all_equations candidate_indices) combos (INT_MAX, [], []) of
               (best_helpers, best_combo, best_helper_ids) \<Rightarrow>
                 let plan = plan\<lparr>ilp_solve_time_sec := elapsed\<rparr> in
                 if best_combo = []
                 then plan\<lparr>error_message := ''no decodable equation combination (cover + invertible matrix)''\<rparr>
                 else plan\<lparr>success := True, selected_equation_indices := best_combo,
                        helper_block_ids := best_helper_ids, helper_block_count := best_helpers,
                        selected_equations := map (\<lambda>idx. eq_name (all_equations ! idx)) best_combo\<rparr>)"

section \<open>Rule-based selection\<close>

definition local_then_global_primary_equation_index :: "nat \<Rightarrow> nat \<Rightarrow> nat \<Rightarrow> nat \<Rightarrow> nat" where
  "local_then_global_primary_equation_index failed_id k r z =
     (if failed_id < k + r then nat (glrc_payload_group_id (int failed_id) (int k) (int r) (int z))
      else failed_id - k - r)"

text \<open>\<open>None\<close> when the selection is rejected; the plan is then left as it was.\<close>

definition fill_plan_from_selection :: "nat list \<Rightarrow> GlrcEquation list \<Rightarrow> nat \<Rightarrow> nat \<Rightarrow> nat \<Rightarrow> nat list
    \<Rightarrow> GlrcIlpRepairPlan \<Rightarrow> GlrcIlpRepairPlan option" where
  "fill_plan_from_selection selected all_equations k r z failed plan =
     (if \<not> combination_covers selected all_equations failed then None
      else if \<not> glrc_ilp_decode_matrix_invertible k r z failed selected then None
      else let helpers = union_helpers selected all_equations failed
           in Some (plan\<lparr>success := True, selected_equation_indices := selected,
                helper_block_ids := helpers, helper_block_count := length helpers,
                selected_equations := map (\<lambda>idx. eq_name (all_equations ! idx)) selected\<rparr>))"

definition equation_failed_cover_count :: "GlrcEquation \<Rightarrow> nat list \<Rightarrow> nat" where
  "equation_failed_cover_count eq failed = length (filter (\<lambda>b. b \<in> set failed) (involved_blocks eq))"

text \<open>Larger cover first, then the smaller index: the comparator is total, the sort unique.\<close>

definition local_equations_by_failed_cover :: "nat \<Rightarrow> GlrcEquation list \<Rightarrow> nat list \<Rightarrow> nat list" where
  "local_equations_by_failed_cover z all_equations failed =
     sort_key (\<lambda>lg. (- int (equation_failed_cover_count (all_equations ! lg) failed), lg)) [0..<z]"

text \<open>Append \<open>e\<close> for each \<open>e\<close> of a list that passes the test, while fewer than \<open>f\<close> are selected.\<close>

definition select_while :: "nat \<Rightarrow> (nat \<Rightarrow> nat list \<Rightarrow> bool) \<Rightarrow> nat list \<Rightarrow> nat list \<Rightarrow> nat list" where
  "select_while f test es selected =
     fold (\<lambda>e sel. if length sel < f \<and> test e sel then sel @ [e] else sel) es selected"

definition build_local_then_global_base_selection ::
  "nat \<Rightarrow> nat \<Rightarrow> nat \<Rightarrow> nat \<Rightarrow> GlrcEquation list \<Rightarrow> nat list \<Rightarrow> nat list" where
  "build_local_then_global_base_selection f k r z all_equations failed =
     (let local_order = local_equations_by_failed_cover z all_equations failed;
          globals = [z..<z + r];
          selected = select_while f (\<lambda>eq _. k + (eq - z) \<notin> set failed) globals [];
          selected = select_while f (\<lambda>lg _. k + r + lg \<notin> set failed) local_order selected;
          selected = select_while f (\<lambda>eq sel. eq \<notin> set sel) globals selected;
          selected = select_while f (\<lambda>lg sel. lg \<notin> set sel) local_order selected
      in take f selected)"

definition build_global_prefix_selection :: "nat \<Rightarrow> nat \<Rightarrow> nat \<Rightarrow> nat list" where
  "build_global_prefix_selection f r z =
     take f (select_while f (\<lambda>_ _. True) [0..<z] (select_while f (\<lambda>_ _. True) [z..<z + r] []))"

text \<open>The last local equation of the selection, or else its last equation, becomes \<open>lg\<close>.\<close>

definition replace_last_local :: "nat \<Rightarrow> nat \<Rightarrow> nat list \<Rightarrow> nat list" where
  "replace_last_local z lg variant =
     (case filter (\<lambda>i. variant ! i < z) (rev [0..<length variant]) of
        i # _ \<Rightarrow> variant[i := lg]
      | [] \<Rightarrow> if variant = [] then variant else variant[length variant - 1 := lg])"

definition try_local_variants :: "nat list \<Rightarrow> nat \<Rightarrow> nat \<Rightarrow> nat \<Rightarrow> nat list \<Rightarrow> GlrcEquation list
    \<Rightarrow> GlrcIlpRepairPlan \<Rightarrow> GlrcIlpRepairPlan option" where
  "try_local_variants base k r z failed all_equations plan =
     (let anchor_local = local_then_global_primary_equation_index (failed ! 0) k r z;
          try_locals = anchor_local # filter (\<lambda>lg. lg \<noteq> anchor_local) [0..<z]
      in case fill_plan_from_selection base all_equations k r z failed plan of
           Some plan' \<Rightarrow> Some plan'
         | None \<Rightarrow> first_some (\<lambda>lg.
             if lg \<in> set base then None
             else fill_plan_from_selection (replace_last_local z lg base) all_equations k r z failed plan) try_locals)"

definition combo_score :: "nat \<Rightarrow> nat list \<Rightarrow> nat list \<Rightarrow> int \<times> nat" where
  "combo_score z candidate_indices positions =
     (let eqs = map ((!) candidate_indices) positions
      in (- int (length (filter (\<lambda>eq. eq \<ge> z) eqs)), sum_list eqs))"

definition try_global_first_fallback :: "((nat list \<Rightarrow> int \<times> nat) \<Rightarrow> nat list list \<Rightarrow> nat list list)
    \<Rightarrow> nat \<Rightarrow> nat \<Rightarrow> nat \<Rightarrow> nat \<Rightarrow> nat list \<Rightarrow> GlrcEquation list \<Rightarrow> nat list
    \<Rightarrow> GlrcIlpRepairPlan \<Rightarrow> GlrcIlpRepairPlan option" where
  "try_global_first_fallback std_sort f k r z failed all_equations candidate_indices plan =
     (let prefix = build_global_prefix_selection f r z in
      case (if length prefix = f then try_local_variants prefix k r z failed all_equations plan else None) of
        Some plan' \<Rightarrow> Some plan'
      | None \<Rightarrow>
          let combos = std_sort (combo_score z candidate_indices)
                (enumerate_combinations (length candidate_indices) f 0 [])
          in first_some (\<lambda>positions. fill_plan_from_selection (map ((!) candidate_indices) positions)
               all_equations k r z failed plan) combos)"

definition glrc_solve_repair_local_then_global ::
  "((nat list \<Rightarrow> int \<times> nat) \<Rightarrow> nat list list \<Rightarrow> nat list list) \<Rightarrow> real \<Rightarrow> nat \<Rightarrow> nat \<Rightarrow> nat \<Rightarrow> nat list
    \<Rightarrow> GlrcIlpRepairPlan" where
  "glrc_solve_repair_local_then_global std_sort elapsed k r z failed =
     (let plan = empty_plan\<lparr>failed_block_ids := failed\<rparr> in
      if failed = [] then plan\<lparr>error_message := ''empty failure set''\<rparr>
      else case glrc_build_recovery_equations k r z failed of (all_equations, candidate_indices) \<Rightarrow>
        let f = length failed;
            plan =
              (if f = 1
               then case fill_plan_from_selection [local_then_global_primary_equation_index (failed ! 0) k r z]
                           all_equations k r z failed plan of
                   Some plan' \<Rightarrow> plan'
                 | None \<Rightarrow> plan\<lparr>error_message := ''single-failure local equation not decodable''\<rparr>
               else let selected = build_local_then_global_base_selection f k r z all_equations failed in
                 if length selected < f then plan\<lparr>error_message := ''not enough equations for failure count''\<rparr>
                 else case try_local_variants selected k r z failed all_equations plan of
                     Some plan' \<Rightarrow> plan'
                   | None \<Rightarrow>
                       (case try_global_first_fallback std_sort f k r z failed all_equations candidate_indices plan of
                          Some plan' \<Rightarrow> plan'
                        | None \<Rightarrow> plan\<lparr>error_message := ''local-then-global could not find decodable equation set''\<rparr>))
        in plan\<lparr>ilp_solve_time_sec := elapsed\<rparr>)"

definition glrc_solve_repair_global_first ::
  "((nat list \<Rightarrow> int \<times> nat) \<Rightarrow> nat list list \<Rightarrow> nat list list) \<Rightarrow> real \<Rightarrow> nat \<Rightarrow> nat \<Rightarrow> nat \<Rightarrow> nat list
    \<Rightarrow> GlrcIlpRepairPlan" where
  "glrc_solve_repair_global_first std_sort elapsed k r z failed =
     (let plan = empty_plan\<lparr>failed_block_ids := failed\<rparr> in
      if failed = [] then plan\<lparr>error_message := ''empty failure set''\<rparr>
      else case glrc_build_recovery_equations k r z failed of (all_equations, candidate_indices) \<Rightarrow>
        let f = length failed;
            plan =
              (if length candidate_indices < f then plan\<lparr>error_message := ''not enough candidate equations''\<rparr>
               else case try_global_first_fallback std_sort f k r z failed all_equations candidate_indices plan of
                   Some plan' \<Rightarrow> plan'
                 | None \<Rightarrow> plan\<lparr>error_message := ''global-first could not find decodable equation set''\<rparr>)
        in plan\<lparr>ilp_solve_time_sec := elapsed\<rparr>)"

section \<open>Local-first selection\<close>

record Candidate =
  cand_selected :: "nat list"
  cand_helpers :: "nat list"
  local_count :: nat
  local_failed_cover :: nat

definition candidate_of :: "nat \<Rightarrow> GlrcEquation list \<Rightarrow> nat list \<Rightarrow> nat list \<Rightarrow> Candidate" where
  "candidate_of z all_equations failed selected =
     (let locals = filter (\<lambda>eq_idx. eq_idx < z) selected
      in \<lparr>cand_selected = selected, cand_helpers = union_helpers selected all_equations failed,
          local_count = length locals,
          local_failed_cover = sum_list (map (\<lambda>eq_idx. equation_failed_cover_count (all_equations ! eq_idx) failed) locals)\<rparr>)"

definition candidate_better :: "Candidate \<Rightarrow> Candidate \<Rightarrow> bool" where
  "candidate_better cand best \<longleftrightarrow>
     local_count cand > local_count best
     \<or> (local_count cand = local_count best \<and> local_failed_cover cand > local_failed_cover best)
     \<or> (local_count cand = local_count best \<and> local_failed_cover cand = local_failed_cover best
        \<and> length (cand_helpers cand) < length (cand_helpers best))
     \<or> (local_count cand = local_count best \<and> local_failed_cover cand = local_failed_cover best
        \<and> length (cand_helpers cand) = length (cand_helpers best) \<and> cand_selected cand < cand_selected best)"

definition local_first_step :: "nat \<Rightarrow> nat \<Rightarrow> nat \<Rightarrow> nat list \<Rightarrow> GlrcEquation list \<Rightarrow> nat list \<Rightarrow> nat list
    \<Rightarrow> Candidate option \<Rightarrow> Candidate option" where
  "local_first_step k r z failed all_equations candidate_indices positions best =
     (let selected = map ((!) candidate_indices) positions in
      if \<not> combination_covers selected all_equations failed then best
      else if \<not> glrc_ilp_decode_matrix_invertible k r z failed selected then best
      else let cand = candidate_of z all_equations failed selected
           in case best of
                None \<Rightarrow> Some cand
              | Some b \<Rightarrow> if candidate_better cand b then Some cand else Some b)"

definition glrc_solve_repair_local_first :: "real \<Rightarrow> nat \<Rightarrow> nat \<Rightarrow> nat \<Rightarrow> nat list \<Rightarrow> GlrcIlpRepairPlan" where
  "glrc_solve_repair_local_first elapsed k r z failed =
     (let plan = empty_plan\<lparr>failed_block_ids := failed\<rparr> in
      if failed = [] then plan\<lparr>error_message := ''empty failure set''\<rparr>
      else case glrc_build_recovery_equations k r z failed of (all_equations, candidate_indices) \<Rightarrow>
        let f = length failed in
        if length candidate_indices < f then plan\<lparr>error_message := ''not enough candidate equations''\<rparr>
        else let combos = enumerate_combinations (length candidate_indices) f 0 [];
                 plan' = plan\<lparr>ilp_solve_time_sec := elapsed\<rparr>
             in case fold (local_first_step k r z failed all_equations candidate_indices) combos None of
               None \<Rightarrow> plan'\<lparr>error_message := ''local-first could not find decodable equation set''\<rparr>
             | Some best \<Rightarrow> plan'\<lparr>success := True, selected_equation_indices := cand_selected best,
                 helper_block_ids := cand_helpers best, helper_block_count := length (cand_helpers best),
                 selected_equations := map (\<lambda>idx. eq_name (all_equations ! idx)) (cand_selected best)\<rparr>)"

section \<open>Policies\<close>

definition glrc_normalize_equation_policy :: "string \<Rightarrow> string" where
  "glrc_normalize_equation_policy policy =
     (if policy = ''local-then-global'' \<or> policy = ''ceph-style'' \<or> policy = ''ceph'' then ''local-then-global''
      else if policy = ''local-first'' then ''local-first''
      else if policy = ''global-first'' \<or> policy = ''hmbr-rule'' \<or> policy = ''rule-based'' then ''global-first''
      else if policy = ''ilp-min-helper'' \<or> policy = ''ilp'' \<or> policy = [] then ''ilp-min-helper''
      else policy)"

definition glrc_solve_repair_plan ::
  "((nat list \<Rightarrow> int \<times> nat) \<Rightarrow> nat list list \<Rightarrow> nat list list) \<Rightarrow> real \<Rightarrow> string \<Rightarrow> nat \<Rightarrow> nat \<Rightarrow> nat \<Rightarrow> nat list
    \<Rightarrow> GlrcIlpRepairPlan" where
  "glrc_solve_repair_plan std_sort elapsed equation_policy k r z failed =
     (let normalized = glrc_normalize_equation_policy equation_policy in
      if normalized = ''local-then-global'' then glrc_solve_repair_local_then_global std_sort elapsed k r z failed
      else if normalized = ''local-first'' then glrc_solve_repair_local_first elapsed k r z failed
      else if normalized = ''global-first'' then glrc_solve_repair_global_first std_sort elapsed k r z failed
      else if normalized = ''ilp-min-helper'' then glrc_solve_repair_ilp elapsed k r z failed
      else empty_plan\<lparr>failed_block_ids := failed,
             error_message := ''unknown GlrcEquationPolicy: '' @ equation_policy\<rparr>)"

section \<open>Failures per group and labels\<close>

text \<open>The loop over the failed ids with its counters; a block in no group ends it.\<close>

fun one_per_group_loop :: "nat list list \<Rightarrow> nat list \<Rightarrow> nat list \<Rightarrow> bool" where
  "one_per_group_loop groups per_group [] = True"
| "one_per_group_loop groups per_group (fid # fids) =
     (case filter (\<lambda>gi. fid \<in> set (groups ! gi)) [0..<length groups] of
        [] \<Rightarrow> False
      | gi # _ \<Rightarrow> (if per_group ! gi + 1 > 1 then False
                  else one_per_group_loop groups (per_group[gi := per_group ! gi + 1]) fids))"

definition glrc_failures_at_most_one_per_group :: "nat \<Rightarrow> nat \<Rightarrow> nat \<Rightarrow> nat list \<Rightarrow> bool" where
  "glrc_failures_at_most_one_per_group k r z failed =
     (if failed = [] then False
      else let groups = glrc_build_placement_groups k r z
           in one_per_group_loop groups (replicate (length groups) 0) failed)"

definition glrc_block_label :: "int \<Rightarrow> int \<Rightarrow> int \<Rightarrow> int \<Rightarrow> string" where
  "glrc_block_label block_id k r z =
     (let n = k + r + z in
      if block_id < 0 \<or> block_id \<ge> n then ''?''
      else if block_id < k then ''D'' @ to_string (nat block_id)
      else if block_id < k + r then ''G'' @ to_string (nat (block_id - k))
      else ''L'' @ to_string (nat (block_id - k - r)))"

definition glrc_format_block_list :: "int list \<Rightarrow> int \<Rightarrow> int \<Rightarrow> int \<Rightarrow> string" where
  "glrc_format_block_list block_ids k r z =
     fold (\<lambda>i out. (if i > 0 then out @ '' '' else out) @ glrc_block_label (block_ids ! i) k r z)
       [0..<length block_ids] []"

end
