(* ===== verification/RepairSearch.thy ===== *)
theory RepairSearch
  imports RepairPlan
begin

unbundle bit_operations_syntax

text \<open>
  What the planners of theory \<open>RepairPlan\<close> find.  A failure set is decodable when some selection of
  equations has an invertible matrix of failed-block coefficients.  Decodability does not
  depend on the order of the selection, forces it to be free of duplicates and to touch
  every failed block, so the planners' restriction to increasing sequences of candidate
  equations loses nothing.
\<close>

section \<open>Equations\<close>

lemma length_all_equations [simp]: "length (all_recovery_equations k r z) = z + r"
  by (simp add: all_recovery_equations_def Let_def)

lemma involved_blocks_nth:
  "e < z + r \<Longrightarrow> involved_blocks (all_recovery_equations k r z ! e) =
     (if e < z then glrc_build_placement_groups k r z ! e else [0..<k] @ [k + (e - z)])"
  by (auto simp: all_recovery_equations_def Let_def nth_append build_equation_from_group_def build_global_equation_def)

lemma coefficient_involved:
  assumes "e < z + r" "0 < z" "b < k + r + z" "glrc_eq k r z e b \<noteq> 0"
  shows "b \<in> set (involved_blocks (all_recovery_equations k r z ! e))"
proof (cases "e < z")
  case True
  then show ?thesis using assms by (auto simp: involved_blocks_nth glrc_eq_local split: if_splits)
next
  case False
  then show ?thesis
    using assms glrc_eq_global [of "e - z" r z b k] by (auto simp: involved_blocks_nth split: if_splits)
qed

section \<open>Invertible selections\<close>

lemma invertible_inverses:
  assumes "glrc_ilp_decode_matrix_invertible k r z F sel"
  obtains B where "left_inverse (length F) B (glrc.failed_coefs k r z F sel)"
    "left_inverse (length F) (glrc.failed_coefs k r z F sel) B" "length sel = length F" "F \<noteq> []"
  using assms build_inverse_iff [of k r z F sel] build_inverse_Some [of k r z F sel] that
  by (auto simp: invertible_iff)

lemma left_inverse_column:
  assumes "left_inverse n B A" "c < n"
  shows "\<exists>b<n. A b c \<noteq> 0" "d < n \<Longrightarrow> (\<And>b. b < n \<Longrightarrow> A b c = A b d) \<Longrightarrow> c = d"
proof -
  have one: "(\<Sum>b<n. B c b * A b c) = 1" using assms by (simp add: left_inverse_def delta_def)
  show "\<exists>b<n. A b c \<noteq> 0"
  proof (rule ccontr)
    assume "\<not> (\<exists>b<n. A b c \<noteq> 0)"
    then have "(\<Sum>b<n. B c b * A b c) = 0" by simp
    with one show False by simp
  qed
  assume d: "d < n" and eq: "\<And>b. b < n \<Longrightarrow> A b c = A b d"
  have "(\<Sum>b<n. B c b * A b c) = (\<Sum>b<n. B c b * A b d)" using eq by simp
  also have "\<dots> = delta c d" using assms d by (simp add: left_inverse_def)
  finally show "c = d" using one by (simp add: delta_def split: if_splits)
qed

lemma left_inverse_row:
  assumes "left_inverse n A B" "a < n"
  shows "\<exists>b<n. A a b \<noteq> 0" "d < n \<Longrightarrow> (\<And>b. b < n \<Longrightarrow> A a b = A d b) \<Longrightarrow> a = d"
proof -
  have one: "(\<Sum>b<n. A a b * B b a) = 1" using assms by (simp add: left_inverse_def delta_def)
  show "\<exists>b<n. A a b \<noteq> 0"
  proof (rule ccontr)
    assume "\<not> (\<exists>b<n. A a b \<noteq> 0)"
    then have "(\<Sum>b<n. A a b * B b a) = 0" by simp
    with one show False by simp
  qed
  assume d: "d < n" and eq: "\<And>b. b < n \<Longrightarrow> A a b = A d b"
  have "(\<Sum>b<n. A a b * B b a) = (\<Sum>b<n. A d b * B b a)" using eq by simp
  also have "\<dots> = delta d a" using assms d by (simp add: left_inverse_def)
  finally show "a = d" using one by (simp add: delta_def split: if_splits)
qed

lemma invertible_distinct:
  assumes "glrc_ilp_decode_matrix_invertible k r z F sel"
  shows "distinct F" "distinct sel"
proof -
  from assms obtain B where B: "left_inverse (length F) B (glrc.failed_coefs k r z F sel)"
    "left_inverse (length F) (glrc.failed_coefs k r z F sel) B" "length sel = length F"
    by (rule invertible_inverses)
  show "distinct F"
    unfolding distinct_conv_nth
    using left_inverse_column(2) [OF B(1)] by (fastforce simp: glrc.failed_coefs_def)
  show "distinct sel"
    unfolding distinct_conv_nth B(3)
    using left_inverse_row(2) [OF B(2)] by (fastforce simp: glrc.failed_coefs_def)
qed

lemma invertible_touches:
  assumes "glrc_ilp_decode_matrix_invertible k r z F sel"
  shows "b \<in> set F \<Longrightarrow> \<exists>e \<in> set sel. glrc_eq k r z e b \<noteq> 0"
    "e \<in> set sel \<Longrightarrow> \<exists>b \<in> set F. glrc_eq k r z e b \<noteq> 0"
proof -
  from assms obtain B where B: "left_inverse (length F) B (glrc.failed_coefs k r z F sel)"
    "left_inverse (length F) (glrc.failed_coefs k r z F sel) B" "length sel = length F"
    by (rule invertible_inverses)
  { assume "b \<in> set F"
    then obtain t where "t < length F" "b = F ! t" by (auto simp: in_set_conv_nth)
    then show "\<exists>e \<in> set sel. glrc_eq k r z e b \<noteq> 0"
      using left_inverse_column(1) [OF B(1)] B(3) by (metis glrc.failed_coefs_def nth_mem) }
  { assume "e \<in> set sel"
    then obtain a where "a < length F" "e = sel ! a" using B(3) by (auto simp: in_set_conv_nth)
    then show "\<exists>b \<in> set F. glrc_eq k r z e b \<noteq> 0"
      using left_inverse_row(1) [OF B(2)] by (metis glrc.failed_coefs_def nth_mem) }
qed

text \<open>Only the set of selected equations matters.\<close>

lemma trivial_kernel_set:
  assumes "length sel = length F"
  shows "trivial_kernel (length F) (glrc.failed_coefs k r z F sel) \<longleftrightarrow>
     (\<forall>x. (\<forall>e \<in> set sel. (\<Sum>t<length F. glrc_eq k r z e (F ! t) * x t) = 0) \<longrightarrow> (\<forall>t<length F. x t = 0))"
proof -
  have "(\<forall>a<length F. mvec (length F) (glrc.failed_coefs k r z F sel) x a = 0)
      \<longleftrightarrow> (\<forall>e \<in> set sel. (\<Sum>t<length F. glrc_eq k r z e (F ! t) * x t) = 0)" for x
    using assms nth_mem [of _ sel] by (auto simp: mvec_def glrc.failed_coefs_def in_set_conv_nth [of _ sel])
  then show ?thesis by (simp add: trivial_kernel_def)
qed

lemma invertible_set_cong:
  assumes "set sel = set sel'" "length sel = length sel'"
  shows "glrc_ilp_decode_matrix_invertible k r z F sel \<longleftrightarrow> glrc_ilp_decode_matrix_invertible k r z F sel'"
  using assms trivial_kernel_set [of sel F k r z] trivial_kernel_set [of sel' F k r z]
  by (auto simp: invertible_iff)

section \<open>Covering\<close>

lemma covers_iff:
  "combination_covers sel eqs F \<longleftrightarrow> (\<forall>b \<in> set F. \<exists>e \<in> set sel. b \<in> set (involved_blocks (eqs ! e)))"
proof -
  let ?C = "set (filter (\<lambda>b. b \<in> set F) (concat (map (\<lambda>idx. involved_blocks (eqs ! idx)) sel)))"
  have "card ?C = card (set F) \<longleftrightarrow> ?C = set F"
    by (metis (no_types, lifting) List.finite_set card_subset_eq mem_Collect_eq set_filter subsetI)
  then show ?thesis by (auto simp: combination_covers_def)
qed

lemma invertible_covers:
  assumes "glrc_ilp_decode_matrix_invertible k r z F sel" "0 < z" "set F \<subseteq> {..<k + r + z}" "set sel \<subseteq> {..<z + r}"
  shows "combination_covers sel (all_recovery_equations k r z) F"
  unfolding covers_iff
  using invertible_touches(1) [OF assms(1)] coefficient_involved [of _ z r _ k] assms(2-4)
  by (metis lessThan_iff subsetD)

lemma set_union_helpers:
  "set (union_helpers sel eqs F) = {b. b \<notin> set F \<and> (\<exists>e \<in> set sel. b \<in> set (involved_blocks (eqs ! e)))}"
  by (auto simp: union_helpers_def helper_blocks_for_equation_def)

lemma union_helpers_sorted: "sorted_wrt (<) (union_helpers sel eqs F)"
  by (simp add: union_helpers_def strict_sorted_iff)

lemma union_helpers_set_cong:
  "set sel = set sel' \<Longrightarrow> union_helpers sel eqs F = union_helpers sel' eqs F"
  by (intro strict_sorted_equal union_helpers_sorted) (simp add: set_union_helpers)

lemma union_helpers_cover:
  assumes "0 < z" "set sel \<subseteq> {..<z + r}"
  shows "helpers_cover k r z (union_helpers sel (all_recovery_equations k r z) F) F sel"
  unfolding helpers_cover_def set_union_helpers
  using coefficient_involved [of _ z r _ k] assms by blast

lemma involved_in_stripe:
  "e < z + r \<Longrightarrow> b \<in> set (involved_blocks (all_recovery_equations k r z ! e)) \<Longrightarrow> b < k + r + z"
  by (auto simp: involved_blocks_nth in_placement_group split: if_splits)

lemma union_helpers_in_stripe:
  "set sel \<subseteq> {..<z + r} \<Longrightarrow> set (union_helpers sel (all_recovery_equations k r z) F) \<subseteq> {..<k + r + z} - set F"
  unfolding set_union_helpers using involved_in_stripe [of _ z r _ k] by blast

section \<open>Enumerating combinations\<close>

lemma enumerate_combinations_set:
  "length current \<le> f \<Longrightarrow> set (enumerate_combinations n f start current) =
     {current @ ys |ys. sorted_wrt (<) ys \<and> set ys \<subseteq> {start..<n} \<and> length ys = f - length current}"
proof (induction n f start current rule: enumerate_combinations.induct)
  case (1 n f start current)
  show ?case
  proof (cases "length current = f")
    case True
    then show ?thesis by (subst enumerate_combinations.simps) auto
  next
    case False
    with "1.prems" have lt: "length current < f" by simp
    let ?d = "f - length current"
    have "set (enumerate_combinations n f start current) =
        (\<Union>i \<in> {start..<Suc n - ?d}. set (enumerate_combinations n f (i + 1) (current @ [i])))"
      using False by (subst enumerate_combinations.simps) auto
    also have "\<dots> = (\<Union>i \<in> {start..<Suc n - ?d}. {current @ i # ys |ys. sorted_wrt (<) ys
        \<and> set ys \<subseteq> {i + 1..<n} \<and> length ys = ?d - 1})"
      using "1.IH" [OF False] lt by (intro SUP_cong refl) (auto simp: Suc_diff_Suc)
    also have "\<dots> = {current @ ys |ys. sorted_wrt (<) ys \<and> set ys \<subseteq> {start..<n} \<and> length ys = ?d}"
      (is "?L = ?R")
    proof (intro equalityI subsetI)
      fix xs assume "xs \<in> ?L"
      then show "xs \<in> ?R" using lt by (fastforce simp: Suc_diff_Suc)
    next
      fix xs assume "xs \<in> ?R"
      then obtain ys where ys: "xs = current @ ys" "sorted_wrt (<) ys" "set ys \<subseteq> {start..<n}" "length ys = ?d" by auto
      then obtain i zs where i: "ys = i # zs" using lt by (cases ys) auto
      have zs: "set zs \<subseteq> {i + 1..<n}" "distinct zs" using ys(2,3) i by (auto simp: strict_sorted_iff Suc_le_eq subset_iff)
      then have "length zs \<le> n - (i + 1)" using card_mono [of "{i + 1..<n}" "set zs"] by (simp add: distinct_card)
      then have "i < Suc n - ?d" using ys(3,4) i lt by auto
      then show "xs \<in> ?L" using ys i zs by auto
    qed
    finally show ?thesis .
  qed
qed

text \<open>The selections that the positions of the combinations denote.\<close>

lemma combos_selected:
  fixes cand :: "nat list"
  assumes "sorted_wrt (<) cand"
  shows "map ((!) cand) ` set (enumerate_combinations (length cand) f 0 []) =
     {sel. sorted_wrt (<) sel \<and> set sel \<subseteq> set cand \<and> length sel = f}" (is "?L = ?R")
proof (intro equalityI subsetI)
  fix sel assume "sel \<in> ?L"
  then obtain ps where ps: "sorted_wrt (<) ps" "set ps \<subseteq> {0..<length cand}" "length ps = f" "sel = map ((!) cand) ps"
    by (auto simp: enumerate_combinations_set)
  have "sorted_wrt (\<lambda>p q. cand ! p < cand ! q) ps"
    by (rule sorted_wrt_mono_rel [OF _ ps(1)]) (use ps(2) sorted_wrt_nth_less [OF assms] in auto)
  then show "sel \<in> ?R" using ps by (auto simp: sorted_wrt_map)
next
  fix sel assume sel: "sel \<in> ?R"
  let ?ps = "filter (\<lambda>p. cand ! p \<in> set sel) [0..<length cand]"
  have map: "map ((!) cand) ?ps = filter (\<lambda>e. e \<in> set sel) cand"
    using filter_map [of "\<lambda>e. e \<in> set sel" "(!) cand" "[0..<length cand]"] by (simp add: map_nth comp_def)
  have "sorted_wrt (<) (filter (\<lambda>e. e \<in> set sel) cand)" by (rule sorted_wrt_filter [OF assms])
  moreover have "set (filter (\<lambda>e. e \<in> set sel) cand) = set sel" using sel by auto
  ultimately have "filter (\<lambda>e. e \<in> set sel) cand = sel" using sel by (intro strict_sorted_equal) auto
  then have eq: "sel = map ((!) cand) ?ps" unfolding map by (rule sym)
  have "sorted_wrt (<) ?ps" by (rule sorted_wrt_filter) simp
  moreover have "length ?ps = f" using arg_cong [OF eq, of length] sel by simp
  ultimately have "?ps \<in> set (enumerate_combinations (length cand) f 0 [])"
    by (auto simp: enumerate_combinations_set)
  then show "sel \<in> ?L" using eq by blast
qed

section \<open>Decodable failure sets\<close>

definition decodable :: "nat \<Rightarrow> nat \<Rightarrow> nat \<Rightarrow> nat list \<Rightarrow> bool" where
  "decodable k r z F \<longleftrightarrow>
     (\<exists>sel. set sel \<subseteq> {..<z + r} \<and> glrc_ilp_decode_matrix_invertible k r z F sel)"

definition accepted :: "nat \<Rightarrow> nat \<Rightarrow> nat \<Rightarrow> nat list \<Rightarrow> nat list \<Rightarrow> bool" where
  "accepted k r z F sel \<longleftrightarrow> combination_covers sel (all_recovery_equations k r z) F
     \<and> glrc_ilp_decode_matrix_invertible k r z F sel"

definition candidates :: "nat \<Rightarrow> nat \<Rightarrow> nat \<Rightarrow> nat list \<Rightarrow> nat list" where
  "candidates k r z F = snd (glrc_build_recovery_equations k r z F)"

definition selections :: "nat \<Rightarrow> nat \<Rightarrow> nat \<Rightarrow> nat list \<Rightarrow> nat list set" where
  "selections k r z F = {sel. sorted_wrt (<) sel \<and> set sel \<subseteq> set (candidates k r z F) \<and> length sel = length F}"

lemma build_recovery_equations_eq:
  "glrc_build_recovery_equations k r z F = (all_recovery_equations k r z, candidates k r z F)"
  by (simp add: candidates_def glrc_build_recovery_equations_def Let_def)

lemma candidates_sorted: "sorted_wrt (<) (candidates k r z F)"
  by (auto simp: candidates_def glrc_build_recovery_equations_def Let_def intro!: sorted_wrt_filter)

lemma set_candidates:
  "set (candidates k r z F) =
     {e. e < z + r \<and> (\<exists>b \<in> set F. b \<in> set (involved_blocks (all_recovery_equations k r z ! e)))}"
  by (auto simp: candidates_def glrc_build_recovery_equations_def Let_def)

lemma selections_eq:
  "map ((!) (candidates k r z F)) ` set (enumerate_combinations (length (candidates k r z F)) (length F) 0 [])
     = selections k r z F"
  using combos_selected [OF candidates_sorted] by (simp add: selections_def)

lemma selections_range: "sel \<in> selections k r z F \<Longrightarrow> set sel \<subseteq> {..<z + r}"
  by (auto simp: selections_def set_candidates)

text \<open>Every decodable failure set has an accepted selection among the enumerated ones.\<close>

lemma accepted_sorted:
  assumes "set sel \<subseteq> {..<z + r}" "glrc_ilp_decode_matrix_invertible k r z F sel" "0 < z" "set F \<subseteq> {..<k + r + z}"
  shows "sorted_list_of_set (set sel) \<in> selections k r z F" "accepted k r z F (sorted_list_of_set (set sel))"
proof -
  let ?s = "sorted_list_of_set (set sel)"
  have len: "length ?s = length sel" "length sel = length F"
    using invertible_distinct(2) [OF assms(2)] assms(2) by (simp_all add: distinct_card invertible_iff)
  have inv: "glrc_ilp_decode_matrix_invertible k r z F ?s"
    using invertible_set_cong [of ?s sel] len(1) assms(2) by simp
  have "e \<in> set (candidates k r z F)" if e: "e \<in> set sel" for e
  proof -
    have "e < z + r" using e assms(1) by auto
    moreover obtain b where "b \<in> set F" "glrc_eq k r z e b \<noteq> 0" using invertible_touches(2) [OF assms(2) e] by auto
    ultimately show ?thesis using coefficient_involved [of e z r b k] assms(3,4) by (auto simp: set_candidates)
  qed
  then show "?s \<in> selections k r z F" using len by (auto simp: selections_def)
  show "accepted k r z F ?s"
    using invertible_covers [OF inv assms(3,4)] inv assms(1) by (simp add: accepted_def)
qed

lemma decodable_iff_accepted:
  assumes "0 < z" "set F \<subseteq> {..<k + r + z}"
  shows "decodable k r z F \<longleftrightarrow> (\<exists>sel \<in> selections k r z F. accepted k r z F sel)"
  using accepted_sorted [OF _ _ assms] selections_range
  unfolding decodable_def accepted_def by blast

lemma decodable_candidates:
  assumes "0 < z" "set F \<subseteq> {..<k + r + z}" "decodable k r z F"
  shows "length F \<le> length (candidates k r z F)" "F \<noteq> []" "length F \<le> z + r"
proof -
  obtain sel where sel: "sel \<in> selections k r z F" "accepted k r z F sel"
    using decodable_iff_accepted [OF assms(1,2)] assms(3) by auto
  have "card (set sel) \<le> card (set (candidates k r z F))"
    using sel(1) by (auto intro!: card_mono simp: selections_def)
  moreover have "card (set sel) \<le> z + r"
    using card_mono [OF _ selections_range [OF sel(1)]] by simp
  moreover have "card (set sel) = length F"
    using sel(1) by (auto simp: selections_def strict_sorted_iff distinct_card)
  moreover have "card (set (candidates k r z F)) = length (candidates k r z F)"
    using candidates_sorted by (simp add: strict_sorted_iff distinct_card)
  ultimately show "length F \<le> length (candidates k r z F)" "length F \<le> z + r" by auto
  show "F \<noteq> []" using sel(2) by (auto simp: accepted_def invertible_iff)
qed

section \<open>Local equations\<close>

abbreviation home_group :: "nat \<Rightarrow> nat \<Rightarrow> nat \<Rightarrow> nat \<Rightarrow> nat" where
  "home_group k r z b \<equiv> local_then_global_primary_equation_index b k r z"

lemma home_group_iff:
  assumes "0 < z" "b < k + r + z" "g < z"
  shows "b \<in> set (glrc_build_placement_groups k r z ! g) \<longleftrightarrow> home_group k r z b = g"
  using assms by (auto simp: in_placement_group local_then_global_primary_equation_index_def group_of_def)

lemma home_group_less: "0 < z \<Longrightarrow> b < k + r + z \<Longrightarrow> home_group k r z b < z"
  using group_of_less [of b k r z] by (auto simp: local_then_global_primary_equation_index_def group_of_def)

lemma local_coefficient_nonzero:
  assumes "k + r < 256"
  shows "glrc_local_block_coefficient (int b) (int k) (int r) \<noteq> 0"
proof (cases "b < k")
  case True
  have "(word_of_int (int b XOR int (k + r)) :: byte) \<noteq> 0"
  proof
    assume "(word_of_int (int b XOR int (k + r)) :: byte) = 0"
    then have "(word_of_nat b :: byte) XOR word_of_nat (k + r) = 0"
      by (simp only: of_int_xor_eq of_int_of_nat_eq)
    then have "GF (word_of_nat b) + GF (word_of_nat (k + r)) = 0" by (metis GF_hom(1,4))
    then have "(word_of_nat b :: byte) = word_of_nat (k + r)" by (simp only: gf256_add_eq_0_iff gf256.inject)
    then have "b mod 256 = (k + r) mod 256" by (simp only: word_of_nat_eq_iff take_bit_eq_mod) simp
    then show False using True assms by simp
  qed
  then show ?thesis using True gf.inv_nonzero by (simp add: glrc_local_block_coefficient_def)
qed (simp add: glrc_local_block_coefficient_def)

lemma home_equation:
  assumes "0 < z" "k + r < 256" "b < k + r + z" "g < z"
  shows "glrc_eq k r z g b \<noteq> 0 \<longleftrightarrow> home_group k r z b = g"
  using assms local_coefficient_nonzero by (simp add: glrc_eq_local home_group_iff)

text \<open>Failed blocks of pairwise different groups are decoded by their own local equations.\<close>

lemma home_equations_invertible:
  assumes "0 < z" "k + r < 256" "set F \<subseteq> {..<k + r + z}" "F \<noteq> []" "distinct (map (home_group k r z) F)"
  shows "glrc_ilp_decode_matrix_invertible k r z F (map (home_group k r z) F)"
    "set (map (home_group k r z) F) \<subseteq> {..<z + r}"
proof -
  have less: "F ! t < k + r + z" if "t < length F" for t using assms(3) that nth_mem by blast
  show "set (map (home_group k r z) F) \<subseteq> {..<z + r}"
    using assms(1,3) home_group_less [of z _ k r] by fastforce
  have "x a = 0"
    if x: "\<forall>a<length F. mvec (length F) (glrc.failed_coefs k r z F (map (home_group k r z) F)) x a = 0"
      and a: "a < length F" for x a
  proof -
    let ?e = "home_group k r z (F ! a)"
    have e: "?e < z" using home_group_less [OF assms(1) less [OF a]] .
    have zero: "glrc_eq k r z ?e (F ! t) * x t = 0" if "t < length F" "t \<noteq> a" for t
      using home_equation [OF assms(1,2) less [OF that(1)] e] assms(5) that a
      by (auto simp: distinct_conv_nth)
    have "0 = (\<Sum>t<length F. glrc_eq k r z ?e (F ! t) * x t)"
      using x a by (simp add: mvec_def glrc.failed_coefs_def)
    also have "\<dots> = glrc_eq k r z ?e (F ! a) * x a + (\<Sum>t \<in> {..<length F} - {a}. glrc_eq k r z ?e (F ! t) * x t)"
      using a by (subst sum.remove [of _ a]) auto
    also have "(\<Sum>t \<in> {..<length F} - {a}. glrc_eq k r z ?e (F ! t) * x t) = 0"
      by (rule sum.neutral) (use zero in blast)
    finally show ?thesis using home_equation [OF assms(1,2) less [OF a] e] by simp
  qed
  then show "glrc_ilp_decode_matrix_invertible k r z F (map (home_group k r z) F)"
    using assms(4) by (simp add: invertible_iff trivial_kernel_def)
qed

lemma filter_unique:
  "distinct xs \<Longrightarrow> a \<in> set xs \<Longrightarrow> (\<And>x. x \<in> set xs \<Longrightarrow> P x \<longleftrightarrow> x = a) \<Longrightarrow> filter P xs = [a]"
  by (induction xs) (auto simp: filter_empty_conv)

lemma one_per_group_loop_iff:
  assumes "0 < z" "length per_group = z" "\<forall>g<z. per_group ! g \<le> 1"
  shows "one_per_group_loop (glrc_build_placement_groups k r z) per_group F \<longleftrightarrow>
     set F \<subseteq> {..<k + r + z} \<and> distinct (map (home_group k r z) F) \<and> (\<forall>b \<in> set F. per_group ! home_group k r z b = 0)"
  using assms(2,3)
proof (induction F arbitrary: per_group)
  case (Cons b F)
  let ?G = "glrc_build_placement_groups k r z" and ?g = "home_group k r z b"
  show ?case
  proof (cases "b < k + r + z")
    case True
    have g: "?g < z" by (rule home_group_less [OF assms(1) True])
    have "filter (\<lambda>gi. b \<in> set (?G ! gi)) [0..<length ?G] = [?g]"
      using g home_group_iff [OF assms(1) True] by (intro filter_unique) auto
    moreover have "one_per_group_loop ?G (per_group[?g := per_group ! ?g + 1]) F \<longleftrightarrow>
        set F \<subseteq> {..<k + r + z} \<and> distinct (map (home_group k r z) F) \<and>
        (\<forall>c \<in> set F. per_group[?g := per_group ! ?g + 1] ! home_group k r z c = 0)" if "per_group ! ?g = 0"
      using Cons.prems that g by (intro Cons.IH) (auto simp: nth_list_update)
    moreover have "(\<forall>c \<in> set F. per_group[?g := v] ! home_group k r z c = 0) \<longleftrightarrow>
        ?g \<notin> home_group k r z ` set F \<and> (\<forall>c \<in> set F. per_group ! home_group k r z c = 0)"
      if "v \<noteq> 0" "per_group ! ?g = 0" for v
      using g Cons.prems(1) that by (auto simp: nth_list_update)
    ultimately show ?thesis using True by auto
  next
    case False
    then have "filter (\<lambda>gi. b \<in> set (?G ! gi)) [0..<length ?G] = []"
      by (auto simp: filter_empty_conv in_placement_group)
    with False show ?thesis by simp
  qed
qed simp

lemma failures_at_most_one_per_group_iff:
  assumes "0 < z"
  shows "glrc_failures_at_most_one_per_group k r z F \<longleftrightarrow>
     F \<noteq> [] \<and> set F \<subseteq> {..<k + r + z} \<and> distinct (map (home_group k r z) F)"
proof -
  have "replicate z (0::nat) ! home_group k r z b = 0" if "set F \<subseteq> {..<k + r + z}" "b \<in> set F" for b
    using that home_group_less [OF assms, of b k r] by auto
  then show ?thesis
    using one_per_group_loop_iff [OF assms, of "replicate z 0" k r F]
    by (auto simp: glrc_failures_at_most_one_per_group_def Let_def)
qed

lemma one_per_group_decodable:
  assumes "0 < z" "k + r < 256" "glrc_failures_at_most_one_per_group k r z F"
  shows "decodable k r z F"
  using home_equations_invertible [OF assms(1,2)] assms(3)
  unfolding failures_at_most_one_per_group_iff [OF assms(1)] decodable_def by blast

lemma enumerate_prefix:
  "ys \<in> set (enumerate_combinations n f start current) \<Longrightarrow> length current \<le> f \<Longrightarrow>
   take (length current) ys = current"
  by (auto simp: enumerate_combinations_set)

lemma enumerate_combinations_distinct:
  "length current \<le> f \<Longrightarrow> distinct (enumerate_combinations n f start current)"
proof (induction n f start current rule: enumerate_combinations.induct)
  case step: (1 n f start current)
  let ?g = "\<lambda>i. enumerate_combinations n f (i + 1) (current @ [i])"
  have "distinct (concat (map ?g [start..<Suc n - (f - length current)]))" if ne: "length current \<noteq> f"
  proof (rule distinct_concat_disjoint)
    show "distinct (?g i)" if "i \<in> set [start..<Suc n - (f - length current)]" for i
      using step.IH [OF ne that] step.prems ne by simp
    show "set (?g i) \<inter> set (?g j) = {}" if "i \<noteq> j" for i j
      using enumerate_prefix [of _ n f "i + 1" "current @ [i]"] enumerate_prefix [of _ n f "j + 1" "current @ [j]"]
        step.prems ne that by fastforce
  qed simp
  then show ?case by (subst enumerate_combinations.simps) simp
qed

end
