(* ===== verification/LocalRepair.thy ===== *)
theory LocalRepair
  imports RepairSearch
begin

unbundle bit_operations_syntax

text \<open>
  Repair of a single block from its placement group: \<^verbatim>\<open>decode_glrc\<close> and \<^verbatim>\<open>decode_uniform_lrc\<close>.
\<close>

lemma decode_with_vector_nth:
  assumes "length res = bs" "i < bs"
  shows "GF (decode_with_vector vec num ptrs res bs ! i) = (\<Sum>j<num. GF (vec ! j) * GF (ptrs ! j ! i))"
    "length (decode_with_vector vec num ptrs res bs) = bs"
proof -
  have ok: "blocks_ok 1 bs [memset res 0 bs]" using assms(1) by (simp add: blocks_ok_def memset_def)
  have eq: "decode_with_vector vec num ptrs res bs = encode_data bs num 1 vec ptrs [memset res 0 bs] ! 0"
    by (simp add: decode_with_vector_def encode_data_def)
  show "GF (decode_with_vector vec num ptrs res bs ! i) = (\<Sum>j<num. GF (vec ! j) * GF (ptrs ! j ! i))"
    unfolding eq using encode_data_nth [OF ok _ assms(2)] by simp
  show "length (decode_with_vector vec num ptrs res bs) = bs"
    unfolding eq using blocks_ok_nth [OF encode_data_blocks_ok [OF ok]] by simp
qed

text \<open>The surviving blocks of the group of block \<open>b\<close>, in any order.\<close>

definition group_survivors :: "nat \<Rightarrow> nat \<Rightarrow> nat \<Rightarrow> nat \<Rightarrow> nat list \<Rightarrow> bool" where
  "group_survivors k r z b idxs \<longleftrightarrow> distinct idxs
     \<and> set idxs = set (glrc_build_placement_groups k r z ! home_group k r z b) - {b}"

lemma local_equation_sum:
  assumes "glrc_codeword k r z bs blocks" "0 < z" "b < k + r + z" "i < bs" "group_survivors k r z b idxs"
  defines "lc \<equiv> \<lambda>b. GF (glrc_local_block_coefficient (int b) (int k) (int r))"
  shows "(\<Sum>c\<leftarrow>idxs. lc c * GF (blocks ! c ! i)) = lc b * GF (blocks ! b ! i)"
proof -
  let ?g = "home_group k r z b" and ?x = "\<lambda>c. GF (blocks ! c ! i)"
  let ?grp = "set (glrc_build_placement_groups k r z ! ?g)"
  have g: "?g < z" by (rule home_group_less [OF assms(2,3)])
  have b: "b \<in> ?grp" using home_group_iff [OF assms(2,3) g] by simp
  have sub: "?grp \<subseteq> {..<k + r + z}" using g by (auto simp: in_placement_group)
  have "0 = (\<Sum>c<k + r + z. glrc_eq k r z ?g c * ?x c)" using glrc_local_equation [OF assms(1,4) g] by simp
  also have "\<dots> = (\<Sum>c \<in> ?grp. lc c * ?x c)"
    using sub g by (intro sum.mono_neutral_cong_right) (auto simp: glrc_eq_local lc_def)
  also have "\<dots> = lc b * ?x b + (\<Sum>c \<in> ?grp - {b}. lc c * ?x c)"
    by (rule sum.remove [OF _ b]) simp
  also have "(\<Sum>c \<in> ?grp - {b}. lc c * ?x c) = (\<Sum>c\<leftarrow>idxs. lc c * ?x c)"
    using assms(5) sum_list_distinct_conv_sum_set [of idxs "\<lambda>c. lc c * ?x c"] by (simp add: group_survivors_def)
  finally show ?thesis by (metis gf256_add_eq_0_iff)
qed

text \<open>A repair from any blocks is their weighted sum; from the survivors of the group it is the block.\<close>

lemma decode_glrc_sum:
  fixes k r :: nat
  assumes res: "length res = bs"
  defines "lc \<equiv> \<lambda>b. GF (glrc_local_block_coefficient (int b) (int k) (int r))"
  shows "i < bs \<Longrightarrow> GF (decode_glrc k r z (length idxs) idxs (map ((!) blocks) idxs) res bs b ! i)
      = inverse (lc b) * (\<Sum>c\<leftarrow>idxs. lc c * GF (blocks ! c ! i))"
    "length (decode_glrc k r z (length idxs) idxs (map ((!) blocks) idxs) res bs b) = bs"
proof -
  let ?lc = "\<lambda>b. glrc_local_block_coefficient (int b) (int k) (int r)"
  let ?vec = "map (\<lambda>i. gf_mul (map (\<lambda>i. ?lc (idxs ! i)) [0..<length idxs] ! i) (gf_inv (?lc b))) [0..<length idxs]"
  have eq: "decode_glrc k r z (length idxs) idxs (map ((!) blocks) idxs) res bs b
      = decode_with_vector ?vec (length idxs) (map ((!) blocks) idxs) res bs"
    by (simp add: decode_glrc_def Let_def)
  show "length (decode_glrc k r z (length idxs) idxs (map ((!) blocks) idxs) res bs b) = bs"
    unfolding eq
    by (cases bs) (use res decode_with_vector_nth(2) [OF res] in
      \<open>auto simp: decode_with_vector_def ec_encode_data_avx2_def ec_encode_data_base_def memset_def\<close>)
  assume i: "i < bs"
  have "GF (decode_with_vector ?vec (length idxs) (map ((!) blocks) idxs) res bs ! i)
      = (\<Sum>j<length idxs. GF (?vec ! j) * GF (map ((!) blocks) idxs ! j ! i))"
    by (rule decode_with_vector_nth(1) [OF res i])
  also have "\<dots> = (\<Sum>j<length idxs. inverse (GF (?lc b)) * (GF (?lc (idxs ! j)) * GF (blocks ! (idxs ! j) ! i)))"
    by (intro sum.cong) (auto simp: gf_simps ac_simps)
  also have "\<dots> = inverse (GF (?lc b)) * (\<Sum>c\<leftarrow>idxs. GF (?lc c) * GF (blocks ! c ! i))"
    by (simp add: sum_distrib_left sum_list_sum_nth atLeast0LessThan)
  finally show "GF (decode_glrc k r z (length idxs) idxs (map ((!) blocks) idxs) res bs b ! i)
      = inverse (lc b) * (\<Sum>c\<leftarrow>idxs. lc c * GF (blocks ! c ! i))" unfolding eq lc_def .
qed

lemma group_sum_recovers:
  assumes "glrc_codeword k r z bs blocks" "0 < z" "k + r < 256" "b < k + r + z" "group_survivors k r z b idxs" "i < bs"
  defines "lc \<equiv> \<lambda>b. GF (glrc_local_block_coefficient (int b) (int k) (int r))"
  shows "inverse (lc b) * (\<Sum>c\<leftarrow>idxs. lc c * GF (blocks ! c ! i)) = GF (blocks ! b ! i)"
  using local_equation_sum [OF assms(1,2,4,6,5)] local_coefficient_nonzero [OF assms(3), of b]
  by (simp add: lc_def mult.assoc [symmetric])

lemma decode_glrc_recovers:
  assumes cw: "glrc_codeword k r z bs blocks" "0 < z" "k + r < 256" "b < k + r + z"
    and idxs: "group_survivors k r z b idxs" and res: "length res = bs"
  shows "decode_glrc k r z (length idxs) idxs (map ((!) blocks) idxs) res bs b = blocks ! b"
proof (rule buffer_eqI)
  have len: "length (blocks ! b) = bs"
    using cw(1,4) blocks_ok_nth [of "k + r + z" bs blocks b] by (simp add: glrc_codeword_def)
  show "length (decode_glrc k r z (length idxs) idxs (map ((!) blocks) idxs) res bs b) = length (blocks ! b)"
    using decode_glrc_sum(2) [OF res] len by simp
  fix i assume "i < length (blocks ! b)"
  then show "GF (decode_glrc k r z (length idxs) idxs (map ((!) blocks) idxs) res bs b ! i) = GF (blocks ! b ! i)"
    using decode_glrc_sum(1) [OF res] group_sum_recovers [OF cw idxs] len by simp
qed

text \<open>Uniform LRC repairs with the same weights.\<close>

lemma decode_uniform_eq_glrc:
  "decode_uniform_lrc k r z num idxs ptrs res bs b = decode_glrc k r z num idxs ptrs res bs b"
proof -
  have lv: "gf_gen_local_vector (replicate k 0) k r ! c = glrc_local_block_coefficient (int c) (int k) (int r)"
    if "c < k" for c using that by (simp add: local_vector_nth local_coefficient_data)
  have one: "glrc_local_block_coefficient (int c) (int k) (int r) = 1" if "\<not> c < k" for c
    using that by (simp add: glrc_local_block_coefficient_def)
  have inv1: "gf_inv 1 = 1" using gf_mul_gf_inv [of 1] by (simp add: gf_mul_one)
  have vec: "map (\<lambda>i. if idxs ! i < k then gf_gen_local_vector (replicate k 0) k r ! (idxs ! i) else 1) [0..<num]
      = map (\<lambda>i. glrc_local_block_coefficient (int (idxs ! i)) (int k) (int r)) [0..<num]"
    using lv one by auto
  have scale: "map (\<lambda>i. gf_mul (map v [0..<num] ! i) 1) [0..<num] = map v [0..<num]" for v :: "nat \<Rightarrow> byte"
    by (intro nth_equalityI) (auto simp: gf_mul_comm [of _ 1] gf_mul_one)
  show ?thesis
  proof (cases "b < k")
    case True
    then show ?thesis unfolding decode_uniform_lrc_def decode_glrc_def Let_def vec by (simp add: lv)
  next
    case False
    then show ?thesis unfolding decode_uniform_lrc_def decode_glrc_def Let_def vec by (simp add: one inv1 scale)
  qed
qed

end
