(* ===== verification/Planner.thy ===== *)
theory Planner
  imports RepairSearch
begin

unbundle bit_operations_syntax

text \<open>
  The contract of a repair planner as the locale \<open>repair_planner\<close>, and its interpretation on the four
  solvers of \<^verbatim>\<open>glrc_repair_ilp.cpp\<close>.  A client of any planner gets: a successful plan decodes, and
  planning succeeds on exactly the decodable failure sets.  The two solvers that sort with a
  comparator that has ties satisfy the contract for every sorting function with the
  guarantee of \<^verbatim>\<open>std::sort\<close>, which is the locale \<open>std_sorting\<close>.
\<close>

section \<open>Contracts\<close>

definition glrc_params :: "nat \<Rightarrow> nat \<Rightarrow> nat \<Rightarrow> bool" where
  "glrc_params k r z \<longleftrightarrow> 0 < z \<and> k + r < 256 \<and> k + r + z \<le> INT_MAX"

definition plan_valid :: "nat \<Rightarrow> nat \<Rightarrow> nat \<Rightarrow> nat list \<Rightarrow> GlrcIlpRepairPlan \<Rightarrow> bool" where
  "plan_valid k r z F p \<longleftrightarrow>
     (let sel = selected_equation_indices p; eqs = all_recovery_equations k r z in
      set sel \<subseteq> {..<z + r} \<and> accepted k r z F sel \<and> helper_block_ids p = union_helpers sel eqs F
      \<and> helper_block_count p = length (helper_block_ids p)
      \<and> selected_equations p = map (\<lambda>idx. eq_name (eqs ! idx)) sel)"

locale repair_planner =
  fixes solve :: "nat \<Rightarrow> nat \<Rightarrow> nat \<Rightarrow> nat list \<Rightarrow> GlrcIlpRepairPlan"
  assumes keeps_failed: "0 < z \<Longrightarrow> set F \<subseteq> {..<k + r + z} \<Longrightarrow> failed_block_ids (solve k r z F) = F"
    and sound: "0 < z \<Longrightarrow> set F \<subseteq> {..<k + r + z} \<Longrightarrow> success (solve k r z F) \<Longrightarrow> plan_valid k r z F (solve k r z F)"
    and complete: "glrc_params k r z \<Longrightarrow> set F \<subseteq> {..<k + r + z} \<Longrightarrow> decodable k r z F \<Longrightarrow> success (solve k r z F)"
begin

lemma success_iff_decodable:
  assumes "glrc_params k r z" "set F \<subseteq> {..<k + r + z}"
  shows "success (solve k r z F) \<longleftrightarrow> decodable k r z F"
  using complete [OF assms] sound [OF _ assms(2)] assms(1)
  by (auto simp: glrc_params_def plan_valid_def decodable_def accepted_def Let_def)

lemma plan_task:
  assumes "0 < z" "set F \<subseteq> {..<k + r + z}" "success (solve k r z F)" "glrc_codeword k r z bs blocks"
  shows "repair_task k r z bs blocks F (selected_equation_indices (solve k r z F))"
proof -
  have "set (selected_equation_indices (solve k r z F)) \<subseteq> {..<z + r}"
    "glrc_ilp_decode_matrix_invertible k r z F (selected_equation_indices (solve k r z F))"
    using sound [OF assms(1-3)] by (auto simp: plan_valid_def accepted_def Let_def)
  then show ?thesis
    using assms invertible_distinct(1) by (auto simp: repair_task_def invertible_iff)
qed

text \<open>Reading the helpers of a successful plan and decoding gives back the failed blocks.\<close>

lemma plan_recovers:
  assumes "0 < z" "set F \<subseteq> {..<k + r + z}" "glrc_codeword k r z bs blocks" "success (solve k r z F)"
    and "helper_block_ids (solve k r z F) \<noteq> []"
  shows "decode_glrc_ilp k r z bs (helper_block_ids (solve k r z F))
       (map ((!) blocks) (helper_block_ids (solve k r z F))) F (selected_equation_indices (solve k r z F))
     = Some (map ((!) blocks) F)"
proof -
  let ?p = "solve k r z F"
  have p: "plan_valid k r z F ?p" by (rule sound [OF assms(1,2,4)])
  then have "helpers_cover k r z (helper_block_ids ?p) F (selected_equation_indices ?p)"
    using union_helpers_cover [OF assms(1)] by (auto simp: plan_valid_def Let_def)
  moreover have "glrc_ilp_decode_matrix_invertible k r z F (selected_equation_indices ?p)"
    using p by (auto simp: plan_valid_def accepted_def Let_def)
  ultimately show ?thesis
    using decode_glrc_ilp_result [OF plan_task [OF assms(1,2,4,3)]] assms(5) by simp
qed

lemma plan_shape:
  assumes "0 < z" "set F \<subseteq> {..<k + r + z}" "success (solve k r z F)"
  shows "distinct F" "length (selected_equation_indices (solve k r z F)) = length F"
    "distinct (selected_equation_indices (solve k r z F))" "length F \<le> z + r"
    "sorted_wrt (<) (helper_block_ids (solve k r z F))"
    "set (helper_block_ids (solve k r z F)) \<subseteq> {..<k + r + z} - set F"
proof -
  let ?sel = "selected_equation_indices (solve k r z F)"
  have p: "plan_valid k r z F (solve k r z F)" by (rule sound [OF assms])
  then have inv: "glrc_ilp_decode_matrix_invertible k r z F ?sel" and range: "set ?sel \<subseteq> {..<z + r}"
    and hs: "helper_block_ids (solve k r z F) = union_helpers ?sel (all_recovery_equations k r z) F"
    by (auto simp: plan_valid_def accepted_def Let_def)
  show "distinct F" "distinct ?sel" "length ?sel = length F"
    using invertible_distinct [OF inv] inv by (auto simp: invertible_iff)
  show "sorted_wrt (<) (helper_block_ids (solve k r z F))"
    "set (helper_block_ids (solve k r z F)) \<subseteq> {..<k + r + z} - set F"
    unfolding hs using union_helpers_sorted union_helpers_in_stripe [OF range] by auto
  show "length F \<le> z + r"
    using decodable_candidates(3) [OF assms(1,2)] range inv by (auto simp: decodable_def)
qed

end

section \<open>The exhaustive solvers\<close>

text \<open>Keeping the best element seen so far, by a key of a linear order.\<close>

lemma fold_argmin:
  fixes key :: "'a \<Rightarrow> 'b :: linorder" and P :: "'a \<Rightarrow> bool"
  defines "step \<equiv> \<lambda>x best. if P x then (case best of None \<Rightarrow> Some x
      | Some b \<Rightarrow> if key x < key b then Some x else Some b) else best"
  shows "case fold step xs None of
      None \<Rightarrow> \<forall>x \<in> set xs. \<not> P x
    | Some b \<Rightarrow> b \<in> set xs \<and> P b \<and> (\<forall>x \<in> set xs. P x \<longrightarrow> key b \<le> key x)"
proof (induction xs rule: rev_induct)
  case (snoc x xs)
  then show ?case by (cases "fold step xs None") (auto simp: step_def)
qed simp

lemma fold_ilp:
  fixes P :: "nat list \<Rightarrow> bool" and H :: "nat list \<Rightarrow> nat list"
  defines "step \<equiv> \<lambda>sel best. if P sel then (if length (H sel) < fst best then (length (H sel), sel, H sel) else best) else best"
  shows "(fold step sels (m, [], []) = (m, [], []) \<and> (\<forall>sel \<in> set sels. P sel \<longrightarrow> m \<le> length (H sel)))
     \<or> (\<exists>sel \<in> set sels. P sel \<and> fold step sels (m, [], []) = (length (H sel), sel, H sel) \<and> length (H sel) < m
        \<and> (\<forall>sel' \<in> set sels. P sel' \<longrightarrow> length (H sel) \<le> length (H sel')))"
proof (induction sels rule: rev_induct)
  case (snoc x xs)
  from snoc show ?case
  proof (elim disjE bexE conjE)
    assume "fold step xs (m, [], []) = (m, [], [])" "\<forall>sel \<in> set xs. P sel \<longrightarrow> m \<le> length (H sel)"
    then show ?thesis by (cases "P x \<and> length (H x) < m") (auto simp: step_def)
  next
    fix sel assume "sel \<in> set xs" "P sel" "fold step xs (m, [], []) = (length (H sel), sel, H sel)" "length (H sel) < m"
      "\<forall>sel' \<in> set xs. P sel' \<longrightarrow> length (H sel) \<le> length (H sel')"
    then show ?thesis by (cases "P x \<and> length (H x) < length (H sel)") (auto simp: step_def)
  qed
qed simp

definition enumerated :: "nat \<Rightarrow> nat \<Rightarrow> nat \<Rightarrow> nat list \<Rightarrow> nat list list" where
  "enumerated k r z F = map (map ((!) (candidates k r z F)))
     (enumerate_combinations (length (candidates k r z F)) (length F) 0 [])"

lemma set_enumerated [simp]: "set (enumerated k r z F) = selections k r z F"
  using selections_eq by (simp add: enumerated_def)

abbreviation helpers_of :: "nat \<Rightarrow> nat \<Rightarrow> nat \<Rightarrow> nat list \<Rightarrow> nat list \<Rightarrow> nat list" where
  "helpers_of k r z F sel \<equiv> union_helpers sel (all_recovery_equations k r z) F"

definition plan_with :: "nat \<Rightarrow> nat \<Rightarrow> nat \<Rightarrow> nat list \<Rightarrow> nat list \<Rightarrow> GlrcIlpRepairPlan \<Rightarrow> GlrcIlpRepairPlan" where
  "plan_with k r z F sel plan = plan\<lparr>success := True, selected_equation_indices := sel,
     helper_block_ids := helpers_of k r z F sel, helper_block_count := length (helpers_of k r z F sel),
     selected_equations := map (\<lambda>idx. eq_name (all_recovery_equations k r z ! idx)) sel\<rparr>"

lemma plan_with_valid:
  "set sel \<subseteq> {..<z + r} \<Longrightarrow> accepted k r z F sel \<Longrightarrow> plan_valid k r z F (plan_with k r z F sel plan)"
  by (simp add: plan_valid_def plan_with_def Let_def)

lemma plan_valid_time [simp]: "plan_valid k r z F (p\<lparr>ilp_solve_time_sec := t\<rparr>) \<longleftrightarrow> plan_valid k r z F p"
  by (simp add: plan_valid_def)

lemma plan_with_simps [simp]:
  "success (plan_with k r z F sel p)" "failed_block_ids (plan_with k r z F sel p) = failed_block_ids p"
  "selected_equation_indices (plan_with k r z F sel p) = sel"
  "helper_block_count (plan_with k r z F sel p) = length (helpers_of k r z F sel)"
  "helper_block_ids (plan_with k r z F sel p) = helpers_of k r z F sel"
  by (simp_all add: plan_with_def)

definition failed_plan :: "nat list \<Rightarrow> GlrcIlpRepairPlan" where
  "failed_plan F = empty_plan\<lparr>failed_block_ids := F\<rparr>"

lemma failed_plan_simps [simp]: "\<not> success (failed_plan F)" "failed_block_ids (failed_plan F) = F"
  by (simp_all add: failed_plan_def empty_plan_def)

lemma helpers_below_int_max:
  assumes "k + r + z \<le> INT_MAX" "set sel \<subseteq> {..<z + r}" "set F \<subseteq> {..<k + r + z}" "F \<noteq> []"
  shows "length (helpers_of k r z F sel) < INT_MAX"
proof -
  have "length (helpers_of k r z F sel) = card (set (helpers_of k r z F sel))"
    using union_helpers_sorted by (metis distinct_card strict_sorted_iff)
  also have "\<dots> \<le> card ({..<k + r + z} - set F)"
    using union_helpers_in_stripe [OF assms(2)] by (intro card_mono) auto
  also have "\<dots> < card {..<k + r + z}" using assms(3,4) by (intro psubset_card_mono) (auto simp: neq_Nil_conv)
  finally show ?thesis using assms(1) by simp
qed

text \<open>The solver's loop over positions is a loop over the selections they denote.\<close>

lemma ilp_fold_eq:
  "fold (ilp_step k r z F (all_recovery_equations k r z) (candidates k r z F))
     (enumerate_combinations (length (candidates k r z F)) (length F) 0 []) init
   = fold (\<lambda>sel best. if accepted k r z F sel then
        (if length (helpers_of k r z F sel) < fst best
         then (length (helpers_of k r z F sel), sel, helpers_of k r z F sel) else best) else best)
       (enumerated k r z F) init"
  unfolding enumerated_def fold_map
  by (rule fold_cong) (auto simp: ilp_step_def accepted_def Let_def fun_eq_iff)

lemma ilp_run:
  assumes "F \<noteq> []" "length F \<le> length (candidates k r z F)"
  shows "glrc_solve_repair_ilp elapsed k r z F =
     (case fold (\<lambda>sel best. if accepted k r z F sel then
          (if length (helpers_of k r z F sel) < fst best
           then (length (helpers_of k r z F sel), sel, helpers_of k r z F sel) else best) else best)
        (enumerated k r z F) (INT_MAX, [], []) of (c, sel, hs) \<Rightarrow>
        let plan = failed_plan F\<lparr>ilp_solve_time_sec := elapsed\<rparr> in
        if sel = [] then plan\<lparr>error_message := ''no decodable equation combination (cover + invertible matrix)''\<rparr>
        else plan\<lparr>success := True, selected_equation_indices := sel, helper_block_ids := hs, helper_block_count := c,
           selected_equations := map (\<lambda>idx. eq_name (all_recovery_equations k r z ! idx)) sel\<rparr>)"
  using assms
  by (simp add: glrc_solve_repair_ilp_def Let_def build_recovery_equations_eq failed_plan_def ilp_fold_eq)

lemma ilp_solution:
  assumes "F \<noteq> []"
  obtains (found) sel where "sel \<in> selections k r z F" "accepted k r z F sel"
      "glrc_solve_repair_ilp elapsed k r z F = plan_with k r z F sel (failed_plan F\<lparr>ilp_solve_time_sec := elapsed\<rparr>)"
      "\<And>sel'. sel' \<in> selections k r z F \<Longrightarrow> accepted k r z F sel' \<Longrightarrow>
         length (helpers_of k r z F sel) \<le> length (helpers_of k r z F sel')"
  | (none) t msg where "glrc_solve_repair_ilp elapsed k r z F = failed_plan F\<lparr>ilp_solve_time_sec := t, error_message := msg\<rparr>"
      "\<And>sel. length F \<le> length (candidates k r z F) \<Longrightarrow> sel \<in> selections k r z F \<Longrightarrow> accepted k r z F sel \<Longrightarrow>
         INT_MAX \<le> length (helpers_of k r z F sel)"
proof (cases "length F \<le> length (candidates k r z F)")
  case False
  then have "glrc_solve_repair_ilp elapsed k r z F
      = failed_plan F\<lparr>ilp_solve_time_sec := 0, error_message := ''not enough candidate equations''\<rparr>"
    using assms by (simp add: glrc_solve_repair_ilp_def Let_def build_recovery_equations_eq failed_plan_def empty_plan_def)
  with False show ?thesis by (intro none) auto
next
  case True
  from fold_ilp [of "accepted k r z F" "helpers_of k r z F" "enumerated k r z F" INT_MAX]
  show ?thesis
  proof (elim disjE bexE conjE)
    fix sel assume "sel \<in> set (enumerated k r z F)"
    moreover from this have "sel \<noteq> []" using assms by (auto simp: selections_def)
    moreover assume "accepted k r z F sel" "\<forall>sel' \<in> set (enumerated k r z F). accepted k r z F sel' \<longrightarrow>
        length (helpers_of k r z F sel) \<le> length (helpers_of k r z F sel')"
      and "fold (\<lambda>sel best. if accepted k r z F sel then
          (if length (helpers_of k r z F sel) < fst best
           then (length (helpers_of k r z F sel), sel, helpers_of k r z F sel) else best) else best)
        (enumerated k r z F) (INT_MAX, [], []) = (length (helpers_of k r z F sel), sel, helpers_of k r z F sel)"
    ultimately show ?thesis by (intro found [of sel]) (auto simp: ilp_run [OF assms True] plan_with_def)
  qed (use none [where t = elapsed] in \<open>auto simp: ilp_run [OF assms True]\<close>)
qed

interpretation ilp: repair_planner "glrc_solve_repair_ilp elapsed" for elapsed
proof
  fix k r z F
  show "failed_block_ids (glrc_solve_repair_ilp elapsed k r z F) = F"
    by (simp add: glrc_solve_repair_ilp_def empty_plan_def Let_def split: prod.splits)
  assume F: "set F \<subseteq> {..<k + r + z}"
  show "plan_valid k r z F (glrc_solve_repair_ilp elapsed k r z F)" if "success (glrc_solve_repair_ilp elapsed k r z F)"
  proof -
    have "F \<noteq> []" using that by (auto simp: glrc_solve_repair_ilp_def empty_plan_def)
    then show ?thesis
      by (cases rule: ilp_solution [where k = k and r = r and z = z and elapsed = elapsed])
        (use that in \<open>auto intro!: plan_with_valid selections_range\<close>)
  qed
  show "success (glrc_solve_repair_ilp elapsed k r z F)" if p: "glrc_params k r z" and dec: "decodable k r z F"
  proof -
    have z: "0 < z" using p by (simp add: glrc_params_def)
    note d = decodable_candidates [OF z F dec]
    obtain sel where sel: "sel \<in> selections k r z F" "accepted k r z F sel"
      using decodable_iff_accepted [OF z F] dec by auto
    from d(2) show ?thesis
      by (cases rule: ilp_solution [where k = k and r = r and z = z and elapsed = elapsed])
        (use d sel p F helpers_below_int_max [OF _ selections_range [OF sel(1)] F d(2)] in \<open>force simp: glrc_params_def\<close>)+
  qed
qed

section \<open>The local-first solver\<close>

definition candidate_key :: "nat \<Rightarrow> nat \<Rightarrow> nat \<Rightarrow> nat list \<Rightarrow> nat list \<Rightarrow> int \<times> int \<times> nat \<times> nat list" where
  "candidate_key k r z F sel =
     (let c = candidate_of z (all_recovery_equations k r z) F sel
      in (- int (local_count c), - int (local_failed_cover c), length (cand_helpers c), sel))"

lemma candidate_better_key:
  "candidate_better (candidate_of z (all_recovery_equations k r z) F a) (candidate_of z (all_recovery_equations k r z) F b)
     \<longleftrightarrow> candidate_key k r z F a < candidate_key k r z F b"
  by (auto simp: candidate_better_def candidate_key_def candidate_of_def Let_def)

lemma local_first_fold_eq:
  "fold (local_first_step k r z F (all_recovery_equations k r z) (candidates k r z F))
     (enumerate_combinations (length (candidates k r z F)) (length F) 0 []) None
   = map_option (candidate_of z (all_recovery_equations k r z) F)
       (fold (\<lambda>sel best. if accepted k r z F sel then (case best of None \<Rightarrow> Some sel
          | Some b \<Rightarrow> if candidate_key k r z F sel < candidate_key k r z F b then Some sel else Some b) else best)
         (enumerated k r z F) None)" (is "fold ?f ?ps None = map_option ?c (fold ?g _ None)")
proof -
  have "fold ?f ps (map_option ?c b) = map_option ?c (fold ?g (map (map ((!) (candidates k r z F))) ps) b)" for ps b
  proof (induction ps arbitrary: b)
    case (Cons p ps)
    have "?f p (map_option ?c b) = map_option ?c (?g (map ((!) (candidates k r z F)) p) b)"
      by (auto simp: local_first_step_def accepted_def Let_def candidate_better_key split: option.splits)
    then show ?case using Cons.IH by simp
  qed simp
  from this [of ?ps None] show ?thesis by (simp add: enumerated_def)
qed

lemma local_first_solution:
  assumes "F \<noteq> []"
  obtains (found) sel where "sel \<in> selections k r z F" "accepted k r z F sel"
      "glrc_solve_repair_local_first elapsed k r z F = plan_with k r z F sel (failed_plan F\<lparr>ilp_solve_time_sec := elapsed\<rparr>)"
      "\<And>sel'. sel' \<in> selections k r z F \<Longrightarrow> accepted k r z F sel' \<Longrightarrow>
         candidate_key k r z F sel \<le> candidate_key k r z F sel'"
  | (none) t msg where
      "glrc_solve_repair_local_first elapsed k r z F = failed_plan F\<lparr>ilp_solve_time_sec := t, error_message := msg\<rparr>"
      "\<And>sel. length F \<le> length (candidates k r z F) \<Longrightarrow> sel \<in> selections k r z F \<Longrightarrow> \<not> accepted k r z F sel"
proof (cases "length F \<le> length (candidates k r z F)")
  case False
  then have "glrc_solve_repair_local_first elapsed k r z F
      = failed_plan F\<lparr>ilp_solve_time_sec := 0, error_message := ''not enough candidate equations''\<rparr>"
    using assms by (simp add: glrc_solve_repair_local_first_def Let_def build_recovery_equations_eq failed_plan_def empty_plan_def)
  with False show ?thesis by (intro none) auto
next
  case True
  let ?res = "fold (\<lambda>sel best. if accepted k r z F sel then (case best of None \<Rightarrow> Some sel
          | Some b \<Rightarrow> if candidate_key k r z F sel < candidate_key k r z F b then Some sel else Some b) else best)
         (enumerated k r z F) None"
  have run: "glrc_solve_repair_local_first elapsed k r z F = (case ?res of
      None \<Rightarrow> failed_plan F\<lparr>ilp_solve_time_sec := elapsed,
        error_message := ''local-first could not find decodable equation set''\<rparr>
    | Some sel \<Rightarrow> plan_with k r z F sel (failed_plan F\<lparr>ilp_solve_time_sec := elapsed\<rparr>))"
    using assms True
    by (simp add: glrc_solve_repair_local_first_def Let_def build_recovery_equations_eq failed_plan_def
        local_first_fold_eq plan_with_def candidate_of_def split: option.splits)
  note best = fold_argmin [where P = "accepted k r z F" and key = "candidate_key k r z F" and xs = "enumerated k r z F"]
  show ?thesis
  proof (cases ?res)
    case None
    then show ?thesis using best run by (intro none [where t = elapsed]) auto
  next
    case (Some sel)
    then show ?thesis using best run by (intro found [of sel]) auto
  qed
qed

interpretation local_first: repair_planner "glrc_solve_repair_local_first elapsed" for elapsed
proof
  fix k r z F
  show "failed_block_ids (glrc_solve_repair_local_first elapsed k r z F) = F"
    by (simp add: glrc_solve_repair_local_first_def empty_plan_def Let_def split: prod.splits option.splits)
  assume F: "set F \<subseteq> {..<k + r + z}"
  show "plan_valid k r z F (glrc_solve_repair_local_first elapsed k r z F)"
    if "success (glrc_solve_repair_local_first elapsed k r z F)"
  proof -
    have "F \<noteq> []" using that by (auto simp: glrc_solve_repair_local_first_def empty_plan_def)
    then show ?thesis
      by (cases rule: local_first_solution [where k = k and r = r and z = z and elapsed = elapsed])
        (use that in \<open>auto intro!: plan_with_valid selections_range\<close>)
  qed
  show "success (glrc_solve_repair_local_first elapsed k r z F)" if p: "glrc_params k r z" and dec: "decodable k r z F"
  proof -
    have z: "0 < z" using p by (simp add: glrc_params_def)
    note d = decodable_candidates [OF z F dec]
    obtain sel where sel: "sel \<in> selections k r z F" "accepted k r z F sel"
      using decodable_iff_accepted [OF z F] dec by auto
    from d(2) show ?thesis
      by (cases rule: local_first_solution [where k = k and r = r and z = z and elapsed = elapsed])
        (use d sel in auto)
  qed
qed

section \<open>The rule-based solvers\<close>

lemma fill_plan_eq:
  "fill_plan_from_selection sel (all_recovery_equations k r z) k r z F plan =
     (if accepted k r z F sel then Some (plan_with k r z F sel plan) else None)"
  by (simp add: fill_plan_from_selection_def accepted_def plan_with_def Let_def)

text \<open>A plan that comes from an accepted selection of existing equations.\<close>

definition from_selection :: "nat \<Rightarrow> nat \<Rightarrow> nat \<Rightarrow> nat list \<Rightarrow> GlrcIlpRepairPlan \<Rightarrow> GlrcIlpRepairPlan \<Rightarrow> bool" where
  "from_selection k r z F plan p \<longleftrightarrow>
     (\<exists>sel. set sel \<subseteq> {..<z + r} \<and> accepted k r z F sel \<and> p = plan_with k r z F sel plan)"

lemma set_select_while: "set sel \<subseteq> A \<Longrightarrow> set es \<subseteq> A \<Longrightarrow> set (select_while f test es sel) \<subseteq> A"
  unfolding select_while_def by (induction es rule: rev_induct) auto

lemma select_while_full: "f \<le> length sel \<Longrightarrow> select_while f test es sel = sel"
  unfolding select_while_def by (induction es rule: rev_induct) auto

lemma set_take_subset': "set xs \<subseteq> A \<Longrightarrow> set (take f xs) \<subseteq> A"
  by (auto dest: in_set_takeD)

lemma select_while_keeps: "set sel \<subseteq> set (select_while f test es sel)"
  unfolding select_while_def by (induction es rule: rev_induct) auto

lemma length_select_while: "length sel \<le> f \<Longrightarrow> length (select_while f test es sel) \<le> f"
  unfolding select_while_def by (induction es rule: rev_induct) auto

lemma select_while_new:
  "f \<le> length (select_while f (\<lambda>e sel. e \<notin> set sel) es sel)
     \<or> set es \<subseteq> set (select_while f (\<lambda>e sel. e \<notin> set sel) es sel)"
  unfolding select_while_def by (induction es rule: rev_induct) auto

lemma set_local_order [simp]: "set (local_equations_by_failed_cover z eqs F) = {..<z}"
  by (auto simp: local_equations_by_failed_cover_def)

lemma set_base_selection: "set (build_local_then_global_base_selection f k r z eqs F) \<subseteq> {..<z + r}"
  unfolding build_local_then_global_base_selection_def Let_def
  by (intro set_take_subset' set_select_while) auto

text \<open>The last two passes add any equation that is missing, so the base selection is full.\<close>

lemma length_base_selection:
  assumes "f \<le> z + r"
  shows "length (build_local_then_global_base_selection f k r z eqs F) = f"
proof -
  let ?new = "\<lambda>e sel. e \<notin> set sel" and ?L = "local_equations_by_failed_cover z eqs F"
  have "f \<le> length (select_while f ?new ?L (select_while f ?new [z..<z + r] xs))" for xs
  proof (rule ccontr)
    let ?ys = "select_while f ?new [z..<z + r] xs"
    let ?zs = "select_while f ?new ?L ?ys"
    assume short: "\<not> f \<le> length ?zs"
    have "set ?ys \<subseteq> set ?zs" by (rule select_while_keeps)
    moreover have "set ?L \<subseteq> set ?zs" using select_while_new [of f ?L ?ys] short by blast
    moreover have "length ?ys < f"
      using short select_while_full [of f ?ys ?new ?L] by (cases "length ?ys < f") auto
    then have "set [z..<z + r] \<subseteq> set ?ys" using select_while_new [of f "[z..<z + r]" xs] by auto
    moreover have "{..<z + r} = {..<z} \<union> set [z..<z + r]" by auto
    ultimately have "{..<z + r} \<subseteq> set ?zs" by auto
    then have "z + r \<le> card (set ?zs)" using card_mono [of "set ?zs" "{..<z + r}"] by simp
    also have "\<dots> \<le> length ?zs" by (rule card_length)
    finally show False using short assms by simp
  qed
  then show ?thesis by (simp add: build_local_then_global_base_selection_def Let_def)
qed

lemma set_prefix_selection: "set (build_global_prefix_selection f r z) \<subseteq> {..<z + r}"
  unfolding build_global_prefix_selection_def
  by (intro set_take_subset' set_select_while) auto

lemma set_replace_last_local: "lg < z \<Longrightarrow> set base \<subseteq> {..<z + r} \<Longrightarrow> set (replace_last_local z lg base) \<subseteq> {..<z + r}"
  unfolding replace_last_local_def
  by (auto split: list.splits if_splits dest!: subsetD [OF set_update_subset_insert])

lemma try_local_variants_sound:
  assumes "try_local_variants base k r z F (all_recovery_equations k r z) plan = Some p"
    and "0 < z" "set F \<subseteq> {..<k + r + z}" "F \<noteq> []" "set base \<subseteq> {..<z + r}"
  shows "from_selection k r z F plan p"
proof -
  have anchor: "home_group k r z (F ! 0) < z" using assms(2-4) by (cases F) (auto intro!: home_group_less)
  from assms(1) consider "accepted k r z F base" "p = plan_with k r z F base plan"
    | lg where "lg < z" "accepted k r z F (replace_last_local z lg base)"
        "p = plan_with k r z F (replace_last_local z lg base) plan"
    using anchor
    by (auto simp: try_local_variants_def Let_def fill_plan_eq dest!: first_some_Some split: option.splits if_splits)
  then show ?thesis
    unfolding from_selection_def using assms(5) set_replace_last_local [OF _ assms(5)] by cases blast+
qed

locale std_sorting =
  fixes std_sort :: "(nat list \<Rightarrow> int \<times> nat) \<Rightarrow> nat list list \<Rightarrow> nat list list"
  assumes permutes: "mset (std_sort key xs) = mset xs" and sorts: "sorted (map key (std_sort key xs))"
begin

lemma set_std_sort: "set (std_sort key xs) = set xs"
  using permutes [of key xs] by (rule mset_eq_setD)

lemma fallback_sound:
  assumes "try_global_first_fallback std_sort (length F) k r z F (all_recovery_equations k r z) (candidates k r z F) plan = Some p"
    and "0 < z" "set F \<subseteq> {..<k + r + z}" "F \<noteq> []"
  shows "from_selection k r z F plan p"
proof -
  let ?cs = "std_sort (combo_score z (candidates k r z F))
      (enumerate_combinations (length (candidates k r z F)) (length F) 0 [])"
  from assms(1) consider
      "try_local_variants (build_global_prefix_selection (length F) r z) k r z F (all_recovery_equations k r z) plan = Some p"
    | "first_some (\<lambda>ps. fill_plan_from_selection (map ((!) (candidates k r z F)) ps) (all_recovery_equations k r z) k r z F plan)
        ?cs = Some p"
    by (auto simp: try_global_first_fallback_def Let_def split: option.splits if_splits)
  then show ?thesis
  proof cases
    case 1
    then show ?thesis by (rule try_local_variants_sound [OF _ assms(2-4) set_prefix_selection])
  next
    case 2
    then obtain ps where ps: "ps \<in> set (enumerate_combinations (length (candidates k r z F)) (length F) 0 [])"
      and acc: "accepted k r z F (map ((!) (candidates k r z F)) ps)" "p = plan_with k r z F (map ((!) (candidates k r z F)) ps) plan"
      by (auto simp: fill_plan_eq set_std_sort dest!: first_some_Some split: if_splits)
    have "map ((!) (candidates k r z F)) ps \<in> selections k r z F"
      unfolding selections_eq [symmetric] using ps by (rule imageI)
    then show ?thesis unfolding from_selection_def using selections_range acc by blast
  qed
qed

lemma fallback_complete:
  assumes "0 < z" "set F \<subseteq> {..<k + r + z}" "decodable k r z F"
  shows "try_global_first_fallback std_sort (length F) k r z F (all_recovery_equations k r z) (candidates k r z F) plan \<noteq> None"
proof -
  obtain sel where sel: "sel \<in> selections k r z F" "accepted k r z F sel"
    using decodable_iff_accepted [OF assms(1,2)] assms(3) by auto
  then obtain ps where "ps \<in> set (enumerate_combinations (length (candidates k r z F)) (length F) 0 [])"
    "sel = map ((!) (candidates k r z F)) ps"
    by (auto simp flip: selections_eq)
  then have "first_some (\<lambda>ps. fill_plan_from_selection (map ((!) (candidates k r z F)) ps) (all_recovery_equations k r z) k r z F plan)
      (std_sort (combo_score z (candidates k r z F)) (enumerate_combinations (length (candidates k r z F)) (length F) 0 []))
      \<noteq> None"
    using sel(2) by (auto simp: first_some_None set_std_sort fill_plan_eq)
  then show ?thesis by (auto simp: try_global_first_fallback_def Let_def split: option.splits)
qed

end

lemma from_selection_facts:
  assumes "from_selection k r z F plan p"
  shows "success p" "failed_block_ids p = failed_block_ids plan" "plan_valid k r z F p"
  using assms by (auto simp: from_selection_def plan_with_valid)

lemma single_failure_accepted:
  assumes "0 < z" "k + r < 256" "b < k + r + z"
  shows "accepted k r z [b] [home_group k r z b]" "set [home_group k r z b] \<subseteq> {..<z + r}"
  using home_equations_invertible [OF assms(1,2), of "[b]"] invertible_covers [OF _ assms(1)] assms(3)
  by (auto simp: accepted_def)

lemma global_first_run:
  assumes "F \<noteq> []"
  shows "glrc_solve_repair_global_first std_sort elapsed k r z F =
     (if length (candidates k r z F) < length F then failed_plan F\<lparr>error_message := ''not enough candidate equations''\<rparr>
      else case try_global_first_fallback std_sort (length F) k r z F (all_recovery_equations k r z)
          (candidates k r z F) (failed_plan F) of
        Some p \<Rightarrow> p
      | None \<Rightarrow> failed_plan F\<lparr>error_message := ''global-first could not find decodable equation set''\<rparr>)
     \<lparr>ilp_solve_time_sec := elapsed\<rparr>"
  unfolding failed_plan_def glrc_solve_repair_global_first_def Let_def build_recovery_equations_eq prod.case
  using assms by simp

lemma local_then_global_run:
  assumes "F \<noteq> []"
  shows "glrc_solve_repair_local_then_global std_sort elapsed k r z F =
     (if length F = 1
      then if accepted k r z F [home_group k r z (F ! 0)]
           then plan_with k r z F [home_group k r z (F ! 0)] (failed_plan F)
           else failed_plan F\<lparr>error_message := ''single-failure local equation not decodable''\<rparr>
      else let base = build_local_then_global_base_selection (length F) k r z (all_recovery_equations k r z) F in
        if length base < length F then failed_plan F\<lparr>error_message := ''not enough equations for failure count''\<rparr>
        else case try_local_variants base k r z F (all_recovery_equations k r z) (failed_plan F) of
          Some p \<Rightarrow> p
        | None \<Rightarrow> (case try_global_first_fallback std_sort (length F) k r z F (all_recovery_equations k r z)
              (candidates k r z F) (failed_plan F) of
            Some p \<Rightarrow> p
          | None \<Rightarrow> failed_plan F\<lparr>error_message := ''local-then-global could not find decodable equation set''\<rparr>))
     \<lparr>ilp_solve_time_sec := elapsed\<rparr>"
  unfolding failed_plan_def glrc_solve_repair_local_then_global_def Let_def build_recovery_equations_eq prod.case
    fill_plan_eq
  using assms by simp

context std_sorting
begin

lemma global_first_cases:
  fixes elapsed :: real
  assumes "F \<noteq> []" "0 < z" "set F \<subseteq> {..<k + r + z}"
  defines "p \<equiv> glrc_solve_repair_global_first std_sort elapsed k r z F"
  shows "failed_block_ids p = F \<and> (success p \<longrightarrow> plan_valid k r z F p) \<and> (decodable k r z F \<longrightarrow> success p)"
proof (cases "try_global_first_fallback std_sort (length F) k r z F (all_recovery_equations k r z)
          (candidates k r z F) (failed_plan F)")
  case None
  then show ?thesis
    using fallback_complete [OF assms(2,3), of "failed_plan F"] by (auto simp: p_def global_first_run [OF assms(1)])
next
  case (Some p)
  then show ?thesis
    using from_selection_facts [OF fallback_sound [OF Some assms(2,3,1)]] decodable_candidates(1) [OF assms(2,3)]
    by (auto simp: p_def global_first_run [OF assms(1)])
qed

lemma local_then_global_cases:
  fixes elapsed :: real
  assumes "F \<noteq> []" "0 < z" "set F \<subseteq> {..<k + r + z}"
  defines "p \<equiv> glrc_solve_repair_local_then_global std_sort elapsed k r z F"
  shows "failed_block_ids p = F \<and> (success p \<longrightarrow> plan_valid k r z F p)
     \<and> (k + r < 256 \<longrightarrow> decodable k r z F \<longrightarrow> success p)"
proof (cases "length F = 1")
  case True
  then obtain b where b: "F = [b]" "b < k + r + z" using assms(3) by (cases F) auto
  then have "set [home_group k r z b] \<subseteq> {..<z + r}" using home_group_less [OF assms(2) b(2)] by simp
  then show ?thesis
    using b single_failure_accepted(1) [OF assms(2) _ b(2)]
    by (auto simp: p_def local_then_global_run plan_with_valid)
next
  case False
  let ?base = "build_local_then_global_base_selection (length F) k r z (all_recovery_equations k r z) F"
  have short: "length ?base < length F \<Longrightarrow> \<not> decodable k r z F"
    using length_base_selection [of "length F" z r k "all_recovery_equations k r z" F] decodable_candidates(3) [OF assms(2,3)]
    by auto
  have loc: "from_selection k r z F (failed_plan F) p"
    if "try_local_variants ?base k r z F (all_recovery_equations k r z) (failed_plan F) = Some p" for p
    using try_local_variants_sound [OF that assms(2,3,1) set_base_selection] .
  have glob: "from_selection k r z F (failed_plan F) p"
    if "try_global_first_fallback std_sort (length F) k r z F (all_recovery_equations k r z)
          (candidates k r z F) (failed_plan F) = Some p" for p
    using fallback_sound [OF that assms(2,3,1)] .
  have run: "p = (if length ?base < length F then failed_plan F\<lparr>error_message := ''not enough equations for failure count''\<rparr>
        else case try_local_variants ?base k r z F (all_recovery_equations k r z) (failed_plan F) of
          Some p \<Rightarrow> p
        | None \<Rightarrow> (case try_global_first_fallback std_sort (length F) k r z F (all_recovery_equations k r z)
              (candidates k r z F) (failed_plan F) of
            Some p \<Rightarrow> p
          | None \<Rightarrow> failed_plan F\<lparr>error_message := ''local-then-global could not find decodable equation set''\<rparr>))
     \<lparr>ilp_solve_time_sec := elapsed\<rparr>"
    unfolding p_def local_then_global_run [OF assms(1)] Let_def by (simp only: False if_False)
  consider "length ?base < length F"
    | q where "\<not> length ?base < length F"
        "try_local_variants ?base k r z F (all_recovery_equations k r z) (failed_plan F) = Some q"
    | "\<not> length ?base < length F" "try_local_variants ?base k r z F (all_recovery_equations k r z) (failed_plan F) = None"
    by blast
  then show ?thesis
  proof cases
    case 1
    then show ?thesis using short by (simp add: run)
  next
    case (2 q)
    then show ?thesis using from_selection_facts [OF loc [OF 2(2)]] by (simp add: run)
  next
    case 3
    then show ?thesis
      using from_selection_facts [OF glob] fallback_complete [OF assms(2,3), of "failed_plan F"]
      by (cases "try_global_first_fallback std_sort (length F) k r z F (all_recovery_equations k r z)
          (candidates k r z F) (failed_plan F)") (auto simp: run)
  qed
qed

end

lemma decodable_nonempty: "decodable k r z F \<Longrightarrow> F \<noteq> []"
  by (auto simp: decodable_def invertible_iff)

sublocale std_sorting \<subseteq> global_first: repair_planner "glrc_solve_repair_global_first std_sort elapsed" for elapsed
proof
  fix k r z :: nat and F :: "nat list" assume F: "set F \<subseteq> {..<k + r + z}"
  let ?p = "glrc_solve_repair_global_first std_sort elapsed k r z F"
  have empty: "failed_block_ids ?p = F" "\<not> success ?p" if "F = []"
    using that by (simp_all add: glrc_solve_repair_global_first_def empty_plan_def)
  show "failed_block_ids ?p = F" if "0 < z" using global_first_cases [OF _ that F] empty by blast
  show "plan_valid k r z F ?p" if "0 < z" "success ?p" using global_first_cases [OF _ that(1) F] empty that(2) by blast
  show "success ?p" if "glrc_params k r z" "decodable k r z F"
    using global_first_cases [OF decodable_nonempty [OF that(2)] _ F] that by (simp add: glrc_params_def)
qed

sublocale std_sorting \<subseteq> local_then_global: repair_planner "glrc_solve_repair_local_then_global std_sort elapsed" for elapsed
proof
  fix k r z :: nat and F :: "nat list" assume F: "set F \<subseteq> {..<k + r + z}"
  let ?p = "glrc_solve_repair_local_then_global std_sort elapsed k r z F"
  have empty: "failed_block_ids ?p = F" "\<not> success ?p" if "F = []"
    using that by (simp_all add: glrc_solve_repair_local_then_global_def empty_plan_def)
  show "failed_block_ids ?p = F" if "0 < z" using local_then_global_cases [OF _ that F] empty by blast
  show "plan_valid k r z F ?p" if "0 < z" "success ?p" using local_then_global_cases [OF _ that(1) F] empty that(2) by blast
  show "success ?p" if "glrc_params k r z" "decodable k r z F"
    using local_then_global_cases [OF decodable_nonempty [OF that(2)] _ F] that by (simp add: glrc_params_def)
qed

text \<open>A stable sort has the guarantee of \<^verbatim>\<open>std::sort\<close>.\<close>

interpretation stable: std_sorting "\<lambda>key. sort_key key"
  by unfold_locales simp_all

section \<open>The dispatcher\<close>

definition known_policies :: "string list" where
  "known_policies = [''local-then-global'', ''local-first'', ''global-first'', ''ilp-min-helper'']"

lemma normalize_cases:
  "glrc_normalize_equation_policy policy \<in> set known_policies \<or> glrc_normalize_equation_policy policy = policy"
  by (simp add: glrc_normalize_equation_policy_def known_policies_def)

context std_sorting
begin

text \<open>Whatever policy is configured, the dispatcher is a planner.\<close>

lemma dispatch_planner:
  assumes "glrc_normalize_equation_policy policy \<in> set known_policies"
  shows "repair_planner (glrc_solve_repair_plan std_sort elapsed policy)"
proof -
  from assms consider "glrc_normalize_equation_policy policy = ''local-then-global''"
    | "glrc_normalize_equation_policy policy = ''local-first''"
    | "glrc_normalize_equation_policy policy = ''global-first''"
    | "glrc_normalize_equation_policy policy = ''ilp-min-helper''"
    by (auto simp: known_policies_def)
  then have "glrc_solve_repair_plan std_sort elapsed policy \<in>
      {glrc_solve_repair_local_then_global std_sort elapsed, glrc_solve_repair_local_first elapsed,
       glrc_solve_repair_global_first std_sort elapsed, glrc_solve_repair_ilp elapsed}"
    by cases (simp_all add: glrc_solve_repair_plan_def fun_eq_iff)
  then show ?thesis
    using local_then_global.repair_planner_axioms global_first.repair_planner_axioms
      local_first.repair_planner_axioms ilp.repair_planner_axioms by auto
qed

end

lemma dispatch_unknown:
  "glrc_normalize_equation_policy policy \<notin> set known_policies \<Longrightarrow>
   glrc_solve_repair_plan std_sort elapsed policy k r z F =
     empty_plan\<lparr>failed_block_ids := F, error_message := ''unknown GlrcEquationPolicy: '' @ policy\<rparr>"
  by (simp add: glrc_solve_repair_plan_def known_policies_def)

end
