(* ===== verification/Pipeline.thy ===== *)
theory Pipeline
  imports Planner
begin

unbundle bit_operations_syntax

text \<open>
  The repair pipeline: \<^verbatim>\<open>glrc_pipeline_codec.cpp\<close> (coefficient rows and the weighted accumulation),
  \<^verbatim>\<open>glrc_pipeline_plan.cpp\<close> (one chain of survivors per selected equation), and the data path of a
  chain in \<^verbatim>\<open>proxy_glrc_pipeline.cpp\<close> (head, hop servers, hub tail).  Error results carry the message
  of the source.
\<close>

section \<open>Coefficient rows\<close>

datatype GlrcPipelineEqCodec = LOCAL_LINEAR | GLOBAL_CAUCHY

definition build_coef_row_impl :: "nat \<Rightarrow> nat \<Rightarrow> nat \<Rightarrow> nat \<Rightarrow> nat \<Rightarrow> buffer \<Rightarrow> nat list list \<Rightarrow> buffer" where
  "build_coef_row_impl k r z n eq_index encode_matrix groups =
     (if eq_index < z
      then fold (\<lambda>b row. row[b := glrc_local_block_coefficient (int b) (int k) (int r)]) (groups ! eq_index)
             (replicate n 0)
      else let g = eq_index - z;
               row = fold (\<lambda>i row. row[i := encode_matrix ! ((k + g) * k + i)]) [0..<k] (replicate n 0)
           in row[k + g := 1])"

definition glrc_pipeline_build_coef_row :: "nat \<Rightarrow> nat \<Rightarrow> nat \<Rightarrow> nat \<Rightarrow> buffer" where
  "glrc_pipeline_build_coef_row k r z eq_index =
     build_coef_row_impl k r z (k + r + z) eq_index (gen_glrc_matrix (replicate ((k + r + z) * k) 0) k r z)
       (glrc_build_placement_groups k r z)"

definition glrc_pipeline_equation_codec :: "int \<Rightarrow> int \<Rightarrow> int \<Rightarrow> int \<Rightarrow> GlrcPipelineEqCodec" where
  "glrc_pipeline_equation_codec k r z eq_index =
     (if eq_index \<ge> 0 \<and> eq_index < z then LOCAL_LINEAR
      else if eq_index \<ge> z \<and> eq_index < z + r then GLOBAL_CAUCHY
      else LOCAL_LINEAR)"

text \<open>The first block of a list whose coefficient is not the expected one.\<close>

definition first_mismatch :: "buffer \<Rightarrow> (nat \<Rightarrow> byte) \<Rightarrow> nat list \<Rightarrow> nat option" where
  "first_mismatch coef_row expected bs = first_some (\<lambda>b. if coef_row ! b \<noteq> expected b then Some b else None) bs"

definition glrc_pipeline_verify_coef_row :: "nat \<Rightarrow> nat \<Rightarrow> nat \<Rightarrow> nat \<Rightarrow> buffer \<Rightarrow> string + unit" where
  "glrc_pipeline_verify_coef_row k r z eq_index coef_row =
     (let n = k + r + z in
      if length coef_row \<noteq> n then Inl ''coef_row size mismatch''
      else let expect = glrc_pipeline_build_coef_row k r z eq_index in
        if eq_index < z
        then let local_coef = (\<lambda>b. glrc_local_block_coefficient (int b) (int k) (int r)) in
          case first_mismatch coef_row local_coef (glrc_build_placement_groups k r z ! eq_index) of
            Some b \<Rightarrow> Inl (''local equation L'' @ to_string eq_index @ '' block '' @ to_string b @ '' coef='' @
              to_string (unat (coef_row ! b)) @ '' expected='' @ to_string (unat (local_coef b)))
          | None \<Rightarrow>
              (case first_mismatch coef_row ((!) expect) [0..<n] of
                 Some b \<Rightarrow> Inl (''local coef row mismatch at block '' @ to_string b)
               | None \<Rightarrow> Inr ())
        else let g = eq_index - z in
          if coef_row ! (k + g) \<noteq> 1 then Inl (''global equation G'' @ to_string g @ '' parity coef must be 1'')
          else case first_mismatch coef_row ((!) expect) [0..<n] of
              Some b \<Rightarrow> Inl (''global Cauchy coef mismatch at block '' @ to_string b)
            | None \<Rightarrow> Inr ())"

section \<open>Accumulation\<close>

definition glrc_pipeline_accumulate_byte :: "byte \<Rightarrow> byte \<Rightarrow> byte \<Rightarrow> GlrcPipelineEqCodec \<Rightarrow> byte" where
  "glrc_pipeline_accumulate_byte dst src coef codec =
     (if coef = 0 then dst
      else if codec = LOCAL_LINEAR then (if coef \<noteq> 1 then dst XOR gf_mul coef src else dst XOR src)
      else dst XOR gf_mul coef src)"

definition glrc_pipeline_accumulate_range :: "buffer \<Rightarrow> buffer \<Rightarrow> byte \<Rightarrow> int \<Rightarrow> GlrcPipelineEqCodec \<Rightarrow> buffer" where
  "glrc_pipeline_accumulate_range dst src coef len codec =
     (if coef = 0 \<or> len \<le> 0 then dst
      else if codec = LOCAL_LINEAR \<and> coef = 1 then fold (\<lambda>i d. d[i := d ! i XOR src ! i]) [0..<nat len] dst
      else fold (\<lambda>i d. d[i := glrc_pipeline_accumulate_byte (d ! i) (src ! i) coef codec]) [0..<nat len] dst)"

definition glrc_pipeline_init_partial_range :: "buffer \<Rightarrow> buffer \<Rightarrow> byte \<Rightarrow> int \<Rightarrow> GlrcPipelineEqCodec \<Rightarrow> buffer" where
  "glrc_pipeline_init_partial_range acc src coef len codec =
     (if len \<le> 0 then acc
      else if codec = LOCAL_LINEAR
      then if coef \<noteq> 1 then fold (\<lambda>i a. a[i := gf_mul coef (src ! i)]) [0..<nat len] acc
           else fold (\<lambda>i a. a[i := src ! i]) [0..<nat len] acc
      else fold (\<lambda>i a. a[i := gf_mul coef (src ! i)]) [0..<nat len] acc)"

section \<open>Chains\<close>

record GlrcPipelineHopInfo =
  hop_block_id :: nat
  hop_node_id :: int
  hop_datanode_ip :: string
  hop_datanode_port :: int
  hop_proxy_ip :: string
  hop_proxy_port :: int
  hop_block_key :: string
  hop_coef :: byte

record GlrcPipelineNodeLookup =
  node_id :: int
  datanode_ip :: string
  datanode_port :: int
  proxy_ip :: string
  proxy_port :: int
  block_key :: string

record GlrcPipelineChainPlan =
  chain_id :: nat
  equation_index :: nat
  eq_slot :: nat
  equation_name :: string
  local_direct :: bool
  local_direct_failed_block_id :: int
  local_direct_failed_block_key :: string
  local_direct_replaced_ip :: string
  local_direct_replaced_port :: int
  local_direct_sink_proxy_ip :: string
  local_direct_sink_proxy_port :: int
  hops :: "GlrcPipelineHopInfo list"
  hub_is_chain_tail :: bool
  hub_in_equation :: bool

record GlrcPipelinePlan =
  hub_block_id :: int
  hub_proxy_ip :: string
  hub_proxy_port :: int
  hub_datanode_ip :: string
  hub_datanode_port :: int
  hub_block_key :: string
  hub_coef :: byte
  exchange_epoch :: int
  hub_chains :: "GlrcPipelineChainPlan list"
  local_direct_chains :: "GlrcPipelineChainPlan list"

definition fill_hop :: "nat \<Rightarrow> byte \<Rightarrow> GlrcPipelineNodeLookup list \<Rightarrow> string + GlrcPipelineHopInfo" where
  "fill_hop block_id coef node_lookup =
     (if block_id \<ge> length node_lookup then Inl (''pipeline node lookup missing block '' @ to_string block_id)
      else let node = node_lookup ! block_id in
        if proxy_ip node = [] \<or> datanode_ip node = []
        then Inl (''pipeline node lookup incomplete for block '' @ to_string block_id)
        else Inr \<lparr>hop_block_id = block_id, hop_node_id = node_id node, hop_datanode_ip = datanode_ip node,
               hop_datanode_port = datanode_port node, hop_proxy_ip = proxy_ip node, hop_proxy_port = proxy_port node,
               hop_block_key = block_key node, hop_coef = coef\<rparr>)"

fun fill_hops :: "nat list \<Rightarrow> buffer \<Rightarrow> GlrcPipelineNodeLookup list \<Rightarrow> string + GlrcPipelineHopInfo list" where
  "fill_hops [] coef_row node_lookup = Inr []"
| "fill_hops (b # bs) coef_row node_lookup =
     (case fill_hop b (coef_row ! b) node_lookup of
        Inl e \<Rightarrow> Inl e
      | Inr hop \<Rightarrow> map_sum id ((#) hop) (fill_hops bs coef_row node_lookup))"

text \<open>Descending block ids, with the hub moved to the end.\<close>

definition sort_chain_survivors :: "nat list \<Rightarrow> nat \<Rightarrow> nat list" where
  "sort_chain_survivors survivors hub =
     (let s = rev (sort survivors) in if hub \<in> set s then remove1 hub s @ [hub] else s)"

definition local_direct_set :: "nat list \<Rightarrow> GlrcEquation list \<Rightarrow> nat list \<Rightarrow> nat list" where
  "local_direct_set selected all_equations failed =
     filter (\<lambda>eq_idx. eq_idx < length all_equations \<and> eq_type (all_equations ! eq_idx) = LOCAL
       \<and> length (filter (\<lambda>b. b \<in> set failed) (involved_blocks (all_equations ! eq_idx))) = 1) selected"

definition empty_chain :: GlrcPipelineChainPlan where
  "empty_chain = \<lparr>chain_id = 0, equation_index = 0, eq_slot = 0, equation_name = [], local_direct = False,
     local_direct_failed_block_id = - 1, local_direct_failed_block_key = [], local_direct_replaced_ip = [],
     local_direct_replaced_port = 0, local_direct_sink_proxy_ip = [], local_direct_sink_proxy_port = 0,
     hops = [], hub_is_chain_tail = False, hub_in_equation = False\<rparr>"

text \<open>The fields taken from the first failed block of the equation.\<close>

definition set_local_sink :: "nat list \<Rightarrow> nat list \<Rightarrow> GlrcPipelineNodeLookup list \<Rightarrow> GlrcPipelineChainPlan
    \<Rightarrow> GlrcPipelineChainPlan" where
  "set_local_sink involved failed node_lookup chain =
     (case filter (\<lambda>b. b \<in> set failed) involved of
        [] \<Rightarrow> chain
      | b # _ \<Rightarrow>
          let chain = chain\<lparr>local_direct_failed_block_id := int b\<rparr> in
          if b < length node_lookup
          then chain\<lparr>local_direct_failed_block_key := block_key (node_lookup ! b),
                 local_direct_replaced_ip := datanode_ip (node_lookup ! b),
                 local_direct_replaced_port := datanode_port (node_lookup ! b),
                 local_direct_sink_proxy_ip := proxy_ip (node_lookup ! b),
                 local_direct_sink_proxy_port := proxy_port (node_lookup ! b)\<rparr>
          else chain)"

definition build_chain :: "nat \<Rightarrow> nat \<Rightarrow> nat \<Rightarrow> nat list \<Rightarrow> GlrcEquation list \<Rightarrow> nat \<Rightarrow> GlrcPipelineNodeLookup list
    \<Rightarrow> nat list \<Rightarrow> nat \<Rightarrow> nat \<Rightarrow> string + GlrcPipelineChainPlan" where
  "build_chain k r z failed all_equations hub node_lookup direct slot eq_idx =
     (let eq = all_equations ! eq_idx;
          coef_row = glrc_pipeline_build_coef_row k r z eq_idx;
          survivors = sort_chain_survivors (filter (\<lambda>b. b \<notin> set failed) (involved_blocks eq)) hub;
          is_direct = eq_idx \<in> set direct;
          chain = empty_chain\<lparr>chain_id := slot, equation_index := eq_idx, eq_slot := slot, equation_name := eq_name eq,
            local_direct := is_direct, hub_in_equation := coef_row ! hub \<noteq> 0\<rparr> in
      if is_direct
      then let chain = set_local_sink (involved_blocks eq) failed node_lookup chain in
        if local_direct_sink_proxy_ip chain = [] \<or> survivors = []
        then Inl ''local pipeline missing sink proxy or survivors''
        else map_sum id (\<lambda>hs. chain\<lparr>hops := hs, hub_is_chain_tail := False\<rparr>)
               (fill_hops (rev (sort survivors)) coef_row node_lookup)
      else let tail = hub_in_equation chain in
        map_sum id (\<lambda>hs. chain\<lparr>hops := hs, hub_is_chain_tail := tail\<rparr>)
          (fill_hops (if tail then filter (\<lambda>b. b \<noteq> hub) survivors @ [hub] else survivors) coef_row node_lookup))"

fun build_chains :: "nat \<Rightarrow> nat \<Rightarrow> nat \<Rightarrow> nat list \<Rightarrow> GlrcEquation list \<Rightarrow> nat \<Rightarrow> GlrcPipelineNodeLookup list
    \<Rightarrow> nat list \<Rightarrow> nat \<Rightarrow> nat list \<Rightarrow> GlrcPipelinePlan \<Rightarrow> string + GlrcPipelinePlan" where
  "build_chains k r z failed all_equations hub node_lookup direct slot [] plan = Inr plan"
| "build_chains k r z failed all_equations hub node_lookup direct slot (eq_idx # eqs) plan =
     (if eq_idx \<ge> length all_equations then Inl ''invalid equation index in repair plan''
      else case build_chain k r z failed all_equations hub node_lookup direct slot eq_idx of
        Inl e \<Rightarrow> Inl e
      | Inr chain \<Rightarrow> build_chains k r z failed all_equations hub node_lookup direct (Suc slot) eqs
          (if local_direct chain then plan\<lparr>local_direct_chains := local_direct_chains plan @ [chain]\<rparr>
           else plan\<lparr>hub_chains := hub_chains plan @ [chain]\<rparr>))"

definition glrc_build_pipeline_plan :: "nat \<Rightarrow> nat \<Rightarrow> nat \<Rightarrow> nat list \<Rightarrow> GlrcIlpRepairPlan \<Rightarrow> GlrcEquation list \<Rightarrow> int
    \<Rightarrow> GlrcPipelineNodeLookup list \<Rightarrow> int \<Rightarrow> string + GlrcPipelinePlan" where
  "glrc_build_pipeline_plan k r z failed repair_plan all_equations hub_id node_lookup epoch =
     (if hub_id < 0 \<or> hub_id \<ge> int (length node_lookup) then Inl ''invalid hub block id''
      else let hub = nat hub_id; hub_node = node_lookup ! hub;
               plan = \<lparr>hub_block_id = hub_id, hub_proxy_ip = proxy_ip hub_node, hub_proxy_port = proxy_port hub_node,
                 hub_datanode_ip = datanode_ip hub_node, hub_datanode_port = datanode_port hub_node,
                 hub_block_key = block_key hub_node, hub_coef = 0, exchange_epoch = epoch,
                 hub_chains = [], local_direct_chains = []\<rparr>;
               selected = selected_equation_indices repair_plan
           in build_chains k r z failed all_equations hub node_lookup
                (local_direct_set selected all_equations failed) 0 selected plan)"

section \<open>The data path of a chain\<close>

text \<open>
  One shard of a chain: the head encodes its own stripe, hop server \<open>i\<close> adds its stripe, and the
  hub adds its own when it is the tail (hop servers then end before the last hop).  \<open>stripe\<close> reads the
  stripe of a block.
\<close>

definition chain_head_shard :: "GlrcPipelineEqCodec \<Rightarrow> nat \<Rightarrow> (nat \<Rightarrow> buffer) \<Rightarrow> GlrcPipelineHopInfo \<Rightarrow> buffer" where
  "chain_head_shard codec stripe_len stripe hop =
     glrc_pipeline_init_partial_range (replicate stripe_len 0) (stripe (hop_block_id hop)) (hop_coef hop)
       (int stripe_len) codec"

definition compute_inbound_shard :: "GlrcPipelineEqCodec \<Rightarrow> nat \<Rightarrow> (nat \<Rightarrow> buffer) \<Rightarrow> GlrcPipelineHopInfo \<Rightarrow> buffer \<Rightarrow> buffer" where
  "compute_inbound_shard codec stripe_len stripe hop partial =
     glrc_pipeline_accumulate_range partial (stripe (hop_block_id hop)) (hop_coef hop) (int stripe_len) codec"

definition finalize_hub_shard :: "GlrcPipelineEqCodec \<Rightarrow> nat \<Rightarrow> bool \<Rightarrow> byte \<Rightarrow> buffer \<Rightarrow> buffer \<Rightarrow> buffer" where
  "finalize_hub_shard codec stripe_len hub_is_tail coef local partial =
     (if hub_is_tail \<and> coef \<noteq> 0 then glrc_pipeline_accumulate_range partial local coef (int stripe_len) codec
      else partial)"

definition run_chain :: "GlrcPipelineEqCodec \<Rightarrow> nat \<Rightarrow> (nat \<Rightarrow> buffer) \<Rightarrow> nat \<Rightarrow> GlrcPipelineChainPlan \<Rightarrow> buffer" where
  "run_chain codec stripe_len stripe hub chain =
     (let hs = hops chain; tail = hub_is_chain_tail chain;
          last_hop_server = (if tail then int (length hs) - 2 else int (length hs) - 1);
          partial = chain_head_shard codec stripe_len stripe (hs ! 0);
          partial = fold (\<lambda>hi. compute_inbound_shard codec stripe_len stripe (hs ! hi)) [1..<nat (last_hop_server + 1)] partial
      in finalize_hub_shard codec stripe_len tail (if tail then hop_coef (last hs) else 0) (stripe hub) partial)"

end
