(* ===== verification/PipelineFlow.thy ===== *)
theory PipelineFlow
  imports Pipeline
begin

unbundle bit_operations_syntax

text \<open>
  What a chain of theory \<open>Pipeline\<close> delivers: the right-hand side of its equation over the surviving
  blocks, which is the combination of the failed blocks that the equation defines.
\<close>

section \<open>Coefficient rows\<close>

lemma coef_row_eq:
  "glrc_pipeline_build_coef_row k r z e = build_block_coef_row k r z (k + r + z) e (glrc_encode_matrix k r z)
     (glrc_build_placement_groups k r z)"
  by (simp add: glrc_pipeline_build_coef_row_def build_coef_row_impl_def build_block_coef_row_def
      glrc_encode_matrix_def Let_def)

lemma coef_row_nth: "GF (glrc_pipeline_build_coef_row k r z e ! b) = glrc_eq k r z e b"
  by (simp add: coef_row_eq glrc_eq_def)

lemma length_coef_row: "length (glrc_pipeline_build_coef_row k r z e) = k + r + z"
  by (simp add: coef_row_eq build_block_coef_row_def Let_def len_simps)

lemma first_mismatch_None: "first_mismatch row expected bs = None \<longleftrightarrow> (\<forall>b \<in> set bs. row ! b = expected b)"
  by (auto simp: first_mismatch_def first_some_None)

lemma verify_accepts_iff:
  assumes "0 < z" "e < z + r"
  shows "glrc_pipeline_verify_coef_row k r z e row = Inr () \<longleftrightarrow> row = glrc_pipeline_build_coef_row k r z e"
proof -
  let ?row = "glrc_pipeline_build_coef_row k r z e" and ?n = "k + r + z"
  have all: "row = ?row" if "length row = ?n" "\<forall>b \<in> set [0..<?n]. row ! b = ?row ! b"
    using that by (intro nth_equalityI) (auto simp: length_coef_row)
  have loc: "\<forall>b \<in> set (glrc_build_placement_groups k r z ! e).
      ?row ! b = glrc_local_block_coefficient (int b) (int k) (int r)" if "e < z"
  proof
    fix b assume b: "b \<in> set (glrc_build_placement_groups k r z ! e)"
    then have "b < ?n" using that by (auto simp: in_placement_group)
    then have "GF (?row ! b) = GF (glrc_local_block_coefficient (int b) (int k) (int r))"
      using b that by (simp add: coef_row_nth glrc_eq_local)
    then show "?row ! b = glrc_local_block_coefficient (int b) (int k) (int r)" by simp
  qed
  have glob: "?row ! (k + (e - z)) = 1" if "\<not> e < z"
  proof -
    define g where "g = e - z"
    have g: "e = z + g" "g < r" using that assms(2) by (auto simp: g_def)
    have "GF (?row ! (k + g)) = GF 1"
      using g assms(1) glrc_eq_global [of g r z "k + g" k] by (simp add: coef_row_nth gf_simps)
    then have "?row ! (k + g) = 1" by (rule GF_eqD)
    then show ?thesis by (simp add: g)
  qed
  show ?thesis
  proof
    assume "glrc_pipeline_verify_coef_row k r z e row = Inr ()"
    then have "length row = ?n" "first_mismatch row ((!) ?row) [0..<?n] = None"
      by (auto simp: glrc_pipeline_verify_coef_row_def Let_def split: if_splits option.splits)
    then show "row = ?row" using all by (simp only: first_mismatch_None)
  next
    assume row: "row = ?row"
    then have "first_mismatch row ((!) ?row) [0..<?n] = None" by (simp add: first_mismatch_None)
    moreover have "first_mismatch row (\<lambda>b. glrc_local_block_coefficient (int b) (int k) (int r))
        (glrc_build_placement_groups k r z ! e) = None" if "e < z"
      unfolding first_mismatch_None row by (rule loc [OF that])
    ultimately show "glrc_pipeline_verify_coef_row k r z e row = Inr ()"
      using glob by (simp add: glrc_pipeline_verify_coef_row_def Let_def row length_coef_row)
  qed
qed

section \<open>Accumulation\<close>

lemma accumulate_byte_eq: "glrc_pipeline_accumulate_byte dst src coef codec = dst XOR gf_mul coef src"
  by (simp add: glrc_pipeline_accumulate_byte_def gf_mul_one)

lemma length_accumulate_range [simp]: "length (glrc_pipeline_accumulate_range dst src coef len codec) = length dst"
  by (simp add: glrc_pipeline_accumulate_range_def len_simps)

lemma accumulate_range_nth:
  assumes "i < length dst"
  shows "GF (glrc_pipeline_accumulate_range dst src coef (int len) codec ! i)
     = GF (dst ! i) + (if i < len then GF coef * GF (src ! i) else 0)"
proof (cases "coef = 0 \<or> len = 0")
  case True
  then show ?thesis by (auto simp: glrc_pipeline_accumulate_range_def gf_simps)
next
  case False
  have "glrc_pipeline_accumulate_range dst src coef (int len) codec
      = fold (\<lambda>i d. d[i := d ! i XOR gf_mul coef (src ! i)]) [0..<len] dst"
    using False by (auto simp: glrc_pipeline_accumulate_range_def accumulate_byte_eq gf_mul_one)
  also have "\<dots> ! i = (if i < len then dst ! i XOR gf_mul coef (src ! i) else dst ! i)"
  proof (cases "i < len")
    case True
    then show ?thesis using assms
      by (subst fold_update_nth [where g = "\<lambda>i. i" and h = "\<lambda>i d. d ! i XOR gf_mul coef (src ! i)"]) auto
  next
    case False
    then show ?thesis by (subst fold_update_other [where g = "\<lambda>i. i"]) auto
  qed
  finally show ?thesis by (simp add: gf_simps)
qed

lemma init_partial_range_eq:
  assumes "length acc = len"
  shows "glrc_pipeline_init_partial_range acc src coef (int len) codec = map (\<lambda>i. gf_mul coef (src ! i)) [0..<len]"
  using assms by (simp add: glrc_pipeline_init_partial_range_def fold_fill gf_mul_one) auto

section \<open>Running a chain\<close>

lemma fold_inbound:
  assumes "length partial = len"
  shows "length (fold (compute_inbound_shard codec len stripe) hs partial) = len"
    "i < len \<Longrightarrow> GF (fold (compute_inbound_shard codec len stripe) hs partial ! i)
      = GF (partial ! i) + (\<Sum>h\<leftarrow>hs. GF (hop_coef h) * GF (stripe (hop_block_id h) ! i))"
  using assms
  by (induction hs arbitrary: partial)
    (simp_all add: compute_inbound_shard_def accumulate_range_nth add.assoc)

lemma fold_hop_range:
  "hi \<le> length hs \<Longrightarrow> fold (\<lambda>i. f (hs ! i)) [1..<hi] x = fold f (tl (take hi hs)) x"
proof -
  assume hi: "hi \<le> length hs"
  have "tl (take hi hs) = map ((!) hs) [1..<hi]" using hi by (intro nth_equalityI) (auto simp: nth_tl)
  then show ?thesis by (simp add: fold_map comp_def)
qed

lemma run_chain_sum:
  assumes "hops chain \<noteq> []" "hub_is_chain_tail chain \<Longrightarrow> 2 \<le> length (hops chain) \<and> hop_block_id (last (hops chain)) = hub"
  shows "length (run_chain codec len stripe hub chain) = len"
    "i < len \<Longrightarrow> GF (run_chain codec len stripe hub chain ! i)
      = (\<Sum>h\<leftarrow>hops chain. GF (hop_coef h) * GF (stripe (hop_block_id h) ! i))"
proof -
  obtain h hs where hs: "hops chain = h # hs" using assms(1) by (cases "hops chain") auto
  let ?head = "chain_head_shard codec len stripe h"
  let ?mid = "if hub_is_chain_tail chain then butlast hs else hs"
  have head: "length ?head = len" "\<And>i. i < len \<Longrightarrow> GF (?head ! i) = GF (hop_coef h) * GF (stripe (hop_block_id h) ! i)"
    by (simp_all add: chain_head_shard_def init_partial_range_eq gf_simps)
  have run: "run_chain codec len stripe hub chain = finalize_hub_shard codec len (hub_is_chain_tail chain)
      (if hub_is_chain_tail chain then hop_coef (last (h # hs)) else 0) (stripe hub)
      (fold (compute_inbound_shard codec len stripe) ?mid ?head)"
  proof (cases "hub_is_chain_tail chain")
    case True
    then have "hs \<noteq> []" using assms(2) hs by auto
    then show ?thesis using True fold_hop_range [of "length hs" "h # hs" "compute_inbound_shard codec len stripe" ?head]
      by (simp add: run_chain_def hs Let_def butlast_conv_take) (cases hs, auto simp: take_Cons')
  next
    case False
    then show ?thesis using fold_hop_range [of "Suc (length hs)" "h # hs" "compute_inbound_shard codec len stripe" ?head]
      by (simp add: run_chain_def hs Let_def nat_add_distrib)
  qed
  note mid = fold_inbound [OF head(1), where codec = codec and stripe = stripe and hs = ?mid]
  show "length (run_chain codec len stripe hub chain) = len"
    using mid(1) head(1) by (cases "hub_is_chain_tail chain") (simp_all add: run finalize_hub_shard_def)
  show "GF (run_chain codec len stripe hub chain ! i)
      = (\<Sum>h\<leftarrow>hops chain. GF (hop_coef h) * GF (stripe (hop_block_id h) ! i))" if i: "i < len"
  proof (cases "hub_is_chain_tail chain")
    case True
    then have "hs \<noteq> []" and hub: "hop_block_id (last hs) = hub" using assms(2) hs by auto
    then show ?thesis
      unfolding run hs using True mid i head sum_list_butlast [OF \<open>hs \<noteq> []\<close>, of "\<lambda>h. GF (hop_coef h) * GF (stripe (hop_block_id h) ! i)"]
      by (simp add: finalize_hub_shard_def accumulate_range_nth add.assoc gf_simps)
  next
    case False
    then show ?thesis using mid i head by (simp add: run finalize_hub_shard_def hs)
  qed
qed

text \<open>A chain whose only hop is the hub adds the hub's stripe twice.\<close>

lemma run_chain_hub_only:
  assumes "hops chain = [h]" "hub_is_chain_tail chain" "hop_block_id h = hub"
  shows "run_chain codec len stripe hub chain = replicate len 0"
proof (rule buffer_eqI)
  have head: "length (chain_head_shard codec len stripe h) = len"
    by (simp add: chain_head_shard_def init_partial_range_eq)
  show "length (run_chain codec len stripe hub chain) = length (replicate len 0)"
    using head assms by (simp add: run_chain_def Let_def finalize_hub_shard_def)
  fix i assume "i < length (replicate len (0 :: byte))"
  then have i: "i < len" by simp
  have "GF (glrc_pipeline_accumulate_range (chain_head_shard codec len stripe h) (stripe hub) (hop_coef h) (int len) codec ! i)
      = GF (hop_coef h) * GF (stripe hub ! i) + GF (hop_coef h) * GF (stripe hub ! i)"
    using i head assms(3) by (simp add: accumulate_range_nth) (simp add: chain_head_shard_def init_partial_range_eq gf_simps)
  moreover have "GF (chain_head_shard codec len stripe h ! i) = 0" if "hop_coef h = 0"
    using i that by (simp add: chain_head_shard_def init_partial_range_eq)
  ultimately show "GF (run_chain codec len stripe hub chain ! i) = GF (replicate len 0 ! i)"
    using i assms by (auto simp: run_chain_def Let_def finalize_hub_shard_def gf_simps)
qed

section \<open>The chains of a plan\<close>

lemma fill_hops_facts:
  "fill_hops bs row nl = Inr hs \<Longrightarrow> map hop_block_id hs = bs \<and> map hop_coef hs = map ((!) row) bs"
proof (induction bs arbitrary: hs)
  case (Cons b bs)
  then obtain hop hs' where "fill_hop b (row ! b) nl = Inr hop" "fill_hops bs row nl = Inr hs'" "hs = hop # hs'"
    by (auto split: sum.splits)
  with Cons.IH show ?case by (auto simp: fill_hop_def Let_def split: if_splits)
qed simp

lemma hops_sum:
  assumes "map hop_block_id hs = bs" "map hop_coef hs = map ((!) (glrc_pipeline_build_coef_row k r z e)) bs"
  shows "(\<Sum>h\<leftarrow>hs. GF (hop_coef h) * y (hop_block_id h)) = (\<Sum>b\<leftarrow>bs. glrc_eq k r z e b * y b)"
proof -
  have "map (\<lambda>h. GF (hop_coef h) * y (hop_block_id h)) hs = map (\<lambda>b. glrc_eq k r z e b * y b) bs"
    using assms by (intro nth_equalityI) (auto simp: coef_row_nth [symmetric] list_eq_iff_nth_eq)
  then show ?thesis by simp
qed

text \<open>A list of survivors that contains every survivor with a nonzero coefficient.\<close>

lemma survivors_sum:
  assumes "distinct bs" "set bs \<subseteq> {..<k + r + z} - set F"
    and "\<And>b. b < k + r + z \<Longrightarrow> b \<notin> set F \<Longrightarrow> glrc_eq k r z (sel ! ei) b \<noteq> 0 \<Longrightarrow> b \<in> set bs"
  shows "(\<Sum>b\<leftarrow>bs. glrc_eq k r z (sel ! ei) b * y b) = glrc.survivor_rhs k r z F sel y ei"
proof -
  have "(\<Sum>b\<leftarrow>bs. glrc_eq k r z (sel ! ei) b * y b) = (\<Sum>b \<in> set bs. glrc_eq k r z (sel ! ei) b * y b)"
    by (rule sum_list_distinct_conv_sum_set [OF assms(1)])
  also have "\<dots> = glrc.survivor_rhs k r z F sel y ei"
    unfolding glrc.survivor_rhs_def using assms(2,3) by (intro sum.mono_neutral_left) auto
  finally show ?thesis .
qed

lemma distinct_involved: "e < z + r \<Longrightarrow> distinct (involved_blocks (all_recovery_equations k r z ! e))"
  by (auto simp: involved_blocks_nth distinct_placement_group)

lemma sort_chain_survivors_facts:
  assumes "distinct bs"
  shows "set (sort_chain_survivors bs hub) = set bs" "distinct (sort_chain_survivors bs hub)"
  using assms by (auto simp: sort_chain_survivors_def Let_def set_remove1_eq)

text \<open>The blocks a hub chain visits.\<close>

definition hub_hop_blocks :: "nat \<Rightarrow> nat \<Rightarrow> nat \<Rightarrow> nat list \<Rightarrow> nat \<Rightarrow> nat \<Rightarrow> nat list" where
  "hub_hop_blocks k r z F hub e =
     (let s = sort_chain_survivors (filter (\<lambda>b. b \<notin> set F) (involved_blocks (all_recovery_equations k r z ! e))) hub
      in if glrc_eq k r z e hub \<noteq> 0 then filter (\<lambda>b. b \<noteq> hub) s @ [hub] else s)"

lemma hub_chain_facts:
  assumes "build_chain k r z F (all_recovery_equations k r z) hub nl direct slot e = Inr chain" "\<not> local_direct chain"
  shows "map hop_block_id (hops chain) = hub_hop_blocks k r z F hub e"
    "map hop_coef (hops chain) = map ((!) (glrc_pipeline_build_coef_row k r z e)) (hub_hop_blocks k r z F hub e)"
    "hub_is_chain_tail chain \<longleftrightarrow> glrc_eq k r z e hub \<noteq> 0" "equation_index chain = e" "eq_slot chain = slot"
proof -
  have tail: "glrc_pipeline_build_coef_row k r z e ! hub = 0 \<longleftrightarrow> glrc_eq k r z e hub = 0"
    by (simp add: coef_row_nth [symmetric])
  have direct: "e \<notin> set direct"
    using assms by (auto simp: build_chain_def Let_def set_local_sink_def empty_chain_def split: if_splits list.splits)
  then obtain hs where "fill_hops (hub_hop_blocks k r z F hub e) (glrc_pipeline_build_coef_row k r z e) nl = Inr hs"
    "hops chain = hs" "hub_is_chain_tail chain \<longleftrightarrow> glrc_eq k r z e hub \<noteq> 0" "equation_index chain = e" "eq_slot chain = slot"
    using assms(1) by (auto simp: build_chain_def Let_def hub_hop_blocks_def empty_chain_def tail split: if_splits)
  then show "map hop_block_id (hops chain) = hub_hop_blocks k r z F hub e"
    "map hop_coef (hops chain) = map ((!) (glrc_pipeline_build_coef_row k r z e)) (hub_hop_blocks k r z F hub e)"
    "hub_is_chain_tail chain \<longleftrightarrow> glrc_eq k r z e hub \<noteq> 0" "equation_index chain = e" "eq_slot chain = slot"
    using fill_hops_facts by auto
qed

lemma hub_hop_blocks_facts:
  assumes "e < z + r" "hub < k + r + z" "hub \<notin> set F" "0 < z"
  shows "distinct (hub_hop_blocks k r z F hub e)" "set (hub_hop_blocks k r z F hub e) \<subseteq> {..<k + r + z} - set F"
    "b < k + r + z \<Longrightarrow> b \<notin> set F \<Longrightarrow> glrc_eq k r z e b \<noteq> 0 \<Longrightarrow> b \<in> set (hub_hop_blocks k r z F hub e)"
proof -
  let ?inv = "filter (\<lambda>b. b \<notin> set F) (involved_blocks (all_recovery_equations k r z ! e))"
  have "distinct ?inv" using distinct_involved [OF assms(1)] by simp
  note s = sort_chain_survivors_facts [OF this, of hub]
  show "distinct (hub_hop_blocks k r z F hub e)" using s by (simp add: hub_hop_blocks_def Let_def)
  show "set (hub_hop_blocks k r z F hub e) \<subseteq> {..<k + r + z} - set F"
    using s(1) assms(2,3) involved_in_stripe [OF assms(1)] by (auto simp: hub_hop_blocks_def Let_def)
  show "b \<in> set (hub_hop_blocks k r z F hub e)" if "b < k + r + z" "b \<notin> set F" "glrc_eq k r z e b \<noteq> 0"
    using that s(1) coefficient_involved [OF assms(1,4) that(1,3)] by (auto simp: hub_hop_blocks_def Let_def)
qed

text \<open>A hub chain with more than the hub itself computes the right-hand side of its equation.\<close>

lemma hub_chain_rhs:
  assumes chain: "build_chain k r z F (all_recovery_equations k r z) hub nl direct slot (sel ! ei) = Inr chain"
      "\<not> local_direct chain"
    and dims: "sel ! ei < z + r" "hub < k + r + z" "hub \<notin> set F" "0 < z"
    and hops: "hops chain \<noteq> []" "hub_is_chain_tail chain \<Longrightarrow> 2 \<le> length (hops chain)" and i: "i < len"
  shows "GF (run_chain codec len stripe hub chain ! i) = glrc.survivor_rhs k r z F sel (\<lambda>b. GF (stripe b ! i)) ei"
proof -
  note c = hub_chain_facts [OF chain] and b = hub_hop_blocks_facts [OF dims]
  have last: "hop_block_id (last (hops chain)) = hub" if "hub_is_chain_tail chain"
    using that c(1,3) hops(1) last_map [OF hops(1), of hop_block_id] by (simp add: hub_hop_blocks_def Let_def)
  have "GF (run_chain codec len stripe hub chain ! i)
      = (\<Sum>h\<leftarrow>hops chain. GF (hop_coef h) * GF (stripe (hop_block_id h) ! i))"
    using run_chain_sum(2) [OF hops(1) _ i] hops(2) last by auto
  also have "\<dots> = (\<Sum>b\<leftarrow>hub_hop_blocks k r z F hub (sel ! ei). glrc_eq k r z (sel ! ei) b * GF (stripe b ! i))"
    by (rule hops_sum [OF c(1,2)])
  also have "\<dots> = glrc.survivor_rhs k r z F sel (\<lambda>b. GF (stripe b ! i)) ei"
    by (rule survivors_sum [OF b])
  finally show ?thesis .
qed

text \<open>
  A local-direct chain: the only failed block of its equation is the sink's, and the chain delivers
  that block weighted with its own coefficient.
\<close>

lemma local_chain_facts:
  assumes "build_chain k r z F (all_recovery_equations k r z) hub nl direct slot e = Inr chain" "local_direct chain"
  obtains b bs where "filter (\<lambda>b. b \<in> set F) (involved_blocks (all_recovery_equations k r z ! e)) = b # bs"
    "local_direct_failed_block_id chain = int b" "hops chain \<noteq> []" "\<not> hub_is_chain_tail chain" "e \<in> set direct"
    "map hop_block_id (hops chain) = rev (sort (sort_chain_survivors
       (filter (\<lambda>b. b \<notin> set F) (involved_blocks (all_recovery_equations k r z ! e))) hub))"
    "map hop_coef (hops chain) = map ((!) (glrc_pipeline_build_coef_row k r z e)) (map hop_block_id (hops chain))"
proof -
  let ?surv = "sort_chain_survivors (filter (\<lambda>b. b \<notin> set F) (involved_blocks (all_recovery_equations k r z ! e))) hub"
  have direct: "e \<in> set direct"
    using assms by (auto simp: build_chain_def Let_def empty_chain_def split: if_splits)
  obtain hs where hs: "fill_hops (rev (sort ?surv)) (glrc_pipeline_build_coef_row k r z e) nl = Inr hs" "hops chain = hs"
    and "?surv \<noteq> []" "\<not> hub_is_chain_tail chain"
    using assms(1) direct by (auto simp: build_chain_def Let_def split: if_splits)
  moreover have "length hs = length ?surv"
    using arg_cong [OF conjunct1 [OF fill_hops_facts [OF hs(1)]], of length] by simp
  moreover from calculation have "hs \<noteq> []" by auto
  moreover obtain b bs where "filter (\<lambda>b. b \<in> set F) (involved_blocks (all_recovery_equations k r z ! e)) = b # bs"
    "local_direct_failed_block_id chain = int b"
    using assms(1) direct
    by (auto simp: build_chain_def Let_def set_local_sink_def empty_chain_def split: if_splits list.splits)
  ultimately show ?thesis using that direct fill_hops_facts [OF hs(1)] by simp
qed

lemma failed_combination_single:
  assumes "glrc_column k r z x" "distinct F" "set F \<subseteq> {..<k + r + z}" "e < z + r"
    and "filter (\<lambda>b. b \<in> set F) (involved_blocks (all_recovery_equations k r z ! e)) = [b]"
  shows "glrc.survivor_rhs k r z F [e] x 0 = glrc_eq k r z e b * x b"
proof -
  have z: "0 < z" using assms(1) by (simp add: glrc_column_def)
  have only: "{c \<in> set F. c \<in> set (involved_blocks (all_recovery_equations k r z ! e))} = {b}"
    using arg_cong [OF assms(5), of set] by auto
  have zero: "glrc_eq k r z e c = 0" if "c \<in> set F" "c \<noteq> b" for c
    using coefficient_involved [OF assms(4) z, of c k] that only assms(3) by blast
  have b: "b \<in> set F" using only by blast
  have "glrc.survivor_rhs k r z F [e] x 0 = (\<Sum>c \<in> set F. glrc_eq k r z e c * x c)"
    using glrc.rhs_is_failed_combination [OF assms(1-3), of "[e]" 0] assms(2,4)
    by (simp add: mvec_def glrc.failed_coefs_def sum_set_nth)
  also have "\<dots> = glrc_eq k r z e b * x b"
    using b zero by (simp add: sum.remove [of _ b] sum.neutral)
  finally show ?thesis .
qed

lemma local_direct_delivers:
  assumes chain: "build_chain k r z F (all_recovery_equations k r z) hub nl
        (local_direct_set selected (all_recovery_equations k r z) F) slot e = Inr chain" "local_direct chain"
    and dims: "e < z + r" "distinct F" "set F \<subseteq> {..<k + r + z}"
    and col: "glrc_column k r z (\<lambda>b. GF (stripe b ! i))" and i: "i < len"
  obtains b where "local_direct_failed_block_id chain = int b" "b \<in> set F"
    "GF (run_chain codec len stripe hub chain ! i) = glrc_eq k r z e b * GF (stripe b ! i)"
proof -
  let ?inv = "involved_blocks (all_recovery_equations k r z ! e)"
  have z: "0 < z" using col by (simp add: glrc_column_def)
  obtain b bs where b: "filter (\<lambda>b. b \<in> set F) ?inv = b # bs" "local_direct_failed_block_id chain = int b"
    and hops: "hops chain \<noteq> []" "\<not> hub_is_chain_tail chain"
    and direct: "e \<in> set (local_direct_set selected (all_recovery_equations k r z) F)"
    and blocks: "map hop_block_id (hops chain) = rev (sort (sort_chain_survivors (filter (\<lambda>b. b \<notin> set F) ?inv) hub))"
    and coefs: "map hop_coef (hops chain) = map ((!) (glrc_pipeline_build_coef_row k r z e)) (map hop_block_id (hops chain))"
    using chain by (rule local_chain_facts)
  have one: "filter (\<lambda>b. b \<in> set F) ?inv = [b]" using b(1) direct by (auto simp: local_direct_set_def)
  have "distinct (filter (\<lambda>b. b \<notin> set F) ?inv)" using distinct_involved [OF dims(1)] by simp
  note s = sort_chain_survivors_facts [OF this, of hub]
  have "GF (run_chain codec len stripe hub chain ! i)
      = (\<Sum>h\<leftarrow>hops chain. GF (hop_coef h) * GF (stripe (hop_block_id h) ! i))"
    using run_chain_sum(2) [OF hops(1) _ i] hops(2) by simp
  also have "\<dots> = (\<Sum>b\<leftarrow>map hop_block_id (hops chain). glrc_eq k r z ([e] ! 0) b * GF (stripe b ! i))"
    using hops_sum [OF refl coefs, of "\<lambda>b. GF (stripe b ! i)"] by simp
  also have "\<dots> = glrc.survivor_rhs k r z F [e] (\<lambda>b. GF (stripe b ! i)) 0"
  proof (rule survivors_sum)
    show "distinct (map hop_block_id (hops chain))" using s by (simp add: blocks)
    show "set (map hop_block_id (hops chain)) \<subseteq> {..<k + r + z} - set F"
      unfolding blocks using s involved_in_stripe [OF dims(1)] by auto
    show "b \<in> set (map hop_block_id (hops chain))"
      if "b < k + r + z" "b \<notin> set F" "glrc_eq k r z ([e] ! 0) b \<noteq> 0" for b
      unfolding blocks using that s coefficient_involved [OF dims(1) z that(1)] by auto
  qed
  also have "\<dots> = glrc_eq k r z e b * GF (stripe b ! i)"
    by (rule failed_combination_single [OF col dims(2,3,1) one])
  finally show ?thesis
    using that b(2) arg_cong [OF one, of set] by auto
qed

section \<open>Whole plans\<close>

lemma build_chains_Inr:
  "build_chains k r z F eqs hub nl direct slot es plan = Inr p \<Longrightarrow>
   \<exists>cs. length cs = length es
     \<and> (\<forall>i<length es. es ! i < length eqs \<and> build_chain k r z F eqs hub nl direct (slot + i) (es ! i) = Inr (cs ! i))
     \<and> hub_chains p = hub_chains plan @ filter (\<lambda>c. \<not> local_direct c) cs
     \<and> local_direct_chains p = local_direct_chains plan @ filter local_direct cs"
proof (induction es arbitrary: slot plan)
  case Nil
  then show ?case by simp
next
  case (Cons e es)
  from Cons.prems obtain c where e: "e < length eqs" and c: "build_chain k r z F eqs hub nl direct slot e = Inr c"
    and rest: "build_chains k r z F eqs hub nl direct (Suc slot) es
      (if local_direct c then plan\<lparr>local_direct_chains := local_direct_chains plan @ [c]\<rparr>
       else plan\<lparr>hub_chains := hub_chains plan @ [c]\<rparr>) = Inr p"
    by (auto split: if_splits sum.splits)
  from Cons.IH [OF rest] obtain cs where cs: "length cs = length es"
    "\<forall>i<length es. es ! i < length eqs \<and> build_chain k r z F eqs hub nl direct (Suc slot + i) (es ! i) = Inr (cs ! i)"
    "hub_chains p = hub_chains plan @ filter (\<lambda>c. \<not> local_direct c) (c # cs)"
    "local_direct_chains p = local_direct_chains plan @ filter local_direct (c # cs)"
    by (auto split: if_splits)
  then show ?case
    using e c by (intro exI [of _ "c # cs"]) (auto simp: less_Suc_eq_0_disj)
qed

lemma build_chain_local_direct:
  "build_chain k r z F eqs hub nl direct slot e = Inr c \<Longrightarrow> local_direct c \<longleftrightarrow> e \<in> set direct"
  by (auto simp: build_chain_def Let_def set_local_sink_def empty_chain_def split: if_splits list.splits)

lemma pipeline_plan_start:
  assumes "glrc_build_pipeline_plan k r z F rplan eqs hub_id nl epoch = Inr p"
  obtains p0 where "hub_chains p0 = []" "local_direct_chains p0 = []"
    "build_chains k r z F eqs (nat hub_id) nl (local_direct_set (selected_equation_indices rplan) eqs F) 0
       (selected_equation_indices rplan) p0 = Inr p"
proof (rule that)
  let ?n = "nl ! nat hub_id"
  show "build_chains k r z F eqs (nat hub_id) nl (local_direct_set (selected_equation_indices rplan) eqs F) 0
      (selected_equation_indices rplan) \<lparr>hub_block_id = hub_id, hub_proxy_ip = proxy_ip ?n,
      hub_proxy_port = proxy_port ?n, hub_datanode_ip = datanode_ip ?n, hub_datanode_port = datanode_port ?n,
      hub_block_key = block_key ?n, hub_coef = 0, exchange_epoch = epoch, hub_chains = [], local_direct_chains = []\<rparr> = Inr p"
    using assms by (simp add: glrc_build_pipeline_plan_def Let_def split: if_splits)
qed simp_all

lemma hub_chains_nth:
  assumes "glrc_build_pipeline_plan k r z F rplan (all_recovery_equations k r z) (int hub) nl epoch = Inr p"
    and "local_direct_set (selected_equation_indices rplan) (all_recovery_equations k r z) F = []"
  shows "length (hub_chains p) = length (selected_equation_indices rplan)" "local_direct_chains p = []"
    "i < length (selected_equation_indices rplan) \<Longrightarrow>
       build_chain k r z F (all_recovery_equations k r z) hub nl [] i (selected_equation_indices rplan ! i)
         = Inr (hub_chains p ! i) \<and> \<not> local_direct (hub_chains p ! i)"
proof -
  let ?sel = "selected_equation_indices rplan" and ?eqs = "all_recovery_equations k r z"
  from pipeline_plan_start [OF assms(1)] assms(2) obtain p0 where p0: "hub_chains p0 = []" "local_direct_chains p0 = []"
    "build_chains k r z F ?eqs hub nl [] 0 ?sel p0 = Inr p" by (metis nat_int)
  from build_chains_Inr [OF p0(3)] p0(1,2) obtain cs where cs: "length cs = length ?sel"
    "\<forall>i<length ?sel. build_chain k r z F ?eqs hub nl [] i (?sel ! i) = Inr (cs ! i)"
    "hub_chains p = filter (\<lambda>c. \<not> local_direct c) cs" "local_direct_chains p = filter local_direct cs"
    by auto
  have "\<not> local_direct c" if "c \<in> set cs" for c
    using that cs(1,2) build_chain_local_direct by (fastforce simp: in_set_conv_nth)
  then have "hub_chains p = cs" "local_direct_chains p = []" using cs by (auto simp: filter_empty_conv intro!: filter_True)
  then show "length (hub_chains p) = length ?sel" "local_direct_chains p = []"
    "i < length ?sel \<Longrightarrow> build_chain k r z F ?eqs hub nl [] i (?sel ! i) = Inr (hub_chains p ! i) \<and> \<not> local_direct (hub_chains p ! i)"
    using cs build_chain_local_direct by fastforce+
qed

lemma hub_chain_length:
  assumes "build_chain k r z F (all_recovery_equations k r z) hub nl direct slot e = Inr chain" "\<not> local_direct chain"
    and "e < z + r" "2 \<le> length (filter (\<lambda>b. b \<notin> set F) (involved_blocks (all_recovery_equations k r z ! e)))"
  shows "2 \<le> length (hops chain)"
proof -
  let ?inv = "filter (\<lambda>b. b \<notin> set F) (involved_blocks (all_recovery_equations k r z ! e))"
  have d: "distinct ?inv" using distinct_involved [OF assms(3)] by simp
  note s = sort_chain_survivors_facts [OF d, of hub]
  have "set ?inv \<subseteq> set (hub_hop_blocks k r z F hub e)"
    using s(1) by (auto simp: hub_hop_blocks_def Let_def)
  then have "card (set ?inv) \<le> length (hub_hop_blocks k r z F hub e)"
    by (meson List.finite_set card_length card_mono order_trans)
  moreover have "length (hops chain) = length (hub_hop_blocks k r z F hub e)"
    using arg_cong [OF hub_chain_facts(1) [OF assms(1,2)], of length] by simp
  ultimately show ?thesis using assms(4) distinct_card [OF d] by simp
qed

text \<open>
  The hub's chains hand the compact decoder the right-hand sides it needs: with no chain delivered
  straight to a sink, running every chain on a byte range and decoding yields that range of the
  failed blocks.
\<close>

definition lookup_complete :: "nat \<Rightarrow> GlrcPipelineNodeLookup list \<Rightarrow> bool" where
  "lookup_complete n nl \<longleftrightarrow> length nl = n \<and> (\<forall>x \<in> set nl. proxy_ip x \<noteq> [] \<and> datanode_ip x \<noteq> [])"

lemma fill_hops_succeeds:
  "lookup_complete n nl \<Longrightarrow> set bs \<subseteq> {..<n} \<Longrightarrow> \<exists>hs. fill_hops bs row nl = Inr hs"
  by (induction bs) (auto simp: lookup_complete_def fill_hop_def Let_def)

lemma hub_chains_decode:
  assumes task: "repair_task k r z bs blocks F sel" and range: "base + len \<le> bs"
    and inv: "glrc_ilp_prepare_inverse k r z F sel = Some A_inv"
    and hub: "hub < k + r + z" "hub \<notin> set F"
    and survivors: "\<And>e. e \<in> set sel \<Longrightarrow> 2 \<le> length (filter (\<lambda>b. b \<notin> set F) (involved_blocks (all_recovery_equations k r z ! e)))"
    and chains: "glrc_build_pipeline_plan k r z F rplan (all_recovery_equations k r z) (int hub) nl epoch = Inr p"
      "selected_equation_indices rplan = sel" "local_direct_set sel (all_recovery_equations k r z) F = []"
  shows "decode_glrc_ilp_rhs_compact
      (map (\<lambda>c. run_chain (codec c) len (\<lambda>b. take len (drop base (blocks ! b))) hub c) (hub_chains p))
      A_inv (int (length F)) (int len) = Some (map (\<lambda>b. take len (drop base (blocks ! b))) F)"
proof (rule decode_glrc_ilp_rhs_compact_result [OF task range inv])
  note t = repair_taskD [OF task]
  note h = hub_chains_nth [OF chains(1), unfolded chains(2), OF chains(3)]
  let ?rhs = "map (\<lambda>c. run_chain (codec c) len (\<lambda>b. take len (drop base (blocks ! b))) hub c) (hub_chains p)"
  show "length ?rhs = length F" using h(1) t(5) by simp
  show "rhs_ok k r z blocks F sel base 0 len ?rhs"
    unfolding rhs_ok_def
  proof (intro allI impI)
    fix i ei assume i: "i < 0 + len" and ei: "ei < length F"
    let ?c = "hub_chains p ! ei"
    have c: "build_chain k r z F (all_recovery_equations k r z) hub nl [] ei (sel ! ei) = Inr ?c" "\<not> local_direct ?c"
      using h(3) [of ei] ei t(5) by auto
    have e1: "sel ! ei \<in> set sel" using ei t(5) by simp
    note e = e1 subsetD [OF t(6) e1, simplified]
    have two: "2 \<le> length (hops ?c)" by (rule hub_chain_length [OF c e(2) survivors [OF e(1)]])
    have "GF (run_chain (codec ?c) len (\<lambda>b. take len (drop base (blocks ! b))) hub ?c ! i)
       = glrc.survivor_rhs k r z F sel (\<lambda>b. GF (take len (drop base (blocks ! b)) ! i)) ei"
      using two i by (intro hub_chain_rhs [OF c e(2) hub t(1)]) auto
    also have "\<dots> = glrc.survivor_rhs k r z F sel (\<lambda>b. GF (blocks ! b ! (base + i))) ei"
      unfolding glrc.survivor_rhs_def
      by (rule sum.cong) (use i range t(7) in \<open>auto simp: blocks_ok_nth\<close>)
    finally show "GF (?rhs ! ei ! i) = glrc.survivor_rhs k r z F sel (\<lambda>b. GF (blocks ! b ! (base + i))) ei"
      using h(1) ei t(5) by simp
  qed
qed

lemma build_chain_succeeds:
  assumes "lookup_complete (k + r + z) nl" "e < z + r" "hub < k + r + z" "set F \<subseteq> {..<k + r + z}"
    and survivors: "filter (\<lambda>b. b \<notin> set F) (involved_blocks (all_recovery_equations k r z ! e)) \<noteq> []"
  shows "\<exists>c. build_chain k r z F (all_recovery_equations k r z) hub nl
      (local_direct_set sel (all_recovery_equations k r z) F) slot e = Inr c"
proof -
  let ?inv = "involved_blocks (all_recovery_equations k r z ! e)" and ?direct = "local_direct_set sel (all_recovery_equations k r z) F"
  let ?surv = "sort_chain_survivors (filter (\<lambda>b. b \<notin> set F) ?inv) hub"
  let ?row = "glrc_pipeline_build_coef_row k r z e"
  have d: "distinct (filter (\<lambda>b. b \<notin> set F) ?inv)" using distinct_involved [OF assms(2)] by simp
  have surv: "set ?surv \<subseteq> {..<k + r + z}" "?surv \<noteq> []"
    using sort_chain_survivors_facts(1) [OF d, of hub] involved_in_stripe [OF assms(2)] survivors by auto
  have hops: "\<exists>hs. fill_hops bs ?row nl = Inr hs" if "set bs \<subseteq> insert hub (set ?surv)" for bs
    using that surv(1) assms(3) by (intro fill_hops_succeeds [OF assms(1)]) auto
  show ?thesis
  proof (cases "e \<in> set ?direct")
    case True
    then obtain b where "filter (\<lambda>b. b \<in> set F) ?inv = [b]"
      by (auto simp: local_direct_set_def length_Suc_conv)
    moreover from this have "b \<in> set (filter (\<lambda>b. b \<in> set F) ?inv)" by simp
    then have "b < length nl" "proxy_ip (nl ! b) \<noteq> []"
      using assms(1,4) by (auto simp: lookup_complete_def)
    ultimately show ?thesis
      using True surv(2) hops [of "rev (sort ?surv)"]
      by (auto simp: build_chain_def Let_def set_local_sink_def empty_chain_def)
  next
    case False
    then show ?thesis
      using hops [of ?surv] hops [of "filter (\<lambda>b. b \<noteq> hub) ?surv @ [hub]"]
      by (auto simp: build_chain_def Let_def)
  qed
qed

lemma build_chains_succeeds:
  assumes "\<And>slot e. e \<in> set es \<Longrightarrow> e < length eqs \<and> (\<exists>c. build_chain k r z F eqs hub nl direct slot e = Inr c)"
  shows "\<exists>p. build_chains k r z F eqs hub nl direct slot es plan = Inr p"
  using assms
proof (induction es arbitrary: slot plan)
  case Nil
  then show ?case by simp
next
  case (Cons e es)
  obtain c where "e < length eqs" "build_chain k r z F eqs hub nl direct slot e = Inr c"
    using Cons.prems [of e] by auto
  moreover have "\<exists>p. build_chains k r z F eqs hub nl direct slot es plan = Inr p" for slot plan
    by (rule Cons.IH) (use Cons.prems in simp)
  ultimately show ?case by simp
qed

lemma pipeline_plan_succeeds:
  assumes "lookup_complete (k + r + z) nl" "hub < k + r + z" "set F \<subseteq> {..<k + r + z}"
    and "set (selected_equation_indices rplan) \<subseteq> {..<z + r}"
    and "\<And>e. e \<in> set (selected_equation_indices rplan) \<Longrightarrow>
       filter (\<lambda>b. b \<notin> set F) (involved_blocks (all_recovery_equations k r z ! e)) \<noteq> []"
  shows "\<exists>p. glrc_build_pipeline_plan k r z F rplan (all_recovery_equations k r z) (int hub) nl epoch = Inr p"
proof -
  let ?sel = "selected_equation_indices rplan" and ?eqs = "all_recovery_equations k r z"
  have "\<exists>p. build_chains k r z F ?eqs hub nl (local_direct_set ?sel ?eqs F) 0 ?sel plan = Inr p" for plan
    using assms by (intro build_chains_succeeds conjI build_chain_succeeds) auto
  then show ?thesis using assms(1,2) by (auto simp: glrc_build_pipeline_plan_def lookup_complete_def Let_def)
qed

lemma local_direct_chain_built:
  assumes "glrc_build_pipeline_plan k r z F rplan (all_recovery_equations k r z) hub_id nl epoch = Inr p"
    and "c \<in> set (local_direct_chains p)"
  obtains slot e where "e \<in> set (selected_equation_indices rplan)" "local_direct c" "e < z"
    "build_chain k r z F (all_recovery_equations k r z) (nat hub_id) nl
       (local_direct_set (selected_equation_indices rplan) (all_recovery_equations k r z) F) slot e = Inr c"
proof -
  let ?sel = "selected_equation_indices rplan" and ?eqs = "all_recovery_equations k r z"
  let ?direct = "local_direct_set ?sel ?eqs F"
  from pipeline_plan_start [OF assms(1)] obtain p0 where p0: "local_direct_chains p0 = []"
    "build_chains k r z F ?eqs (nat hub_id) nl ?direct 0 ?sel p0 = Inr p" by metis
  from build_chains_Inr [OF p0(2)] p0(1) obtain cs where cs: "length cs = length ?sel"
    "\<forall>i<length ?sel. build_chain k r z F ?eqs (nat hub_id) nl ?direct (0 + i) (?sel ! i) = Inr (cs ! i)"
    "local_direct_chains p = filter local_direct cs" by auto
  with assms(2) obtain i where i: "i < length ?sel" "c = cs ! i" "local_direct c"
    by (auto simp: in_set_conv_nth)
  then have c: "build_chain k r z F ?eqs (nat hub_id) nl ?direct i (?sel ! i) = Inr c" using cs(2) by simp
  then have "?sel ! i \<in> set ?direct" using build_chain_local_direct i(3) by blast
  then have "?sel ! i < z + r" "eq_type (?eqs ! (?sel ! i)) = LOCAL" by (auto simp: local_direct_set_def)
  then have "?sel ! i < z"
    by (auto simp: all_recovery_equations_def Let_def nth_append build_global_equation_def split: if_splits)
  then show ?thesis using that [of "?sel ! i" i] i c by simp
qed

lemma local_direct_sink_payload:
  assumes plan: "glrc_build_pipeline_plan k r z F rplan (all_recovery_equations k r z) hub_id nl epoch = Inr p"
    and c: "c \<in> set (local_direct_chains p)" and cw: "glrc_codeword k r z bs blocks"
    and F: "distinct F" "set F \<subseteq> {..<k + r + z}"
  obtains b where "b \<in> set F" "local_direct_failed_block_id c = int b"
    "run_chain codec bs ((!) blocks) (nat hub_id) c
      = map (gf_mul (glrc_local_block_coefficient (int b) (int k) (int r))) (blocks ! b)"
proof -
  from local_direct_chain_built [OF plan c] obtain slot e where e: "local_direct c" "e < z"
    "build_chain k r z F (all_recovery_equations k r z) (nat hub_id) nl
       (local_direct_set (selected_equation_indices rplan) (all_recovery_equations k r z) F) slot e = Inr c" by metis
  from local_chain_facts [OF e(3,1)] obtain b bs' where b: "local_direct_failed_block_id c = int b" "hops c \<noteq> []"
    "\<not> hub_is_chain_tail c" "filter (\<lambda>b. b \<in> set F) (involved_blocks (all_recovery_equations k r z ! e)) = b # bs'"
    by metis
  have "b \<in> set (filter (\<lambda>b. b \<in> set F) (involved_blocks (all_recovery_equations k r z ! e)))" by (simp add: b(4))
  then have bF: "b \<in> set F" "b \<in> set (glrc_build_placement_groups k r z ! e)" "b < k + r + z"
    using F(2) e(2) by (auto simp: involved_blocks_nth)
  have blen: "length (blocks ! b) = bs" using cw bF(3) by (auto simp: glrc_codeword_def blocks_ok_nth)
  have coef: "glrc_eq k r z e b = GF (glrc_local_block_coefficient (int b) (int k) (int r))"
    using bF e(2) by (simp add: glrc_eq_local)
  have byte: "GF (run_chain codec bs ((!) blocks) (nat hub_id) c ! i) = glrc_eq k r z e b * GF (blocks ! b ! i)"
    if i: "i < bs" for i
  proof -
    have "glrc_column k r z (\<lambda>b. GF (blocks ! b ! i))" using cw i e(2) by (auto simp: glrc_column_def)
    moreover have "e < z + r" using e(2) by simp
    ultimately obtain b' where "local_direct_failed_block_id c = int b'"
      "GF (run_chain codec bs ((!) blocks) (nat hub_id) c ! i) = glrc_eq k r z e b' * GF (blocks ! b' ! i)"
      using local_direct_delivers [OF e(3,1) _ F _ i] by metis
    then show ?thesis using b(1) by (simp del: gf256.inject)
  qed
  have "run_chain codec bs ((!) blocks) (nat hub_id) c
      = map (gf_mul (glrc_local_block_coefficient (int b) (int k) (int r))) (blocks ! b)"
  proof (rule buffer_eqI)
    show "length (run_chain codec bs ((!) blocks) (nat hub_id) c)
        = length (map (gf_mul (glrc_local_block_coefficient (int b) (int k) (int r))) (blocks ! b))"
      using run_chain_sum(1) [OF b(2)] b(3) blen by simp
    fix i assume "i < length (map (gf_mul (glrc_local_block_coefficient (int b) (int k) (int r))) (blocks ! b))"
    then have i: "i < length (blocks ! b)" by simp
    have "GF (run_chain codec bs ((!) blocks) (nat hub_id) c ! i)
        = GF (gf_mul (glrc_local_block_coefficient (int b) (int k) (int r)) (blocks ! b ! i))"
      using byte [of i] i blen by (simp only: coef GF_hom)
    then show "GF (run_chain codec bs ((!) blocks) (nat hub_id) c ! i)
        = GF (map (gf_mul (glrc_local_block_coefficient (int b) (int k) (int r))) (blocks ! b) ! i)"
      using i by (simp only: nth_map)
  qed
  then show ?thesis using that bF(1) b(1) by blast
qed

lemma pipeline_plan_chains:
  assumes "glrc_build_pipeline_plan k r z F rplan eqs hub_id nl epoch = Inr p"
  obtains cs where "length cs = length (selected_equation_indices rplan)"
    "\<And>i. i < length cs \<Longrightarrow> local_direct (cs ! i) \<longleftrightarrow>
       selected_equation_indices rplan ! i \<in> set (local_direct_set (selected_equation_indices rplan) eqs F)"
    "hub_chains p = filter (\<lambda>c. \<not> local_direct c) cs" "local_direct_chains p = filter local_direct cs"
proof -
  from pipeline_plan_start [OF assms] obtain p0 where p0: "hub_chains p0 = []" "local_direct_chains p0 = []"
    "build_chains k r z F eqs (nat hub_id) nl (local_direct_set (selected_equation_indices rplan) eqs F) 0
       (selected_equation_indices rplan) p0 = Inr p" by metis
  from build_chains_Inr [OF p0(3)] show ?thesis using that p0(1,2) build_chain_local_direct by fastforce
qed

lemma pipeline_plan_chain_count:
  assumes "glrc_build_pipeline_plan k r z F rplan eqs hub_id nl epoch = Inr p"
  shows "length (hub_chains p) + length (local_direct_chains p) = length (selected_equation_indices rplan)"
  using pipeline_plan_chains [OF assms] by (metis add.commute sum_length_filter_compl)

lemma pipeline_plan_direct_chains:
  assumes "glrc_build_pipeline_plan k r z F rplan eqs hub_id nl epoch = Inr p"
    and "e \<in> set (local_direct_set (selected_equation_indices rplan) eqs F)"
  shows "\<exists>c. c \<in> set (local_direct_chains p)"
proof -
  from pipeline_plan_chains [OF assms(1)] obtain cs where cs: "length cs = length (selected_equation_indices rplan)"
    "\<And>i. i < length cs \<Longrightarrow> local_direct (cs ! i) \<longleftrightarrow>
       selected_equation_indices rplan ! i \<in> set (local_direct_set (selected_equation_indices rplan) eqs F)"
    "local_direct_chains p = filter local_direct cs" by metis
  obtain i where "i < length cs" "selected_equation_indices rplan ! i = e"
    using assms(2) cs(1) by (auto simp: local_direct_set_def in_set_conv_nth)
  then have "local_direct (cs ! i)" "cs ! i \<in> set cs" using cs(2) assms(2) by auto
  then have "cs ! i \<in> set (local_direct_chains p)" using cs(3) by simp
  then show ?thesis by blast
qed

end
