(* ===== verification/PortAllocator.thy ===== *)
theory PortAllocator
  imports PipelineFlow "HOL-Library.Signed_Division"
begin

text \<open>
  Listener ports of the pipeline: \<^verbatim>\<open>class GlrcPipelinePortAllocator\<close>, \<^verbatim>\<open>allocate_chain_ports\<close> and the
  duplicate check of \<^verbatim>\<open>coordinator.cpp\<close>, the listener formulas of \<^verbatim>\<open>proxy_glrc_pipeline.cpp\<close> and
  \<^verbatim>\<open>proxy_glrc_phase2.cpp\<close>, and the port constants of \<^verbatim>\<open>config.h\<close>.

  The static members are one record, because every operation runs under \<^verbatim>\<open>s_alloc_mutex\<close>; an
  \<^verbatim>\<open>unordered_map\<close> read with \<^verbatim>\<open>operator[]\<close> is a function whose default is the default value of the
  element.  What the operating system answers is an argument: a \<open>probe\<close> is the clock together with the set
  of ports \<^verbatim>\<open>pipeline_port_bindable\<close> could bind, and \<open>one_proxy\<close> says that
  \<^verbatim>\<open>DDRT_ONE_PROXY_PER_HOST\<close> is set.  C++ division truncates, hence \<open>sdiv\<close> and \<open>smod\<close>.
\<close>

section \<open>Constants and proxy indices\<close>

definition PROXY_PHASE2_EXCHANGE_BASE :: int where "PROXY_PHASE2_EXCHANGE_BASE = 10240"
definition PROXY_PHASE2_EPOCH_STRIDE :: int where "PROXY_PHASE2_EPOCH_STRIDE = 64"
definition PROXY_GRPC_BASE :: int where "PROXY_GRPC_BASE = 50405"
definition PROXY_GRPC_STRIDE :: int where "PROXY_GRPC_STRIDE = 2"
definition PROXY_GRPC_MAX_INDEX :: int where "PROXY_GRPC_MAX_INDEX = 79"
definition PROXY_PHASE2_PER_PROXY_BAND :: int where "PROXY_PHASE2_PER_PROXY_BAND = 80"
definition PROXY_PIPELINE_EXCHANGE_BASE :: int where "PROXY_PIPELINE_EXCHANGE_BASE = 20000"
definition PROXY_PIPELINE_PER_PROXY_BAND :: int where "PROXY_PIPELINE_PER_PROXY_BAND = 150"

lemmas port_consts = PROXY_PHASE2_EXCHANGE_BASE_def PROXY_PHASE2_EPOCH_STRIDE_def PROXY_GRPC_BASE_def
  PROXY_GRPC_STRIDE_def PROXY_GRPC_MAX_INDEX_def PROXY_PHASE2_PER_PROXY_BAND_def
  PROXY_PIPELINE_EXCHANGE_BASE_def PROXY_PIPELINE_PER_PROXY_BAND_def

text \<open>The coordinator refuses an index out of range, the proxies clamp it.\<close>

definition pipeline_proxy_index :: "bool \<Rightarrow> int \<Rightarrow> int" where
  "pipeline_proxy_index one_proxy proxy_grpc_port =
     (if one_proxy then 0
      else let idx = (proxy_grpc_port - PROXY_GRPC_BASE) sdiv PROXY_GRPC_STRIDE
           in if idx < 0 \<or> idx > PROXY_GRPC_MAX_INDEX then - 1 else idx)"

definition clamped_proxy_index :: "bool \<Rightarrow> int \<Rightarrow> int" where
  "clamped_proxy_index one_proxy proxy_grpc_port =
     (if one_proxy then 0
      else let idx = (proxy_grpc_port - PROXY_GRPC_BASE) sdiv PROXY_GRPC_STRIDE
           in if idx < 0 then 0 else if idx > PROXY_GRPC_MAX_INDEX then PROXY_GRPC_MAX_INDEX else idx)"

definition proxy_key :: "string \<Rightarrow> int \<Rightarrow> string" where
  "proxy_key ip port = ip @ '':'' @ int_to_string port"

definition proxy_key_from_hop :: "GlrcPipelineHopInfo \<Rightarrow> string" where
  "proxy_key_from_hop hop = proxy_key (hop_proxy_ip hop) (hop_proxy_port hop)"

section \<open>The allocator of the coordinator\<close>

type_synonym probe = "int \<times> (int \<Rightarrow> bool)"

record port_session =
  s_inflight_ports :: "string \<Rightarrow> int set"
  s_hop_slot_cursor :: "string \<Rightarrow> int"
  s_hub_slot_cursor :: "string \<Rightarrow> int"
  s_port_cooldown_until :: "string \<Rightarrow> int \<Rightarrow> int option"

record GlrcPipelinePortAllocator =
  allocator_epoch :: int
  used_ports :: "string \<Rightarrow> int set"

definition initial_session :: port_session where
  "initial_session = \<lparr>s_inflight_ports = (\<lambda>_. {}), s_hop_slot_cursor = (\<lambda>_. 0), s_hub_slot_cursor = (\<lambda>_. 0),
     s_port_cooldown_until = (\<lambda>_ _. None)\<rparr>"

definition new_allocator :: "int \<Rightarrow> GlrcPipelinePortAllocator" where
  "new_allocator epoch = \<lparr>allocator_epoch = epoch, used_ports = (\<lambda>_. {})\<rparr>"

definition port_band :: "bool \<Rightarrow> int" where
  "port_band one_proxy = (if one_proxy then 10000 else PROXY_PIPELINE_PER_PROXY_BAND)"

definition port_half :: "bool \<Rightarrow> int" where
  "port_half one_proxy = port_band one_proxy sdiv 2"

definition max_port :: "bool \<Rightarrow> int \<Rightarrow> int" where
  "max_port one_proxy proxy_idx = PROXY_PIPELINE_EXCHANGE_BASE + (proxy_idx + 1) * port_band one_proxy - 1"

definition slot_cursor :: "bool \<Rightarrow> string \<Rightarrow> port_session \<Rightarrow> int" where
  "slot_cursor hub_band key s = (if hub_band then s_hub_slot_cursor s key else s_hop_slot_cursor s key)"

definition set_slot_cursor :: "bool \<Rightarrow> string \<Rightarrow> int \<Rightarrow> port_session \<Rightarrow> port_session" where
  "set_slot_cursor hub_band key c s =
     (if hub_band then s\<lparr>s_hub_slot_cursor := (s_hub_slot_cursor s)(key := c)\<rparr>
      else s\<lparr>s_hop_slot_cursor := (s_hop_slot_cursor s)(key := c)\<rparr>)"

definition candidate_port :: "bool \<Rightarrow> int \<Rightarrow> bool \<Rightarrow> int \<Rightarrow> int \<Rightarrow> int" where
  "candidate_port one_proxy proxy_idx hub_band seed attempt =
     (let half = port_half one_proxy;
          slot_in_half = (seed + attempt) smod half;
          slot = (if hub_band then half + slot_in_half else slot_in_half);
          port = PROXY_PIPELINE_EXCHANGE_BASE + proxy_idx * port_band one_proxy + slot
      in if port = 55555 then port + 1 else port)"

text \<open>The cooldown test: \<open>None\<close> when the port is still cooling, otherwise the session without the expired entry.\<close>

definition expire_cooldown :: "int \<Rightarrow> string \<Rightarrow> int \<Rightarrow> port_session \<Rightarrow> port_session option" where
  "expire_cooldown now key port s =
     (case s_port_cooldown_until s key port of
        None \<Rightarrow> Some s
      | Some until \<Rightarrow>
          if until > now then None
          else Some (s\<lparr>s_port_cooldown_until := (s_port_cooldown_until s)(key := (s_port_cooldown_until s key)(port := None))\<rparr>))"

definition reserve_port :: "string \<Rightarrow> int \<Rightarrow> port_session \<Rightarrow> port_session" where
  "reserve_port key port s = s\<lparr>s_inflight_ports := (s_inflight_ports s)(key := insert port (s_inflight_ports s key))\<rparr>"

definition mark_used :: "string \<Rightarrow> int \<Rightarrow> GlrcPipelinePortAllocator \<Rightarrow> GlrcPipelinePortAllocator" where
  "mark_used key port a = a\<lparr>used_ports := (used_ports a)(key := insert port (used_ports a key))\<rparr>"

text \<open>The search loop; \<open>seed\<close> is the part of the slot formula that does not change with the attempt.\<close>

fun allocate_loop :: "bool \<Rightarrow> probe \<Rightarrow> string \<Rightarrow> int \<Rightarrow> bool \<Rightarrow> int \<Rightarrow> nat list \<Rightarrow> port_session
    \<Rightarrow> GlrcPipelinePortAllocator \<Rightarrow> int \<times> port_session \<times> GlrcPipelinePortAllocator" where
  "allocate_loop one_proxy pr key idx hub_band seed [] s a = (- 1, s, a)"
| "allocate_loop one_proxy pr key idx hub_band seed (attempt # rest) s a =
     (let port = candidate_port one_proxy idx hub_band seed (int attempt) in
      if port \<le> 0 \<or> port > 65535 \<or> port > max_port one_proxy idx
      then allocate_loop one_proxy pr key idx hub_band seed rest s a
      else if port \<in> s_inflight_ports s key then allocate_loop one_proxy pr key idx hub_band seed rest s a
      else case expire_cooldown (fst pr) key port s of
          None \<Rightarrow> allocate_loop one_proxy pr key idx hub_band seed rest s a
        | Some s' \<Rightarrow>
            if \<not> snd pr port \<or> port \<in> used_ports a key
            then allocate_loop one_proxy pr key idx hub_band seed rest s' a
            else (port,
                  set_slot_cursor hub_band key ((slot_cursor hub_band key s' + int attempt + 1) smod port_half one_proxy)
                    (reserve_port key port s'),
                  mark_used key port a))"

definition allocate :: "bool \<Rightarrow> probe \<Rightarrow> string \<Rightarrow> int \<Rightarrow> bool \<Rightarrow> int \<Rightarrow> int \<Rightarrow> port_session
    \<Rightarrow> GlrcPipelinePortAllocator \<Rightarrow> int \<times> port_session \<times> GlrcPipelinePortAllocator" where
  "allocate one_proxy pr ip gport hub_band chain hop s a =
     (let idx = pipeline_proxy_index one_proxy gport; key = proxy_key ip gport in
      if idx < 0 then (- 1, s, a)
      else allocate_loop one_proxy pr key idx hub_band
             (allocator_epoch a * 31 + chain * 17 + hop * 11 + slot_cursor hub_band key s)
             [0..<nat (port_half one_proxy)] s a)"

definition allocate_hop_port :: "bool \<Rightarrow> probe \<Rightarrow> string \<Rightarrow> int \<Rightarrow> nat \<Rightarrow> nat \<Rightarrow> port_session
    \<Rightarrow> GlrcPipelinePortAllocator \<Rightarrow> int \<times> port_session \<times> GlrcPipelinePortAllocator" where
  "allocate_hop_port one_proxy pr ip gport chain hop = allocate one_proxy pr ip gport False (int chain) (int hop)"

definition allocate_hub_port :: "bool \<Rightarrow> probe \<Rightarrow> string \<Rightarrow> int \<Rightarrow> nat \<Rightarrow> port_session
    \<Rightarrow> GlrcPipelinePortAllocator \<Rightarrow> int \<times> port_session \<times> GlrcPipelinePortAllocator" where
  "allocate_hub_port one_proxy pr ip gport chain = allocate one_proxy pr ip gport True 0 0"

section \<open>Release and reset\<close>

record GlrcPipelineChainPorts =
  hop_listen_ports :: "int list"
  hub_listen_port :: int

definition release_port :: "bool \<Rightarrow> int \<Rightarrow> string \<times> int \<Rightarrow> port_session \<Rightarrow> port_session" where
  "release_port one_proxy now kp s =
     (if one_proxy then s
      else s\<lparr>s_inflight_ports := (s_inflight_ports s)(fst kp := s_inflight_ports s (fst kp) - {snd kp}),
             s_port_cooldown_until := (s_port_cooldown_until s)
               (fst kp := (s_port_cooldown_until s (fst kp))(snd kp \<mapsto> now + 30))\<rparr>)"

text \<open>The listeners of a chain in the order the loops visit them: one per hop with a port, then the sink.\<close>

definition chain_listeners :: "GlrcPipelineChainPlan \<Rightarrow> string \<Rightarrow> int \<Rightarrow> GlrcPipelineChainPorts \<Rightarrow> (string \<times> int) list" where
  "chain_listeners chain sink_ip sink_port cp =
     zip (map proxy_key_from_hop (hops chain)) (hop_listen_ports cp) @ [(proxy_key sink_ip sink_port, hub_listen_port cp)]"

definition release_one :: "bool \<Rightarrow> int \<Rightarrow> (nat \<Rightarrow> GlrcPipelineChainPorts option) \<Rightarrow> GlrcPipelineChainPlan \<Rightarrow> string \<Rightarrow> int
    \<Rightarrow> port_session \<Rightarrow> port_session" where
  "release_one one_proxy now chain_ports chain sink_ip sink_port s =
     (case chain_ports (chain_id chain) of
        None \<Rightarrow> s
      | Some cp \<Rightarrow> fold (release_port one_proxy now) (chain_listeners chain sink_ip sink_port cp) s)"

definition release_inflight_ports :: "bool \<Rightarrow> int \<Rightarrow> (nat \<Rightarrow> GlrcPipelineChainPorts option) \<Rightarrow> string \<Rightarrow> int
    \<Rightarrow> GlrcPipelinePlan \<Rightarrow> port_session \<Rightarrow> port_session" where
  "release_inflight_ports one_proxy now chain_ports hub_ip hub_port plan s =
     fold (\<lambda>c. release_one one_proxy now chain_ports c (local_direct_sink_proxy_ip c) (local_direct_sink_proxy_port c))
       (local_direct_chains plan)
       (fold (\<lambda>c. release_one one_proxy now chain_ports c hub_ip hub_port) (hub_chains plan) s)"

definition reset_port_session :: "port_session \<Rightarrow> port_session" where
  "reset_port_session s = s\<lparr>s_inflight_ports := (\<lambda>_. {}), s_port_cooldown_until := (\<lambda>_ _. None)\<rparr>"

section \<open>Ports of a whole plan\<close>

text \<open>
  \<open>probes c h\<close> is what the operating system answers while chain \<open>c\<close> asks for the port of hop \<open>h\<close>; the sink
  of a chain is asked for after its last hop.
\<close>

fun allocate_hops :: "bool \<Rightarrow> (nat \<Rightarrow> probe) \<Rightarrow> nat \<Rightarrow> nat \<Rightarrow> GlrcPipelineHopInfo list \<Rightarrow> port_session
    \<Rightarrow> GlrcPipelinePortAllocator \<Rightarrow> (string + int list) \<times> port_session \<times> GlrcPipelinePortAllocator" where
  "allocate_hops one_proxy probes chain hi [] s a = (Inr [], s, a)"
| "allocate_hops one_proxy probes chain hi (hop # hs) s a =
     (case allocate_hop_port one_proxy (probes hi) (hop_proxy_ip hop) (hop_proxy_port hop) chain hi s a of
        (port, s, a) \<Rightarrow>
          if port \<le> 0 then (Inl (''pipeline port allocation failed for hop proxy '' @ hop_proxy_ip hop), s, a)
          else case allocate_hops one_proxy probes chain (Suc hi) hs s a of
              (Inl e, s, a) \<Rightarrow> (Inl e, s, a)
            | (Inr ports, s, a) \<Rightarrow> (Inr (port # ports), s, a))"

text \<open>The first component is the message of the reply when a port could not be had.\<close>

definition allocate_chain_ports :: "bool \<Rightarrow> (nat \<Rightarrow> nat \<Rightarrow> probe) \<Rightarrow> string \<Rightarrow> GlrcPipelineChainPlan \<Rightarrow> string \<Rightarrow> int
    \<Rightarrow> (nat \<Rightarrow> GlrcPipelineChainPorts option) \<Rightarrow> port_session \<Rightarrow> GlrcPipelinePortAllocator
    \<Rightarrow> string option \<times> (nat \<Rightarrow> GlrcPipelineChainPorts option) \<times> port_session \<times> GlrcPipelinePortAllocator" where
  "allocate_chain_ports one_proxy probes sink_tag chain sink_ip sink_port chain_ports s a =
     (case allocate_hops one_proxy (probes (chain_id chain)) (chain_id chain) 0 (hops chain) s a of
        (Inl e, s, a) \<Rightarrow> (Some e, chain_ports, s, a)
      | (Inr ports, s, a) \<Rightarrow>
          (case allocate_hub_port one_proxy (probes (chain_id chain) (length (hops chain))) sink_ip sink_port
                  (chain_id chain) s a of
             (port, s, a) \<Rightarrow>
               if port \<le> 0
               then (Some (''pipeline port allocation failed for '' @ sink_tag @ '' proxy '' @ sink_ip), chain_ports, s, a)
               else (None, chain_ports(chain_id chain \<mapsto> \<lparr>hop_listen_ports = ports, hub_listen_port = port\<rparr>), s, a)))"

fun allocate_chains :: "bool \<Rightarrow> (nat \<Rightarrow> nat \<Rightarrow> probe) \<Rightarrow> string \<Rightarrow> (GlrcPipelineChainPlan \<Rightarrow> string \<times> int)
    \<Rightarrow> GlrcPipelineChainPlan list \<Rightarrow> (nat \<Rightarrow> GlrcPipelineChainPorts option) \<Rightarrow> port_session \<Rightarrow> GlrcPipelinePortAllocator
    \<Rightarrow> string option \<times> (nat \<Rightarrow> GlrcPipelineChainPorts option) \<times> port_session \<times> GlrcPipelinePortAllocator" where
  "allocate_chains one_proxy probes sink_tag sink [] chain_ports s a = (None, chain_ports, s, a)"
| "allocate_chains one_proxy probes sink_tag sink (chain # rest) chain_ports s a =
     (case allocate_chain_ports one_proxy probes sink_tag chain (fst (sink chain)) (snd (sink chain)) chain_ports s a of
        (Some e, chain_ports, s, a) \<Rightarrow> (Some e, chain_ports, s, a)
      | (None, chain_ports, s, a) \<Rightarrow> allocate_chains one_proxy probes sink_tag sink rest chain_ports s a)"

definition hub_sink :: "GlrcPipelinePlan \<Rightarrow> GlrcPipelineChainPlan \<Rightarrow> string \<times> int" where
  "hub_sink plan chain = (hub_proxy_ip plan, hub_proxy_port plan)"

definition local_sink :: "GlrcPipelineChainPlan \<Rightarrow> string \<times> int" where
  "local_sink chain = (local_direct_sink_proxy_ip chain, local_direct_sink_proxy_port chain)"

definition allocate_plan_ports :: "bool \<Rightarrow> (nat \<Rightarrow> nat \<Rightarrow> probe) \<Rightarrow> GlrcPipelinePlan \<Rightarrow> port_session
    \<Rightarrow> string option \<times> (nat \<Rightarrow> GlrcPipelineChainPorts option) \<times> port_session \<times> GlrcPipelinePortAllocator" where
  "allocate_plan_ports one_proxy probes plan s =
     (case allocate_chains one_proxy probes ''hub'' (hub_sink plan) (hub_chains plan) Map.empty s
             (new_allocator (exchange_epoch plan)) of
        (Some e, chain_ports, s, a) \<Rightarrow> (Some e, chain_ports, s, a)
      | (None, chain_ports, s, a) \<Rightarrow>
          allocate_chains one_proxy probes ''local sink'' local_sink (local_direct_chains plan) chain_ports s a)"

text \<open>The check that follows: every listener of a proxy has a port of its own.\<close>

definition check_port :: "string \<times> int \<Rightarrow> (string \<Rightarrow> int set) \<Rightarrow> string + (string \<Rightarrow> int set)" where
  "check_port kp assigned_ports =
     (if snd kp \<le> 0 then Inl []
      else if snd kp \<in> assigned_ports (fst kp) then Inl (''pipeline duplicate listen port on proxy '' @ fst kp)
      else Inr (assigned_ports(fst kp := insert (snd kp) (assigned_ports (fst kp)))))"

fun check_ports :: "(string \<times> int) list \<Rightarrow> (string \<Rightarrow> int set) \<Rightarrow> string + (string \<Rightarrow> int set)" where
  "check_ports [] assigned_ports = Inr assigned_ports"
| "check_ports (kp # kps) assigned_ports =
     (case check_port kp assigned_ports of Inl e \<Rightarrow> Inl e | Inr assigned_ports \<Rightarrow> check_ports kps assigned_ports)"

definition listeners_of :: "(nat \<Rightarrow> GlrcPipelineChainPorts option) \<Rightarrow> (GlrcPipelineChainPlan \<Rightarrow> string \<times> int)
    \<Rightarrow> GlrcPipelineChainPlan \<Rightarrow> (string \<times> int) list" where
  "listeners_of chain_ports sink chain =
     (case chain_ports (chain_id chain) of
        None \<Rightarrow> []
      | Some cp \<Rightarrow> chain_listeners chain (fst (sink chain)) (snd (sink chain)) cp)"

definition plan_listeners :: "GlrcPipelinePlan \<Rightarrow> (nat \<Rightarrow> GlrcPipelineChainPorts option) \<Rightarrow> (string \<times> int) list" where
  "plan_listeners plan chain_ports =
     concat (map (listeners_of chain_ports (hub_sink plan)) (hub_chains plan))
     @ concat (map (listeners_of chain_ports local_sink) (local_direct_chains plan))"

definition check_assigned_ports :: "GlrcPipelinePlan \<Rightarrow> (nat \<Rightarrow> GlrcPipelineChainPorts option)
    \<Rightarrow> string + (string \<Rightarrow> int set)" where
  "check_assigned_ports plan chain_ports = check_ports (plan_listeners plan chain_ports) (\<lambda>_. {})"

section \<open>Listener formulas of the proxies\<close>

definition pipeline_compose_listen_port :: "bool \<Rightarrow> int \<Rightarrow> int \<Rightarrow> bool \<Rightarrow> int" where
  "pipeline_compose_listen_port one_proxy grpc_port slot_core hub_band =
     (let proxy_idx = clamped_proxy_index one_proxy grpc_port;
          half = PROXY_PIPELINE_PER_PROXY_BAND sdiv 2;
          slot = (\<lambda>c. if hub_band then half + c smod half else c smod half);
          port = (\<lambda>c. PROXY_PIPELINE_EXCHANGE_BASE + proxy_idx * PROXY_PIPELINE_PER_PROXY_BAND + slot c)
      in if port slot_core = 55555 then port (slot_core + 1) else port slot_core)"

definition avoid_reserved_pipeline_port :: "bool \<Rightarrow> int \<Rightarrow> int \<Rightarrow> int \<Rightarrow> bool \<Rightarrow> int" where
  "avoid_reserved_pipeline_port one_proxy port grpc_port slot_core hub_band =
     (if port \<noteq> 55555 then port else pipeline_compose_listen_port one_proxy grpc_port (slot_core + 1) hub_band)"

definition pipeline_hop_listen_port :: "bool \<Rightarrow> int \<Rightarrow> int \<Rightarrow> int \<Rightarrow> int \<Rightarrow> int" where
  "pipeline_hop_listen_port one_proxy grpc_port epoch chain hop =
     pipeline_compose_listen_port one_proxy grpc_port
       ((epoch * 17 + chain * 32 + hop) smod (PROXY_PIPELINE_PER_PROXY_BAND sdiv 2)) False"

definition pipeline_hub_listen_port :: "bool \<Rightarrow> int \<Rightarrow> int \<Rightarrow> int \<Rightarrow> int" where
  "pipeline_hub_listen_port one_proxy hub_grpc_port epoch slot =
     pipeline_compose_listen_port one_proxy hub_grpc_port
       ((epoch * 17 + slot * 32 + 1) smod (PROXY_PIPELINE_PER_PROXY_BAND sdiv 2)) True"

definition phase2_exchange_port :: "bool \<Rightarrow> int \<Rightarrow> int \<Rightarrow> int \<Rightarrow> int" where
  "phase2_exchange_port one_proxy grpc_port part epoch =
     PROXY_PHASE2_EXCHANGE_BASE + clamped_proxy_index one_proxy grpc_port * PROXY_PHASE2_PER_PROXY_BAND
       + epoch smod PROXY_PHASE2_EPOCH_STRIDE * 8 + part"

end
