(* ===== verification/PortSession.thy ===== *)
theory PortSession
  imports PortAllocator
begin

text \<open>
  Correctness of the port allocator: the contract of a source of fresh ports and the two ways the allocator
  meets it, the ports of a whole plan (never shared, accepted by the duplicate check, free again after the
  release), the invariant of the sessions reachable by any order of allocations, releases and resets, and
  a sufficient number of ports for the search to succeed.
\<close>

section \<open>The contract of a source of fresh ports\<close>

text \<open>
  A source draws one port per request.  \<open>taken\<close> is the set of (proxy, port) pairs it must not hand out
  again.  The law is about one draw; what the plan needs is about a sequence of them.
\<close>

fun draws :: "('r \<Rightarrow> 's \<Rightarrow> int \<times> 's) \<Rightarrow> 'r list \<Rightarrow> 's \<Rightarrow> int list option \<times> 's" where
  "draws draw [] st = (Some [], st)"
| "draws draw (r # rs) st =
     (case draw r st of
        (p, st) \<Rightarrow> if p \<le> 0 then (None, st)
          else case draws draw rs st of
              (None, st) \<Rightarrow> (None, st)
            | (Some ps, st) \<Rightarrow> (Some (p # ps), st))"

locale fresh_ports =
  fixes draw :: "'r \<Rightarrow> 's \<Rightarrow> int \<times> 's"
    and key :: "'r \<Rightarrow> string"
    and taken :: "'s \<Rightarrow> (string \<times> int) set"
  assumes draw_fresh: "draw r st = (p, st') \<Longrightarrow> 0 < p \<Longrightarrow> (key r, p) \<notin> taken st"
    and draw_taken: "draw r st = (p, st') \<Longrightarrow> 0 < p \<Longrightarrow> taken st' = insert (key r, p) (taken st)"
    and draw_fails: "draw r st = (p, st') \<Longrightarrow> p \<le> 0 \<Longrightarrow> taken st' = taken st"
begin

lemma draws_fresh:
  "draws draw rs st = (Some ps, st') \<Longrightarrow>
   length ps = length rs \<and> (\<forall>p\<in>set ps. 0 < p) \<and> distinct (zip (map key rs) ps)
   \<and> set (zip (map key rs) ps) \<inter> taken st = {} \<and> taken st' = taken st \<union> set (zip (map key rs) ps)"
proof (induction rs arbitrary: st ps)
  case (Cons r rs)
  from Cons.prems obtain p st1 qs where d: "draw r st = (p, st1)" "0 < p" and qs: "draws draw rs st1 = (Some qs, st')"
    and ps: "ps = p # qs" by (auto split: prod.splits option.splits if_splits)
  show ?case using Cons.IH [OF qs] draw_fresh [OF d] draw_taken [OF d] ps d(2) by auto
qed simp

end

lemma draws_Cons_Some:
  "draws d (r # rs) st = (Some ps, st') \<longleftrightarrow>
   (\<exists>p st1 qs. d r st = (p, st1) \<and> 0 < p \<and> draws d rs st1 = (Some qs, st') \<and> ps = p # qs)"
  by (auto split: prod.splits option.splits)

lemma draws_append:
  "draws d (xs @ ys) st = (Some ps, st') \<longleftrightarrow>
   (\<exists>p1 p2 st1. draws d xs st = (Some p1, st1) \<and> draws d ys st1 = (Some p2, st') \<and> ps = p1 @ p2)"
  by (induction xs arbitrary: st ps) (fastforce simp del: draws.simps(2) simp: draws_Cons_Some)+

section \<open>One allocation\<close>

type_synonym port_request = "probe \<times> string \<times> int \<times> bool \<times> int \<times> int"

definition request_key :: "port_request \<Rightarrow> string" where
  "request_key req = (case req of (_, ip, gport, _) \<Rightarrow> proxy_key ip gport)"

definition draw_port :: "bool \<Rightarrow> port_request \<Rightarrow> port_session \<times> GlrcPipelinePortAllocator
    \<Rightarrow> int \<times> port_session \<times> GlrcPipelinePortAllocator" where
  "draw_port one_proxy req st =
     (case req of (pr, ip, gport, hub, c, h) \<Rightarrow> allocate one_proxy pr ip gport hub c h (fst st) (snd st))"

definition port_pairs :: "(string \<Rightarrow> int set) \<Rightarrow> (string \<times> int) set" where
  "port_pairs f = {(k, p). p \<in> f k}"

lemma port_pairs_iff [simp]: "(k, p) \<in> port_pairs f \<longleftrightarrow> p \<in> f k"
  by (simp add: port_pairs_def)

lemma port_pairs_upd: "port_pairs (f(k := insert p (f k))) = insert (k, p) (port_pairs f)"
  by (auto simp: port_pairs_def split: if_splits)

lemma expire_cooldown_Some:
  assumes "expire_cooldown now key port s = Some s'"
  shows "s_inflight_ports s' = s_inflight_ports s"
    "s_port_cooldown_until s k q = Some u \<Longrightarrow> s_port_cooldown_until s' k q = Some u \<or> (u \<le> now \<and> k = key \<and> q = port)"
  using assms by (auto simp: expire_cooldown_def split: option.splits if_splits)

lemma expire_cooldown_expired:
  "expire_cooldown now key port s = Some s' \<Longrightarrow> s_port_cooldown_until s key port = Some u \<Longrightarrow> u \<le> now"
  by (auto simp: expire_cooldown_def split: if_splits)

lemma set_slot_cursor_simps [simp]:
  "s_inflight_ports (set_slot_cursor h k c s) = s_inflight_ports s"
  "s_port_cooldown_until (set_slot_cursor h k c s) = s_port_cooldown_until s"
  by (simp_all add: set_slot_cursor_def)

lemma reserve_port_simps [simp]:
  "s_inflight_ports (reserve_port k p s) = (s_inflight_ports s)(k := insert p (s_inflight_ports s k))"
  by (simp add: reserve_port_def)

lemma mark_used_simps [simp]:
  "used_ports (mark_used k p a) = (used_ports a)(k := insert p (used_ports a k))"
  "allocator_epoch (mark_used k p a) = allocator_epoch a"
  by (simp_all add: mark_used_def)

text \<open>
  What a successful search returns: a candidate within the limits, not in flight, not used by this allocator,
  bindable and no longer cooling; only this port is reserved.
\<close>

definition port_accepted :: "bool \<Rightarrow> probe \<Rightarrow> string \<Rightarrow> int \<Rightarrow> port_session \<Rightarrow> GlrcPipelinePortAllocator \<Rightarrow> int \<Rightarrow> bool" where
  "port_accepted one pr key idx s a p \<longleftrightarrow>
     0 < p \<and> p \<le> 65535 \<and> p \<le> max_port one idx \<and> p \<notin> s_inflight_ports s key \<and> p \<notin> used_ports a key \<and> snd pr p
     \<and> (case s_port_cooldown_until s key p of None \<Rightarrow> True | Some u \<Rightarrow> u \<le> fst pr)"

lemma port_accepted_cong:
  assumes "expire_cooldown (fst pr) key q s = Some s'"
  shows "port_accepted one pr key idx s' a p \<longleftrightarrow> port_accepted one pr key idx s a p"
  using assms by (auto simp: port_accepted_def expire_cooldown_def split: option.splits if_splits)

lemma allocate_loop_success:
  assumes "allocate_loop one pr key idx hub seed as s a = (p, s', a')" "0 < p"
  shows "port_accepted one pr key idx s a p \<and> (\<exists>t\<in>set as. p = candidate_port one idx hub seed (int t))
    \<and> s_inflight_ports s' = (s_inflight_ports s)(key := insert p (s_inflight_ports s key)) \<and> a' = mark_used key p a"
  using assms
proof (induction as arbitrary: s)
  case (Cons t as)
  let ?q = "candidate_port one idx hub seed (int t)"
  show ?case
  proof (cases "allocate_loop one pr key idx hub seed as s a = (p, s', a')")
    case True
    then show ?thesis using Cons by auto
  next
    case False
    with Cons.prems obtain s0 where e: "expire_cooldown (fst pr) key ?q s = Some s0" and q: "0 < ?q" "?q \<le> 65535"
        "?q \<le> max_port one idx" "?q \<notin> s_inflight_ports s key"
      by (auto simp: Let_def split: if_splits option.splits)
    show ?thesis
    proof (cases "allocate_loop one pr key idx hub seed as s0 a = (p, s', a')")
      case True
      then show ?thesis using Cons.IH [of s0] Cons.prems(2) expire_cooldown_Some(1) [OF e] port_accepted_cong [OF e]
        by auto
    next
      case no: False
      then show ?thesis using Cons.prems e q expire_cooldown_expired [OF e] expire_cooldown_Some(1) [OF e] False
        by (auto simp: Let_def port_accepted_def split: if_splits option.splits)
    qed
  qed
qed simp

lemma allocate_loop_fails:
  "allocate_loop one pr key idx hub seed as s a = (p, s', a') \<Longrightarrow> p \<le> 0 \<Longrightarrow>
   s_inflight_ports s' = s_inflight_ports s \<and> a' = a"
proof (induction as arbitrary: s)
  case (Cons t as)
  then show ?case
    by (auto simp: Let_def split: if_splits option.splits dest!: Cons.IH expire_cooldown_Some(1))
qed simp

lemma allocate_success:
  assumes "allocate one pr ip gport hub c h s a = (p, s', a')" "0 < p"
  shows "port_accepted one pr (proxy_key ip gport) (pipeline_proxy_index one gport) s a p"
    "s_inflight_ports s' = (s_inflight_ports s)(proxy_key ip gport := insert p (s_inflight_ports s (proxy_key ip gport)))"
    "a' = mark_used (proxy_key ip gport) p a"
    "0 \<le> pipeline_proxy_index one gport"
    "\<exists>t<nat (port_half one). p = candidate_port one (pipeline_proxy_index one gport) hub
       (allocator_epoch a * 31 + c * 17 + h * 11 + slot_cursor hub (proxy_key ip gport) s) (int t)"
  using assms allocate_loop_success [of one pr "proxy_key ip gport" "pipeline_proxy_index one gport" hub
      "allocator_epoch a * 31 + c * 17 + h * 11 + slot_cursor hub (proxy_key ip gport) s" "[0..<nat (port_half one)]" s a p s' a']
  by (auto simp: allocate_def Let_def split: if_splits)

lemma allocate_fails:
  assumes "allocate one pr ip gport hub c h s a = (p, s', a')" "p \<le> 0"
  shows "s_inflight_ports s' = s_inflight_ports s" "a' = a"
  using assms allocate_loop_fails [of one pr "proxy_key ip gport" "pipeline_proxy_index one gport" hub
      "allocator_epoch a * 31 + c * 17 + h * 11 + slot_cursor hub (proxy_key ip gport) s" "[0..<nat (port_half one)]" s a p s' a']
  by (auto simp: allocate_def Let_def split: if_splits)

lemma draw_port_success:
  assumes "draw_port one req st = (p, st')" "0 < p"
  shows "p \<notin> s_inflight_ports (fst st) (request_key req)" "p \<notin> used_ports (snd st) (request_key req)"
    "s_inflight_ports (fst st') = (s_inflight_ports (fst st))(request_key req := insert p (s_inflight_ports (fst st) (request_key req)))"
    "snd st' = mark_used (request_key req) p (snd st)"
proof -
  obtain pr ip gport hub c h where req: "req = (pr, ip, gport, hub, c, h)" by (cases req) auto
  have "allocate one pr ip gport hub c h (fst st) (snd st) = (p, fst st', snd st')"
    using assms(1) by (simp add: draw_port_def req)
  from allocate_success [OF this assms(2)]
  show "p \<notin> s_inflight_ports (fst st) (request_key req)" "p \<notin> used_ports (snd st) (request_key req)"
    "s_inflight_ports (fst st') = (s_inflight_ports (fst st))(request_key req := insert p (s_inflight_ports (fst st) (request_key req)))"
    "snd st' = mark_used (request_key req) p (snd st)"
    by (simp_all add: req request_key_def port_accepted_def)
qed

lemma draw_port_fails:
  assumes "draw_port one req st = (p, st')" "p \<le> 0"
  shows "s_inflight_ports (fst st') = s_inflight_ports (fst st)" "snd st' = snd st"
proof -
  obtain pr ip gport hub c h where req: "req = (pr, ip, gport, hub, c, h)" by (cases req) auto
  have "allocate one pr ip gport hub c h (fst st) (snd st) = (p, fst st', snd st')"
    using assms(1) by (simp add: draw_port_def req)
  from allocate_fails [OF this assms(2)]
  show "s_inflight_ports (fst st') = s_inflight_ports (fst st)" "snd st' = snd st" .
qed

text \<open>
  The allocator meets the contract twice over: for the ports it has handed out itself, and for the ports
  in flight for any recovery.
\<close>

interpretation own: fresh_ports "draw_port one" request_key "\<lambda>st. port_pairs (used_ports (snd st))" for one
  by unfold_locales (auto simp: draw_port_success draw_port_fails port_pairs_upd)

interpretation flight: fresh_ports "draw_port one" request_key "\<lambda>st. port_pairs (s_inflight_ports (fst st))" for one
  by unfold_locales (auto simp: draw_port_success draw_port_fails port_pairs_upd)

section \<open>Bands\<close>

text \<open>The ports of one half of a proxy's band.\<close>

definition half_base :: "bool \<Rightarrow> int \<Rightarrow> bool \<Rightarrow> int" where
  "half_base one idx hub = PROXY_PIPELINE_EXCHANGE_BASE + idx * port_band one + (if hub then port_half one else 0)"

definition half_band :: "bool \<Rightarrow> int \<Rightarrow> bool \<Rightarrow> int set" where
  "half_band one idx hub = {half_base one idx hub..<half_base one idx hub + port_half one}"

definition valid_index :: "bool \<Rightarrow> int \<Rightarrow> bool" where
  "valid_index one idx \<longleftrightarrow> 0 \<le> idx \<and> (if one then idx = 0 else idx \<le> PROXY_GRPC_MAX_INDEX)"

lemma pipeline_proxy_index_valid: "0 \<le> pipeline_proxy_index one gport \<Longrightarrow> valid_index one (pipeline_proxy_index one gport)"
  by (auto simp: pipeline_proxy_index_def valid_index_def Let_def split: if_splits)

lemma port_half_eq: "port_half True = 5000" "port_half False = 75" "port_band True = 10000" "port_band False = 150"
  by (simp_all add: port_half_def port_band_def port_consts)

lemma port_half_pos [simp]: "0 < port_half one"
  by (cases one) (simp_all add: port_half_eq)

lemma half_base_slot: "half_base one idx hub = 20000 + (2 * idx + of_bool hub) * port_half one"
  by (cases one; cases hub) (simp_all add: half_base_def port_half_eq port_consts)

lemma half_base_range:
  assumes "valid_index one idx"
  shows "20000 \<le> half_base one idx hub" "half_base one idx hub + port_half one \<le> max_port one idx + 1"
    "max_port one idx < 32000"
  using assms by (cases one; cases hub; simp add: half_base_def max_port_def valid_index_def port_half_eq port_consts)+

lemma half_band_range:
  assumes "valid_index one idx" "p \<in> half_band one idx hub"
  shows "20000 \<le> p" "p < 32000" "p \<le> max_port one idx"
  using assms(2) half_base_range(1,2) [OF assms(1), of hub] half_base_range(3) [OF assms(1)]
  by (auto simp: half_band_def)

lemma half_band_slot: "p \<in> half_band one idx hub \<Longrightarrow> (p - 20000) div port_half one = 2 * idx + of_bool hub"
proof -
  let ?h = "port_half one" and ?n = "2 * idx + of_bool hub"
  assume "p \<in> half_band one idx hub"
  then have "0 \<le> p - 20000 - ?n * ?h" "p - 20000 - ?n * ?h < ?h" by (auto simp: half_band_def half_base_slot)
  then have "(p - 20000 - ?n * ?h) div ?h = 0" by simp
  moreover have "p - 20000 = p - 20000 - ?n * ?h + ?n * ?h" by simp
  ultimately show ?thesis using div_mult_self1 [of ?h "p - 20000 - ?n * ?h" ?n] port_half_pos [of one]
    by (simp only: add_0_left)
qed

lemma half_bands_disjoint:
  assumes "(idx, hub) \<noteq> (idx', hub')"
  shows "half_band one idx hub \<inter> half_band one idx' hub' = {}"
proof -
  have "2 * idx + of_bool hub \<noteq> 2 * idx' + of_bool hub'" using assms by (cases hub; cases hub') (auto, presburger+)
  then show ?thesis using half_band_slot [of _ one idx hub] half_band_slot [of _ one idx' hub'] by (metis disjoint_iff)
qed

lemma candidate_port_eq:
  assumes "valid_index one idx" "0 \<le> seed"
  shows "candidate_port one idx hub seed (int t) = half_base one idx hub + (seed + int t) mod port_half one"
proof -
  have m: "(seed + int t) smod port_half one = (seed + int t) mod port_half one"
    using assms(2) less_imp_le [OF port_half_pos [of one]] by (intro smod_mod_positive) auto
  have "(seed + int t) mod port_half one < port_half one" by simp
  then have "half_base one idx hub + (seed + int t) mod port_half one \<noteq> 55555"
    using half_base_range(1,2) [OF assms(1), of hub] half_base_range(3) [OF assms(1)] by linarith
  then show ?thesis by (auto simp: candidate_port_def m Let_def half_base_def algebra_simps)
qed

lemma candidate_port_in_band:
  "valid_index one idx \<Longrightarrow> 0 \<le> seed \<Longrightarrow> candidate_port one idx hub seed (int t) \<in> half_band one idx hub"
  by (simp add: candidate_port_eq half_band_def)

lemma candidate_port_covers:
  assumes "valid_index one idx" "0 \<le> seed" "p \<in> half_band one idx hub"
  shows "\<exists>t<nat (port_half one). p = candidate_port one idx hub seed (int t)"
proof -
  define h lo where "h = port_half one" and "lo = half_base one idx hub"
  have h: "0 < h" by (simp add: h_def)
  have p: "0 \<le> p - lo" "p - lo < h" using assms(3) by (auto simp: half_band_def h_def lo_def)
  let ?t = "nat ((p - lo - seed) mod h)"
  have "(seed + int ?t) mod h = (seed + (p - lo - seed)) mod h" using h by (simp add: mod_add_right_eq)
  also have "\<dots> = p - lo" using p by simp
  finally have "p = candidate_port one idx hub seed (int ?t)"
    by (simp only: candidate_port_eq [OF assms(1,2)] h_def lo_def)
  then show ?thesis using h by (intro exI [of _ ?t]) (simp add: h_def nat_mono_iff)
qed

lemma allocate_loop_exhausts:
  "allocate_loop one pr key idx hub seed as s a = (p, s', a') \<Longrightarrow> p \<le> 0 \<Longrightarrow> t \<in> set as \<Longrightarrow>
   \<not> port_accepted one pr key idx s a (candidate_port one idx hub seed (int t))"
proof (induction as arbitrary: s)
  case (Cons u as)
  let ?q = "candidate_port one idx hub seed (int u)"
  consider (cont) "allocate_loop one pr key idx hub seed as s a = (p, s', a')" "\<not> port_accepted one pr key idx s a ?q"
    | (expired) s0 where "expire_cooldown (fst pr) key ?q s = Some s0"
        "allocate_loop one pr key idx hub seed as s0 a = (p, s', a')" "\<not> port_accepted one pr key idx s a ?q"
    using Cons.prems(1,2)
    by (auto simp: Let_def port_accepted_def expire_cooldown_def split: if_splits option.splits)
  then show ?case
  proof cases
    case cont
    then show ?thesis using Cons by auto
  next
    case expired
    then show ?thesis using Cons.IH [of s0] Cons.prems(2,3) port_accepted_cong [OF expired(1)] by auto
  qed
qed simp

text \<open>The search finds a port exactly when the half band of the proxy holds an acceptable one.\<close>

lemma allocate_complete:
  assumes "0 \<le> pipeline_proxy_index one gport"
    and "0 \<le> allocator_epoch a * 31 + c * 17 + h * 11 + slot_cursor hub (proxy_key ip gport) s"
    and "allocate one pr ip gport hub c h s a = (p, s', a')"
  shows "0 < p \<longleftrightarrow> (\<exists>q\<in>half_band one (pipeline_proxy_index one gport) hub.
      port_accepted one pr (proxy_key ip gport) (pipeline_proxy_index one gport) s a q)"
    (is "_ \<longleftrightarrow> (\<exists>q\<in>?B. ?A q)")
proof
  assume "0 < p"
  from allocate_success [OF assms(3) this] show "\<exists>q\<in>?B. ?A q"
    using candidate_port_in_band [OF pipeline_proxy_index_valid [OF assms(1)] assms(2)] by auto
next
  assume "\<exists>q\<in>?B. ?A q"
  then obtain t where t: "t < nat (port_half one)" "?A (candidate_port one (pipeline_proxy_index one gport) hub
      (allocator_epoch a * 31 + c * 17 + h * 11 + slot_cursor hub (proxy_key ip gport) s) (int t))"
    using candidate_port_covers [OF pipeline_proxy_index_valid [OF assms(1)] assms(2)] by blast
  show "0 < p"
  proof (rule ccontr)
    assume "\<not> 0 < p"
    then show False using allocate_loop_exhausts [where t = t] t assms(1,3)
      by (auto simp: allocate_def Let_def split: if_splits)
  qed
qed

lemma allocate_in_band:
  assumes "allocate one pr ip gport hub c h s a = (p, s', a')" "0 < p"
    and "0 \<le> allocator_epoch a * 31 + c * 17 + h * 11 + slot_cursor hub (proxy_key ip gport) s"
  shows "p \<in> half_band one (pipeline_proxy_index one gport) hub"
  using allocate_success(4,5) [OF assms(1,2)] candidate_port_in_band [OF pipeline_proxy_index_valid assms(3)] by auto

section \<open>A plan is served by a sequence of draws\<close>

primrec hop_requests :: "(nat \<Rightarrow> probe) \<Rightarrow> nat \<Rightarrow> nat \<Rightarrow> GlrcPipelineHopInfo list \<Rightarrow> port_request list" where
  "hop_requests probes c hi [] = []"
| "hop_requests probes c hi (hop # hs) =
     (probes hi, hop_proxy_ip hop, hop_proxy_port hop, False, int c, int hi) # hop_requests probes c (Suc hi) hs"

definition chain_requests :: "(nat \<Rightarrow> nat \<Rightarrow> probe) \<Rightarrow> (GlrcPipelineChainPlan \<Rightarrow> string \<times> int) \<Rightarrow> GlrcPipelineChainPlan
    \<Rightarrow> port_request list" where
  "chain_requests probes sink chain =
     hop_requests (probes (chain_id chain)) (chain_id chain) 0 (hops chain)
     @ [(probes (chain_id chain) (length (hops chain)), fst (sink chain), snd (sink chain), True, 0, 0)]"

lemma hop_requests_keys: "map request_key (hop_requests probes c hi hs) = map proxy_key_from_hop hs"
  by (induction hs arbitrary: hi) (simp_all add: request_key_def proxy_key_from_hop_def)

lemma length_hop_requests [simp]: "length (hop_requests probes c hi hs) = length hs"
  by (induction hs arbitrary: hi) simp_all

lemma draws_length: "draws d rs st = (Some ps, st') \<Longrightarrow> length ps = length rs"
proof (induction rs arbitrary: st ps)
  case (Cons r rs)
  then show ?case by (auto simp del: draws.simps(2) simp: draws_Cons_Some)
qed simp

lemma draw_port_eq: "draw_port one (pr, ip, gport, hub, c, h) (s, a) = allocate one pr ip gport hub c h s a"
  by (simp add: draw_port_def)

lemma allocate_hops_draws:
  "allocate_hops one probes c hi hs s a = (Inr ps, s', a') \<Longrightarrow>
   draws (draw_port one) (hop_requests probes c hi hs) (s, a) = (Some ps, s', a')"
  by (induction hs arbitrary: hi s a ps)
     (auto simp: allocate_hop_port_def draw_port_eq split: prod.splits sum.splits if_splits)

lemma allocate_chain_ports_draws:
  assumes "allocate_chain_ports one probes tag chain (fst (sink chain)) (snd (sink chain)) cps s a = (None, cps', s', a')"
  shows "\<exists>ps cp. cps' = cps(chain_id chain \<mapsto> cp)
    \<and> draws (draw_port one) (chain_requests probes sink chain) (s, a) = (Some ps, s', a')
    \<and> zip (map request_key (chain_requests probes sink chain)) ps
        = chain_listeners chain (fst (sink chain)) (snd (sink chain)) cp"
proof -
  from assms obtain ps p s1 a1 where
      h: "allocate_hops one (probes (chain_id chain)) (chain_id chain) 0 (hops chain) s a = (Inr ps, s1, a1)"
    and p: "allocate one (probes (chain_id chain) (length (hops chain))) (fst (sink chain)) (snd (sink chain)) True 0 0 s1 a1
      = (p, s', a')" "0 < p"
    and cps: "cps' = cps(chain_id chain \<mapsto> \<lparr>hop_listen_ports = ps, hub_listen_port = p\<rparr>)"
    by (auto simp: allocate_chain_ports_def allocate_hub_port_def split: prod.splits sum.splits if_splits)
  have d: "draws (draw_port one) (chain_requests probes sink chain) (s, a) = (Some (ps @ [p]), s', a')"
    using allocate_hops_draws [OF h] p by (auto simp: chain_requests_def draws_append draw_port_eq)
  have l: "length ps = length (hops chain)" using draws_length [OF allocate_hops_draws [OF h]] by simp
  show ?thesis using d l cps
    by (intro exI [of _ "ps @ [p]"] exI)
       (auto simp: chain_requests_def hop_requests_keys chain_listeners_def request_key_def proxy_key_from_hop_def)
qed

lemma listeners_of_upd:
  "chain_id c \<noteq> i \<Longrightarrow> listeners_of (cps(i \<mapsto> cp)) sink c = listeners_of cps sink c"
  by (simp add: listeners_of_def)

lemma allocate_chains_draws:
  assumes "allocate_chains one probes tag sink cs cps s a = (None, cps', s', a')" "distinct (map chain_id cs)"
  shows "(\<exists>ps. draws (draw_port one) (concat (map (chain_requests probes sink) cs)) (s, a) = (Some ps, s', a')
      \<and> zip (map request_key (concat (map (chain_requests probes sink) cs))) ps = concat (map (listeners_of cps' sink) cs))
    \<and> (\<forall>i. i \<notin> chain_id ` set cs \<longrightarrow> cps' i = cps i)"
  using assms
proof (induction cs arbitrary: cps s a)
  case (Cons c cs)
  from Cons.prems(1) obtain cps1 s1 a1 where
      c: "allocate_chain_ports one probes tag c (fst (sink c)) (snd (sink c)) cps s a = (None, cps1, s1, a1)"
    and rest: "allocate_chains one probes tag sink cs cps1 s1 a1 = (None, cps', s', a')"
    by (auto split: prod.splits sum.splits option.splits)
  from allocate_chain_ports_draws [where sink = sink, OF c] obtain ps cp where p: "cps1 = cps(chain_id c \<mapsto> cp)"
    "draws (draw_port one) (chain_requests probes sink c) (s, a) = (Some ps, s1, a1)"
    "zip (map request_key (chain_requests probes sink c)) ps = chain_listeners c (fst (sink c)) (snd (sink c)) cp" by blast
  from Cons.IH [OF rest] Cons.prems(2) obtain qs where q:
    "draws (draw_port one) (concat (map (chain_requests probes sink) cs)) (s1, a1) = (Some qs, s', a')"
    "zip (map request_key (concat (map (chain_requests probes sink) cs))) qs = concat (map (listeners_of cps' sink) cs)"
    and keep: "\<forall>i. i \<notin> chain_id ` set cs \<longrightarrow> cps' i = cps1 i" by auto
  have "cps' (chain_id c) = Some cp" using keep Cons.prems(2) p(1) by auto
  then have "listeners_of cps' sink c = chain_listeners c (fst (sink c)) (snd (sink c)) cp" by (simp add: listeners_of_def)
  moreover have "length ps = length (chain_requests probes sink c)" using draws_length [OF p(2)] .
  ultimately have "zip (map request_key (concat (map (chain_requests probes sink) (c # cs)))) (ps @ qs)
      = concat (map (listeners_of cps' sink) (c # cs))" using p(3) q(2) by (simp add: zip_append)
  moreover have "draws (draw_port one) (concat (map (chain_requests probes sink) (c # cs))) (s, a) = (Some (ps @ qs), s', a')"
    using p(2) q(1) by (auto simp: draws_append)
  ultimately show ?case using keep p(1) by auto
qed simp

lemma plan_ports_draws:
  assumes "allocate_plan_ports one probes plan s = (None, cps, s', a')"
    and "distinct (map chain_id (hub_chains plan @ local_direct_chains plan))"
  shows "\<exists>rs ps. draws (draw_port one) rs (s, new_allocator (exchange_epoch plan)) = (Some ps, s', a')
    \<and> zip (map request_key rs) ps = plan_listeners plan cps"
proof -
  from assms(1) obtain cps1 s1 a1 where
      h: "allocate_chains one probes ''hub'' (hub_sink plan) (hub_chains plan) Map.empty s
            (new_allocator (exchange_epoch plan)) = (None, cps1, s1, a1)"
    and l: "allocate_chains one probes ''local sink'' local_sink (local_direct_chains plan) cps1 s1 a1 = (None, cps, s', a')"
    by (auto simp: allocate_plan_ports_def split: prod.splits sum.splits option.splits)
  let ?hr = "concat (map (chain_requests probes (hub_sink plan)) (hub_chains plan))"
  let ?lr = "concat (map (chain_requests probes local_sink) (local_direct_chains plan))"
  from allocate_chains_draws [OF h] assms(2) obtain ps where ps:
    "draws (draw_port one) ?hr (s, new_allocator (exchange_epoch plan)) = (Some ps, s1, a1)"
    "zip (map request_key ?hr) ps = concat (map (listeners_of cps1 (hub_sink plan)) (hub_chains plan))" by auto
  from allocate_chains_draws [OF l] assms(2) obtain qs where qs:
    "draws (draw_port one) ?lr (s1, a1) = (Some qs, s', a')"
    "zip (map request_key ?lr) qs = concat (map (listeners_of cps local_sink) (local_direct_chains plan))"
    and keep: "\<forall>i. i \<notin> chain_id ` set (local_direct_chains plan) \<longrightarrow> cps i = cps1 i" by auto
  have "listeners_of cps1 (hub_sink plan) c = listeners_of cps (hub_sink plan) c" if "c \<in> set (hub_chains plan)" for c
  proof -
    have "chain_id c \<notin> chain_id ` set (local_direct_chains plan)" using that assms(2) by (auto simp: disjoint_iff)
    then show ?thesis using keep by (simp add: listeners_of_def)
  qed
  then have eq: "map (listeners_of cps1 (hub_sink plan)) (hub_chains plan) = map (listeners_of cps (hub_sink plan)) (hub_chains plan)"
    by simp
  have "zip (map request_key (?hr @ ?lr)) (ps @ qs) = plan_listeners plan cps"
    using ps(2) [unfolded eq] qs(2) draws_length [OF ps(1)] by (simp add: zip_append plan_listeners_def)
  moreover have "draws (draw_port one) (?hr @ ?lr) (s, new_allocator (exchange_epoch plan)) = (Some (ps @ qs), s', a')"
    using ps(1) qs(1) by (auto simp: draws_append)
  ultimately show ?thesis by blast
qed

section \<open>Proxy keys identify proxies\<close>

definition from_digits :: "string \<Rightarrow> nat" where
  "from_digits ds = foldl (\<lambda>acc d. acc * 10 + (of_char d - 48)) 0 ds"

lemma from_digits_to_string: "from_digits (to_string n) = n"
proof (induction n rule: to_string.induct)
  case (1 n)
  then show ?case by (subst to_string.simps) (simp add: from_digits_def)
qed

lemma to_string_inject: "to_string m = to_string n \<longleftrightarrow> m = n"
  by (metis from_digits_to_string)

lemma to_string_digits: "c \<in> set (to_string n) \<Longrightarrow> of_char c \<in> {48..<58::nat}"
proof (induction n rule: to_string.induct)
  case (1 n)
  then show ?case by (subst (asm) (2) to_string.simps) (auto split: if_splits)
qed

lemma int_to_string_chars: "c \<in> set (int_to_string i) \<Longrightarrow> c \<noteq> CHR '':''"
  using to_string_digits by (fastforce simp: int_to_string_def split: if_splits)

lemma int_to_string_inject: "int_to_string i = int_to_string j \<longleftrightarrow> i = j"
proof
  have minus: "CHR ''-'' \<notin> set (to_string n)" for n using to_string_digits [of "CHR ''-''" n] by auto
  assume "int_to_string i = int_to_string j"
  then show "i = j" using minus [of "nat i"] minus [of "nat j"]
    by (auto simp: int_to_string_def to_string_inject split: if_splits) (metis list.set_intros(1))+
qed simp

lemma proxy_key_inject: "proxy_key ip g = proxy_key ip' g' \<longleftrightarrow> ip = ip' \<and> g = g'"
proof
  have digits: "takeWhile (\<lambda>c. c \<noteq> CHR '':'') (rev (proxy_key i h)) = rev (int_to_string h)" for i h
    using int_to_string_chars by (auto simp: proxy_key_def takeWhile_append)
  assume *: "proxy_key ip g = proxy_key ip' g'"
  then have "g = g'" using digits by (metis rev_rev_ident int_to_string_inject)
  then show "ip = ip' \<and> g = g'" using * by (simp add: proxy_key_def)
qed simp

section \<open>Release\<close>

lemma fold_release_port:
  "fold (release_port False now) L s = s\<lparr>s_inflight_ports := (\<lambda>k. s_inflight_ports s k - {p. (k, p) \<in> set L}),
     s_port_cooldown_until := (\<lambda>k p. if (k, p) \<in> set L then Some (now + 30) else s_port_cooldown_until s k p)\<rparr>"
proof (induction L arbitrary: s)
  case (Cons kp L)
  have "fold (release_port False now) (kp # L) s = fold (release_port False now) L (release_port False now kp s)" by simp
  then show ?case unfolding Cons.IH
    by (simp only:) (rule port_session.equality; cases kp; auto simp: release_port_def fun_eq_iff)
qed simp

lemma fold_release_port_preserve: "fold (release_port True now) L s = s"
  by (induction L arbitrary: s) (simp_all add: release_port_def)

lemma fold_release_one:
  "fold (\<lambda>c. release_one one now cps c (fst (sink c)) (snd (sink c))) cs s
   = fold (release_port one now) (concat (map (listeners_of cps sink) cs)) s"
  by (induction cs arbitrary: s) (simp_all add: release_one_def listeners_of_def split: option.splits)

lemma release_inflight_ports_eq:
  "release_inflight_ports one now cps (hub_proxy_ip plan) (hub_proxy_port plan) plan s
   = fold (release_port one now) (plan_listeners plan cps) s"
  using fold_release_one [of one now cps "hub_sink plan" "hub_chains plan" s]
    fold_release_one [of one now cps local_sink "local_direct_chains plan"]
  by (simp add: release_inflight_ports_def plan_listeners_def hub_sink_def local_sink_def)

section \<open>The duplicate check\<close>

lemma check_ports_pass:
  assumes "distinct kps" "\<forall>kp\<in>set kps. 0 < snd kp" "set kps \<inter> port_pairs assigned = {}"
  shows "\<exists>assigned'. check_ports kps assigned = Inr assigned'"
  using assms
proof (induction kps arbitrary: assigned)
  case (Cons kp kps)
  obtain k p where kp: "kp = (k, p)" by (cases kp)
  have "set kps \<inter> port_pairs (assigned(k := insert p (assigned k))) = {}"
    using Cons.prems by (auto simp: kp port_pairs_upd)
  then show ?case using Cons by (auto simp: kp check_port_def)
qed simp

lemma build_chain_id: "build_chain k r z F eqs hub nl direct slot e = Inr c \<Longrightarrow> chain_id c = slot"
  by (auto simp: build_chain_def Let_def set_local_sink_def empty_chain_def map_sum_def
      split: if_splits sum.splits list.splits)

lemma pipeline_plan_chain_ids:
  assumes "glrc_build_pipeline_plan k r z F rplan eqs hub_id nl epoch = Inr plan"
  shows "distinct (map chain_id (hub_chains plan @ local_direct_chains plan))"
proof -
  let ?sel = "selected_equation_indices rplan"
  from pipeline_plan_start [OF assms] obtain p0 where p0: "hub_chains p0 = []" "local_direct_chains p0 = []"
    "build_chains k r z F eqs (nat hub_id) nl (local_direct_set ?sel eqs F) 0 ?sel p0 = Inr plan" by metis
  from build_chains_Inr [OF p0(3)] p0(1,2) obtain cs where cs: "length cs = length ?sel"
    "\<forall>i<length ?sel. build_chain k r z F eqs (nat hub_id) nl (local_direct_set ?sel eqs F) i (?sel ! i) = Inr (cs ! i)"
    "hub_chains plan = filter (\<lambda>c. \<not> local_direct c) cs" "local_direct_chains plan = filter local_direct cs" by auto
  have "map chain_id cs = [0..<length cs]" using cs(1,2) build_chain_id by (intro nth_equalityI) auto
  then have d: "distinct (map chain_id cs)" by simp
  have "mset (hub_chains plan @ local_direct_chains plan) = mset cs" using cs(3,4) by (simp add: multiset_partition [symmetric] add.commute)
  then have "mset (map chain_id (hub_chains plan @ local_direct_chains plan)) = mset (map chain_id cs)" by (simp only: mset_map)
  then show ?thesis using d mset_eq_imp_distinct_iff by blast
qed

text \<open>The whole life of a session's ports: fresh when drawn, pairwise different, free again after the release.\<close>

lemma plan_ports_facts:
  assumes "allocate_plan_ports one probes plan s = (None, cps, s', a')"
    and "distinct (map chain_id (hub_chains plan @ local_direct_chains plan))"
  shows "distinct (plan_listeners plan cps)" "\<forall>kp\<in>set (plan_listeners plan cps). 0 < snd kp"
    "set (plan_listeners plan cps) \<inter> port_pairs (s_inflight_ports s) = {}"
    "port_pairs (s_inflight_ports s') = port_pairs (s_inflight_ports s) \<union> set (plan_listeners plan cps)"
proof -
  from plan_ports_draws [OF assms] obtain rs ps where
      d: "draws (draw_port one) rs (s, new_allocator (exchange_epoch plan)) = (Some ps, s', a')"
    and L: "zip (map request_key rs) ps = plan_listeners plan cps" by blast
  note facts = flight.draws_fresh [OF d, unfolded L]
  show "distinct (plan_listeners plan cps)" "set (plan_listeners plan cps) \<inter> port_pairs (s_inflight_ports s) = {}"
    "port_pairs (s_inflight_ports s') = port_pairs (s_inflight_ports s) \<union> set (plan_listeners plan cps)"
    using facts by simp_all
  show "\<forall>kp\<in>set (plan_listeners plan cps). 0 < snd kp"
    using facts by (auto simp: L [symmetric] dest: set_zip_rightD)
qed

lemma release_restores:
  assumes "port_pairs (s_inflight_ports s') = port_pairs (s_inflight_ports s) \<union> set (plan_listeners plan cps)"
    and "set (plan_listeners plan cps) \<inter> port_pairs (s_inflight_ports s) = {}"
  shows "s_inflight_ports (release_inflight_ports False now cps (hub_proxy_ip plan) (hub_proxy_port plan) plan s')
    = s_inflight_ports s"
proof
  fix key
  have "p \<in> s_inflight_ports s' key \<longleftrightarrow> p \<in> s_inflight_ports s key \<or> (key, p) \<in> set (plan_listeners plan cps)" for p
    using arg_cong [OF assms(1), of "\<lambda>S. (key, p) \<in> S"] by simp
  moreover have "\<not> ((key, p) \<in> set (plan_listeners plan cps) \<and> p \<in> s_inflight_ports s key)" for p using assms(2) by auto
  ultimately show "s_inflight_ports (release_inflight_ports False now cps (hub_proxy_ip plan) (hub_proxy_port plan) plan s') key
    = s_inflight_ports s key"
    by (auto simp: release_inflight_ports_eq fold_release_port)
qed

section \<open>Reachable sessions\<close>

text \<open>
  The operations under \<^verbatim>\<open>s_alloc_mutex\<close>, in any order and for any number of recoveries.  The epoch and
  the chain and hop numbers of the calls are never negative.
\<close>

inductive session_reachable :: "bool \<Rightarrow> port_session \<Rightarrow> bool" for one :: bool where
  start: "session_reachable one initial_session"
| alloc: "session_reachable one s \<Longrightarrow> 0 \<le> allocator_epoch a \<Longrightarrow> 0 \<le> c \<Longrightarrow> 0 \<le> h
    \<Longrightarrow> allocate one pr ip gport hub c h s a = (p, s', a') \<Longrightarrow> session_reachable one s'"
| release: "session_reachable one s \<Longrightarrow>
    session_reachable one (release_inflight_ports one now cps ip gport plan s)"
| reset: "session_reachable one s \<Longrightarrow> session_reachable one (reset_port_session s)"

definition session_inv :: "bool \<Rightarrow> port_session \<Rightarrow> bool" where
  "session_inv one s \<longleftrightarrow>
     (\<forall>hub key. 0 \<le> slot_cursor hub key s)
     \<and> (\<forall>key p. p \<in> s_inflight_ports s key \<longrightarrow>
          (\<exists>ip gport hub. key = proxy_key ip gport \<and> 0 \<le> pipeline_proxy_index one gport
             \<and> p \<in> half_band one (pipeline_proxy_index one gport) hub))"

lemma slot_cursor_set:
  "slot_cursor hub key (set_slot_cursor hub' key' c s) = (if hub = hub' \<and> key = key' then c else slot_cursor hub key s)"
  by (auto simp: slot_cursor_def set_slot_cursor_def)

lemma slot_cursor_reserve [simp]: "slot_cursor hub key (reserve_port k p s) = slot_cursor hub key s"
  by (simp add: slot_cursor_def reserve_port_def)

lemma expire_cooldown_cursor:
  "expire_cooldown now k p s = Some s' \<Longrightarrow> slot_cursor hub key s' = slot_cursor hub key s"
  by (auto simp: expire_cooldown_def slot_cursor_def split: option.splits if_splits)

lemma allocate_loop_cursor:
  "allocate_loop one pr key idx hub seed as s a = (p, s', a') \<Longrightarrow> \<forall>hub key. 0 \<le> slot_cursor hub key s
   \<Longrightarrow> 0 \<le> slot_cursor hub' key' s'"
proof (induction as arbitrary: s)
  case (Cons t as)
  let ?q = "candidate_port one idx hub seed (int t)"
  have nonneg: "0 \<le> c smod port_half one" if "0 \<le> c" for c :: int
    using that less_imp_le [OF port_half_pos [of one]] by (simp add: smod_mod_positive)
  consider "allocate_loop one pr key idx hub seed as s a = (p, s', a')"
    | s0 where "expire_cooldown (fst pr) key ?q s = Some s0"
        "allocate_loop one pr key idx hub seed as s0 a = (p, s', a')"
    | s0 where "expire_cooldown (fst pr) key ?q s = Some s0"
        "s' = set_slot_cursor hub key ((slot_cursor hub key s0 + int t + 1) smod port_half one) (reserve_port key ?q s0)"
    using Cons.prems(1) by (auto simp: Let_def split: if_splits option.splits)
  then show ?case
  proof cases
    case 1
    then show ?thesis using Cons by blast
  next
    case 2
    then show ?thesis using Cons.IH [of s0] Cons.prems(2) by (simp add: expire_cooldown_cursor)
  next
    case 3
    then show ?thesis using Cons.prems(2) by (simp add: expire_cooldown_cursor slot_cursor_set nonneg)
  qed
qed simp

lemma session_inv_alloc:
  assumes "session_inv one s" "0 \<le> allocator_epoch a" "0 \<le> c" "0 \<le> h"
    and al: "allocate one pr ip gport hub c h s a = (p, s', a')"
  shows "session_inv one s'"
proof -
  have cur: "\<forall>hub key. 0 \<le> slot_cursor hub key s" using assms(1) by (simp add: session_inv_def)
  have cur': "0 \<le> slot_cursor hub' key' s'" for hub' key'
    using al cur allocate_loop_cursor [of one pr "proxy_key ip gport"] by (auto simp: allocate_def Let_def split: if_splits)
  have seed: "0 \<le> allocator_epoch a * 31 + c * 17 + h * 11 + slot_cursor hub (proxy_key ip gport) s"
    using assms(2-4) cur by simp
  show ?thesis
  proof (cases "0 < p")
    case True
    then show ?thesis using assms(1) cur' allocate_success(2,4) [OF al] allocate_in_band [OF al _ seed]
      by (auto simp: session_inv_def split: if_splits)
  next
    case False
    then show ?thesis using assms(1) cur' allocate_fails [OF al] by (simp add: session_inv_def)
  qed
qed

lemma slot_cursor_release:
  "slot_cursor hub key (release_port one now kp s) = slot_cursor hub key s"
  "slot_cursor hub key (reset_port_session s) = slot_cursor hub key s"
  by (simp_all add: slot_cursor_def release_port_def reset_port_session_def)

lemma release_port_inv: "session_inv one s \<Longrightarrow> session_inv one (release_port one now kp s)"
  by (cases kp) (auto simp: session_inv_def slot_cursor_release, auto simp: release_port_def split: if_splits)

lemma fold_inv: "(\<And>x s. I s \<Longrightarrow> I (f x s)) \<Longrightarrow> I s \<Longrightarrow> I (fold f xs s)"
  by (induction xs arbitrary: s) auto

lemma release_one_inv: "session_inv one s \<Longrightarrow> session_inv one (release_one one now cps c ip gport s)"
  by (auto simp: release_one_def intro!: fold_inv [where I = "session_inv one"] release_port_inv split: option.splits)

theorem session_inv_reachable: "session_reachable one s \<Longrightarrow> session_inv one s"
proof (induction rule: session_reachable.induct)
  case start
  then show ?case by (simp add: session_inv_def initial_session_def slot_cursor_def)
next
  case (alloc s a c h pr ip gport hub p s' a')
  then show ?case using session_inv_alloc by blast
next
  case (release s now cps ip gport plan)
  then show ?case
    by (auto simp: release_inflight_ports_def intro!: fold_inv [where I = "session_inv one"] release_one_inv)
next
  case (reset s)
  then show ?case by (simp add: session_inv_def slot_cursor_release) (simp add: reset_port_session_def)
qed

lemma reachable_inflight:
  assumes "session_reachable one s" "p \<in> s_inflight_ports s (proxy_key ip g)"
  obtains hub where "0 \<le> pipeline_proxy_index one g" "p \<in> half_band one (pipeline_proxy_index one g) hub"
proof -
  from session_inv_reachable [OF assms(1)] assms(2) obtain ip' g' hub where "proxy_key ip g = proxy_key ip' g'"
    "0 \<le> pipeline_proxy_index one g'" "p \<in> half_band one (pipeline_proxy_index one g') hub"
    unfolding session_inv_def by blast
  then show ?thesis using that [of hub] by (simp add: proxy_key_inject)
qed

lemma clamped_proxy_index_range: "0 \<le> clamped_proxy_index one g" "clamped_proxy_index one g \<le> 79"
  by (simp_all add: clamped_proxy_index_def Let_def port_consts)

lemma phase2_exchange_port_range:
  assumes "0 \<le> part" "part < 8" "0 \<le> epoch"
  shows "10240 \<le> phase2_exchange_port one g part epoch" "phase2_exchange_port one g part epoch < 20000"
proof -
  have "epoch smod 64 = epoch mod 64" using assms(3) by (simp add: smod_mod_positive)
  then show "10240 \<le> phase2_exchange_port one g part epoch" "phase2_exchange_port one g part epoch < 20000"
    using assms clamped_proxy_index_range [of one g] pos_mod_bound [of 64 epoch] pos_mod_sign [of 64 epoch]
    unfolding phase2_exchange_port_def port_consts by linarith+
qed

section \<open>Enough ports\<close>

text \<open>The ports of a proxy that the search may pass over, even when every port can be bound.\<close>

definition blocked_ports :: "port_session \<Rightarrow> GlrcPipelinePortAllocator \<Rightarrow> string \<Rightarrow> int set" where
  "blocked_ports s a key = s_inflight_ports s key \<union> used_ports a key \<union> dom (s_port_cooldown_until s key)"

definition request_ok :: "bool \<Rightarrow> port_request \<Rightarrow> bool" where
  "request_ok one req = (case req of ((_, bindable), ip, gport, _, c, h) \<Rightarrow>
     0 \<le> pipeline_proxy_index one gport \<and> 0 \<le> c \<and> 0 \<le> h \<and> (\<forall>p\<in>{20000..<32000}. bindable p))"

lemma expire_cooldown_dom:
  "expire_cooldown now k p s = Some s' \<Longrightarrow> dom (s_port_cooldown_until s' key) \<subseteq> dom (s_port_cooldown_until s key)"
  by (auto simp: expire_cooldown_def split: option.splits if_splits)

lemma allocate_loop_cooldown:
  "allocate_loop one pr key idx hub seed as s a = (p, s', a') \<Longrightarrow>
   dom (s_port_cooldown_until s' k) \<subseteq> dom (s_port_cooldown_until s k)"
proof (induction as arbitrary: s)
  case (Cons t as)
  let ?q = "candidate_port one idx hub seed (int t)"
  consider "allocate_loop one pr key idx hub seed as s a = (p, s', a')"
    | s0 where "expire_cooldown (fst pr) key ?q s = Some s0" "allocate_loop one pr key idx hub seed as s0 a = (p, s', a')"
    | s0 where "expire_cooldown (fst pr) key ?q s = Some s0" "s_port_cooldown_until s' = s_port_cooldown_until s0"
    using Cons.prems by (auto simp: Let_def reserve_port_def split: if_splits option.splits)
  then show ?case
  proof cases
    case 1
    then show ?thesis by (rule Cons.IH)
  next
    case 2
    then show ?thesis using Cons.IH [of s0] expire_cooldown_dom [of "fst pr" key ?q s s0 k] by blast
  next
    case 3
    then show ?thesis using expire_cooldown_dom [of "fst pr" key ?q s s0 k] by simp
  qed
qed simp

lemma allocate_blocked:
  assumes al: "allocate one pr ip gport hub c h s a = (p, s', a')" "0 < p"
  shows "blocked_ports s' a' key \<subseteq> (if key = proxy_key ip gport then insert p (blocked_ports s a key) else blocked_ports s a key)"
proof -
  have "dom (s_port_cooldown_until s' key) \<subseteq> dom (s_port_cooldown_until s key)"
    using al(1) allocate_loop_cooldown by (auto simp: allocate_def Let_def split: if_splits)
  then show ?thesis using allocate_success(2,3) [OF al] by (auto simp: blocked_ports_def)
qed

lemma allocate_finds_port:
  assumes "finite (blocked_ports s a (proxy_key ip gport))" "card (blocked_ports s a (proxy_key ip gport)) < nat (port_half one)"
    and "0 \<le> pipeline_proxy_index one gport" "0 \<le> allocator_epoch a * 31 + c * 17 + h * 11 + slot_cursor hub (proxy_key ip gport) s"
    and "\<forall>p\<in>{20000..<32000}. snd pr p" and al: "allocate one pr ip gport hub c h s a = (p, s', a')"
  shows "0 < p"
proof -
  let ?idx = "pipeline_proxy_index one gport"
  have v: "valid_index one ?idx" using pipeline_proxy_index_valid [OF assms(3)] .
  have "\<not> half_band one ?idx hub \<subseteq> blocked_ports s a (proxy_key ip gport)"
    using card_mono [OF assms(1), of "half_band one ?idx hub"] assms(2) by (auto simp: half_band_def)
  then obtain q where q: "q \<in> half_band one ?idx hub" "q \<notin> blocked_ports s a (proxy_key ip gport)" by blast
  then have "port_accepted one pr (proxy_key ip gport) ?idx s a q"
    using half_band_range [OF v q(1)] assms(5) by (auto simp: port_accepted_def blocked_ports_def domIff)
  then show ?thesis using allocate_complete [OF assms(3,4) al] q(1) by blast
qed

text \<open>The number of requests for a proxy, together with its blocked ports, must fit in half a band.\<close>

lemma draws_succeed:
  assumes "\<forall>req\<in>set rs. request_ok one req" "session_inv one s" "0 \<le> allocator_epoch a"
    and "\<forall>key. finite (blocked_ports s a key)"
    and "\<forall>key. card (blocked_ports s a key) + length (filter (\<lambda>req. request_key req = key) rs) \<le> nat (port_half one)"
  shows "\<exists>ps st'. draws (draw_port one) rs (s, a) = (Some ps, st')"
  using assms
proof (induction rs arbitrary: s a)
  case (Cons req rs)
  obtain pr ip gport hub c h where req: "req = (pr, ip, gport, hub, c, h)" by (cases req) auto
  obtain p s' a' where al: "allocate one pr ip gport hub c h s a = (p, s', a')" by (cases "allocate one pr ip gport hub c h s a") auto
  have key: "request_key req = proxy_key ip gport" by (simp add: req request_key_def)
  have ok: "0 \<le> pipeline_proxy_index one gport" "0 \<le> c" "0 \<le> h" "\<forall>p\<in>{20000..<32000}. snd pr p"
    using Cons.prems(1) by (auto simp: request_ok_def req)
  have seed: "0 \<le> allocator_epoch a * 31 + c * 17 + h * 11 + slot_cursor hub (proxy_key ip gport) s"
    using ok Cons.prems(2,3) by (simp add: session_inv_def)
  have "card (blocked_ports s a (proxy_key ip gport)) < nat (port_half one)"
    using spec [OF Cons.prems(5), of "proxy_key ip gport"] key by simp
  then have p: "0 < p" using allocate_finds_port [OF spec [OF Cons.prems(4)] _ ok(1) seed ok(4) al] by blast
  note blocked = allocate_blocked [OF al p]
  have fin: "finite (blocked_ports s' a' k)" for k
    using finite_subset [OF blocked [of k]] Cons.prems(4) by simp
  have "card (blocked_ports s' a' k) + length (filter (\<lambda>req. request_key req = k) rs) \<le> nat (port_half one)" for k
  proof (cases "k = proxy_key ip gport")
    case True
    have "card (blocked_ports s' a' k) \<le> card (insert p (blocked_ports s a k))"
      using blocked [of k] True Cons.prems(4) by (intro card_mono) auto
    also have "\<dots> \<le> Suc (card (blocked_ports s a k))" using card_insert_le_m1 by (simp add: card_insert_if Cons.prems(4))
    finally show ?thesis using spec [OF Cons.prems(5), of k] True key by simp
  next
    case False
    have "card (blocked_ports s' a' k) \<le> card (blocked_ports s a k)"
      using blocked [of k] False Cons.prems(4) by (intro card_mono) auto
    then show ?thesis using spec [OF Cons.prems(5), of k] False key by simp
  qed
  moreover have "allocator_epoch a' = allocator_epoch a" using allocate_success(3) [OF al p] by simp
  ultimately obtain ps st' where "draws (draw_port one) rs (s', a') = (Some ps, st')"
    using Cons.IH [of s' a'] Cons.prems fin session_inv_alloc [OF Cons.prems(2,3) ok(2,3) al] by force
  then show ?case using al p by (auto simp: req draw_port_eq)
qed simp

lemma draws_allocate_hops:
  "draws (draw_port one) (hop_requests probes c hi hs) (s, a) = (Some ps, s', a') \<Longrightarrow>
   allocate_hops one probes c hi hs s a = (Inr ps, s', a')"
proof (induction hs arbitrary: hi s a ps)
  case (Cons h hs)
  then obtain p s1 a1 qs where "draw_port one (probes hi, hop_proxy_ip h, hop_proxy_port h, False, int c, int hi) (s, a) = (p, s1, a1)"
    "0 < p" "draws (draw_port one) (hop_requests probes c (Suc hi) hs) (s1, a1) = (Some qs, s', a')" "ps = p # qs"
    by (auto simp del: draws.simps(2) simp: draws_Cons_Some)
  then show ?case using Cons.IH [of "Suc hi" s1 a1 qs] by (simp add: allocate_hop_port_def draw_port_eq)
qed simp

lemma draws_allocate_chain:
  assumes "draws (draw_port one) (chain_requests probes sink c) (s, a) = (Some ps, s', a')"
  shows "\<exists>cps'. allocate_chain_ports one probes tag c (fst (sink c)) (snd (sink c)) cps s a = (None, cps', s', a')"
proof -
  from assms obtain qs p s1 a1 where
      q: "draws (draw_port one) (hop_requests (probes (chain_id c)) (chain_id c) 0 (hops c)) (s, a) = (Some qs, s1, a1)"
    and p: "allocate one (probes (chain_id c) (length (hops c))) (fst (sink c)) (snd (sink c)) True 0 0 s1 a1 = (p, s', a')" "0 < p"
    unfolding chain_requests_def draws_append draws_Cons_Some by (auto simp: draw_port_eq)
  show ?thesis using draws_allocate_hops [OF q] p by (simp add: allocate_chain_ports_def allocate_hub_port_def)
qed

lemma draws_allocate_chains:
  assumes "draws (draw_port one) (concat (map (chain_requests probes sink) cs)) (s, a) = (Some ps, s', a')"
  shows "\<exists>cps'. allocate_chains one probes tag sink cs cps s a = (None, cps', s', a')"
  using assms
proof (induction cs arbitrary: s a ps cps)
  case (Cons c cs)
  then obtain p1 p2 s1 a1 where "draws (draw_port one) (chain_requests probes sink c) (s, a) = (Some p1, s1, a1)"
    and rest: "draws (draw_port one) (concat (map (chain_requests probes sink) cs)) (s1, a1) = (Some p2, s', a')"
    by (auto simp: draws_append)
  from draws_allocate_chain [OF this(1)] obtain cps1 where
    "allocate_chain_ports one probes tag c (fst (sink c)) (snd (sink c)) cps s a = (None, cps1, s1, a1)" by blast
  then show ?case using Cons.IH [OF rest, of cps1] by simp
qed simp

definition chain_proxies :: "(GlrcPipelineChainPlan \<Rightarrow> string \<times> int) \<Rightarrow> GlrcPipelineChainPlan \<Rightarrow> (string \<times> int) list" where
  "chain_proxies sink c = map (\<lambda>h. (hop_proxy_ip h, hop_proxy_port h)) (hops c) @ [sink c]"

definition plan_proxies :: "GlrcPipelinePlan \<Rightarrow> (string \<times> int) list" where
  "plan_proxies plan = concat (map (chain_proxies (hub_sink plan)) (hub_chains plan))
     @ concat (map (chain_proxies local_sink) (local_direct_chains plan))"

definition plan_requests :: "(nat \<Rightarrow> nat \<Rightarrow> probe) \<Rightarrow> GlrcPipelinePlan \<Rightarrow> port_request list" where
  "plan_requests probes plan = concat (map (chain_requests probes (hub_sink plan)) (hub_chains plan))
     @ concat (map (chain_requests probes local_sink) (local_direct_chains plan))"

lemma hop_requests_proxies:
  "map (\<lambda>(pr, ip, g, _). (ip, g)) (hop_requests probes c hi hs) = map (\<lambda>h. (hop_proxy_ip h, hop_proxy_port h)) hs"
  by (induction hs arbitrary: hi) simp_all

lemma plan_requests_proxies: "map (\<lambda>(pr, ip, g, _). (ip, g)) (plan_requests probes plan) = plan_proxies plan"
  by (simp add: plan_requests_def plan_proxies_def chain_requests_def chain_proxies_def [abs_def] map_concat hop_requests_proxies comp_def)

lemma hop_requests_wf:
  "(pr, ip, g, hub, c', h) \<in> set (hop_requests probes c hi hs) \<Longrightarrow> (\<exists>i. pr = probes i) \<and> 0 \<le> c' \<and> 0 \<le> h"
  by (induction hs arbitrary: hi) auto

lemma plan_requests_wf:
  "(pr, ip, g, hub, c, h) \<in> set (plan_requests probes plan) \<Longrightarrow> (\<exists>i j. pr = probes i j) \<and> 0 \<le> c \<and> 0 \<le> h"
  by (auto simp: plan_requests_def chain_requests_def dest!: hop_requests_wf)

text \<open>The ports of a proxy a new allocator may pass over: in flight, or with a cooldown entry.\<close>

definition reserved_ports :: "port_session \<Rightarrow> string \<Rightarrow> int set" where
  "reserved_ports s key = s_inflight_ports s key \<union> dom (s_port_cooldown_until s key)"

lemma blocked_ports_new: "blocked_ports s (new_allocator e) key = reserved_ports s key"
  by (simp add: blocked_ports_def new_allocator_def reserved_ports_def)

lemma allocator_epoch_new [simp]: "allocator_epoch (new_allocator e) = e"
  by (simp add: new_allocator_def)

lemma plan_ports_succeed:
  assumes "session_reachable one s" "0 \<le> exchange_epoch plan"
    and "\<forall>(ip, g)\<in>set (plan_proxies plan). 0 \<le> pipeline_proxy_index one g"
    and "\<forall>i j. \<forall>p\<in>{20000..<32000}. snd (probes i j) p"
    and "\<forall>key. finite (reserved_ports s key)"
    and "\<forall>key. card (reserved_ports s key)
           + length (filter (\<lambda>(ip, g). proxy_key ip g = key) (plan_proxies plan)) \<le> nat (port_half one)"
  shows "\<exists>cps s' a'. allocate_plan_ports one probes plan s = (None, cps, s', a')"
proof -
  have px: "(ip, g) \<in> set (plan_proxies plan)" if "(pr, ip, g, hub, c, h) \<in> set (plan_requests probes plan)" for pr ip g hub c h
    using imageI [OF that, of "\<lambda>(pr, ip, g, _). (ip, g)"] by (simp flip: plan_requests_proxies [of probes])
  have ok: "request_ok one req" if "req \<in> set (plan_requests probes plan)" for req
  proof -
    obtain now bindable ip g hub c h where req: "req = ((now, bindable), ip, g, hub, c, h)" by (cases req) auto
    from plan_requests_wf [OF that [unfolded req]] obtain i j where "(now, bindable) = probes i j" "0 \<le> c" "0 \<le> h" by blast
    moreover have "\<forall>p\<in>{20000..<32000}. bindable p"
      using spec [OF spec [OF assms(4)], of i j] by (simp add: calculation(1) [symmetric])
    ultimately show ?thesis using assms(3) px [OF that [unfolded req]] by (auto simp: request_ok_def req)
  qed
  have len: "length (filter (\<lambda>req. request_key req = key) (plan_requests probes plan))
      = length (filter (\<lambda>(ip, g). proxy_key ip g = key) (plan_proxies plan))" for key
    by (simp flip: plan_requests_proxies [of probes] add: filter_map comp_def request_key_def case_prod_unfold)
  have "\<exists>ps st'. draws (draw_port one) (plan_requests probes plan) (s, new_allocator (exchange_epoch plan)) = (Some ps, st')"
    using ok session_inv_reachable [OF assms(1)] assms(2,5,6)
    by (intro draws_succeed) (auto simp: blocked_ports_new len)
  then obtain ps s' a' where d: "draws (draw_port one) (plan_requests probes plan) (s, new_allocator (exchange_epoch plan))
      = (Some ps, s', a')" by auto
  then obtain p1 p2 s1 a1 where
      h: "draws (draw_port one) (concat (map (chain_requests probes (hub_sink plan)) (hub_chains plan)))
        (s, new_allocator (exchange_epoch plan)) = (Some p1, s1, a1)"
    and l: "draws (draw_port one) (concat (map (chain_requests probes local_sink) (local_direct_chains plan))) (s1, a1) = (Some p2, s', a')"
    unfolding plan_requests_def draws_append by auto
  from draws_allocate_chains [OF h] obtain cps1 where
    c1: "allocate_chains one probes ''hub'' (hub_sink plan) (hub_chains plan) Map.empty s (new_allocator (exchange_epoch plan))
       = (None, cps1, s1, a1)" by blast
  from draws_allocate_chains [OF l] obtain cps2 where
    "allocate_chains one probes ''local sink'' local_sink (local_direct_chains plan) cps1 s1 a1 = (None, cps2, s', a')" by blast
  then show ?thesis using c1 by (simp add: allocate_plan_ports_def)
qed

end
