(* ===== verification/ShardPlan.thy ===== *)
theory ShardPlan
  imports Recovery
begin

text \<open>
  Splitting a block into shards: \<^verbatim>\<open>glrc_shard_plan.cpp\<close> gives every failed block a contiguous run of
  shards.  The interface \<open>range_tiling\<close> says what a client of a split relies on: its byte ranges
  tile the block, so every byte is repaired exactly once and the pieces concatenate to the
  block.  Indices and lengths are \<^verbatim>\<open>int\<close> in the source; a \<^verbatim>\<open>false\<close> return with a message is \<^const>\<open>Inl\<close>.
\<close>

section \<open>The plan\<close>

record GlrcShardSlice =
  shard_id :: int
  slice_off :: int
  slice_len :: int

record GlrcPartitionShardPlan =
  partition_id :: int
  part_failed_block_id :: int
  cluster_id :: int
  part_proxy_ip :: string
  part_proxy_port :: int
  shard_begin :: int
  part_shard_count :: int
  byte_off :: int
  byte_len :: int
  shards :: "GlrcShardSlice list"

record GlrcPhase2ShardPlan =
  shard_count :: int
  stripe_byte_len :: int
  block_size :: int
  partitions :: "GlrcPartitionShardPlan list"

definition build_partition :: "int \<Rightarrow> int list \<Rightarrow> int list \<Rightarrow> string list \<Rightarrow> int list \<Rightarrow> int \<Rightarrow> int \<Rightarrow> nat
    \<Rightarrow> GlrcPartitionShardPlan" where
  "build_partition stripe failed cluster_ids proxy_ips proxy_ports shard_cursor cnt i =
     \<lparr>partition_id = int i, part_failed_block_id = failed ! i, cluster_id = cluster_ids ! i,
      part_proxy_ip = proxy_ips ! i, part_proxy_port = proxy_ports ! i,
      shard_begin = shard_cursor, part_shard_count = cnt,
      byte_off = shard_cursor * stripe, byte_len = cnt * stripe,
      shards = map (\<lambda>s. let sid = shard_cursor + int s in
        \<lparr>shard_id = sid, slice_off = sid * stripe, slice_len = stripe\<rparr>) [0..<nat cnt]\<rparr>"

definition phase2_build :: "int \<Rightarrow> int \<Rightarrow> int list \<Rightarrow> int list \<Rightarrow> string list \<Rightarrow> int list \<Rightarrow> int
    \<Rightarrow> string + GlrcPhase2ShardPlan" where
  "phase2_build active_shard_count bsize failed cluster_ids proxy_ips proxy_ports global_shard_count =
     (let f = length failed in
      if f < 1 then Inl ''empty failure set''
      else let global_S = (if global_shard_count > 0 then global_shard_count else active_shard_count) in
        if active_shard_count < 1 \<or> global_S < 1 \<or> bsize < 1 then Inl ''invalid shard_count or block_size''
        else if bsize smod global_S \<noteq> 0 then Inl ''BlockSize must be divisible by global shard count''
        else if active_shard_count = 0 then Inl ''active_shard_count is zero''
        else if length cluster_ids \<noteq> f \<or> length proxy_ips \<noteq> f \<or> length proxy_ports \<noteq> f
        then Inl ''partition metadata size mismatch''
        else let base = active_shard_count sdiv int f; rem = active_shard_count smod int f;
                 stripe = bsize sdiv global_S
             in Inr \<lparr>shard_count = active_shard_count, stripe_byte_len = stripe, block_size = bsize,
                  partitions = snd (fold (\<lambda>i (shard_cursor, ps).
                    let cnt = base + (if int i < rem then 1 else 0)
                    in (shard_cursor + cnt,
                        ps @ [build_partition stripe failed cluster_ids proxy_ips proxy_ports shard_cursor cnt i]))
                    [0..<f] (0, []))\<rparr>)"

section \<open>Tilings\<close>

text \<open>Consecutive ranges \<open>(offset, length)\<close> from \<open>a\<close> to \<open>b\<close>.\<close>

fun tiles :: "nat \<Rightarrow> (nat \<times> nat) list \<Rightarrow> nat \<Rightarrow> bool" where
  "tiles a [] b \<longleftrightarrow> a = b"
| "tiles a ((off, len) # rs) b \<longleftrightarrow> off = a \<and> tiles (a + len) rs b"

lemma tiles_le: "tiles a rs b \<Longrightarrow> a \<le> b"
  by (induction a rs b rule: tiles.induct) auto

lemma tiles_append: "tiles a (rs @ ss) c \<longleftrightarrow> (\<exists>b. tiles a rs b \<and> tiles b ss c)"
  by (induction rs arbitrary: a) auto

lemma tiles_concat:
  "tiles a rs b \<Longrightarrow> b \<le> length xs \<Longrightarrow> concat (map (\<lambda>(off, len). take len (drop off xs)) rs) = take (b - a) (drop a xs)"
proof (induction a rs b rule: tiles.induct)
  case (2 a off len rs b)
  then have rs: "tiles (a + len) rs b" and off: "off = a" by auto
  have "b - a = len + (b - (a + len))" using tiles_le [OF rs] by simp
  then show ?case using "2.IH" [OF rs "2.prems"(2)] off by (simp add: take_add add.commute)
qed simp

lemma tiles_member:
  "tiles a rs b \<Longrightarrow> a \<le> i \<Longrightarrow> i < b \<Longrightarrow> \<exists>!j. j < length rs \<and> fst (rs ! j) \<le> i \<and> i < fst (rs ! j) + snd (rs ! j)"
proof (induction a rs b rule: tiles.induct)
  case (2 a off len rs b)
  then have rs: "tiles (a + len) rs b" and off: "off = a" by auto
  have ge: "a + len \<le> fst (rs ! j)" if "j < length rs" for j
  proof -
    have "rs = take j rs @ rs ! j # drop (Suc j) rs" using that by (rule id_take_nth_drop)
    then obtain c where "tiles (a + len) (take j rs) c" "tiles c (rs ! j # drop (Suc j) rs) b"
      using rs tiles_append by metis
    then show ?thesis using tiles_le by (cases "rs ! j") auto
  qed
  show ?case
  proof (cases "i < a + len")
    case True
    then show ?thesis using "2.prems" off ge
      by (intro ex1I [of _ 0]) (fastforce simp: nth_Cons split: nat.splits)+
  next
    case False
    then have "\<exists>!j. j < length rs \<and> fst (rs ! j) \<le> i \<and> i < fst (rs ! j) + snd (rs ! j)"
      by (intro "2.IH" [OF rs _ "2.prems"(3)]) simp
    then obtain j where j: "j < length rs \<and> fst (rs ! j) \<le> i \<and> i < fst (rs ! j) + snd (rs ! j)"
      and uniq: "\<forall>j'. j' < length rs \<and> fst (rs ! j') \<le> i \<and> i < fst (rs ! j') + snd (rs ! j') \<longrightarrow> j' = j"
      by (rule ex1E)
    show ?thesis
    proof (rule ex1I [of _ "Suc j"])
      fix j' assume "j' < length ((off, len) # rs) \<and> fst (((off, len) # rs) ! j') \<le> i \<and>
        i < fst (((off, len) # rs) ! j') + snd (((off, len) # rs) ! j')"
      then show "j' = Suc j" using False off uniq by (cases j') auto
    qed (use j in simp)
  qed
qed simp

locale range_tiling =
  fixes ranges :: "'p \<Rightarrow> (nat \<times> nat) list" and valid :: "'p \<Rightarrow> bool" and extent :: "'p \<Rightarrow> nat"
  assumes tiling: "valid p \<Longrightarrow> tiles 0 (ranges p) (extent p)"
begin

lemma reassemble:
  "valid p \<Longrightarrow> extent p \<le> length xs \<Longrightarrow>
   concat (map (\<lambda>(off, len). take len (drop off xs)) (ranges p)) = take (extent p) xs"
  using tiles_concat [OF tiling] by fastforce

lemma covered_once:
  "valid p \<Longrightarrow> i < extent p \<Longrightarrow>
   \<exists>!j. j < length (ranges p) \<and> fst (ranges p ! j) \<le> i \<and> i < fst (ranges p ! j) + snd (ranges p ! j)"
  using tiles_member [OF tiling] by blast

end

section \<open>The partitions tile the active part of the block\<close>

definition partition_size :: "nat \<Rightarrow> nat \<Rightarrow> nat \<Rightarrow> nat" where
  "partition_size S f i = S div f + (if i < S mod f then 1 else 0)"

definition partition_start :: "nat \<Rightarrow> nat \<Rightarrow> nat \<Rightarrow> nat" where
  "partition_start S f i = i * (S div f) + min i (S mod f)"

lemma partition_start_Suc: "partition_start S f (Suc i) = partition_start S f i + partition_size S f i"
  by (auto simp: partition_start_def partition_size_def)

lemma partition_start_end: "0 < f \<Longrightarrow> partition_start S f f = S"
  using mod_less_divisor [of f S] by (simp add: partition_start_def min_absorb2)

text \<open>Everything a successful build stores, in closed form.\<close>

lemma phase2_build_Inr:
  assumes "phase2_build active bsize failed cids ips ports gsc = Inr plan"
  defines "f \<equiv> length failed" and "S \<equiv> nat active" and "G \<equiv> (if gsc > 0 then gsc else active)"
  shows "0 < f" "0 < S" "active = int S" "0 < G" "0 < bsize" "G dvd bsize"
    "shard_count plan = active" "stripe_byte_len plan = bsize div G" "block_size plan = bsize"
    "partitions plan = map (\<lambda>i. build_partition (bsize div G) failed cids ips ports
       (int (partition_start S f i)) (int (partition_size S f i)) i) [0..<f]"
proof -
  have ok: "0 < f" "0 < active" "0 < G" "0 < bsize" "bsize smod G = 0" "length cids = f" "length ips = f" "length ports = f"
    using assms(1) by (auto simp: phase2_build_def Let_def f_def G_def split: if_splits)
  then show "0 < f" "0 < S" "active = int S" "0 < G" "0 < bsize" by (simp_all add: S_def)
  show "G dvd bsize" using ok by (simp add: smod_nonneg dvd_eq_mod_eq_0)
  have bs: "bsize sdiv G = bsize div G" "active sdiv int f = int (S div f)" "active smod int f = int (S mod f)"
    using ok by (simp_all add: sdiv_nonneg smod_nonneg S_def zdiv_int zmod_int)
  have "fold (\<lambda>i (cursor, ps). let cnt = int (S div f) + (if int i < int (S mod f) then 1 else 0)
      in (cursor + cnt, ps @ [build_partition (bsize div G) failed cids ips ports cursor cnt i])) [0..<m] (0, [])
    = (int (partition_start S f m), map (\<lambda>i. build_partition (bsize div G) failed cids ips ports
       (int (partition_start S f i)) (int (partition_size S f i)) i) [0..<m])" for m
    by (induction m) (auto simp: partition_start_def [of _ _ 0] partition_start_Suc partition_size_def Let_def)
  then show "shard_count plan = active" "stripe_byte_len plan = bsize div G" "block_size plan = bsize"
    "partitions plan = map (\<lambda>i. build_partition (bsize div G) failed cids ips ports
       (int (partition_start S f i)) (int (partition_size S f i)) i) [0..<f]"
    using assms(1) ok bs unfolding phase2_build_def Let_def f_def [symmetric] G_def [symmetric] by auto
qed

definition partition_ranges :: "GlrcPhase2ShardPlan \<Rightarrow> (nat \<times> nat) list" where
  "partition_ranges plan = map (\<lambda>p. (nat (byte_off p), nat (byte_len p))) (partitions plan)"

definition slice_ranges :: "GlrcPhase2ShardPlan \<Rightarrow> (nat \<times> nat) list" where
  "slice_ranges plan =
     concat (map (\<lambda>p. map (\<lambda>s. (nat (slice_off s), nat (slice_len s))) (shards p)) (partitions plan))"

definition built_plan :: "GlrcPhase2ShardPlan \<Rightarrow> bool" where
  "built_plan plan \<longleftrightarrow> (\<exists>active bsize failed cids ips ports gsc.
     phase2_build active bsize failed cids ips ports gsc = Inr plan)"

definition active_bytes :: "GlrcPhase2ShardPlan \<Rightarrow> nat" where
  "active_bytes plan = nat (shard_count plan * stripe_byte_len plan)"

lemma active_bytes_built:
  assumes "phase2_build active bsize failed cids ips ports gsc = Inr plan"
  shows "active_bytes plan = nat active * nat (stripe_byte_len plan)" "0 < stripe_byte_len plan"
proof -
  note b = phase2_build_Inr [OF assms]
  have "(if gsc > 0 then gsc else active) \<le> bsize" using b(4-6) by (intro zdvd_imp_le) auto
  then show "0 < stripe_byte_len plan" using b(4,5,8) by (simp add: pos_imp_zdiv_pos_iff)
  then show "active_bytes plan = nat active * nat (stripe_byte_len plan)"
    using b(2,7) by (simp add: active_bytes_def nat_mult_distrib)
qed

lemma tiles_steps:
  "(\<And>i. i < m \<Longrightarrow> starts (Suc i) = starts i + lens i) \<Longrightarrow>
   tiles (starts 0) (map (\<lambda>i. (starts i, lens i)) [0..<m]) (starts m)"
  by (induction m) (auto simp: tiles_append)

interpretation partitions: range_tiling partition_ranges built_plan active_bytes
proof
  fix plan assume "built_plan plan"
  then obtain active bsize failed cids ips ports gsc where
    plan: "phase2_build active bsize failed cids ips ports gsc = Inr plan"
    by (auto simp: built_plan_def)
  note b = phase2_build_Inr [OF plan] and a = active_bytes_built [OF plan]
  let ?S = "nat active" and ?f = "length failed" and ?s = "nat (stripe_byte_len plan)"
  have "tiles (partition_start ?S ?f 0 * ?s) (map (\<lambda>i. (partition_start ?S ?f i * ?s, partition_size ?S ?f i * ?s)) [0..<?f])
      (partition_start ?S ?f ?f * ?s)"
    by (rule tiles_steps [where starts = "\<lambda>i. partition_start ?S ?f i * ?s"]) (simp add: partition_start_Suc algebra_simps)
  moreover have "partition_ranges plan = map (\<lambda>i. (partition_start ?S ?f i * ?s, partition_size ?S ?f i * ?s)) [0..<?f]"
    using b(8) a(2) by (auto simp: partition_ranges_def b(10) build_partition_def nat_mult_distrib)
  ultimately show "tiles 0 (partition_ranges plan) (active_bytes plan)"
    using partition_start_end [OF b(1), of ?S] a(1) by (simp add: partition_start_def)
qed

lemma concat_runs:
  "concat (map (\<lambda>i. map g [partition_start S f i..<partition_start S f (Suc i)]) [0..<m]) = map g [0..<partition_start S f m]"
proof (induction m)
  case (Suc m)
  have "[0..<partition_start S f (Suc m)] = [0..<partition_start S f m] @ [partition_start S f m..<partition_start S f (Suc m)]"
    by (metis le_add1 partition_start_Suc upt_add_eq_append zero_le le_add_diff_inverse)
  with Suc show ?case by simp
qed (simp add: partition_start_def)

text \<open>The slices are the shards \<open>0, 1, \<dots>\<close> in order, each of stripe length.\<close>

lemma slice_ranges_eq:
  assumes "phase2_build active bsize failed cids ips ports gsc = Inr plan"
  shows "slice_ranges plan = map (\<lambda>s. (s * nat (stripe_byte_len plan), nat (stripe_byte_len plan))) [0..<nat active]"
proof -
  note b = phase2_build_Inr [OF assms] and a = active_bytes_built [OF assms]
  let ?S = "nat active" and ?f = "length failed" and ?s = "nat (stripe_byte_len plan)"
  have run: "map (\<lambda>s. (nat (slice_off s), nat (slice_len s)))
      (shards (build_partition (stripe_byte_len plan) failed cids ips ports
        (int (partition_start ?S ?f i)) (int (partition_size ?S ?f i)) i))
      = map (\<lambda>s. (s * ?s, ?s)) [partition_start ?S ?f i..<partition_start ?S ?f (Suc i)]" for i
    using a(2) by (intro nth_equalityI)
      (auto simp: build_partition_def Let_def partition_start_Suc nat_mult_distrib nat_add_distrib)
  show ?thesis
    unfolding slice_ranges_def b(10) b(8) [symmetric] map_map comp_def run concat_runs
    by (simp add: partition_start_end [OF b(1)])
qed

interpretation slices: range_tiling slice_ranges built_plan active_bytes
proof
  fix plan assume "built_plan plan"
  then obtain active bsize failed cids ips ports gsc where
    plan: "phase2_build active bsize failed cids ips ports gsc = Inr plan"
    by (auto simp: built_plan_def)
  show "tiles 0 (slice_ranges plan) (active_bytes plan)"
    using tiles_steps [where starts = "\<lambda>s. s * nat (stripe_byte_len plan)" and m = "nat active"
        and lens = "\<lambda>_. nat (stripe_byte_len plan)"]
    by (simp add: slice_ranges_eq [OF plan] active_bytes_built(1) [OF plan])
qed

section \<open>Decoding partition by partition\<close>

lemma tiles_range: "tiles a rs b \<Longrightarrow> (off, len) \<in> set rs \<Longrightarrow> a \<le> off \<and> off + len \<le> b"
proof (induction rs arbitrary: a)
  case (Cons x rs)
  then show ?case using tiles_le by (cases x) (force dest: tiles_le)
qed simp

lemma partition_nonneg:
  assumes "phase2_build active bsize failed cids ips ports gsc = Inr plan" "p \<in> set (partitions plan)"
  shows "0 \<le> byte_off p" "0 \<le> byte_len p"
proof -
  obtain i where p: "p = build_partition (bsize div (if gsc > 0 then gsc else active)) failed cids ips ports
      (int (partition_start (nat active) (length failed) i)) (int (partition_size (nat active) (length failed) i)) i"
    using phase2_build_Inr(10) [OF assms(1)] assms(2) by auto
  have "0 \<le> bsize div (if gsc > 0 then gsc else active)"
    using phase2_build_Inr(4,5) [OF assms(1)] by (simp add: pos_imp_zdiv_nonneg_iff)
  then show "0 \<le> byte_off p" "0 \<le> byte_len p" by (simp_all add: p build_partition_def)
qed

lemma phase2_partition_decodes:
  assumes task: "repair_task k r z bs blocks F sel"
    and prep: "glrc_ilp_prepare_helper_decode k r z hs F sel = Some (A_inv, idxs, coefs)"
    and hs: "set hs \<subseteq> {..<k + r + z}"
    and plan: "phase2_build active bsize failed cids ips ports gsc = Inr plan" "active_bytes plan \<le> bs"
    and p: "p \<in> set (partitions plan)"
  shows "decode_glrc_ilp_helper_compact (map (\<lambda>b. take (nat (byte_len p)) (drop (nat (byte_off p)) (blocks ! b))) hs)
       A_inv idxs coefs (int (length F)) (byte_off p) (byte_off p) (byte_len p)
     = Some (map (\<lambda>b. take (nat (byte_len p)) (drop (nat (byte_off p)) (blocks ! b))) F)"
proof -
  have "(nat (byte_off p), nat (byte_len p)) \<in> set (partition_ranges plan)"
    using p by (auto simp: partition_ranges_def)
  moreover have "tiles 0 (partition_ranges plan) (active_bytes plan)"
    using plan(1) by (intro partitions.tiling) (unfold built_plan_def, blast)
  ultimately have "nat (byte_off p) + nat (byte_len p) \<le> bs" using tiles_range plan(2) by fastforce
  then show ?thesis
    using decode_glrc_ilp_helper_compact_result [OF task prep, of "nat (byte_off p)" "nat (byte_off p)" "nat (byte_len p)" "nat (byte_len p)"]
      partition_nonneg [OF plan(1) p] hs by simp
qed

lemma active_bytes_whole:
  assumes "phase2_build active bsize failed cids ips ports gsc = Inr plan" "gsc \<le> 0 \<or> gsc = active"
  shows "active_bytes plan = nat bsize"
proof -
  have "shard_count plan = active" "stripe_byte_len plan = bsize div active" "active dvd bsize"
    using phase2_build_Inr [OF assms(1)] assms(2) by (auto split: if_splits)
  then show ?thesis by (simp add: active_bytes_def)
qed

lemma phase2_accepts_iff:
  fixes failed :: "int list"
  defines "G \<equiv> \<lambda>active gsc :: int. if gsc > 0 then gsc else active"
  shows "(\<exists>plan. phase2_build active bsize failed cids ips ports gsc = Inr plan) \<longleftrightarrow>
     failed \<noteq> [] \<and> 1 \<le> active \<and> 1 \<le> bsize \<and> G active gsc dvd bsize
     \<and> length cids = length failed \<and> length ips = length failed \<and> length ports = length failed"
proof -
  have "bsize smod g = 0 \<longleftrightarrow> g dvd bsize" if "1 \<le> g" "1 \<le> bsize" for g
    using that by (simp add: smod_nonneg dvd_eq_mod_eq_0)
  then show ?thesis
    unfolding phase2_build_def G_def Let_def by (cases "gsc > 0"; cases failed) (simp_all add: not_less)
qed

end
