(* ===== verification/Hmbr.thy ===== *)
theory Hmbr
  imports ShardPlan Complex_Main
begin

text \<open>
  The bandwidth balance of \<^verbatim>\<open>glrc_hmbr.cpp\<close>: a prefix of the shards is repaired by repair pipelining, the
  rest conventionally.  \<^verbatim>\<open>double\<close> values are real numbers (rounding of floating-point operations
  is not modelled); \<^verbatim>\<open>std::lround\<close> rounds halves away from zero; \<^verbatim>\<open>std::stoi\<close> reads optional white
  space, a sign and digits, and throws (\<^const>\<open>None\<close>) without digits or out of the range of \<^verbatim>\<open>int\<close>.
\<close>

section \<open>Library functions\<close>

definition isspace :: "char \<Rightarrow> bool" where
  "isspace c \<longleftrightarrow> (of_char c :: nat) = 32 \<or> (9 \<le> (of_char c :: nat) \<and> (of_char c :: nat) \<le> 13)"

definition isdigit :: "char \<Rightarrow> bool" where
  "isdigit c \<longleftrightarrow> 48 \<le> (of_char c :: nat) \<and> (of_char c :: nat) \<le> 57"

definition digits_value :: "string \<Rightarrow> int" where
  "digits_value ds = fold (\<lambda>c v. 10 * v + (of_char c - 48)) ds 0"

text \<open>The value and the number of characters used.\<close>

definition stoi :: "string \<Rightarrow> (int \<times> nat) option" where
  "stoi s =
     (let ws = takeWhile isspace s; rest = drop (length ws) s;
          sign = (case rest of c # _ \<Rightarrow> if c = CHR ''+'' \<or> c = CHR ''-'' then [c] else [] | [] \<Rightarrow> []);
          ds = takeWhile isdigit (drop (length sign) rest);
          v = (if sign = ''-'' then - digits_value ds else digits_value ds)
      in if ds = [] \<or> v < - (2 ^ 31) \<or> v > 2 ^ 31 - 1 then None
         else Some (v, length ws + length sign + length ds))"

definition lround :: "real \<Rightarrow> int" where
  "lround x = (if x \<ge> 0 then \<lfloor>x + 1 / 2\<rfloor> else - \<lfloor>- x + 1 / 2\<rfloor>)"

section \<open>The split\<close>

record GlrcHmbrShardSplit =
  global_shard_count :: int
  split_stripe_byte_len :: int
  rp_shard_begin :: int
  rp_shard_count :: int
  conv_shard_begin :: int
  conv_shard_count :: int
  rp_fraction :: real
  rp_continuous_shards :: real
  rp_estimated_time :: real
  conv_estimated_time :: real

definition rp_byte_offset :: "GlrcHmbrShardSplit \<Rightarrow> int" where
  "rp_byte_offset s = rp_shard_begin s * split_stripe_byte_len s"

definition rp_byte_size :: "GlrcHmbrShardSplit \<Rightarrow> int" where
  "rp_byte_size s = rp_shard_count s * split_stripe_byte_len s"

definition conv_byte_offset :: "GlrcHmbrShardSplit \<Rightarrow> int" where
  "conv_byte_offset s = conv_shard_begin s * split_stripe_byte_len s"

definition conv_byte_size :: "GlrcHmbrShardSplit \<Rightarrow> int" where
  "conv_byte_size s = conv_shard_count s * split_stripe_byte_len s"

text \<open>The chosen number of pipelined shards, before clamping, with the continuous solution.\<close>

definition hmbr_auto :: "int \<Rightarrow> int \<Rightarrow> int \<Rightarrow> real \<Rightarrow> real \<Rightarrow> int \<times> real" where
  "hmbr_auto S helper_count failed_count rp_bandwidth_mbps conv_bandwidth_mbps =
     (let rp_coef = of_int failed_count / rp_bandwidth_mbps;
          conv_coef = of_int (helper_count + failed_count - 1) / conv_bandwidth_mbps;
          fraction = conv_coef / (rp_coef + conv_coef);
          cont = fraction * of_int S
      in (lround cont, cont))"

text \<open>The pipelined shard count after clamping or checking, for \<^verbatim>\<open>auto\<close> and for a fixed count.\<close>

definition hmbr_choice :: "int \<Rightarrow> int \<Rightarrow> int \<Rightarrow> real \<Rightarrow> real \<Rightarrow> string \<Rightarrow> string + int \<times> real" where
  "hmbr_choice S helper_count failed_count rp_bandwidth_mbps conv_bandwidth_mbps rp_shard_config =
     (if rp_shard_config = [] \<or> rp_shard_config = ''auto'' \<or> rp_shard_config = ''AUTO''
      then case hmbr_auto S helper_count failed_count rp_bandwidth_mbps conv_bandwidth_mbps of
          (p, cont) \<Rightarrow> Inr (max 1 (min (S - 1) p), cont)
      else case stoi rp_shard_config of
          None \<Rightarrow> Inl ''GlrcHmbrP must be auto or an integer''
        | Some (p, used) \<Rightarrow>
            if used \<noteq> length rp_shard_config then Inl ''GlrcHmbrP must be auto or an integer''
            else if p < 1 \<or> p \<ge> S then Inl ''fixed GlrcHmbrP must be in [1, GlrcShardCount-1]''
            else Inr (p, of_int p))"

definition hmbr_split_of :: "int \<Rightarrow> int \<Rightarrow> int \<Rightarrow> int \<Rightarrow> real \<Rightarrow> real \<Rightarrow> int \<Rightarrow> real \<Rightarrow> GlrcHmbrShardSplit" where
  "hmbr_split_of S bsize helper_count failed_count rp_bandwidth_mbps conv_bandwidth_mbps rp cont =
     (let fraction = of_int rp / of_int S;
          block_megabytes = of_int bsize / (1024 * 1024)
      in \<lparr>global_shard_count = S, split_stripe_byte_len = bsize sdiv S, rp_shard_begin = 0,
          rp_shard_count = rp, conv_shard_begin = rp, conv_shard_count = S - rp,
          rp_fraction = fraction, rp_continuous_shards = cont,
          rp_estimated_time = fraction * of_int failed_count * block_megabytes / rp_bandwidth_mbps,
          conv_estimated_time = (1 - fraction) * of_int (helper_count + failed_count - 1)
            / conv_bandwidth_mbps * block_megabytes\<rparr>)"

definition glrc_hmbr_build_shard_split :: "int \<Rightarrow> int \<Rightarrow> int \<Rightarrow> int \<Rightarrow> real \<Rightarrow> real \<Rightarrow> string
    \<Rightarrow> string + GlrcHmbrShardSplit" where
  "glrc_hmbr_build_shard_split S bsize helper_count failed_count rp_bandwidth_mbps conv_bandwidth_mbps rp_shard_config =
     (if S < 2 then Inl ''HMBR-LRC requires GlrcShardCount >= 2''
      else if bsize < 1 \<or> bsize smod S \<noteq> 0 then Inl ''HMBR-LRC requires BlockSize divisible by GlrcShardCount''
      else if helper_count < 1 \<or> failed_count < 1 \<or> rp_bandwidth_mbps \<le> 0 \<or> conv_bandwidth_mbps \<le> 0
      then Inl ''HMBR-LRC requires positive helper, failure, and bandwidth values''
      else case hmbr_choice S helper_count failed_count rp_bandwidth_mbps conv_bandwidth_mbps rp_shard_config of
          Inl e \<Rightarrow> Inl e
        | Inr (rp, cont) \<Rightarrow> Inr (hmbr_split_of S bsize helper_count failed_count rp_bandwidth_mbps conv_bandwidth_mbps rp cont))"

section \<open>The lanes tile the block\<close>

definition lane_ranges :: "GlrcHmbrShardSplit \<Rightarrow> (nat \<times> nat) list" where
  "lane_ranges s = [(nat (rp_byte_offset s), nat (rp_byte_size s)), (nat (conv_byte_offset s), nat (conv_byte_size s))]"

definition built_split :: "GlrcHmbrShardSplit \<Rightarrow> bool" where
  "built_split s \<longleftrightarrow> (\<exists>S bsize h f brp bconv cfg. glrc_hmbr_build_shard_split S bsize h f brp bconv cfg = Inr s)"

definition split_bytes :: "GlrcHmbrShardSplit \<Rightarrow> nat" where
  "split_bytes s = nat (global_shard_count s * split_stripe_byte_len s)"

lemma hmbr_choice_range:
  "2 \<le> S \<Longrightarrow> hmbr_choice S h f brp bconv cfg = Inr (rp, cont) \<Longrightarrow> 1 \<le> rp \<and> rp \<le> S - 1"
  by (auto simp: hmbr_choice_def split: if_splits option.splits prod.splits)

lemma hmbr_split_cases:
  assumes "glrc_hmbr_build_shard_split S bsize h f brp bconv cfg = Inr s"
  obtains rp cont where "hmbr_choice S h f brp bconv cfg = Inr (rp, cont)" "s = hmbr_split_of S bsize h f brp bconv rp cont"
    "2 \<le> S" "0 < bsize" "S dvd bsize" "0 < h" "0 < f" "0 < brp" "0 < bconv" "1 \<le> rp" "rp \<le> S - 1"
proof -
  have g: "2 \<le> S" "0 < bsize" "bsize smod S = 0" "0 < h" "0 < f" "0 < brp" "0 < bconv"
    using assms by (auto simp: glrc_hmbr_build_shard_split_def split: if_splits)
  moreover obtain rp cont where c: "hmbr_choice S h f brp bconv cfg = Inr (rp, cont)"
    "s = hmbr_split_of S bsize h f brp bconv rp cont"
    using assms by (auto simp: glrc_hmbr_build_shard_split_def split: if_splits sum.splits)
  moreover have "S dvd bsize" using g by (simp add: smod_nonneg dvd_eq_mod_eq_0)
  ultimately show ?thesis using that hmbr_choice_range [OF g(1) c(1)] by blast
qed

lemma hmbr_split_facts:
  assumes "glrc_hmbr_build_shard_split S bsize h f brp bconv cfg = Inr s"
  shows "2 \<le> S" "0 < bsize" "S dvd bsize" "global_shard_count s = S"
    "split_stripe_byte_len s = bsize div S" "rp_shard_begin s = 0" "1 \<le> rp_shard_count s" "rp_shard_count s \<le> S - 1"
    "conv_shard_begin s = rp_shard_count s" "conv_shard_count s = S - rp_shard_count s"
  using assms by (auto elim!: hmbr_split_cases simp: hmbr_split_of_def Let_def sdiv_nonneg)

interpretation lanes: range_tiling lane_ranges built_split split_bytes
proof
  fix s assume "built_split s"
  then obtain S bsize h f brp bconv cfg where s: "glrc_hmbr_build_shard_split S bsize h f brp bconv cfg = Inr s"
    by (auto simp: built_split_def)
  note b = hmbr_split_facts [OF s]
  define rp where "rp = nat (rp_shard_count s)"
  define st where "st = nat (bsize div S)"
  define T where "T = nat S"
  have eqs: "rp_shard_count s = int rp" "bsize div S = int st" "S = int T" "rp \<le> T"
    using b(1,2,7,8) by (simp_all add: rp_def st_def T_def pos_imp_zdiv_nonneg_iff)
  have "lane_ranges s = [(0, rp * st), (rp * st, (T - rp) * st)]" "split_bytes s = T * st"
    unfolding lane_ranges_def split_bytes_def rp_byte_offset_def rp_byte_size_def conv_byte_offset_def
      conv_byte_size_def b(4-6,9,10) eqs(1,2)
    unfolding eqs(3) using eqs(4) by (simp_all flip: of_nat_mult of_nat_diff)
  then show "tiles 0 (lane_ranges s) (split_bytes s)"
    using eqs(4) by (simp flip: distrib_right)
qed

section \<open>Balance\<close>

lemma lround_error: "\<bar>of_int (lround x) - x\<bar> \<le> 1 / 2"
proof -
  have "of_int \<lfloor>y\<rfloor> - y \<le> 0" "y - of_int \<lfloor>y\<rfloor> < 1" for y :: real by linarith+
  from this [of "x + 1 / 2"] this [of "- x + 1 / 2"] show ?thesis
    unfolding lround_def by (cases "0 \<le> x") (simp_all only: if_True if_False of_int_minus abs_le_iff, linarith+)
qed

lemma hmbr_auto_balances:
  fixes brp bconv :: real
  assumes "0 < h" "0 < f" "0 < brp" "0 < bconv" "2 \<le> S"
  defines "t \<equiv> snd (hmbr_auto S h f brp bconv) / of_int S"
  shows "t * of_int f / brp = (1 - t) * of_int (h + f - 1) / bconv" "0 < t" "t < 1"
proof -
  define a where "a = of_int f / brp"
  define c where "c = of_int (h + f - 1) / bconv"
  have pos: "0 < a" "0 < c" using assms(1-4) by (simp_all add: a_def c_def)
  have t: "t = c / (a + c)" using assms(5) by (simp add: t_def hmbr_auto_def Let_def a_def c_def)
  show "0 < t" "t < 1" using pos by (simp_all add: t)
  have "t * a = (1 - t) * c" using pos by (simp add: t field_simps)
  then show "t * of_int f / brp = (1 - t) * of_int (h + f - 1) / bconv" by (simp add: a_def c_def)
qed

lemma hmbr_auto_rounding:
  assumes "glrc_hmbr_build_shard_split S bsize h f brp bconv ''auto'' = Inr s"
  shows "\<bar>of_int (rp_shard_count s) - rp_continuous_shards s\<bar> \<le> 1"
    "rp_continuous_shards s = snd (hmbr_auto S h f brp bconv)"
proof -
  from hmbr_split_cases [OF assms] obtain rp cont where c: "hmbr_choice S h f brp bconv ''auto'' = Inr (rp, cont)"
    "s = hmbr_split_of S bsize h f brp bconv rp cont" "2 \<le> S" "0 < h" "0 < f" "0 < brp" "0 < bconv" by metis
  obtain p where p: "hmbr_auto S h f brp bconv = (p, cont)" "p = lround cont" "rp = max 1 (min (S - 1) p)"
    using c(1) by (auto simp: hmbr_choice_def hmbr_auto_def Let_def split: prod.splits)
  show "rp_continuous_shards s = snd (hmbr_auto S h f brp bconv)" by (simp add: c(2) p(1) hmbr_split_of_def Let_def)
  have "0 < cont / of_int S" "cont / of_int S < 1"
    using hmbr_auto_balances(2,3) [OF c(4-7,3)] p(1) by auto
  then have "0 < cont" "cont < of_int S" using c(3) by (auto simp: field_simps)
  moreover have "\<bar>of_int p - cont\<bar> \<le> 1 / 2" using lround_error [of cont] p(2) by simp
  ultimately have "0 \<le> p" "p \<le> S" by linarith+
  then have "rp = p \<or> rp = 1 \<and> p = 0 \<or> rp = S - 1 \<and> p = S" using p(3) c(3) by linarith
  then have "\<bar>of_int rp - cont\<bar> \<le> 1"
    using \<open>0 < cont\<close> \<open>cont < of_int S\<close> \<open>\<bar>of_int p - cont\<bar> \<le> 1 / 2\<close> by auto
  then show "\<bar>of_int (rp_shard_count s) - rp_continuous_shards s\<bar> \<le> 1" by (simp add: c(2) hmbr_split_of_def Let_def)
qed

lemma hmbr_lanes_join:
  assumes "glrc_hmbr_build_shard_split S bsize h f brp bconv cfg = Inr s" "length xs = nat bsize"
  shows "take (nat (rp_byte_size s)) (drop (nat (rp_byte_offset s)) xs)
     @ take (nat (conv_byte_size s)) (drop (nat (conv_byte_offset s)) xs) = xs"
proof -
  have "split_bytes s = nat bsize" using hmbr_split_facts [OF assms(1)] by (simp add: split_bytes_def)
  moreover have "built_split s" using assms(1) unfolding built_split_def by blast
  ultimately show ?thesis using lanes.reassemble [of s xs] assms(2) by (simp add: lane_ranges_def)
qed

end
