(* ===== verification/Hybrid.thy ===== *)
theory Hybrid
  imports Planner Hmbr
begin

text \<open>
  Choosing the split point of the hybrid repair: \<^verbatim>\<open>glrc_hybrid.cpp\<close>, the network estimates of
  \<^verbatim>\<open>glrc_repair_ilp.cpp\<close> and \<^verbatim>\<open>node_block_transfer_seconds\<close> of \<^verbatim>\<open>link_bandwidth.h\<close>.  Byte counts are \<^verbatim>\<open>size_t\<close>
  products and therefore 64-bit words; times are real numbers.  The pointer \<^verbatim>\<open>plan_ilp\<close> is an option.
  The parameter \<^verbatim>\<open>local_direct_failed\<close>, which the source ignores, is dropped.
\<close>

section \<open>Estimates\<close>

definition size_t :: "int \<Rightarrow> 64 word" where
  "size_t i = word_of_int i"

definition node_block_transfer_seconds :: "64 word \<Rightarrow> real \<Rightarrow> real" where
  "node_block_transfer_seconds nbytes node_block_bandwidth_mbps =
     (if node_block_bandwidth_mbps \<le> 0 \<or> nbytes = 0 then 0
      else of_nat (unat nbytes) / (node_block_bandwidth_mbps * 1024 * 1024))"

definition glrc_phase2_est_block_read_sec :: "int \<Rightarrow> int \<Rightarrow> int \<Rightarrow> real \<Rightarrow> real" where
  "glrc_phase2_est_block_read_sec helper_count block_shard_count stripe_len link_mbps =
     (if helper_count < 1 \<or> block_shard_count < 1 \<or> stripe_len < 1 then 0
      else node_block_transfer_seconds (size_t helper_count * size_t block_shard_count * size_t stripe_len) link_mbps)"

definition glrc_phase2_est_block_exchange_sec :: "int \<Rightarrow> int \<Rightarrow> int \<Rightarrow> real \<Rightarrow> real" where
  "glrc_phase2_est_block_exchange_sec failed_count block_shard_count stripe_len link_mbps =
     (if failed_count < 2 \<or> block_shard_count < 1 \<or> stripe_len < 1 then 0
      else node_block_transfer_seconds (size_t (failed_count - 1) * size_t block_shard_count * size_t stripe_len) link_mbps)"

definition glrc_phase2_est_block_network_sec :: "int \<Rightarrow> int \<Rightarrow> int \<Rightarrow> int \<Rightarrow> real \<Rightarrow> real" where
  "glrc_phase2_est_block_network_sec helper_count failed_count block_shard_count stripe_len link_mbps =
     (let ex_sec = glrc_phase2_est_block_exchange_sec failed_count block_shard_count stripe_len link_mbps
      in glrc_phase2_est_block_read_sec helper_count block_shard_count stripe_len link_mbps + ex_sec)"

definition glrc_phase2_est_system_network_sec :: "int \<Rightarrow> int \<Rightarrow> int list \<Rightarrow> int \<Rightarrow> real \<Rightarrow> real" where
  "glrc_phase2_est_system_network_sec helper_count failed_count partition_shard_counts stripe_len link_mbps =
     fold (\<lambda>s est_max. max est_max (glrc_phase2_est_block_network_sec helper_count failed_count s stripe_len link_mbps))
       partition_shard_counts 0"

section \<open>Choosing the split point\<close>

record GlrcHybridChooseResult =
  choose_success :: bool
  split_p :: int
  t_phase2_est_sec :: real
  t_pipeline_est_sec :: real
  p_continuous :: real
  max_failed_block_id :: int
  choose_error :: string

text \<open>\<open>-2\<close> for \<^verbatim>\<open>auto\<close>, \<open>-1\<close> with a message for an error, otherwise the fixed value.\<close>

definition parse_fixed_p :: "string \<Rightarrow> int \<Rightarrow> int \<times> string" where
  "parse_fixed_p cfg S =
     (if cfg = [] then (- 1, ''empty GlrcHybridP'')
      else if cfg = ''auto'' \<or> cfg = ''AUTO'' then (- 2, [])
      else case stoi cfg of
          None \<Rightarrow> (- 1, ''invalid GlrcHybridP integer: '' @ cfg)
        | Some (v, idx) \<Rightarrow>
            if idx \<noteq> length cfg then (- 1, ''invalid GlrcHybridP (trailing chars): '' @ cfg)
            else if v < 0 \<or> v \<ge> S
            then (- 1, ''GlrcHybridP out of range [0, S-1]: p='' @ int_to_string v @ '' S='' @ int_to_string S)
            else (v, []))"

definition max_partition_shard_count :: "int \<Rightarrow> int \<Rightarrow> int" where
  "max_partition_shard_count v f =
     (if f < 1 \<or> v < 1 then 0
      else let base = v sdiv f; rem = v smod f in base + (if rem > 0 then 1 else 0))"

definition max_partition_failed_block_id :: "int \<Rightarrow> int \<Rightarrow> int list \<Rightarrow> int" where
  "max_partition_failed_block_id v f failed =
     (if failed = [] \<or> v < 1 then - 1
      else if f \<le> 1 then failed ! 0
      else let rem = v smod f in
        if rem \<le> 0 then failed ! 0
        else failed ! nat (min (rem - 1) (int (length failed) - 1)))"

definition hub_in_helper_set :: "int \<Rightarrow> GlrcIlpRepairPlan \<Rightarrow> bool" where
  "hub_in_helper_set hub plan \<longleftrightarrow> (\<exists>hid \<in> set (helper_block_ids plan). int hid = hub)"

definition estimate_full_pipeline_time :: "int \<Rightarrow> int \<Rightarrow> int \<Rightarrow> int \<Rightarrow> real \<Rightarrow> int \<Rightarrow> real" where
  "estimate_full_pipeline_time f S stripe bsize link_mbps m =
     (if link_mbps \<le> 0 \<or> S < 1 \<or> stripe < 1 then 0
      else let f_hub = max 0 (f - m); lower = S in
        if m = f then node_block_transfer_seconds (size_t bsize) link_mbps
        else let t = (if f_hub > 0 \<and> lower > 0
                      then node_block_transfer_seconds (size_t f_hub * size_t lower * size_t stripe) link_mbps else 0)
             in if m > 0 then max t (node_block_transfer_seconds (size_t lower * size_t stripe) link_mbps) else t)"

definition estimate_hybrid_times :: "int \<Rightarrow> int \<Rightarrow> int \<Rightarrow> int \<Rightarrow> int \<Rightarrow> real \<Rightarrow> GlrcIlpRepairPlan \<Rightarrow> int \<Rightarrow> int \<Rightarrow> int
    \<Rightarrow> real \<times> real" where
  "estimate_hybrid_times v f S stripe bsize link_mbps plan hub direct_count hot =
     (if f < 1 \<or> stripe < 1 \<or> S < 1 then (0, 0)
      else if v \<le> 0 then (0, estimate_full_pipeline_time f S stripe bsize link_mbps direct_count)
      else if v \<ge> S then (0, 0)
      else let p_max = max_partition_shard_count v f; h1 = max 1 (int (helper_block_count plan));
               lower = S - v; f_hub = max 0 (f - direct_count) in
        if link_mbps > 0
        then (glrc_phase2_est_block_network_sec h1 f p_max stripe link_mbps
                + (if hot \<ge> 0 \<and> lower > 0 then node_block_transfer_seconds (size_t lower * size_t stripe) link_mbps else 0),
              (if hub_in_helper_set hub plan then node_block_transfer_seconds (size_t v * size_t stripe) link_mbps else 0)
                + (if f_hub > 0 \<and> lower > 0
                   then node_block_transfer_seconds (size_t f_hub * size_t lower * size_t stripe) link_mbps else 0))
        else (0, 0))"

text \<open>The constants \<^verbatim>\<open>1e-12\<close> and \<^verbatim>\<open>1e300\<close>.\<close>

definition eps :: real where
  "eps = 1 / 10 ^ 12"

definition score_limit :: real where
  "score_limit = 10 ^ 300"

text \<open>The two load lines \<open>T_hot(p)\<close> and \<open>T_hub(p)\<close>, each as slope and intercept.\<close>

definition hybrid_lines :: "int \<Rightarrow> int \<Rightarrow> int \<Rightarrow> real \<Rightarrow> GlrcIlpRepairPlan \<Rightarrow> int \<Rightarrow> int \<Rightarrow> int
    \<Rightarrow> (real \<times> real) \<times> real \<times> real" where
  "hybrid_lines f S stripe link_mbps plan hub hot direct_count =
     (let f_hub = max 0 (f - direct_count);
          inv_b = of_int stripe / link_mbps;
          h1 = max 1 (int (helper_block_count plan));
          a2 = of_int (h1 + f - 1) * inv_b / of_int f;
          hot_pipe_slope = (if hot \<ge> 0 then inv_b else 0);
          hub_helper_slope = (if hub_in_helper_set hub plan then inv_b else 0);
          hub_chain_slope = (if f_hub > 0 then of_int f_hub * inv_b else 0)
      in ((a2 - hot_pipe_slope, hot_pipe_slope * of_int S),
          (hub_helper_slope - hub_chain_slope, hub_chain_slope * of_int S)))"

definition solve_continuous_p :: "int \<Rightarrow> int \<Rightarrow> int \<Rightarrow> real \<Rightarrow> GlrcIlpRepairPlan \<Rightarrow> int \<Rightarrow> int \<Rightarrow> int \<Rightarrow> real" where
  "solve_continuous_p f S stripe link_mbps plan hub hot direct_count =
     (if link_mbps \<le> 0 \<or> f < 1 \<or> S < 2 \<or> stripe < 1 then of_int S / 2
      else case hybrid_lines f S stripe link_mbps plan hub hot direct_count of
          ((hot_slope, hot_intercept), (hub_slope, hub_intercept)) \<Rightarrow>
            let denom = hot_slope - hub_slope in
            if \<bar>denom\<bar> < eps then of_int S / 2
            else let p_star = (hub_intercept - hot_intercept) / denom
                 in max 0 (min (of_int (S - 1)) p_star))"

record disc_best =
  best_score :: real
  best_p :: int
  best_t2 :: real
  best_tp :: real

text \<open>
  The directional scan.  \<open>ps\<close> are the values the loop variable takes until the bounds
  \<^verbatim>\<open>p >= 0 && p <= hi\<close> end it; \<open>evaluate\<close> gives both estimates.
\<close>

definition disc_update :: "real \<Rightarrow> int \<Rightarrow> real \<Rightarrow> real \<Rightarrow> disc_best \<Rightarrow> disc_best" where
  "disc_update pc v t2 tp best =
     (let s = max t2 tp in
      if s < best_score best \<or> (s = best_score best \<and> \<bar>of_int v - pc\<bar> < \<bar>of_int (best_p best) - pc\<bar>)
      then \<lparr>best_score = s, best_p = v, best_t2 = t2, best_tp = tp\<rparr> else best)"

fun discretize_loop :: "(int \<Rightarrow> real \<times> real) \<Rightarrow> real \<Rightarrow> int \<Rightarrow> bool \<Rightarrow> int list \<Rightarrow> disc_best \<Rightarrow> disc_best" where
  "discretize_loop evaluate pc start dominates_at_start [] best = best"
| "discretize_loop evaluate pc start dominates_at_start (v # vs) best =
     (case evaluate v of (t2, tp) \<Rightarrow>
        let best = disc_update pc v t2 tp best
        in if v \<noteq> start \<and> (t2 > tp) \<noteq> dominates_at_start then best
           else discretize_loop evaluate pc start dominates_at_start vs best)"

definition scan_points :: "int \<Rightarrow> int \<Rightarrow> bool \<Rightarrow> int list" where
  "scan_points start hi down =
     (if start < 0 \<or> start > hi then []
      else if down then map int (rev [0..<nat start + 1])
      else map int [nat start..<nat hi + 1])"

definition discretize_p :: "(int \<Rightarrow> real \<times> real) \<Rightarrow> real \<Rightarrow> int \<Rightarrow> int \<times> real \<times> real" where
  "discretize_p evaluate pc S =
     (let hi = S - 1; start = max 1 (min hi (lround pc)) in
      case evaluate start of (start_t2, start_tp) \<Rightarrow>
        if \<bar>start_t2 - start_tp\<bar> < eps then (start, start_t2, start_tp)
        else let dominates_at_start = (start_t2 > start_tp);
                 best = discretize_loop evaluate pc start dominates_at_start (scan_points start hi dominates_at_start)
                   \<lparr>best_score = score_limit, best_p = start, best_t2 = 0, best_tp = 0\<rparr>
             in (best_p best, best_t2 best, best_tp best))"

definition hybrid_evaluate :: "int \<Rightarrow> int \<Rightarrow> int \<Rightarrow> int \<Rightarrow> real \<Rightarrow> GlrcIlpRepairPlan \<Rightarrow> int \<Rightarrow> int \<Rightarrow> int list \<Rightarrow> int
    \<Rightarrow> real \<times> real" where
  "hybrid_evaluate f S stripe bsize link_mbps plan hub direct_count failed v =
     estimate_hybrid_times v f S stripe bsize link_mbps plan hub direct_count (max_partition_failed_block_id v f failed)"

definition no_choice :: GlrcHybridChooseResult where
  "no_choice = \<lparr>choose_success = False, split_p = 0, t_phase2_est_sec = 0, t_pipeline_est_sec = 0, p_continuous = 0,
     max_failed_block_id = - 1, choose_error = []\<rparr>"

definition hybrid_fixed :: "int \<Rightarrow> int \<Rightarrow> int \<Rightarrow> int \<Rightarrow> real \<Rightarrow> GlrcIlpRepairPlan option \<Rightarrow> int \<Rightarrow> int \<Rightarrow> int list \<Rightarrow> int
    \<Rightarrow> GlrcHybridChooseResult" where
  "hybrid_fixed f S stripe bsize link_mbps plan_ilp hub direct_count failed_ids fixed_p =
     (let out = no_choice\<lparr>split_p := fixed_p, p_continuous := of_int fixed_p\<rparr> in
      if fixed_p = 0
      then out\<lparr>t_pipeline_est_sec := estimate_full_pipeline_time f S stripe bsize link_mbps direct_count,
             choose_success := True\<rparr>
      else case plan_ilp of
          None \<Rightarrow> out\<lparr>choose_error := ''fixed p>0 requires successful ILP plan''\<rparr>
        | Some plan \<Rightarrow>
            if \<not> success plan then out\<lparr>choose_error := ''fixed p>0 requires successful ILP plan''\<rparr>
            else let hot = max_partition_failed_block_id fixed_p f failed_ids;
                     times = estimate_hybrid_times fixed_p f S stripe bsize link_mbps plan hub direct_count hot
                 in out\<lparr>max_failed_block_id := hot, t_phase2_est_sec := fst times, t_pipeline_est_sec := snd times,
                      choose_success := True\<rparr>)"

definition hybrid_auto :: "int \<Rightarrow> int \<Rightarrow> int \<Rightarrow> int \<Rightarrow> real \<Rightarrow> GlrcIlpRepairPlan option \<Rightarrow> int \<Rightarrow> int \<Rightarrow> int list
    \<Rightarrow> GlrcHybridChooseResult" where
  "hybrid_auto f S stripe bsize link_mbps plan_ilp hub direct_count failed_ids =
     (case plan_ilp of
        None \<Rightarrow> no_choice\<lparr>choose_error := ''auto choose_p requires successful ILP plan when p may exceed 0''\<rparr>
      | Some plan \<Rightarrow>
          if \<not> success plan
          then no_choice\<lparr>choose_error := ''auto choose_p requires successful ILP plan when p may exceed 0''\<rparr>
          else let hot_guess = max_partition_failed_block_id (S sdiv 2) f failed_ids;
                   pc = solve_continuous_p f S stripe link_mbps plan hub hot_guess direct_count
               in case discretize_p (hybrid_evaluate f S stripe bsize link_mbps plan hub direct_count failed_ids) pc S of
                    (v, t2, tp) \<Rightarrow> no_choice\<lparr>p_continuous := pc, split_p := v, t_phase2_est_sec := t2,
                      t_pipeline_est_sec := tp, max_failed_block_id := max_partition_failed_block_id v f failed_ids,
                      choose_success := True\<rparr>)"

text \<open>\<^verbatim>\<open>glrc_failures_at_most_one_per_group\<close> is called on ids that the caller took from the stripe, hence non-negative.\<close>

definition glrc_hybrid_choose_p :: "nat \<Rightarrow> nat \<Rightarrow> nat \<Rightarrow> int \<Rightarrow> int \<Rightarrow> int \<Rightarrow> real \<Rightarrow> GlrcIlpRepairPlan option \<Rightarrow> int \<Rightarrow> int
    \<Rightarrow> nat list \<Rightarrow> string \<Rightarrow> GlrcHybridChooseResult" where
  "glrc_hybrid_choose_p k r z f S bsize link_mbps plan_ilp hub direct_count failed cfg =
     (if f < 1 \<or> S < 1 \<or> bsize < 1 \<or> bsize smod S \<noteq> 0
      then no_choice\<lparr>choose_error := ''invalid hybrid choose_p dimensions''\<rparr>
      else let stripe = bsize sdiv S; failed_ids = map int failed; parsed = parse_fixed_p cfg S; fixed_p = fst parsed in
        if fixed_p \<ge> 0 then hybrid_fixed f S stripe bsize link_mbps plan_ilp hub direct_count failed_ids fixed_p
        else if fixed_p \<noteq> - 2
        then no_choice\<lparr>choose_error := (if snd parsed = [] then ''invalid GlrcHybridP'' else snd parsed)\<rparr>
        else if glrc_failures_at_most_one_per_group k r z failed
        then no_choice\<lparr>t_pipeline_est_sec := estimate_full_pipeline_time f S stripe bsize link_mbps direct_count,
               choose_success := True\<rparr>
        else hybrid_auto f S stripe bsize link_mbps plan_ilp hub direct_count failed_ids)"

section \<open>The hottest partition\<close>

lemma max_partition_shard_count_nat:
  "0 < f \<Longrightarrow> 0 < v \<Longrightarrow> max_partition_shard_count (int v) (int f) = int (v div f + (if v mod f > 0 then 1 else 0))"
  by (simp add: max_partition_shard_count_def Let_def sdiv_of_nat smod_nonneg flip: zmod_int)

text \<open>The estimate's largest partition is the largest one that the shard plan builds.\<close>

lemma max_partition_is_built:
  assumes "phase2_build active bsize failed cids ips ports gsc = Inr plan"
  shows "max_partition_shard_count active (int (length failed)) = Max (part_shard_count ` set (partitions plan))"
proof -
  note b = phase2_build_Inr [OF assms]
  let ?S = "nat active" and ?f = "length failed"
  have sizes: "part_shard_count ` set (partitions plan) = (\<lambda>i. int (partition_size ?S ?f i)) ` {..<?f}"
    unfolding b(10) by (simp add: build_partition_def image_image atLeast0LessThan)
  have "Max ((\<lambda>i. int (partition_size ?S ?f i)) ` {..<?f}) = int (partition_size ?S ?f 0)"
    using b(1) by (intro Max_eqI) (auto simp: partition_size_def)
  also have "\<dots> = max_partition_shard_count active (int ?f)"
    using max_partition_shard_count_nat [OF b(1,2)] b(2,3) by (simp add: partition_size_def)
  finally show ?thesis by (simp add: sizes)
qed

lemma hot_block_index:
  assumes "failed \<noteq> []" "0 < v" "f = length failed"
  obtains j where "j < f" "max_partition_failed_block_id (int v) (int f) failed = failed ! j"
    "partition_size v f j = v div f + (if v mod f > 0 then 1 else 0)"
proof (cases "f \<le> 1 \<or> v mod f = 0")
  case True
  then have "f = 1 \<or> v mod f = 0" using assms by (cases failed) auto
  then have "max_partition_failed_block_id (int v) (int f) failed = failed ! 0"
    using assms by (auto simp: max_partition_failed_block_id_def Let_def smod_nonneg simp flip: zmod_int)
  moreover have "partition_size v f 0 = v div f + (if v mod f > 0 then 1 else 0)" by (simp add: partition_size_def)
  ultimately show ?thesis using that [of 0] assms by simp
next
  case False
  let ?m = "v mod f"
  have m: "0 < ?m" "?m < f" using False assms by simp_all
  have "nat (min (int ?m - 1) (int (length failed) - 1)) = ?m - 1" using m assms(3) by auto
  then have "max_partition_failed_block_id (int v) (int f) failed = failed ! (?m - 1)"
    using assms(1,2) False m by (simp add: max_partition_failed_block_id_def Let_def smod_nonneg flip: zmod_int)
  then show ?thesis using that [of "?m - 1"] m by (simp add: partition_size_def)
qed

section \<open>The scan\<close>

abbreviation score :: "(int \<Rightarrow> real \<times> real) \<Rightarrow> int \<Rightarrow> real" where
  "score evaluate v \<equiv> max (fst (evaluate v)) (snd (evaluate v))"

lemma disc_update_facts:
  "best_p (disc_update pc v t2 tp best) \<in> {v, best_p best}"
  "best_score (disc_update pc v t2 tp best) \<le> best_score best"
  "best_score best = score evaluate (best_p best) \<Longrightarrow> evaluate v = (t2, tp) \<Longrightarrow>
     best_score (disc_update pc v t2 tp best) = score evaluate (best_p (disc_update pc v t2 tp best))"
  "max t2 tp < best_score best \<Longrightarrow> disc_update pc v t2 tp best = \<lparr>best_score = max t2 tp, best_p = v, best_t2 = t2, best_tp = tp\<rparr>"
  by (auto simp: disc_update_def Let_def)

lemma discretize_loop_Cons:
  "discretize_loop evaluate pc start d (v # vs) best =
     (let best = disc_update pc v (fst (evaluate v)) (snd (evaluate v)) best
      in if v \<noteq> start \<and> (fst (evaluate v) > snd (evaluate v)) \<noteq> d then best
         else discretize_loop evaluate pc start d vs best)"
  by (simp split: prod.splits)

lemma discretize_loop_member:
  "best_p (discretize_loop evaluate pc start d ps best) \<in> insert (best_p best) (set ps)"
proof (induction ps arbitrary: best)
  case (Cons v ps)
  let ?b = "disc_update pc v (fst (evaluate v)) (snd (evaluate v)) best"
  show ?case using Cons.IH [of ?b] disc_update_facts(1) [of pc v "fst (evaluate v)" "snd (evaluate v)" best]
    unfolding discretize_loop_Cons Let_def by auto
qed simp

lemma discretize_loop_improves:
  "best_score (discretize_loop evaluate pc start d ps best) \<le> best_score best"
proof (induction ps arbitrary: best)
  case (Cons v ps)
  show ?case
    using disc_update_facts(2) [of pc v "fst (evaluate v)" "snd (evaluate v)" best] Cons.IH order_trans
    unfolding discretize_loop_Cons Let_def by fastforce
qed simp

lemma discretize_loop_score:
  "best_score best = score evaluate (best_p best) \<Longrightarrow>
   best_score (discretize_loop evaluate pc start d ps best) =
     score evaluate (best_p (discretize_loop evaluate pc start d ps best))"
proof (induction ps arbitrary: best)
  case (Cons v ps)
  let ?b = "disc_update pc v (fst (evaluate v)) (snd (evaluate v)) best"
  have "best_score ?b = score evaluate (best_p ?b)" by (rule disc_update_facts(3) [where evaluate = evaluate, OF Cons.prems]) simp
  then show ?case using Cons.IH [of ?b] unfolding discretize_loop_Cons Let_def by simp
qed simp

lemma scan_points_facts:
  assumes "1 \<le> start" "start \<le> hi"
  shows "set (scan_points start hi down) \<subseteq> {0..hi}" "\<exists>ps. scan_points start hi down = start # ps"
proof -
  show "set (scan_points start hi down) \<subseteq> {0..hi}" using assms by (auto simp: scan_points_def)
  have "map int [nat start..<nat hi + 1] = start # map int [Suc (nat start)..<nat hi + 1]"
    using assms by (subst upt_conv_Cons) auto
  then show "\<exists>ps. scan_points start hi down = start # ps" using assms by (auto simp: scan_points_def)
qed

text \<open>The chosen point lies in the range and is never worse than the rounded continuous solution.\<close>

lemma discretize_p_result:
  assumes "2 \<le> S" "discretize_p evaluate pc S = (v, t2, tp)"
  defines "start \<equiv> max 1 (min (S - 1) (lround pc))"
  shows "0 \<le> v \<and> v \<le> S - 1 \<and> (score evaluate start < score_limit \<longrightarrow> score evaluate v \<le> score evaluate start)"
proof -
  have start: "1 \<le> start" "start \<le> S - 1" using assms(1) by (simp_all add: start_def)
  obtain s2 sp where e: "evaluate start = (s2, sp)" by fastforce
  let ?init = "\<lparr>best_score = score_limit, best_p = start, best_t2 = 0, best_tp = 0\<rparr>"
  show ?thesis
  proof (cases "\<bar>s2 - sp\<bar> < eps")
    case True
    then show ?thesis
      using assms(2) start by (simp add: discretize_p_def Let_def start_def [symmetric] e)
  next
    case False
    let ?ps = "scan_points start (S - 1) (s2 > sp)"
    let ?res = "discretize_loop evaluate pc start (s2 > sp) ?ps ?init"
    note ps = scan_points_facts [OF start, of "s2 > sp"]
    have v: "v = best_p ?res"
      using assms(2) False by (simp add: discretize_p_def Let_def start_def [symmetric] e)
    have "v \<in> insert start (set ?ps)"
      using discretize_loop_member [of evaluate pc start "s2 > sp" ?ps ?init] v by simp
    then have "0 \<le> v" "v \<le> S - 1" using ps(1) start by auto
    moreover have "score evaluate v \<le> score evaluate start" if ok: "score evaluate start < score_limit"
    proof -
      obtain ps' where ps': "?ps = start # ps'" using ps(2) by blast
      let ?b = "\<lparr>best_score = max s2 sp, best_p = start, best_t2 = s2, best_tp = sp\<rparr>"
      have "?res = discretize_loop evaluate pc start (s2 > sp) ps' ?b"
        unfolding ps' using ok by (simp add: e disc_update_facts(4))
      then show ?thesis
        using discretize_loop_improves [of evaluate pc start "s2 > sp" ps' ?b]
          discretize_loop_score [of ?b evaluate pc start "s2 > sp" ps'] v e by simp
    qed
    ultimately show ?thesis by blast
  qed
qed

section \<open>The choice\<close>

lemma parse_fixed_p_range: "fst (parse_fixed_p cfg S) < S \<or> fst (parse_fixed_p cfg S) < 0"
  by (auto simp: parse_fixed_p_def split: option.splits)

lemma split_p_fixed: "split_p (hybrid_fixed f S stripe bsize link plan hub direct ids v) = v"
  by (simp add: hybrid_fixed_def no_choice_def Let_def split: option.split)

lemma split_p_auto:
  assumes "2 \<le> S"
  shows "0 \<le> split_p (hybrid_auto f S stripe bsize link plan hub direct ids) \<and>
     split_p (hybrid_auto f S stripe bsize link plan hub direct ids) \<le> S - 1"
proof (cases plan)
  case (Some pl)
  let ?d = "discretize_p (hybrid_evaluate f S stripe bsize link pl hub direct ids)
    (solve_continuous_p f S stripe link pl hub (max_partition_failed_block_id (S sdiv 2) f ids) direct) S"
  obtain v t2 tp where d: "?d = (v, t2, tp)" by (rule prod_cases3)
  then show ?thesis using discretize_p_result [OF assms d] assms Some by (simp add: hybrid_auto_def no_choice_def Let_def)
qed (use assms in \<open>simp add: hybrid_auto_def no_choice_def\<close>)

lemma choose_p_range:
  assumes "2 \<le> S"
  shows "0 \<le> split_p (glrc_hybrid_choose_p k r z f S bsize link plan hub direct failed cfg) \<and>
     split_p (glrc_hybrid_choose_p k r z f S bsize link plan hub direct failed cfg) \<le> S - 1"
proof -
  have nc: "split_p no_choice = 0" by (simp add: no_choice_def)
  show ?thesis
    using parse_fixed_p_range [of cfg S] assms nc
      split_p_auto [OF assms, of f "bsize sdiv S" bsize link plan hub direct "map int failed"]
    by (auto simp: glrc_hybrid_choose_p_def Let_def split_p_fixed)
qed

text \<open>With a single shard the scan starts at \<open>1\<close>, beyond the only valid value.\<close>

lemma choose_p_single_shard:
  assumes "1 \<le> f" "1 \<le> bsize" "\<not> glrc_failures_at_most_one_per_group k r z failed" "success pl"
  shows "split_p (glrc_hybrid_choose_p k r z f 1 bsize link (Some pl) hub direct failed ''auto'') = 1"
proof -
  have "discretize_p (hybrid_evaluate f 1 st bsize link pl hub direct ids) pc 1 = (1, 0, 0)" for st ids pc
    by (simp add: discretize_p_def hybrid_evaluate_def estimate_hybrid_times_def Let_def eps_def)
  then show ?thesis
    using assms by (simp add: glrc_hybrid_choose_p_def hybrid_auto_def parse_fixed_p_def Let_def no_choice_def smod_nonneg)
qed

text \<open>The continuous solution is in range and balances the two loads unless it is clamped.\<close>

lemma solve_continuous_p_result:
  assumes "0 < link" "1 \<le> f" "2 \<le> S" "1 \<le> st"
    and lines: "hybrid_lines f S st link pl hub hot direct = ((hs, hi), (us, ui))" and denom: "eps \<le> \<bar>hs - us\<bar>"
  shows "0 \<le> solve_continuous_p f S st link pl hub hot direct"
    "solve_continuous_p f S st link pl hub hot direct \<le> of_int (S - 1)"
    "0 \<le> x \<Longrightarrow> x \<le> of_int (S - 1) \<Longrightarrow> hs * x + hi = us * x + ui \<Longrightarrow>
       solve_continuous_p f S st link pl hub hot direct = x"
proof -
  have ne: "hs - us \<noteq> 0" using denom by (auto simp: eps_def)
  have sol: "solve_continuous_p f S st link pl hub hot direct = max 0 (min (of_int (S - 1)) ((ui - hi) / (hs - us)))"
    using assms by (simp add: solve_continuous_p_def lines)
  show "0 \<le> solve_continuous_p f S st link pl hub hot direct"
    "solve_continuous_p f S st link pl hub hot direct \<le> of_int (S - 1)" using assms(3) by (simp_all add: sol)
  assume x: "0 \<le> x" "x \<le> of_int (S - 1)" "hs * x + hi = us * x + ui"
  then have "(ui - hi) / (hs - us) = x" using ne by (simp add: field_simps)
  then show "solve_continuous_p f S st link pl hub hot direct = x" using x by (simp add: sol)
qed

end
