(* ===== verification/Metadata.thy ===== *)
theory Metadata
  imports Prelude RepairPlan
begin

text \<open>
  The metadata of the coordinator (\<^verbatim>\<open>meta_definition.h\<close> and the members of \<^verbatim>\<open>CoordinatorImpl\<close>): blocks, nodes,
  clusters, stripes, and the tables that hold them.

  A \<^verbatim>\<open>std::map<int, T>\<close> is an association list in ascending order of its keys, the order the source iterates
  in.  \<open>tbl_set\<close> is \<^verbatim>\<open>m[k] = v\<close>; \<open>tbl_get\<close> is the value \<^verbatim>\<open>m[k]\<close> reads, a default one for a new key.  The
  \<^verbatim>\<open>Block *\<close> of the tables are values here: no code changes a block once it has been entered.
\<close>

section \<open>Ordered tables\<close>

fun tbl_set :: "'k::linorder \<Rightarrow> 'v \<Rightarrow> ('k \<times> 'v) list \<Rightarrow> ('k \<times> 'v) list" where
  "tbl_set k v [] = [(k, v)]"
| "tbl_set k v ((k', v') # t) =
     (if k < k' then (k, v) # (k', v') # t else if k = k' then (k, v) # t else (k', v') # tbl_set k v t)"

definition tbl_get :: "'v \<Rightarrow> 'k \<Rightarrow> ('k \<times> 'v) list \<Rightarrow> 'v" where
  "tbl_get dflt k t = (case map_of t k of None \<Rightarrow> dflt | Some v \<Rightarrow> v)"

definition tbl_erase :: "'k \<Rightarrow> ('k \<times> 'v) list \<Rightarrow> ('k \<times> 'v) list" where
  "tbl_erase k t = filter (\<lambda>kv. fst kv \<noteq> k) t"

definition tbl_ok :: "('k::linorder \<times> 'v) list \<Rightarrow> bool" where
  "tbl_ok t \<longleftrightarrow> sorted_wrt (<) (map fst t)"

text \<open>What a client of a table may rely on.\<close>

locale ordered_map =
  fixes empty :: 't
    and lookup :: "'t \<Rightarrow> 'k::linorder \<Rightarrow> 'v option"
    and update :: "'k \<Rightarrow> 'v \<Rightarrow> 't \<Rightarrow> 't"
    and erase :: "'k \<Rightarrow> 't \<Rightarrow> 't"
    and entries :: "'t \<Rightarrow> ('k \<times> 'v) list"
    and ok :: "'t \<Rightarrow> bool"
  assumes ok_empty: "ok empty"
    and ok_update: "ok t \<Longrightarrow> ok (update k v t)"
    and ok_erase: "ok t \<Longrightarrow> ok (erase k t)"
    and lookup_empty: "lookup empty k = None"
    and lookup_update: "ok t \<Longrightarrow> lookup (update k v t) k' = (if k' = k then Some v else lookup t k')"
    and lookup_erase: "ok t \<Longrightarrow> lookup (erase k t) k' = (if k' = k then None else lookup t k')"
    and entries_sorted: "ok t \<Longrightarrow> sorted_wrt (<) (map fst (entries t))"
    and lookup_entries: "ok t \<Longrightarrow> lookup t k = Some v \<longleftrightarrow> (k, v) \<in> set (entries t)"
begin

lemma entries_distinct: "ok t \<Longrightarrow> distinct (map fst (entries t))"
  using entries_sorted strict_sorted_iff by blast

lemma dom_lookup: "ok t \<Longrightarrow> dom (lookup t) = fst ` set (entries t)"
  by (force simp: lookup_entries dom_def)

lemma entries_update_set:
  assumes "ok t"
  shows "set (entries (update k v t)) = insert (k, v) {kv \<in> set (entries t). fst kv \<noteq> k}"
  using assms lookup_update [of t k v] lookup_entries [OF ok_update [OF assms], of k v] ok_update
  by (auto simp: lookup_entries [symmetric] split: if_splits)

text \<open>Writing a key that is present keeps the order of iteration.\<close>

lemma keys_update_present:
  assumes "ok t" "lookup t k \<noteq> None"
  shows "map fst (entries (update k v t)) = map fst (entries t)"
proof -
  have "dom (lookup (update k v t)) = dom (lookup t)" using assms by (auto simp: lookup_update dom_def)
  then have "set (map fst (entries (update k v t))) = set (map fst (entries t))"
    using dom_lookup assms(1) ok_update by (metis list.set_map)
  then show ?thesis using assms(1) entries_sorted ok_update by (metis strict_sorted_equal)
qed

end

lemma set_tbl_set: "set (tbl_set k v t) \<subseteq> insert (k, v) (set t)"
  by (induction k v t rule: tbl_set.induct) auto

lemma tbl_ok_Cons: "tbl_ok ((k, v) # t) \<longleftrightarrow> (\<forall>kv\<in>set t. k < fst kv) \<and> tbl_ok t"
  by (auto simp: tbl_ok_def)

lemma tbl_ok_set: "tbl_ok t \<Longrightarrow> tbl_ok (tbl_set k v t)"
proof (induction k v t rule: tbl_set.induct)
  case (2 k v k' v' t)
  then show ?case using set_tbl_set [of k v t] by (force simp: tbl_ok_Cons)
qed (simp add: tbl_ok_def)

lemma tbl_ok_erase: "tbl_ok t \<Longrightarrow> tbl_ok (tbl_erase k t)"
  by (induction t) (auto simp: tbl_ok_Cons tbl_erase_def tbl_ok_def)

lemma map_of_tbl_set: "tbl_ok t \<Longrightarrow> map_of (tbl_set k v t) k' = (if k' = k then Some v else map_of t k')"
  by (induction k v t rule: tbl_set.induct) (auto simp: tbl_ok_Cons)

lemma map_of_tbl_erase: "map_of (tbl_erase k t) k' = (if k' = k then None else map_of t k')"
  by (induction t) (auto simp: tbl_erase_def)

lemma tbl_ok_distinct: "tbl_ok t \<Longrightarrow> distinct (map fst t)"
  by (simp add: tbl_ok_def strict_sorted_iff)

interpretation tbl: ordered_map "[]" map_of tbl_set tbl_erase id tbl_ok
proof unfold_locales
  fix t :: "('k::linorder \<times> 'v) list" and k v
  assume "tbl_ok t"
  then show "map_of t k = Some v \<longleftrightarrow> (k, v) \<in> set (id t)" by (simp add: tbl_ok_distinct)
qed (auto simp: tbl_ok_set tbl_ok_erase map_of_tbl_set map_of_tbl_erase, auto simp: tbl_ok_def)

section \<open>Records\<close>

record Block =
  blk_id :: nat
  blk_key :: string
  blk_type :: char
  blk_size :: nat
  map2group :: int
  map2stripe :: nat
  map2cluster :: int
  map2node :: int
  map2key :: string

record Node =
  nd_id :: int
  node_ip :: string
  node_port :: int
  nd_cluster :: int
  repair_proxy_ip :: string
  repair_proxy_port :: int
  nd_stripes :: "nat \<Rightarrow> int option"

record Cluster =
  cl_id :: int
  cl_proxy_ip :: string
  cl_proxy_port :: int
  cl_nodes :: "int list"
  cl_blocks :: "Block list"
  cl_stripes :: "nat set"

record Stripe =
  stripe_id :: nat
  stripe_n :: nat
  stripe_k :: nat
  stripe_r :: nat
  stripe_z :: nat
  object_keys :: "string list"
  stripe_blocks :: "Block list"
  place2clusters :: "int set"
  num_groups :: nat
  group_to_blocks :: "(int \<times> nat list) list"

record SysConfig =
  CodeType :: string
  AppendMode :: string
  BlockSize :: nat
  UnitSize :: nat
  ClusterNum :: nat
  cfg_n :: nat
  cfg_k :: nat
  cfg_r :: nat
  cfg_z :: nat

record ObjectInfo =
  object_size :: nat
  map2stripe_of :: nat

record StripeOffset =
  so_stripe_id :: nat
  so_offset :: nat

record coordinator =
  m_node_table :: "(int \<times> Node) list"
  m_cluster_table :: "(int \<times> Cluster) list"
  m_stripe_table :: "(nat \<times> Stripe) list"
  m_cur_stripe_id :: nat
  m_object_commit_table :: "string \<Rightarrow> ObjectInfo option"
  m_object_updating_table :: "string \<Rightarrow> ObjectInfo option"
  m_stripe_deleting_table :: "nat list"
  m_cur_offset_table :: "string \<Rightarrow> StripeOffset option"
  m_num_of_Clusters :: nat
  m_mutex_held :: bool

definition default_node :: Node where
  "default_node = \<lparr>nd_id = 0, node_ip = [], node_port = 0, nd_cluster = 0, repair_proxy_ip = [], repair_proxy_port = 0,
     nd_stripes = (\<lambda>_. None)\<rparr>"

definition default_cluster :: Cluster where
  "default_cluster = \<lparr>cl_id = 0, cl_proxy_ip = [], cl_proxy_port = 0, cl_nodes = [], cl_blocks = [], cl_stripes = {}\<rparr>"

definition node_at :: "coordinator \<Rightarrow> int \<Rightarrow> Node" where
  "node_at st i = tbl_get default_node i (m_node_table st)"

definition cluster_at :: "coordinator \<Rightarrow> int \<Rightarrow> Cluster" where
  "cluster_at st i = tbl_get default_cluster i (m_cluster_table st)"

definition set_node :: "int \<Rightarrow> Node \<Rightarrow> coordinator \<Rightarrow> coordinator" where
  "set_node i nd st = st\<lparr>m_node_table := tbl_set i nd (m_node_table st)\<rparr>"

definition set_cluster :: "int \<Rightarrow> Cluster \<Rightarrow> coordinator \<Rightarrow> coordinator" where
  "set_cluster i cl st = st\<lparr>m_cluster_table := tbl_set i cl (m_cluster_table st)\<rparr>"

definition tables_ok :: "coordinator \<Rightarrow> bool" where
  "tables_ok st \<longleftrightarrow> tbl_ok (m_node_table st) \<and> tbl_ok (m_cluster_table st) \<and> tbl_ok (m_stripe_table st)"

lemma node_at_set [simp]: "tables_ok st \<Longrightarrow> node_at (set_node i nd st) j = (if j = i then nd else node_at st j)"
  by (simp add: node_at_def set_node_def tbl_get_def tables_ok_def map_of_tbl_set)

lemma cluster_at_set [simp]:
  "tables_ok st \<Longrightarrow> cluster_at (set_cluster i cl st) j = (if j = i then cl else cluster_at st j)"
  by (simp add: cluster_at_def set_cluster_def tbl_get_def tables_ok_def map_of_tbl_set)

lemma set_node_cluster [simp]:
  "cluster_at (set_node i nd st) j = cluster_at st j" "node_at (set_cluster i cl st) j = node_at st j"
  "m_stripe_table (set_node i nd st) = m_stripe_table st" "m_stripe_table (set_cluster i cl st) = m_stripe_table st"
  "m_node_table (set_cluster i cl st) = m_node_table st"
  by (simp_all add: node_at_def cluster_at_def set_node_def set_cluster_def)

lemma tables_ok_set [simp]: "tables_ok st \<Longrightarrow> tables_ok (set_node i nd st)" "tables_ok st \<Longrightarrow> tables_ok (set_cluster i cl st)"
  by (simp_all add: tables_ok_def set_node_def set_cluster_def tbl_ok_set)

end
