(* ===== verification/Placement.thy ===== *)
theory Placement
  imports Metadata "HOL-Library.Signed_Division"
begin

text \<open>
  Placement of a stripe and the upload plans (\<^verbatim>\<open>coordinator.cpp\<close>): the four placements, the choice of a node, the
  group table of a stripe, the plans of full and partial uploads and the handlers that use them.

  A failed \<^verbatim>\<open>assert\<close> and a random search that has not ended are \<^const>\<open>None\<close>.  The random numbers that
  \<^verbatim>\<open>randomly_select_a_node\<close> draws for block \<open>i\<close> are the list \<open>draws i\<close>, each reduced to an index of the node list; the outcome of the RPC to a proxy is an argument.
\<close>

section \<open>Loops that may abort\<close>

fun fold_option :: "('a \<Rightarrow> 's \<Rightarrow> 's option) \<Rightarrow> 'a list \<Rightarrow> 's \<Rightarrow> 's option" where
  "fold_option f [] s = Some s"
| "fold_option f (x # xs) s = (case f x s of None \<Rightarrow> None | Some s' \<Rightarrow> fold_option f xs s')"

section \<open>Choosing a node\<close>

fun select_node :: "coordinator \<Rightarrow> nat \<Rightarrow> int list \<Rightarrow> nat list \<Rightarrow> int option" where
  "select_node st sid nodes [] = None"
| "select_node st sid nodes (d # ds) =
     (if nodes = [] then None
      else let r_node_id = nodes ! (d mod length nodes) in
      if nd_stripes (node_at st r_node_id) sid \<noteq> None then select_node st sid nodes ds else Some r_node_id)"

definition randomly_select_a_node :: "coordinator \<Rightarrow> int \<Rightarrow> nat \<Rightarrow> nat list \<Rightarrow> int option" where
  "randomly_select_a_node st cid sid draws = select_node st sid (cl_nodes (cluster_at st cid)) draws"

definition update_stripe_info_in_node :: "coordinator \<Rightarrow> int \<Rightarrow> nat \<Rightarrow> nat \<Rightarrow> coordinator option" where
  "update_stripe_info_in_node st t_node_id sid index =
     (let nd = node_at st t_node_id in
      if nd_stripes nd sid \<noteq> None then None
      else Some (set_node t_node_id (nd\<lparr>nd_stripes := (nd_stripes nd)(sid \<mapsto> int index)\<rparr>) st))"

text \<open>The older overload counts the blocks of the stripe on the node.\<close>

definition count_stripe_in_node :: "bool \<Rightarrow> int \<Rightarrow> nat \<Rightarrow> coordinator \<Rightarrow> coordinator" where
  "count_stripe_in_node add_or_sub t_node_id sid st =
     (let nd = node_at st t_node_id;
          stripe_block_num = (case nd_stripes nd sid of None \<Rightarrow> 1 | Some c \<Rightarrow> c);
          m = (if add_or_sub then (nd_stripes nd)(sid \<mapsto> stripe_block_num + 1)
               else if stripe_block_num = 1 then (nd_stripes nd)(sid := None)
               else (nd_stripes nd)(sid \<mapsto> stripe_block_num - 1))
      in set_node t_node_id (nd\<lparr>nd_stripes := m\<rparr>) st)"

definition enter_block :: "int \<Rightarrow> Block \<Rightarrow> nat \<Rightarrow> coordinator \<Rightarrow> coordinator" where
  "enter_block cid blk sid st =
     (let cl = cluster_at st cid
      in set_cluster cid (cl\<lparr>cl_blocks := cl_blocks cl @ [blk], cl_stripes := insert sid (cl_stripes cl)\<rparr>) st)"

definition add_to_map :: "(int \<times> nat list) list \<Rightarrow> int \<Rightarrow> nat \<Rightarrow> (int \<times> nat list) list" where
  "add_to_map m key val = tbl_set key (tbl_get [] key m @ [val]) m"

section \<open>Blocks of a stripe\<close>

definition block_name :: "nat \<Rightarrow> string \<Rightarrow> nat \<Rightarrow> string" where
  "block_name sid tag i = to_string sid @ (if i < 10 then tag @ ''0'' else tag) @ to_string i"

definition new_block :: "SysConfig \<Rightarrow> Stripe \<Rightarrow> int \<Rightarrow> int \<Rightarrow> int \<Rightarrow> nat \<Rightarrow> Block" where
  "new_block cfg stripe grp cid node i =
     (let k = stripe_k stripe; r = stripe_r stripe; sid = stripe_id stripe
      in \<lparr>blk_id = i,
          blk_key = (if i < k then block_name sid ''_D'' i
                     else if i < k + r then block_name sid ''_G'' (i - k) else block_name sid ''_L'' (i - k - r)),
          blk_type = (if i < k then CHR ''D'' else if i < k + r then CHR ''G'' else CHR ''L''),
          blk_size = BlockSize cfg, map2group = grp, map2stripe = sid, map2cluster = cid, map2node = node,
          map2key = object_keys stripe ! 0\<rparr>)"

text \<open>One round of the placement loop of the codes that place group by group.\<close>

definition place_block :: "SysConfig \<Rightarrow> (nat \<Rightarrow> int option) \<Rightarrow> (nat \<Rightarrow> nat list) \<Rightarrow> nat \<Rightarrow> coordinator \<times> Stripe
    \<Rightarrow> (coordinator \<times> Stripe) option" where
  "place_block cfg grp draws i = (\<lambda>(st, stripe).
     let sid = stripe_id stripe; t_cluster_id = int (sid mod ClusterNum cfg) in
     case grp i of None \<Rightarrow> None
     | Some g \<Rightarrow>
         let cid = (t_cluster_id + g) smod int (ClusterNum cfg) in
         case randomly_select_a_node st cid sid (draws i) of None \<Rightarrow> None
         | Some t_node_id \<Rightarrow>
             case update_stripe_info_in_node st t_node_id sid i of None \<Rightarrow> None
             | Some st \<Rightarrow>
                 let blk = new_block cfg stripe g cid t_node_id i
                 in Some (enter_block cid blk sid st,
                      stripe\<lparr>stripe_blocks := stripe_blocks stripe @ [blk],
                             place2clusters := insert cid (place2clusters stripe),
                             group_to_blocks := add_to_map (group_to_blocks stripe) g i\<rparr>))"

definition place_by_group :: "SysConfig \<Rightarrow> (nat \<Rightarrow> int option) \<Rightarrow> (nat \<Rightarrow> nat list) \<Rightarrow> Stripe \<Rightarrow> coordinator
    \<Rightarrow> (coordinator \<times> Stripe) option" where
  "place_by_group cfg grp draws stripe st =
     (if length (object_keys stripe) \<noteq> 1 then None
      else map_option (\<lambda>(st, stripe). (st, stripe\<lparr>num_groups := length (group_to_blocks stripe)\<rparr>))
             (fold_option (place_block cfg grp draws) [0..<stripe_n stripe] (st, stripe)))"

section \<open>Group numbers\<close>

definition optimal_group :: "nat \<Rightarrow> nat \<Rightarrow> nat \<Rightarrow> nat \<Rightarrow> int option" where
  "optimal_group k r z i =
     (let group_size = r + 1; local_group_size = k div z;
          group_num_of_one_local_group = local_group_size div group_size + (if local_group_size mod group_size \<noteq> 0 then 1 else 0)
      in Some (if i < k
               then int (i mod local_group_size div group_size + i div local_group_size * group_num_of_one_local_group)
               else if i < k + r then int (z * group_num_of_one_local_group)
               else int ((i - k - r + 1) * group_num_of_one_local_group) - 1))"

text \<open>State of the uniform loop: size of the local group, last group number, groups of the payload and of the local parities.\<close>

definition uniform_step :: "nat \<Rightarrow> nat \<Rightarrow> nat \<Rightarrow> nat \<Rightarrow> nat \<times> int \<times> int list \<times> int list \<Rightarrow> nat \<times> int \<times> int list \<times> int list" where
  "uniform_step r z larger i = (\<lambda>(local_group_size, group_num, payload, locals).
     let local_group_size = (if i + larger = z then local_group_size + 1 else local_group_size);
         (group_num, payload) = fold (\<lambda>j (g, p). let g = (if j mod (r + 1) = 0 then g + 1 else g) in (g, p @ [g]))
           [0..<local_group_size] (group_num, payload)
     in (local_group_size, group_num, payload, locals @ [group_num]))"

definition uniform_groups :: "nat \<Rightarrow> nat \<Rightarrow> nat \<Rightarrow> int list" where
  "uniform_groups k r z =
     (case fold (uniform_step r z ((k + r) mod z)) [0..<z] ((k + r) div z, - 1, [], []) of
        (_, _, payload, locals) \<Rightarrow> payload @ locals)"

definition unilrc_azure_group :: "string \<Rightarrow> nat \<Rightarrow> nat \<Rightarrow> nat \<Rightarrow> nat \<Rightarrow> int option" where
  "unilrc_azure_group code_type k r z i =
     (if i < k then Some (int (i div (k div z)))
      else if i < k + r
      then (if code_type = ''UniLRC'' then Some (int ((i - k) div (r div z)))
            else if code_type = ''AzureLRC'' then Some (int z) else None)
      else Some (int ((i - k - r) div (z div z))))"

definition initialize_optimal_lrc_stripe_placement :: "SysConfig \<Rightarrow> (nat \<Rightarrow> nat list) \<Rightarrow> Stripe \<Rightarrow> coordinator
    \<Rightarrow> (coordinator \<times> Stripe) option" where
  "initialize_optimal_lrc_stripe_placement cfg draws stripe =
     place_by_group cfg (optimal_group (stripe_k stripe) (stripe_r stripe) (stripe_z stripe)) draws stripe"

definition initialize_uniform_lrc_stripe_placement :: "SysConfig \<Rightarrow> (nat \<Rightarrow> nat list) \<Rightarrow> Stripe \<Rightarrow> coordinator
    \<Rightarrow> (coordinator \<times> Stripe) option" where
  "initialize_uniform_lrc_stripe_placement cfg draws stripe =
     (let groups = uniform_groups (stripe_k stripe) (stripe_r stripe) (stripe_z stripe)
      in place_by_group cfg (\<lambda>i. if i < length groups then Some (groups ! i) else None) draws stripe)"

definition initialize_unilrc_and_azurelrc_stripe_placement :: "SysConfig \<Rightarrow> (nat \<Rightarrow> nat list) \<Rightarrow> Stripe \<Rightarrow> coordinator
    \<Rightarrow> (coordinator \<times> Stripe) option" where
  "initialize_unilrc_and_azurelrc_stripe_placement cfg draws stripe =
     place_by_group cfg (unilrc_azure_group (CodeType cfg) (stripe_k stripe) (stripe_r stripe) (stripe_z stripe)) draws stripe"

section \<open>The gLRC placement\<close>

definition glrc_block_group :: "nat \<Rightarrow> nat \<Rightarrow> nat \<Rightarrow> nat \<Rightarrow> int" where
  "glrc_block_group k r z i =
     (if i < k then glrc_data_group_id (int i) (int k) (int r) (int z)
      else if i < k + r then glrc_payload_group_id (int i) (int k) (int r) (int z)
      else int (i - k - r))"

definition glrc_ring_step :: "nat list \<Rightarrow> int list \<Rightarrow> nat \<Rightarrow> nat \<Rightarrow> nat \<Rightarrow> coordinator \<times> Block list \<times> int set
    \<Rightarrow> (coordinator \<times> Block list \<times> int set) option" where
  "glrc_ring_step ring all_nodes N sid j = (\<lambda>(st, blocks, clusters).
     let block = ring ! j; t_node_id = all_nodes ! ((j + sid) mod N); cid = nd_cluster (node_at st t_node_id);
         blk = (blocks ! block)\<lparr>map2node := t_node_id, map2cluster := cid\<rparr> in
     case update_stripe_info_in_node st t_node_id sid block of None \<Rightarrow> None
     | Some st \<Rightarrow> Some (enter_block cid blk sid st, blocks[block := blk], insert cid clusters))"

definition initialize_glrc_stripe_placement :: "SysConfig \<Rightarrow> Stripe \<Rightarrow> coordinator \<Rightarrow> (coordinator \<times> Stripe) option" where
  "initialize_glrc_stripe_placement cfg stripe st =
     (let n = stripe_n stripe; k = stripe_k stripe; r = stripe_r stripe; z = stripe_z stripe;
          blocks = map (\<lambda>i. new_block cfg stripe (glrc_block_group k r z i) (- 1) (- 1) i) [0..<n];
          groups = glrc_build_placement_groups k r z; ring = concat groups; all_nodes = map fst (m_node_table st) in
      if length (object_keys stripe) \<noteq> 1 \<or> length groups \<noteq> z \<or> length ring \<noteq> n \<or> length all_nodes \<noteq> n then None
      else case fold_option (glrc_ring_step ring all_nodes n (stripe_id stripe)) [0..<n]
                  (st, blocks, place2clusters stripe) of
          None \<Rightarrow> None
        | Some (st, blocks, clusters) \<Rightarrow>
            if \<exists>i<n. map2node (blocks ! i) < 0 then None
            else Some (st, stripe\<lparr>stripe_blocks := stripe_blocks stripe @ blocks, place2clusters := clusters,
                   group_to_blocks := fold (\<lambda>i m. add_to_map m (map2group (blocks ! i)) i) [0..<n] (group_to_blocks stripe),
                   num_groups := z\<rparr>))"

section \<open>Upload plans\<close>

record AppendStripeDataPlacement =
  plan_key :: string
  plan_stripe_id :: nat
  append_size :: nat
  is_merge_parity :: bool
  plan_cluster_id :: int
  plan_append_mode :: string
  is_serialized :: bool
  datanodeip :: "string list"
  datanodeport :: "int list"
  blockkeys :: "string list"
  blockids :: "nat list"
  offsets :: "int list"
  sizes :: "nat list"

definition empty_append_plan :: AppendStripeDataPlacement where
  "empty_append_plan = \<lparr>plan_key = [], plan_stripe_id = 0, append_size = 0, is_merge_parity = False, plan_cluster_id = 0,
     plan_append_mode = [], is_serialized = False, datanodeip = [], datanodeport = [], blockkeys = [], blockids = [],
     offsets = [], sizes = []\<rparr>"

definition gen_append_key :: "nat \<Rightarrow> nat \<Rightarrow> string" where
  "gen_append_key sid grp = to_string sid @ ''_'' @ to_string grp"

definition addBlockToAppendPlan :: "AppendStripeDataPlacement \<Rightarrow> Block \<Rightarrow> Node \<Rightarrow> nat \<times> int \<Rightarrow> AppendStripeDataPlacement" where
  "addBlockToAppendPlan plan block node slice_info =
     plan\<lparr>datanodeip := datanodeip plan @ [node_ip node], datanodeport := datanodeport plan @ [node_port node],
          blockkeys := blockkeys plan @ [blk_key block], blockids := blockids plan @ [blk_id block],
          offsets := offsets plan @ [snd slice_info], sizes := sizes plan @ [fst slice_info]\<rparr>"

definition add_stripe_block :: "coordinator \<Rightarrow> Stripe \<Rightarrow> (nat \<Rightarrow> nat \<times> int) \<Rightarrow> nat \<Rightarrow> AppendStripeDataPlacement
    \<Rightarrow> AppendStripeDataPlacement" where
  "add_stripe_block st stripe slice_of j plan =
     addBlockToAppendPlan plan (stripe_blocks stripe ! j) (node_at st (map2node (stripe_blocks stripe ! j))) (slice_of j)"

definition group_blocks :: "Stripe \<Rightarrow> nat \<Rightarrow> nat list" where
  "group_blocks stripe i = tbl_get [] (int i) (group_to_blocks stripe)"

definition generate_add_plans :: "SysConfig \<Rightarrow> coordinator \<Rightarrow> Stripe \<Rightarrow> AppendStripeDataPlacement list" where
  "generate_add_plans cfg st stripe =
     map (\<lambda>i. fold (add_stripe_block st stripe (\<lambda>_. (BlockSize cfg, 0))) (group_blocks stripe i)
        (empty_append_plan\<lparr>plan_key := gen_append_key (stripe_id stripe) i, plan_stripe_id := stripe_id stripe,
           append_size := length (group_blocks stripe i) * BlockSize cfg, is_merge_parity := False,
           plan_cluster_id := map2cluster (stripe_blocks stripe ! (group_blocks stripe i ! 0)),
           plan_append_mode := ''UNILRC_MODE'', is_serialized := False\<rparr>)) [0..<num_groups stripe]"

definition generate_sub_add_plans :: "SysConfig \<Rightarrow> coordinator \<Rightarrow> Stripe \<Rightarrow> nat \<Rightarrow> AppendStripeDataPlacement list" where
  "generate_sub_add_plans cfg st stripe subset_size =
     (let data_block_num = subset_size div BlockSize cfg;
          kept = (\<lambda>i. filter (\<lambda>b. \<not> (b < cfg_k cfg \<and> b \<ge> data_block_num)) (group_blocks stripe i))
      in map (\<lambda>i. fold (add_stripe_block st stripe (\<lambda>_. (BlockSize cfg, 0))) (kept i)
            (empty_append_plan\<lparr>plan_key := gen_append_key (stripe_id stripe) i, plan_stripe_id := stripe_id stripe,
               is_merge_parity := False, plan_cluster_id := map2cluster (stripe_blocks stripe ! (group_blocks stripe i ! 0)),
               plan_append_mode := ''UNILRC_MODE'', is_serialized := False,
               append_size := length (kept i) * BlockSize cfg\<rparr>))
          (filter (\<lambda>i. length (kept i) * BlockSize cfg \<noteq> 0) [0..<num_groups stripe]))"

end
