(* ===== verification/PlacementProps.thy ===== *)
theory PlacementProps
  imports Placement
begin

text \<open>
  What the placements guarantee: the gLRC ring gives every node exactly one block, the other codes never put two
  blocks of a stripe on one node and put a group into one cluster, block keys identify blocks, and the upload plans
  list every block of the stripe once.
\<close>

section \<open>Loops that may abort\<close>

lemma fold_option_append:
  "fold_option f (xs @ ys) s = (case fold_option f xs s of None \<Rightarrow> None | Some s' \<Rightarrow> fold_option f ys s')"
  by (induction xs arbitrary: s) (auto split: option.splits)

lemma fold_option_upt_total:
  assumes "I 0 s" "\<And>i s. i < n \<Longrightarrow> I i s \<Longrightarrow> \<exists>s'. f i s = Some s' \<and> I (Suc i) s'"
  shows "\<exists>s'. fold_option f [0..<n] s = Some s' \<and> I n s'"
  using assms(2)
proof (induction n)
  case 0
  then show ?case using assms(1) by simp
next
  case (Suc n)
  then obtain s1 where "fold_option f [0..<n] s = Some s1" "I n s1" using less_SucI by blast
  moreover obtain s2 where "f n s1 = Some s2" "I (Suc n) s2" using Suc.prems [of n s1] calculation(2) by blast
  ultimately show ?case by (simp add: fold_option_append)
qed

lemma fold_option_upt_invar:
  assumes "fold_option f [0..<n] s = Some s'" "I 0 s" "\<And>i s s'. i < n \<Longrightarrow> I i s \<Longrightarrow> f i s = Some s' \<Longrightarrow> I (Suc i) s'"
  shows "I n s'"
  using assms(1,3)
proof (induction n arbitrary: s')
  case 0
  then show ?case using assms(2) by simp
next
  case (Suc n)
  from Suc.prems(1) obtain s1 where s1: "fold_option f [0..<n] s = Some s1" "f n s1 = Some s'"
    by (auto simp: fold_option_append split: option.splits)
  then have "I n s1" using Suc.IH Suc.prems(2) less_SucI by blast
  then show ?case using Suc.prems(2) s1(2) by blast
qed

section \<open>The ring of a gLRC stripe\<close>

lemma glrc_block_group_eq:
  assumes "0 < z" "i < k + r + z" "g < z"
  shows "i \<in> set (glrc_build_placement_groups k r z ! g) \<longleftrightarrow> glrc_block_group k r z i = int g"
proof (cases "i < k + r")
  case True
  obtain h where "glrc_payload_group_id (int i) (int k) (int r) (int z) = int h"
    using payload_group_id_interval [OF True assms(1)] by blast
  then show ?thesis using True assms
    by (auto simp: in_placement_group glrc_block_group_def glrc_data_group_id_def group_of_def)
next
  case False
  then show ?thesis using assms by (auto simp: in_placement_group glrc_block_group_def)
qed

lemma distinct_ring: "distinct (concat (glrc_build_placement_groups k r z))"
proof (rule distinct_concat_iff [THEN iffD2], intro conjI allI impI ballI)
  have d: "set (glrc_build_placement_groups k r z ! g) \<inter> set (glrc_build_placement_groups k r z ! h) = {}"
    if "g < z" "h < z" "g \<noteq> h" for g h
    using that by (auto simp: in_placement_group)
  show "distinct (removeAll [] (glrc_build_placement_groups k r z))"
  proof (rule distinct_removeAll, subst distinct_conv_nth, intro allI impI)
    fix g h
    assume "g < length (glrc_build_placement_groups k r z)" "h < length (glrc_build_placement_groups k r z)" "g \<noteq> h"
    then show "glrc_build_placement_groups k r z ! g \<noteq> glrc_build_placement_groups k r z ! h"
      using d [of g h] in_placement_group [of g z "k + r + g" k r] by auto
  qed
  show "distinct ys" if "ys \<in> set (glrc_build_placement_groups k r z)" for ys
    using that distinct_placement_group by (auto simp: in_set_conv_nth)
  show "set ys \<inter> set zs = {}" if "ys \<in> set (glrc_build_placement_groups k r z) \<and> zs \<in> set (glrc_build_placement_groups k r z) \<and> ys \<noteq> zs" for ys zs
    using that d by (auto simp: in_set_conv_nth)
qed

lemma set_ring:
  assumes "0 < z"
  shows "set (concat (glrc_build_placement_groups k r z)) = {..<k + r + z}"
proof (intro equalityI subsetI)
  fix b
  assume "b \<in> set (concat (glrc_build_placement_groups k r z))"
  then obtain g where "g < z" "b \<in> set (glrc_build_placement_groups k r z ! g)"
    by (auto simp: in_set_conv_nth [of _ "glrc_build_placement_groups k r z"])
  then show "b \<in> {..<k + r + z}" by (auto simp: in_placement_group)
next
  fix b
  assume "b \<in> {..<k + r + z}"
  then obtain g where "g < z" "b \<in> set (glrc_build_placement_groups k r z ! g)"
    using placement_groups_partition [OF assms, of b k r] by auto
  then show "b \<in> set (concat (glrc_build_placement_groups k r z))"
    using nth_mem [of g "glrc_build_placement_groups k r z"] by auto
qed

lemma length_ring: "0 < z \<Longrightarrow> length (concat (glrc_build_placement_groups k r z)) = k + r + z"
  by (metis distinct_card distinct_ring set_ring card_lessThan)

lemma rotate_inj:
  assumes "i < n" "j < n"
  shows "(i + s) mod n = (j + s) mod n \<longleftrightarrow> i = (j :: nat)"
  using assms mod_eq_dvd_iff_nat [of "j + s" "i + s" n] mod_eq_dvd_iff_nat [of "i + s" "j + s" n]
  by (cases "i \<le> j") (auto dest!: dvd_imp_le)

section \<open>The gLRC placement\<close>

lemma update_stripe_info_Some:
  assumes "tables_ok st" "nd_stripes (node_at st t) sid = None"
  shows "update_stripe_info_in_node st t sid b =
    Some (set_node t ((node_at st t)\<lparr>nd_stripes := (nd_stripes (node_at st t))(sid \<mapsto> int b)\<rparr>) st)"
  using assms by (simp add: update_stripe_info_in_node_def Let_def)

lemma update_stripe_info_inv:
  assumes "update_stripe_info_in_node st t sid b = Some st'" "tables_ok st"
  shows "nd_stripes (node_at st t) sid = None" "tables_ok st'"
    "node_at st' v = (if v = t then (node_at st t)\<lparr>nd_stripes := (nd_stripes (node_at st t))(sid \<mapsto> int b)\<rparr> else node_at st v)"
    "cluster_at st' c = cluster_at st c"
    "t \<in> fst ` set (m_node_table st) \<Longrightarrow> map fst (m_node_table st') = map fst (m_node_table st)"
proof -
  show "nd_stripes (node_at st t) sid = None" "tables_ok st'"
    "node_at st' v = (if v = t then (node_at st t)\<lparr>nd_stripes := (nd_stripes (node_at st t))(sid \<mapsto> int b)\<rparr> else node_at st v)"
    "cluster_at st' c = cluster_at st c"
    using assms by (auto simp: update_stripe_info_in_node_def Let_def split: if_splits)
  assume "t \<in> fst ` set (m_node_table st)"
  then have "map_of (m_node_table st) t \<noteq> None" by (simp add: map_of_eq_None_iff)
  then show "map fst (m_node_table st') = map fst (m_node_table st)"
    using assms tbl.keys_update_present [of "m_node_table st" t]
    by (auto simp: update_stripe_info_in_node_def Let_def tables_ok_def set_node_def split: if_splits)
qed

lemma enter_block_simps [simp]:
  "node_at (enter_block c b sid st) v = node_at st v" "m_node_table (enter_block c b sid st) = m_node_table st"
  "tables_ok st \<Longrightarrow> tables_ok (enter_block c b sid st)"
  by (simp_all add: enter_block_def Let_def)

lemma cluster_at_enter:
  "tables_ok st \<Longrightarrow> cluster_at (enter_block c b sid st) d =
     (if d = c then (cluster_at st c)\<lparr>cl_blocks := cl_blocks (cluster_at st c) @ [b],
        cl_stripes := insert sid (cl_stripes (cluster_at st c))\<rparr> else cluster_at st d)"
  by (simp add: enter_block_def Let_def)

text \<open>
  After \<open>m\<close> rounds the first \<open>m\<close> blocks of the ring have their node, and exactly their nodes know the stripe.
\<close>

definition ring_inv :: "nat list \<Rightarrow> int list \<Rightarrow> nat \<Rightarrow> nat \<Rightarrow> coordinator \<Rightarrow> Block list \<Rightarrow> nat
    \<Rightarrow> coordinator \<times> Block list \<times> int set \<Rightarrow> bool" where
  "ring_inv ring all_nodes N sid st0 blocks0 m = (\<lambda>(st, blocks, clusters).
     tables_ok st \<and> map fst (m_node_table st) = all_nodes \<and> length blocks = N
     \<and> (\<forall>v. nd_cluster (node_at st v) = nd_cluster (node_at st0 v))
     \<and> (\<forall>j<N. nd_stripes (node_at st (all_nodes ! ((j + sid) mod N))) sid = (if j < m then Some (int (ring ! j)) else None))
     \<and> (\<forall>j<N. blocks ! (ring ! j) = (if j < m
           then (blocks0 ! (ring ! j))\<lparr>map2node := all_nodes ! ((j + sid) mod N),
                  map2cluster := nd_cluster (node_at st0 (all_nodes ! ((j + sid) mod N)))\<rparr>
           else blocks0 ! (ring ! j))))"

lemma ring_step:
  assumes ring: "distinct ring" "length ring = N" "set ring = {..<N}" and nodes: "distinct all_nodes" "length all_nodes = N"
    and m: "m < N" and inv: "ring_inv ring all_nodes N sid st0 blocks0 m s"
  shows "\<exists>s'. glrc_ring_step ring all_nodes N sid m s = Some s' \<and> ring_inv ring all_nodes N sid st0 blocks0 (Suc m) s'"
proof -
  obtain st blocks clusters where s: "s = (st, blocks, clusters)" by (cases s) auto
  let ?t = "\<lambda>j. all_nodes ! ((j + sid) mod N)"
  have N: "0 < N" using m by simp
  have inj: "?t i = ?t j \<longleftrightarrow> i = j" if "i < N" "j < N" for i j
    using that nodes N rotate_inj [OF that, of sid] by (simp add: nth_eq_iff_index_eq)
  have I: "tables_ok st" "map fst (m_node_table st) = all_nodes" "length blocks = N"
    "\<forall>v. nd_cluster (node_at st v) = nd_cluster (node_at st0 v)"
    "\<forall>j<N. nd_stripes (node_at st (?t j)) sid = (if j < m then Some (int (ring ! j)) else None)"
    "\<forall>j<N. blocks ! (ring ! j) = (if j < m then (blocks0 ! (ring ! j))\<lparr>map2node := ?t j,
        map2cluster := nd_cluster (node_at st0 (?t j))\<rparr> else blocks0 ! (ring ! j))"
    using inv by (auto simp: ring_inv_def s)
  have free: "nd_stripes (node_at st (?t m)) sid = None" using I(5) m by simp
  obtain st1 where u: "update_stripe_info_in_node st (?t m) sid (ring ! m) = Some st1"
    using update_stripe_info_Some [OF I(1) free] by blast
  note u_inv = update_stripe_info_inv [OF u I(1)]
  have "?t m \<in> set all_nodes" using nodes N by simp
  then have keys: "map fst (m_node_table st1) = all_nodes" using u_inv(5) I(2) by (metis list.set_map)
  have ringi: "ring ! i = ring ! j \<longleftrightarrow> i = j" if "i < N" "j < N" for i j
    using that ring(1,2) by (simp add: nth_eq_iff_index_eq)
  have ringN: "ring ! i < N" if "i < N" for i using nth_mem [of i ring] that ring by auto
  let ?c = "nd_cluster (node_at st (?t m))"
  let ?b = "(blocks ! (ring ! m))\<lparr>map2node := ?t m, map2cluster := ?c\<rparr>"
  have step: "glrc_ring_step ring all_nodes N sid m s = Some (enter_block ?c ?b sid st1, blocks[ring ! m := ?b], insert ?c clusters)"
    by (simp add: glrc_ring_step_def s Let_def u)
  have "ring_inv ring all_nodes N sid st0 blocks0 (Suc m) (enter_block ?c ?b sid st1, blocks[ring ! m := ?b], insert ?c clusters)"
    unfolding ring_inv_def case_prod_conv
  proof (intro conjI allI impI)
    fix j assume j: "j < N"
    show "nd_stripes (node_at (enter_block ?c ?b sid st1) (?t j)) sid = (if j < Suc m then Some (int (ring ! j)) else None)"
      using I(5) j m inj [OF j m] by (auto simp: u_inv(3) less_Suc_eq)
    show "blocks[ring ! m := ?b] ! (ring ! j) = (if j < Suc m then (blocks0 ! (ring ! j))\<lparr>map2node := ?t j,
        map2cluster := nd_cluster (node_at st0 (?t j))\<rparr> else blocks0 ! (ring ! j))"
      using I(3,4,6) j m ringi [OF j m] ringi [OF m j] ringN [OF m] by (auto simp: nth_list_update less_Suc_eq)
  qed (use u_inv(2) keys I(3,4) in \<open>auto simp: u_inv(3)\<close>)
  then show ?thesis using step by blast
qed

lemma add_to_map_ok: "tbl_ok m \<Longrightarrow> tbl_ok (add_to_map m g i)"
  by (simp add: add_to_map_def tbl_ok_set)

lemma tbl_get_add: "tbl_ok m \<Longrightarrow> tbl_get [] h (add_to_map m g i) = (if h = g then tbl_get [] g m @ [i] else tbl_get [] h m)"
  by (simp add: add_to_map_def tbl_get_def map_of_tbl_set)

lemma fold_add_to_map:
  "tbl_ok m \<Longrightarrow> tbl_ok (fold (\<lambda>i m. add_to_map m (grp i) i) xs m)
     \<and> tbl_get [] h (fold (\<lambda>i m. add_to_map m (grp i) i) xs m) = tbl_get [] h m @ filter (\<lambda>i. grp i = h) xs"
  by (induction xs arbitrary: m) (auto simp: add_to_map_ok tbl_get_add)

lemma new_block_simps [simp]:
  "blk_id (new_block cfg stripe g c v i) = i" "map2group (new_block cfg stripe g c v i) = g"
  "map2node (new_block cfg stripe g c v i) = v" "map2cluster (new_block cfg stripe g c v i) = c"
  "map2stripe (new_block cfg stripe g c v i) = stripe_id stripe" "blk_size (new_block cfg stripe g c v i) = BlockSize cfg"
  by (simp_all add: new_block_def Let_def)

lemma glrc_ring_result:
  fixes stripe :: Stripe
  defines "k \<equiv> stripe_k stripe" and "r \<equiv> stripe_r stripe" and "z \<equiv> stripe_z stripe" and "sid \<equiv> stripe_id stripe"
  defines "n \<equiv> stripe_n stripe"
  defines "ring \<equiv> concat (glrc_build_placement_groups k r z)"
  assumes z: "0 < z" and n: "n = k + r + z" and "length (object_keys stripe) = 1"
    and "stripe_blocks stripe = []" "group_to_blocks stripe = []"
    and ok: "tables_ok st" and len: "length (m_node_table st) = n"
    and pos: "\<forall>v\<in>fst ` set (m_node_table st). 0 \<le> v"
    and fresh: "\<forall>v\<in>fst ` set (m_node_table st). nd_stripes (node_at st v) sid = None"
  shows "\<exists>st' stripe'. initialize_glrc_stripe_placement cfg stripe st = Some (st', stripe')
    \<and> length (stripe_blocks stripe') = n \<and> num_groups stripe' = z \<and> tables_ok st'
    \<and> map fst (m_node_table st') = map fst (m_node_table st)
    \<and> (\<forall>g<z. group_blocks stripe' g = filter (\<lambda>i. glrc_block_group k r z i = int g) [0..<n])
    \<and> (\<forall>j<n. let v = fst (m_node_table st ! ((j + sid) mod n)); b = stripe_blocks stripe' ! (ring ! j) in
        b = new_block cfg stripe (glrc_block_group k r z (ring ! j)) (nd_cluster (node_at st v)) v (ring ! j)
        \<and> nd_stripes (node_at st' v) sid = Some (int (ring ! j)))"
proof -
  let ?nodes = "map fst (m_node_table st)"
  let ?blocks = "map (\<lambda>i. new_block cfg stripe (glrc_block_group k r z i) (- 1) (- 1) i) [0..<n]"
  have ring: "distinct ring" "length ring = n" "set ring = {..<n}"
    using distinct_ring [of k r z] length_ring [OF z, of k r] set_ring [OF z, of k r] by (simp_all add: ring_def n)
  have nodes: "distinct ?nodes" "length ?nodes = n" using ok len by (simp_all add: tables_ok_def tbl_ok_distinct)
  have n0: "0 < n" using z n by simp
  have "?nodes ! ((j + sid) mod n) \<in> fst ` set (m_node_table st)" for j
    using nth_mem [of "(j + sid) mod n" ?nodes] n0 nodes(2) by simp
  then have "nd_stripes (node_at st (?nodes ! ((j + sid) mod n))) sid = None" for j using bspec [OF fresh] by blast
  then have "ring_inv ring ?nodes n sid st ?blocks 0 (st, ?blocks, place2clusters stripe)"
    using ok by (simp add: ring_inv_def)
  then have "\<exists>s'. fold_option (glrc_ring_step ring ?nodes n sid) [0..<n] (st, ?blocks, place2clusters stripe) = Some s'
      \<and> ring_inv ring ?nodes n sid st ?blocks n s'"
    by (rule fold_option_upt_total) (rule ring_step [OF ring nodes])
  then obtain s' where s': "fold_option (glrc_ring_step ring ?nodes n sid) [0..<n] (st, ?blocks, place2clusters stripe) = Some s'"
    "ring_inv ring ?nodes n sid st ?blocks n s'" by blast
  obtain st' blocks clusters where res: "s' = (st', blocks, clusters)" by (cases s') auto
  note f = s'(1) [unfolded res] and inv = s'(2) [unfolded res]
  have I: "tables_ok st'" "map fst (m_node_table st') = ?nodes" "length blocks = n" using inv by (simp_all add: ring_inv_def)
  have at: "blocks ! (ring ! j) = new_block cfg stripe (glrc_block_group k r z (ring ! j))
      (nd_cluster (node_at st (?nodes ! ((j + sid) mod n)))) (?nodes ! ((j + sid) mod n)) (ring ! j)"
    and know: "nd_stripes (node_at st' (?nodes ! ((j + sid) mod n))) sid = Some (int (ring ! j))" if "j < n" for j
  proof -
    have "ring ! j < n" using nth_mem [of j ring] that ring by auto
    then show "blocks ! (ring ! j) = new_block cfg stripe (glrc_block_group k r z (ring ! j))
      (nd_cluster (node_at st (?nodes ! ((j + sid) mod n)))) (?nodes ! ((j + sid) mod n)) (ring ! j)"
      using inv that by (simp add: ring_inv_def) (simp add: new_block_def Let_def)
    show "nd_stripes (node_at st' (?nodes ! ((j + sid) mod n))) sid = Some (int (ring ! j))"
      using inv that by (simp add: ring_inv_def)
  qed
  have ex: "\<exists>j<n. i = ring ! j" if "i < n" for i using ring that by (metis in_set_conv_nth lessThan_iff)
  have grp: "map2group (blocks ! i) = glrc_block_group k r z i" and nonneg: "\<not> map2node (blocks ! i) < 0" if i: "i < n" for i
  proof -
    obtain j where j: "j < n" "i = ring ! j" using ex [OF i] by blast
    have "?nodes ! ((j + sid) mod n) \<in> fst ` set (m_node_table st)"
      using nth_mem [of "(j + sid) mod n" ?nodes] n0 nodes(2) by simp
    then show "map2group (blocks ! i) = glrc_block_group k r z i" "\<not> map2node (blocks ! i) < 0"
      using at [OF j(1)] pos by (auto simp: j(2))
  qed
  have gtb: "fold (\<lambda>i m. add_to_map m (map2group (blocks ! i)) i) [0..<n] []
      = fold (\<lambda>i m. add_to_map m (glrc_block_group k r z i) i) [0..<n] []"
    by (intro fold_cong) (auto simp: grp)
  let ?stripe' = "stripe\<lparr>stripe_blocks := blocks, place2clusters := clusters,
    group_to_blocks := fold (\<lambda>i m. add_to_map m (glrc_block_group k r z i) i) [0..<n] [], num_groups := z\<rparr>"
  have "initialize_glrc_stripe_placement cfg stripe st = Some (st', ?stripe')"
    using f nonneg assms(9-11) ring(2) nodes(2) gtb
    unfolding initialize_glrc_stripe_placement_def Let_def k_def [symmetric] r_def [symmetric] z_def [symmetric]
      n_def [symmetric] sid_def [symmetric] ring_def [symmetric]
    by auto
  moreover have "group_blocks ?stripe' g = filter (\<lambda>i. glrc_block_group k r z i = int g) [0..<n]" for g
    using fold_add_to_map [of "[]" "glrc_block_group k r z" "[0..<n]" "int g"]
    by (simp add: group_blocks_def tbl_ok_def tbl_get_def)
  moreover have "fst (m_node_table st ! ((j + sid) mod n)) = ?nodes ! ((j + sid) mod n)" for j
    using n0 len by (simp add: nth_map)
  ultimately show ?thesis using I at know by (intro exI [of _ st'] exI [of _ ?stripe']) (simp add: Let_def)
qed

text \<open>The same by block index.\<close>

lemma glrc_placement_blocks:
  fixes stripe :: Stripe
  defines "k \<equiv> stripe_k stripe" and "r \<equiv> stripe_r stripe" and "z \<equiv> stripe_z stripe" and "sid \<equiv> stripe_id stripe"
  defines "n \<equiv> stripe_n stripe"
  assumes z: "0 < z" and n: "n = k + r + z" and key: "length (object_keys stripe) = 1"
    and new: "stripe_blocks stripe = []" "group_to_blocks stripe = []"
    and ok: "tables_ok st" and len: "length (m_node_table st) = n"
    and pos: "\<forall>v\<in>fst ` set (m_node_table st). 0 \<le> v"
    and fresh: "\<forall>v\<in>fst ` set (m_node_table st). nd_stripes (node_at st v) sid = None"
  shows "\<exists>st' stripe'. initialize_glrc_stripe_placement cfg stripe st = Some (st', stripe')
    \<and> length (stripe_blocks stripe') = n \<and> num_groups stripe' = z
    \<and> (\<forall>g<z. group_blocks stripe' g = filter (\<lambda>i. glrc_block_group k r z i = int g) [0..<n])
    \<and> distinct (map map2node (stripe_blocks stripe'))
    \<and> set (map map2node (stripe_blocks stripe')) = fst ` set (m_node_table st)
    \<and> (\<forall>v \<in> fst ` set (m_node_table st). nd_stripes (node_at st' v) sid \<noteq> None)
    \<and> (\<forall>i<n. let b = stripe_blocks stripe' ! i in
         b = new_block cfg stripe (glrc_block_group k r z i) (nd_cluster (node_at st (map2node b))) (map2node b) i
         \<and> nd_stripes (node_at st' (map2node b)) sid = Some (int i))"
proof -
  let ?v = "\<lambda>j. fst (m_node_table st ! ((j + sid) mod n))" and ?ring = "concat (glrc_build_placement_groups k r z)"
  from glrc_ring_result [OF z [unfolded z_def] n [unfolded n_def k_def r_def z_def] key new ok len [unfolded n_def] pos
      fresh [unfolded sid_def], of cfg, folded k_def r_def z_def sid_def n_def]
  obtain st' stripe' where res: "initialize_glrc_stripe_placement cfg stripe st = Some (st', stripe')"
      "length (stripe_blocks stripe') = n" "num_groups stripe' = z"
      "\<forall>g<z. group_blocks stripe' g = filter (\<lambda>i. glrc_block_group k r z i = int g) [0..<n]"
    and at: "\<And>j. j < n \<Longrightarrow> stripe_blocks stripe' ! (?ring ! j) = new_block cfg stripe (glrc_block_group k r z (?ring ! j))
        (nd_cluster (node_at st (?v j))) (?v j) (?ring ! j) \<and> nd_stripes (node_at st' (?v j)) sid = Some (int (?ring ! j))"
    by (auto simp: Let_def)
  have ring: "length ?ring = n" "set ?ring = {..<n}" using length_ring [OF z] set_ring [OF z] n by simp_all
  have n0: "0 < n" using z n by simp
  have ex: "\<exists>j<n. i = ?ring ! j" if "i < n" for i using ring that by (metis in_set_conv_nth lessThan_iff)
  have blk: "stripe_blocks stripe' ! i = new_block cfg stripe (glrc_block_group k r z i)
        (nd_cluster (node_at st (map2node (stripe_blocks stripe' ! i)))) (map2node (stripe_blocks stripe' ! i)) i"
    "nd_stripes (node_at st' (map2node (stripe_blocks stripe' ! i))) sid = Some (int i)"
    "map2node (stripe_blocks stripe' ! i) \<in> fst ` set (m_node_table st)" if i: "i < n" for i
  proof -
    obtain j where j: "j < n" "i = ?ring ! j" using ex [OF i] by blast
    have "?v j \<in> fst ` set (m_node_table st)" using n0 len by simp
    then show "stripe_blocks stripe' ! i = new_block cfg stripe (glrc_block_group k r z i)
        (nd_cluster (node_at st (map2node (stripe_blocks stripe' ! i)))) (map2node (stripe_blocks stripe' ! i)) i"
      "nd_stripes (node_at st' (map2node (stripe_blocks stripe' ! i))) sid = Some (int i)"
      "map2node (stripe_blocks stripe' ! i) \<in> fst ` set (m_node_table st)"
      using at [OF j(1)] by (simp_all add: j(2))
  qed
  have dist: "distinct (map map2node (stripe_blocks stripe'))" unfolding distinct_conv_nth
    using blk(2) res(2) by (metis length_map nth_map of_nat_eq_iff option.inject)
  have card: "card (fst ` set (m_node_table st)) = n"
    using ok len distinct_card [of "map fst (m_node_table st)"] by (simp add: tables_ok_def tbl_ok_distinct)
  have nodes: "set (map map2node (stripe_blocks stripe')) = fst ` set (m_node_table st)"
  proof (rule card_subset_eq)
    show "set (map map2node (stripe_blocks stripe')) \<subseteq> fst ` set (m_node_table st)"
      using blk(3) res(2) by (auto simp: in_set_conv_nth)
    show "card (set (map map2node (stripe_blocks stripe'))) = card (fst ` set (m_node_table st))"
      using distinct_card [OF dist] res(2) card by simp
  qed simp
  have all: "\<forall>v \<in> fst ` set (m_node_table st). nd_stripes (node_at st' v) sid \<noteq> None"
    unfolding nodes [symmetric] using blk(2) res(2) by (auto simp: in_set_conv_nth)
  show ?thesis using res dist nodes all blk(1,2) by (intro exI conjI) (auto simp: Let_def)
qed

section \<open>The placements by group\<close>

lemma select_node_Some:
  "select_node st sid nodes ds = Some v \<Longrightarrow> nd_stripes (node_at st v) sid = None \<and> v \<in> set nodes"
  by (induction ds) (auto simp: Let_def split: if_splits)

lemma select_node_finds:
  "d \<in> set ds \<Longrightarrow> nodes \<noteq> [] \<Longrightarrow> nd_stripes (node_at st (nodes ! (d mod length nodes))) sid = None
   \<Longrightarrow> \<exists>v. select_node st sid nodes ds = Some v"
  by (induction ds) (auto simp: Let_def)

text \<open>When every node of the cluster holds a block of the stripe the search does not end, whatever is drawn.\<close>

lemma select_node_never:
  "\<forall>v\<in>set nodes. nd_stripes (node_at st v) sid \<noteq> None \<Longrightarrow> select_node st sid nodes ds = None"
  by (induction ds) (auto simp: Let_def)

definition cluster_of_group :: "SysConfig \<Rightarrow> nat \<Rightarrow> int \<Rightarrow> int" where
  "cluster_of_group cfg sid g = (int (sid mod ClusterNum cfg) + g) smod int (ClusterNum cfg)"

definition group_inv :: "SysConfig \<Rightarrow> (nat \<Rightarrow> int option) \<Rightarrow> coordinator \<Rightarrow> Stripe \<Rightarrow> nat \<Rightarrow> coordinator \<times> Stripe \<Rightarrow> bool" where
  "group_inv cfg grp st0 stripe0 m = (\<lambda>(st, stripe).
     tables_ok st \<and> tbl_ok (group_to_blocks stripe) \<and> length (stripe_blocks stripe) = m
     \<and> stripe_id stripe = stripe_id stripe0 \<and> stripe_k stripe = stripe_k stripe0 \<and> stripe_r stripe = stripe_r stripe0
     \<and> stripe_n stripe = stripe_n stripe0 \<and> object_keys stripe = object_keys stripe0
     \<and> (\<forall>c. cl_nodes (cluster_at st c) = cl_nodes (cluster_at st0 c))
     \<and> (\<forall>i<m. grp i \<noteq> None)
     \<and> (\<forall>h. tbl_get [] h (group_to_blocks stripe) = filter (\<lambda>i. grp i = Some h) [0..<m])
     \<and> (\<forall>i<m. let b = stripe_blocks stripe ! i; c = cluster_of_group cfg (stripe_id stripe0) (the (grp i)) in
          b = new_block cfg stripe0 (the (grp i)) c (map2node b) i
          \<and> map2node b \<in> set (cl_nodes (cluster_at st0 c))
          \<and> nd_stripes (node_at st (map2node b)) (stripe_id stripe0) = Some (int i)))"

lemma new_block_cong:
  "stripe_id s = stripe_id s' \<Longrightarrow> stripe_k s = stripe_k s' \<Longrightarrow> stripe_r s = stripe_r s' \<Longrightarrow> object_keys s = object_keys s'
   \<Longrightarrow> new_block cfg s g c v i = new_block cfg s' g c v i"
  by (simp add: new_block_def)

lemma place_block_step:
  assumes "group_inv cfg grp st0 stripe0 m s" "place_block cfg grp draws m s = Some s'"
  shows "group_inv cfg grp st0 stripe0 (Suc m) s'"
proof -
  obtain st stripe where s: "s = (st, stripe)" by (cases s)
  let ?sid = "stripe_id stripe0"
  from assms(1) have I: "tables_ok st" "tbl_ok (group_to_blocks stripe)" "length (stripe_blocks stripe) = m" "stripe_id stripe = ?sid"
    "stripe_k stripe = stripe_k stripe0" "stripe_r stripe = stripe_r stripe0" "stripe_n stripe = stripe_n stripe0"
    "object_keys stripe = object_keys stripe0" "\<forall>c. cl_nodes (cluster_at st c) = cl_nodes (cluster_at st0 c)" "\<forall>i<m. grp i \<noteq> None"
    "\<forall>h. tbl_get [] h (group_to_blocks stripe) = filter (\<lambda>i. grp i = Some h) [0..<m]"
    and blocks: "\<And>i. i < m \<Longrightarrow> stripe_blocks stripe ! i = new_block cfg stripe0 (the (grp i))
        (cluster_of_group cfg ?sid (the (grp i))) (map2node (stripe_blocks stripe ! i)) i
      \<and> map2node (stripe_blocks stripe ! i) \<in> set (cl_nodes (cluster_at st0 (cluster_of_group cfg ?sid (the (grp i)))))
      \<and> nd_stripes (node_at st (map2node (stripe_blocks stripe ! i))) ?sid = Some (int i)"
    by (simp_all add: group_inv_def s Let_def)
  from assms(2) I(4) obtain g v st1 where g: "grp m = Some g"
    and v: "randomly_select_a_node st (cluster_of_group cfg ?sid g) ?sid (draws m) = Some v"
    and u: "update_stripe_info_in_node st v ?sid m = Some st1"
    and s': "s' = (enter_block (cluster_of_group cfg ?sid g) (new_block cfg stripe g (cluster_of_group cfg ?sid g) v m) ?sid st1,
       stripe\<lparr>stripe_blocks := stripe_blocks stripe @ [new_block cfg stripe g (cluster_of_group cfg ?sid g) v m],
         place2clusters := insert (cluster_of_group cfg ?sid g) (place2clusters stripe),
         group_to_blocks := add_to_map (group_to_blocks stripe) g m\<rparr>)"
    by (auto simp: place_block_def s cluster_of_group_def Let_def split: option.splits)
  note u_inv = update_stripe_info_inv [OF u I(1)]
  have vc: "v \<in> set (cl_nodes (cluster_at st0 (cluster_of_group cfg ?sid g)))"
    using select_node_Some [OF v [unfolded randomly_select_a_node_def]] I(9) by auto
  have other: "map2node (stripe_blocks stripe ! i) \<noteq> v" if "i < m" for i using blocks [OF that] u_inv(1) by auto
  show ?thesis unfolding group_inv_def s' case_prod_conv
    using I u_inv(2) g vc blocks other new_block_cong [of stripe stripe0] u_inv(3,4)
    by (auto simp: Let_def nth_append less_Suc_eq cluster_at_enter tbl_get_add add_to_map_ok)
qed

lemma place_by_group_inv:
  assumes "place_by_group cfg grp draws stripe st = Some (st', stripe')" "tables_ok st"
    and "stripe_blocks stripe = []" "group_to_blocks stripe = []"
  shows "\<exists>stripe1. group_inv cfg grp st stripe (stripe_n stripe) (st', stripe1)
    \<and> stripe' = stripe1\<lparr>num_groups := length (group_to_blocks stripe1)\<rparr>"
proof -
  from assms(1) obtain stripe1 where
      f: "fold_option (place_block cfg grp draws) [0..<stripe_n stripe] (st, stripe) = Some (st', stripe1)"
    and s1: "stripe' = stripe1\<lparr>num_groups := length (group_to_blocks stripe1)\<rparr>"
    by (auto simp: place_by_group_def split: if_splits)
  have "group_inv cfg grp st stripe (stripe_n stripe) (st', stripe1)"
    by (rule fold_option_upt_invar [OF f])
      (use assms(2-4) place_block_step in \<open>auto simp: group_inv_def tbl_ok_def tbl_get_def\<close>)
  then show ?thesis using s1 by blast
qed

text \<open>No node gets two blocks of the stripe, and a block is in the cluster of its group.\<close>

lemma place_by_group_sound:
  assumes "place_by_group cfg grp draws stripe st = Some (st', stripe')" "tables_ok st"
    and "stripe_blocks stripe = []" "group_to_blocks stripe = []"
  shows "length (stripe_blocks stripe') = stripe_n stripe" "distinct (map map2node (stripe_blocks stripe'))"
    "i < stripe_n stripe \<Longrightarrow> grp i = Some (map2group (stripe_blocks stripe' ! i))
       \<and> blk_id (stripe_blocks stripe' ! i) = i
       \<and> map2cluster (stripe_blocks stripe' ! i) = cluster_of_group cfg (stripe_id stripe) (map2group (stripe_blocks stripe' ! i))
       \<and> map2node (stripe_blocks stripe' ! i) \<in> set (cl_nodes (cluster_at st (map2cluster (stripe_blocks stripe' ! i))))
       \<and> nd_stripes (node_at st' (map2node (stripe_blocks stripe' ! i))) (stripe_id stripe) = Some (int i)"
    "group_blocks stripe' g = filter (\<lambda>i. grp i = Some (int g)) [0..<stripe_n stripe]"
proof -
  let ?n = "stripe_n stripe" and ?sid = "stripe_id stripe"
  from place_by_group_inv [OF assms] obtain stripe1 where inv: "group_inv cfg grp st stripe ?n (st', stripe1)"
    and s1: "stripe' = stripe1\<lparr>num_groups := length (group_to_blocks stripe1)\<rparr>" by blast
  have len: "length (stripe_blocks stripe1) = ?n" using inv by (simp add: group_inv_def)
  have b: "stripe_blocks stripe1 ! i = new_block cfg stripe (the (grp i)) (cluster_of_group cfg ?sid (the (grp i)))
      (map2node (stripe_blocks stripe1 ! i)) i"
    "map2node (stripe_blocks stripe1 ! i) \<in> set (cl_nodes (cluster_at st (cluster_of_group cfg ?sid (the (grp i)))))"
    "nd_stripes (node_at st' (map2node (stripe_blocks stripe1 ! i))) ?sid = Some (int i)" "grp i \<noteq> None" if "i < ?n" for i
    using inv that by (simp_all add: group_inv_def Let_def)
  show "length (stripe_blocks stripe') = ?n" using len s1 by simp
  show "distinct (map map2node (stripe_blocks stripe'))" unfolding distinct_conv_nth
  proof (intro allI impI)
    fix i j
    assume "i < length (map map2node (stripe_blocks stripe'))" "j < length (map map2node (stripe_blocks stripe'))" "i \<noteq> j"
    then show "map map2node (stripe_blocks stripe') ! i \<noteq> map map2node (stripe_blocks stripe') ! j"
      using b(3) [of i] b(3) [of j] len s1 by auto
  qed
  show "group_blocks stripe' g = filter (\<lambda>i. grp i = Some (int g)) [0..<?n]"
    using inv s1 by (simp add: group_inv_def group_blocks_def)
  assume i: "i < ?n"
  have g: "map2group (stripe_blocks stripe1 ! i) = the (grp i)"
    "map2cluster (stripe_blocks stripe1 ! i) = cluster_of_group cfg ?sid (the (grp i))" "blk_id (stripe_blocks stripe1 ! i) = i"
    by (subst b(1) [OF i], simp)+
  show "grp i = Some (map2group (stripe_blocks stripe' ! i))
       \<and> blk_id (stripe_blocks stripe' ! i) = i
       \<and> map2cluster (stripe_blocks stripe' ! i) = cluster_of_group cfg ?sid (map2group (stripe_blocks stripe' ! i))
       \<and> map2node (stripe_blocks stripe' ! i) \<in> set (cl_nodes (cluster_at st (map2cluster (stripe_blocks stripe' ! i))))
       \<and> nd_stripes (node_at st' (map2node (stripe_blocks stripe' ! i))) ?sid = Some (int i)"
    using b(2-4) [OF i] s1 by (simp add: g)
qed

lemma cluster_of_group_nat: "cluster_of_group cfg sid (int a) = int ((a + sid mod ClusterNum cfg) mod ClusterNum cfg)"
proof -
  have "cluster_of_group cfg sid (int a) = int (a + sid mod ClusterNum cfg) smod int (ClusterNum cfg)"
    by (simp add: cluster_of_group_def add.commute)
  also have "\<dots> = int (a + sid mod ClusterNum cfg) mod int (ClusterNum cfg)" by (intro smod_mod_positive) (simp_all only: of_nat_0_le_iff)
  finally show ?thesis by (simp only: of_nat_mod)
qed

lemma cluster_of_group_inj:
  assumes "a < ClusterNum cfg" "b < ClusterNum cfg"
  shows "cluster_of_group cfg sid (int a) = cluster_of_group cfg sid (int b) \<longleftrightarrow> a = b"
  using rotate_inj [OF assms] by (simp add: cluster_of_group_nat)

section \<open>Upload plans\<close>

lemma fold_add_stripe_block:
  "blockids (fold (add_stripe_block st stripe sl) js plan) = blockids plan @ map (\<lambda>j. blk_id (stripe_blocks stripe ! j)) js"
  "sizes (fold (add_stripe_block st stripe sl) js plan) = sizes plan @ map (\<lambda>j. fst (sl j)) js"
  "offsets (fold (add_stripe_block st stripe sl) js plan) = offsets plan @ map (\<lambda>j. snd (sl j)) js"
  "blockkeys (fold (add_stripe_block st stripe sl) js plan) = blockkeys plan @ map (\<lambda>j. blk_key (stripe_blocks stripe ! j)) js"
  "append_size (fold (add_stripe_block st stripe sl) js plan) = append_size plan"
  "plan_key (fold (add_stripe_block st stripe sl) js plan) = plan_key plan"
  "plan_stripe_id (fold (add_stripe_block st stripe sl) js plan) = plan_stripe_id plan"
  "datanodeip (fold (add_stripe_block st stripe sl) js plan)
    = datanodeip plan @ map (\<lambda>j. node_ip (node_at st (map2node (stripe_blocks stripe ! j)))) js"
  "datanodeport (fold (add_stripe_block st stripe sl) js plan)
    = datanodeport plan @ map (\<lambda>j. node_port (node_at st (map2node (stripe_blocks stripe ! j)))) js"
  "is_serialized (fold (add_stripe_block st stripe sl) js plan) = is_serialized plan"
  "is_merge_parity (fold (add_stripe_block st stripe sl) js plan) = is_merge_parity plan"
  by (induction js arbitrary: plan) (simp_all add: add_stripe_block_def addBlockToAppendPlan_def)

end
