(* ===== verification/AppendPlan.thy ===== *)
theory AppendPlan
  imports PlacementProps
begin

text \<open>
  Appending to a stripe (\<^verbatim>\<open>generateAppendPlan\<close>, \<^verbatim>\<open>getClusterAppendSize\<close> and \<^verbatim>\<open>uploadAppendValue\<close> of
  \<^verbatim>\<open>coordinator.cpp\<close>).  A stripe is filled in rows of \<open>k\<close> units: the byte at logical offset \<open>x\<close> is in block
  \<open>(x div U) mod k\<close> at offset \<open>x mod U + U * (x div (k * U))\<close>.  Sizes and offsets are below \<^verbatim>\<open>INT_MAX\<close> in the
  source and natural numbers here; a unit size of zero is a division by zero in the source and is excluded by the
  properties.
\<close>

section \<open>The plan\<close>

definition getClusterAppendSize :: "Stripe \<Rightarrow> (nat \<Rightarrow> (nat \<times> int) option) \<Rightarrow> nat \<Rightarrow> nat \<Rightarrow> nat" where
  "getClusterAppendSize stripe block_to_slice_sizes curr_group_id parity_slice_size =
     fold (\<lambda>i s. s + (case block_to_slice_sizes i of None \<Rightarrow> 0 | Some sl \<Rightarrow> fst sl))
       [curr_group_id * stripe_k stripe div stripe_z stripe..<(curr_group_id + 1) * stripe_k stripe div stripe_z stripe] 0
     + parity_slice_size * (stripe_r stripe + stripe_z stripe) div stripe_z stripe"

text \<open>Size and offset of the parity slices; an unknown mode has none.\<close>

definition parity_slice :: "string \<Rightarrow> nat \<Rightarrow> nat \<Rightarrow> nat \<Rightarrow> nat \<Rightarrow> (nat \<times> int) option" where
  "parity_slice append_mode unit_size k curr_logical_offset a_size =
     (let num_units = (curr_logical_offset + a_size - 1) div unit_size - curr_logical_offset div unit_size + 1;
          num_unit_stripes = (curr_logical_offset + a_size - 1) div (unit_size * k)
            - curr_logical_offset div (unit_size * k) + 1;
          row_offset = curr_logical_offset div (unit_size * k) * unit_size;
          last_in_row = (curr_logical_offset + a_size - 1) mod (unit_size * k) in
      case append_mode of
        [] \<Rightarrow> None
      | mode # _ \<Rightarrow>
          if mode = CHR ''R'' then Some (a_size, - 1)
          else if mode = CHR ''U''
          then let (sz, off) = (if num_units = 1 then (a_size, row_offset + curr_logical_offset mod unit_size)
                     else (num_unit_stripes * unit_size, row_offset));
                   sz = (if num_unit_stripes > 1 \<and> last_in_row < unit_size - 1
                     then (num_unit_stripes - 1) * unit_size + last_in_row + 1 else sz)
               in Some (sz, int off)
          else if mode = CHR ''C'' then Some (num_unit_stripes * unit_size, int row_offset)
          else None)"

definition sub_slice_size :: "nat \<Rightarrow> nat \<Rightarrow> nat \<Rightarrow> nat \<Rightarrow> nat" where
  "sub_slice_size unit_size curr_logical_offset a_size tmp_size =
     (if tmp_size = a_size \<and> curr_logical_offset mod unit_size \<noteq> 0
      then min (unit_size - curr_logical_offset mod unit_size) a_size
      else min unit_size tmp_size)"

definition add_data_slice :: "nat \<Rightarrow> nat \<Rightarrow> nat \<Rightarrow> nat \<Rightarrow> nat \<Rightarrow> (nat \<Rightarrow> (nat \<times> int) option)
    \<Rightarrow> (nat \<Rightarrow> (nat \<times> int) option)" where
  "add_data_slice unit_size k curr_block_id sub_size tmp_offset m =
     (case m curr_block_id of
        None \<Rightarrow> m(curr_block_id \<mapsto> (sub_size, int (tmp_offset mod unit_size + unit_size * (tmp_offset div (k * unit_size)))))
      | Some (sz, off) \<Rightarrow> m(curr_block_id \<mapsto> (sz + sub_size, off)))"

text \<open>The loop over the data slices; it makes progress because a slice of a non-empty rest is not empty.\<close>

function data_slices_loop :: "nat \<Rightarrow> nat \<Rightarrow> nat \<Rightarrow> nat \<Rightarrow> nat \<Rightarrow> nat \<Rightarrow> nat \<Rightarrow> (nat \<Rightarrow> (nat \<times> int) option)
    \<Rightarrow> (nat \<Rightarrow> (nat \<times> int) option)" where
  "data_slices_loop unit_size k o0 a curr_block_id tmp_size tmp_offset m =
     (if unit_size = 0 \<or> tmp_size = 0 then m
      else let sub_size = sub_slice_size unit_size o0 a tmp_size
           in data_slices_loop unit_size k o0 a ((curr_block_id + 1) mod k) (tmp_size - sub_size) (tmp_offset + sub_size)
                (add_data_slice unit_size k curr_block_id sub_size tmp_offset m))"
  by pat_completeness auto
termination
  by (relation "measure (\<lambda>(_, _, _, _, _, tmp_size, _, _). tmp_size)") (auto simp: sub_slice_size_def min_def)

declare data_slices_loop.simps [simp del]

definition data_slices :: "nat \<Rightarrow> nat \<Rightarrow> nat \<Rightarrow> nat \<Rightarrow> (nat \<Rightarrow> (nat \<times> int) option)" where
  "data_slices unit_size k o0 a = data_slices_loop unit_size k o0 a (o0 div unit_size mod k) a o0 Map.empty"

text \<open>The slices of all blocks, and the blocks that plan \<open>i\<close> lists: the data blocks with a slice, then the parities.\<close>

definition with_parity :: "nat \<Rightarrow> nat \<Rightarrow> 'a \<Rightarrow> (nat \<Rightarrow> 'a option) \<Rightarrow> nat \<Rightarrow> 'a option" where
  "with_parity k n par data i = (if k \<le> i \<and> i < n then Some par else data i)"

definition plan_blocks :: "nat \<Rightarrow> nat \<Rightarrow> nat \<Rightarrow> (nat \<Rightarrow> 'a option) \<Rightarrow> nat \<Rightarrow> nat list" where
  "plan_blocks k r z slices i =
     filter (\<lambda>j. slices j \<noteq> None) [i * k div z..<(i + 1) * k div z]
     @ [k + i * r div z..<k + (i + 1) * r div z] @ [k + r + i * z div z..<k + r + (i + 1) * z div z]"

definition append_plan :: "SysConfig \<Rightarrow> coordinator \<Rightarrow> Stripe \<Rightarrow> nat \<Rightarrow> nat \<Rightarrow> nat \<times> int \<Rightarrow> (nat \<Rightarrow> (nat \<times> int) option) \<Rightarrow> nat
    \<Rightarrow> AppendStripeDataPlacement" where
  "append_plan cfg st stripe o0 a par slices i =
     (let whole = (o0 = 0 \<and> a = BlockSize cfg * stripe_k stripe)
      in fold (add_stripe_block st stripe (\<lambda>j. the (slices j)))
           (plan_blocks (stripe_k stripe) (stripe_r stripe) (stripe_z stripe) slices i)
           (empty_append_plan\<lparr>plan_key := gen_append_key (stripe_id stripe) i, plan_stripe_id := stripe_id stripe,
              append_size := getClusterAppendSize stripe slices i (fst par),
              is_merge_parity := \<not> whole \<and> o0 + a = BlockSize cfg * stripe_k stripe,
              plan_cluster_id := map2cluster (stripe_blocks stripe ! (group_blocks stripe i ! 0)),
              plan_append_mode := AppendMode cfg, is_serialized := \<not> whole\<rparr>))"

definition generateAppendPlan :: "SysConfig \<Rightarrow> coordinator \<Rightarrow> Stripe \<Rightarrow> nat \<Rightarrow> nat \<Rightarrow> AppendStripeDataPlacement list option" where
  "generateAppendPlan cfg st stripe o0 a =
     (let k = stripe_k stripe in
      if k * BlockSize cfg - o0 < a then None
      else case parity_slice (AppendMode cfg) (UnitSize cfg) k o0 a of
          None \<Rightarrow> Some []
        | Some par \<Rightarrow>
            let slices = with_parity k (stripe_n stripe) par (data_slices (UnitSize cfg) k o0 a)
            in Some (map (append_plan cfg st stripe o0 a par slices) [0..<stripe_z stripe]))"

section \<open>The plan of the client\<close>

text \<open>
  \<^verbatim>\<open>Client::get_append_slice_plans\<close> repeats the computation on the client's side, with sizes only.  The result
  has the slice sizes of each cluster, the number of data slices of each cluster, the sizes of all data slices,
  the parity slice and the first block.
\<close>

definition client_parity_slice :: "string \<Rightarrow> nat \<Rightarrow> nat \<Rightarrow> nat \<Rightarrow> nat \<Rightarrow> nat \<times> nat" where
  "client_parity_slice mode unit_size k o0 a =
     (let num_unit_stripes = (o0 + a - 1) div (unit_size * k) - o0 div (unit_size * k) + 1;
          num_units = (o0 + a - 1) div unit_size - o0 div unit_size + 1;
          sz = num_unit_stripes * unit_size; off = o0 div (unit_size * k) * unit_size in
      if mode = ''UNILRC_MODE''
      then let (sz, off) = (if num_units = 1 then (a, off + o0 mod unit_size) else (sz, off));
               sz = (if num_unit_stripes > 1 \<and> (o0 + a - 1) mod (unit_size * k) < unit_size - 1
                     then (num_unit_stripes - 1) * unit_size + (o0 + a - 1) mod (unit_size * k) + 1 else sz)
           in (sz, off)
      else (sz, off))"

definition client_add_slice :: "nat \<Rightarrow> nat \<Rightarrow> (nat \<Rightarrow> nat option) \<Rightarrow> (nat \<Rightarrow> nat option)" where
  "client_add_slice b sub_size m =
     (case m b of None \<Rightarrow> m(b \<mapsto> sub_size) | Some sz \<Rightarrow> m(b \<mapsto> sz + sub_size))"

function client_slices_loop :: "nat \<Rightarrow> nat \<Rightarrow> nat \<Rightarrow> nat \<Rightarrow> nat \<Rightarrow> nat \<Rightarrow> (nat \<Rightarrow> nat option) \<Rightarrow> (nat \<Rightarrow> nat option)" where
  "client_slices_loop unit_size k o0 a curr_block_id tmp_size m =
     (if unit_size = 0 \<or> tmp_size = 0 then m
      else let sub_size = sub_slice_size unit_size o0 a tmp_size
           in client_slices_loop unit_size k o0 a ((curr_block_id + 1) mod k) (tmp_size - sub_size)
                (client_add_slice curr_block_id sub_size m))"
  by pat_completeness auto
termination
  by (relation "measure (\<lambda>(_, _, _, _, _, tmp_size, _). tmp_size)") (auto simp: sub_slice_size_def min_def)

declare client_slices_loop.simps [simp del]

definition get_append_slice_plans :: "SysConfig \<Rightarrow> string \<Rightarrow> nat \<Rightarrow> nat
    \<Rightarrow> (nat list list \<times> nat list \<times> nat list \<times> (nat \<times> nat) \<times> nat) option" where
  "get_append_slice_plans cfg mode o0 a =
     (let U = UnitSize cfg; k = cfg_k cfg; r = cfg_r cfg; z = cfg_z cfg;
          par = client_parity_slice mode U k o0 a; b0 = o0 div U mod k;
          slices = with_parity k (cfg_n cfg) (fst par) (client_slices_loop U k o0 a b0 a Map.empty);
          data_of = (\<lambda>i. filter (\<lambda>j. slices j \<noteq> None) [i * k div z..<(i + 1) * k div z]) in
      if mode \<noteq> ''UNILRC_MODE'' \<and> mode \<noteq> ''CACHED_MODE'' then None
      else Some (map (\<lambda>i. map (\<lambda>j. the (slices j)) (plan_blocks k r z slices i)) [0..<z],
                 map (\<lambda>i. length (data_of i)) [0..<z],
                 concat (map (\<lambda>i. map (\<lambda>j. the (slices j)) (data_of i)) [0..<z]), par, b0))"

section \<open>Logical and physical offsets\<close>

definition unit_block :: "nat \<Rightarrow> nat \<Rightarrow> nat \<Rightarrow> nat" where
  "unit_block U k x = x div U mod k"

definition unit_offset :: "nat \<Rightarrow> nat \<Rightarrow> nat \<Rightarrow> nat" where
  "unit_offset U k x = x mod U + U * (x div (k * U))"

definition logical_offset :: "nat \<Rightarrow> nat \<Rightarrow> nat \<Rightarrow> nat \<Rightarrow> nat" where
  "logical_offset U k b q = (q div U) * (k * U) + b * U + q mod U"

lemma logical_of_unit:
  assumes "0 < U"
  shows "logical_offset U k (unit_block U k x) (unit_offset U k x) = x"
proof -
  have row: "x div (k * U) = x div U div k" by (simp add: div_mult2_eq mult.commute)
  have q: "unit_offset U k x div U = x div U div k" "unit_offset U k x mod U = x mod U"
    using assms by (simp_all add: unit_offset_def row)
  have "logical_offset U k (unit_block U k x) (unit_offset U k x) = x div U div k * (k * U) + x div U mod k * U + x mod U"
    by (simp only: logical_offset_def unit_block_def q)
  also have "\<dots> = (x div U div k * k + x div U mod k) * U + x mod U" by (simp only: add_mult_distrib mult.assoc)
  also have "\<dots> = x" by (simp only: div_mult_mod_eq)
  finally show ?thesis .
qed

lemma unit_of_logical:
  assumes "0 < U" "b < k"
  shows "unit_block U k (logical_offset U k b q) = b" "unit_offset U k (logical_offset U k b q) = q"
proof -
  have x: "logical_offset U k b q = (q div U * k + b) * U + q mod U" by (simp add: logical_offset_def algebra_simps)
  then have d: "logical_offset U k b q div U = q div U * k + b" "logical_offset U k b q mod U = q mod U"
    using assms by simp_all
  show "unit_block U k (logical_offset U k b q) = b" using d assms by (simp add: unit_block_def)
  have "logical_offset U k b q div (k * U) = q div U" using d assms by (simp add: div_mult2_eq mult.commute)
  then show "unit_offset U k (logical_offset U k b q) = q" using d assms by (simp add: unit_offset_def)
qed

text \<open>A run of bytes within one unit is a run of the same length in one block.\<close>

lemma unit_run:
  assumes "0 < U" "b < k" "t mod U + s \<le> U"
  shows "t \<le> logical_offset U k b q \<and> logical_offset U k b q < t + s
     \<longleftrightarrow> b = unit_block U k t \<and> unit_offset U k t \<le> q \<and> q < unit_offset U k t + s"
proof -
  have run: "unit_block U k (t + d) = unit_block U k t \<and> unit_offset U k (t + d) = unit_offset U k t + d" if "d < s" for d
  proof -
    have m: "t mod U + d < U" using that assms(3) by simp
    have split: "t + d = t div U * U + (t mod U + d)" by simp
    have dm: "(t + d) div U = t div U" "(t + d) mod U = t mod U + d"
      unfolding arg_cong [OF split, of "\<lambda>x. x div U"] arg_cong [OF split, of "\<lambda>x. x mod U"]
      using m by (simp_all only: div_mult_self3 mod_mult_self3 div_less mod_less add_0_right)
    have row: "y div (k * U) = y div U div k" for y by (simp add: div_mult2_eq mult.commute)
    show ?thesis by (simp add: unit_block_def unit_offset_def row dm)
  qed
  show ?thesis
  proof
    assume l: "t \<le> logical_offset U k b q \<and> logical_offset U k b q < t + s"
    then obtain d where d: "logical_offset U k b q = t + d" "d < s" using le_Suc_ex by (metis nat_add_left_cancel_less)
    then show "b = unit_block U k t \<and> unit_offset U k t \<le> q \<and> q < unit_offset U k t + s"
      using run [OF d(2)] unit_of_logical [OF assms(1,2), of q] by simp
  next
    assume r: "b = unit_block U k t \<and> unit_offset U k t \<le> q \<and> q < unit_offset U k t + s"
    then obtain d where d: "q = unit_offset U k t + d" "d < s" using le_Suc_ex by (metis nat_add_left_cancel_less)
    then have "logical_offset U k b q = t + d" using r run [OF d(2)] logical_of_unit [OF assms(1), of k "t + d"] by simp
    then show "t \<le> logical_offset U k b q \<and> logical_offset U k b q < t + s" using d(2) by simp
  qed
qed

lemma logical_offset_mono:
  assumes "0 < U" "0 < k"
  shows "logical_offset U k b q < logical_offset U k b q' \<longleftrightarrow> q < q'"
proof -
  have less: "logical_offset U k b q < logical_offset U k b q'" if "q < q'" for q q'
  proof (cases "q div U = q' div U")
    case True
    have "q mod U < q' mod U" using that True by (metis add_less_cancel_left div_mult_mod_eq)
    then show ?thesis using True by (simp add: logical_offset_def)
  next
    case False
    then have "Suc (q div U) \<le> q' div U" using that div_le_mono [of q q' U] by simp
    then have "Suc (q div U) * (k * U) \<le> q' div U * (k * U)" by (rule mult_right_mono) simp
    moreover have "q mod U < k * U" using assms mod_less_divisor [of U q] by (metis less_le_trans mult_le_mono1 nat_mult_1 Suc_leI One_nat_def)
    ultimately show ?thesis by (simp add: logical_offset_def)
  qed
  then show ?thesis by (metis less_asym' linorder_neqE_nat order_less_irrefl)
qed

section \<open>The data slices are the appended bytes\<close>

definition slice_has :: "(nat \<Rightarrow> (nat \<times> int) option) \<Rightarrow> nat \<Rightarrow> nat \<Rightarrow> bool" where
  "slice_has m b q = (case m b of None \<Rightarrow> False | Some (sz, off) \<Rightarrow> off \<le> int q \<and> int q < off + int sz)"

definition slice_inv :: "nat \<Rightarrow> nat \<Rightarrow> nat \<Rightarrow> nat \<Rightarrow> (nat \<Rightarrow> (nat \<times> int) option) \<Rightarrow> bool" where
  "slice_inv U k o0 t m \<longleftrightarrow>
     (\<forall>b<k. \<forall>q. slice_has m b q \<longleftrightarrow> o0 \<le> logical_offset U k b q \<and> logical_offset U k b q < t)
     \<and> (\<forall>b sz off. m b = Some (sz, off) \<longrightarrow> b < k \<and> 0 < sz \<and> 0 \<le> off)"

lemma slice_ends_at:
  assumes U: "0 < U" "0 < k" and inv: "slice_inv U k o0 t m" and m: "m (unit_block U k t) = Some (sz, off)"
  shows "off + int sz = int (unit_offset U k t)"
proof -
  let ?c = "unit_block U k t" and ?p = "unit_offset U k t"
  have c: "?c < k" "0 < sz" "0 \<le> off" using inv m by (auto simp: slice_inv_def)
  have has: "off \<le> int q \<and> int q < off + int sz \<longleftrightarrow> o0 \<le> logical_offset U k ?c q \<and> logical_offset U k ?c q < t" for q
  proof -
    have "slice_has m ?c q \<longleftrightarrow> o0 \<le> logical_offset U k ?c q \<and> logical_offset U k ?c q < t"
      using inv c(1) by (simp add: slice_inv_def)
    then show ?thesis by (simp add: slice_has_def m)
  qed
  have p: "logical_offset U k ?c ?p = t" using logical_of_unit [OF U(1)] .
  define q where "q = nat (off + int sz - 1)"
  have q: "int q = off + int sz - 1" using c by (simp add: q_def)
  have hq: "o0 \<le> logical_offset U k ?c q" "logical_offset U k ?c q < t" using has [of q] q c by auto
  have qp: "q < ?p" using hq(2) logical_offset_mono [OF U, of ?c q ?p] by (simp add: p)
  have "logical_offset U k ?c (?p - 1) < t" using logical_offset_mono [OF U, of ?c "?p - 1" ?p] qp by (simp add: p)
  moreover have "o0 \<le> logical_offset U k ?c (?p - 1)"
  proof (cases "q = ?p - 1")
    case True
    then show ?thesis using hq by simp
  next
    case False
    then have "q < ?p - 1" using qp by simp
    then have "logical_offset U k ?c q < logical_offset U k ?c (?p - 1)" using logical_offset_mono [OF U] by blast
    then show ?thesis using hq(1) by linarith
  qed
  ultimately have "int (?p - 1) < off + int sz" using has [of "?p - 1"] by blast
  then show ?thesis using q qp by linarith
qed

lemma add_data_slice_inv:
  assumes U: "0 < U" "0 < k" and inv: "slice_inv U k o0 t m" and t: "o0 \<le> t" "0 < s" "t mod U + s \<le> U"
  shows "slice_inv U k o0 (t + s) (add_data_slice U k (unit_block U k t) s t m)" (is "slice_inv _ _ _ _ ?m'")
proof -
  let ?c = "unit_block U k t" and ?p = "unit_offset U k t"
  have c: "?c < k" using U by (simp add: unit_block_def)
  have old: "slice_has m b q \<longleftrightarrow> o0 \<le> logical_offset U k b q \<and> logical_offset U k b q < t" if "b < k" for b q
    using inv that by (simp add: slice_inv_def)
  have new: "slice_has ?m' b q \<longleftrightarrow> slice_has m b q \<or> (b = ?c \<and> ?p \<le> q \<and> q < ?p + s)" for b q
  proof (cases "m ?c")
    case None
    then have "?m' = m(?c \<mapsto> (s, int ?p))" by (simp add: add_data_slice_def unit_offset_def)
    then show ?thesis using None by (auto simp: slice_has_def)
  next
    case (Some so)
    obtain sz off where so: "so = (sz, off)" by (cases so)
    have "off + int sz = int ?p" using slice_ends_at [OF U inv] Some so by simp
    moreover have "0 \<le> off" using inv Some so by (auto simp: slice_inv_def)
    ultimately show ?thesis using Some so by (auto simp: add_data_slice_def slice_has_def)
  qed
  have "slice_has ?m' b q \<longleftrightarrow> o0 \<le> logical_offset U k b q \<and> logical_offset U k b q < t + s" if "b < k" for b q
    unfolding new old [OF that] using unit_run [OF U(1) that t(3), of q] t(1) by linarith
  moreover have "b < k \<and> 0 < sz \<and> 0 \<le> off" if "?m' b = Some (sz, off)" for b sz off
    using that inv c t(2) by (auto simp: add_data_slice_def slice_inv_def split: option.splits if_splits)
  ultimately show ?thesis by (simp add: slice_inv_def)
qed

lemma unit_block_next:
  assumes "0 < U" "t mod U + s = U"
  shows "unit_block U k (t + s) = (unit_block U k t + 1) mod k" "(t + s) mod U = 0"
proof -
  have "t + s = t div U * U + (t mod U + s)" by simp
  then have "t + s = Suc (t div U) * U" unfolding assms(2) by simp
  then have "(t + s) div U = Suc (t div U)" "(t + s) mod U = 0" using assms(1) by (simp_all del: mult_Suc)
  then show "unit_block U k (t + s) = (unit_block U k t + 1) mod k" "(t + s) mod U = 0"
    by (simp_all add: unit_block_def mod_Suc_eq)
qed

lemma sub_slice_facts:
  assumes "0 < U" "0 < n" "t + n = o0 + a" "o0 \<le> t" "t = o0 \<or> t mod U = 0"
  shows "0 < sub_slice_size U o0 a n" "sub_slice_size U o0 a n \<le> n" "t mod U + sub_slice_size U o0 a n \<le> U"
    "sub_slice_size U o0 a n < n \<Longrightarrow> t mod U + sub_slice_size U o0 a n = U"
proof -
  have "n = a \<longleftrightarrow> t = o0" using assms(3) by linarith
  moreover have "o0 mod U < U" using assms(1) by simp
  ultimately show "0 < sub_slice_size U o0 a n" "sub_slice_size U o0 a n \<le> n" "t mod U + sub_slice_size U o0 a n \<le> U"
    "sub_slice_size U o0 a n < n \<Longrightarrow> t mod U + sub_slice_size U o0 a n = U"
    using assms by (auto simp: sub_slice_size_def min_def)
qed

lemma data_slices_loop_inv:
  assumes "0 < U" "0 < k" "t + n = o0 + a" "o0 \<le> t" "n = 0 \<or> c = unit_block U k t \<and> (t = o0 \<or> t mod U = 0)"
    and "slice_inv U k o0 t m"
  shows "slice_inv U k o0 (o0 + a) (data_slices_loop U k o0 a c n t m)"
  using assms
proof (induction n arbitrary: c t m rule: less_induct)
  case (less n)
  show ?case
  proof (cases "n = 0")
    case True
    then show ?thesis using less.prems by (simp add: data_slices_loop.simps)
  next
    case False
    let ?s = "sub_slice_size U o0 a n"
    have c: "c = unit_block U k t" "t = o0 \<or> t mod U = 0" using False less.prems(5) by auto
    note s = sub_slice_facts [OF less.prems(1) _ less.prems(3,4) c(2)]
    have "slice_inv U k o0 (o0 + a) (data_slices_loop U k o0 a ((c + 1) mod k) (n - ?s) (t + ?s) (add_data_slice U k c ?s t m))"
    proof (rule less.IH)
      show "n - ?s < n" "t + ?s + (n - ?s) = o0 + a" "o0 \<le> t + ?s" using False s less.prems(3,4) by auto
      show "n - ?s = 0 \<or> (c + 1) mod k = unit_block U k (t + ?s) \<and> (t + ?s = o0 \<or> (t + ?s) mod U = 0)"
        using False s(4) unit_block_next(1) [OF less.prems(1), of t ?s k] unit_block_next(2) [OF less.prems(1), of t ?s] c(1) by auto
      show "slice_inv U k o0 (t + ?s) (add_data_slice U k c ?s t m)"
        using add_data_slice_inv [OF less.prems(1,2,6,4)] s False c(1) by simp
    qed (use less.prems in auto)
    then show ?thesis using False less.prems(1) by (subst data_slices_loop.simps) (simp add: Let_def)
  qed
qed

lemma data_slices_exact:
  assumes "0 < U" "0 < k"
  shows "slice_inv U k o0 (o0 + a) (data_slices U k o0 a)"
  unfolding data_slices_def using assms
  by (intro data_slices_loop_inv) (auto simp: unit_block_def slice_inv_def slice_has_def)

section \<open>The parity slice covers the appended columns\<close>

lemma append_rows:
  fixes x o0 a R :: nat
  assumes "o0 \<le> x" "x < o0 + a"
  shows "o0 div R \<le> x div R" "x div R \<le> (o0 + a - 1) div R"
  using assms by (auto intro!: div_le_mono)

lemma unit_offset_row: "0 < U \<Longrightarrow> x div (U * k) * U \<le> unit_offset U k x \<and> unit_offset U k x < (x div (U * k) + 1) * U"
  by (simp add: unit_offset_def mult.commute)

lemma rows_cover:
  assumes U: "0 < U" and x: "o0 \<le> x" "x < o0 + a"
  shows "o0 div (U * k) * U \<le> unit_offset U k x"
    "unit_offset U k x < o0 div (U * k) * U + ((o0 + a - 1) div (U * k) - o0 div (U * k) + 1) * U"
proof -
  note r = append_rows [OF x, of "U * k"] and row = unit_offset_row [OF U, of x k]
  show "o0 div (U * k) * U \<le> unit_offset U k x" using row mult_right_mono [OF r(1), of U] by linarith
  have "(x div (U * k) + 1) * U \<le> ((o0 + a - 1) div (U * k) + 1) * U" using r(2) by (intro mult_right_mono) auto
  also have "\<dots> = (o0 div (U * k) + ((o0 + a - 1) div (U * k) - o0 div (U * k) + 1)) * U" using r by simp
  finally show "unit_offset U k x < o0 div (U * k) * U + ((o0 + a - 1) div (U * k) - o0 div (U * k) + 1) * U"
    using row unfolding add_mult_distrib by linarith
qed

lemma int_interval: "A \<le> q \<Longrightarrow> q < A + C \<Longrightarrow> int A \<le> int q \<and> int q < int A + int C"
  by simp

lemma one_unit_cover:
  assumes U: "0 < U" and x: "o0 \<le> x" "x < o0 + a" and one: "(o0 + a - 1) div U - o0 div U + 1 = 1"
  shows "unit_offset U k x = o0 div (U * k) * U + o0 mod U + (x - o0)" "(o0 + a - 1) div (U * k) = o0 div (U * k)"
proof -
  have u: "x div U = o0 div U" "(o0 + a - 1) div U = o0 div U"
    using one append_rows [OF x, of U] div_le_mono [of o0 "o0 + a - 1" U] x by linarith+
  then show "(o0 + a - 1) div (U * k) = o0 div (U * k)" by (simp add: div_mult2_eq)
  have "x mod U = o0 mod U + (x - o0)"
    using x(1) div_mult_mod_eq [of x U] div_mult_mod_eq [of o0 U] unfolding u(1) by linarith
  then show "unit_offset U k x = o0 div (U * k) * U + o0 mod U + (x - o0)"
    using u(1) by (simp add: unit_offset_def div_mult2_eq mult.commute [of k U] mult.commute)
qed

lemma last_unit_cover:
  assumes U: "0 < U" "0 < k" and x: "o0 \<le> x" "x < o0 + a"
    and last: "(o0 + a - 1) mod (U * k) < U - 1"
  shows "unit_offset U k x \<le> (o0 + a - 1) div (U * k) * U + (o0 + a - 1) mod (U * k)"
proof -
  let ?R = "U * k" and ?l = "o0 + a - 1"
  note r = append_rows(2) [OF x, of ?R] and row = unit_offset_row [OF U(1), of x k]
  show ?thesis
  proof (cases "x div ?R = ?l div ?R")
    case True
    then have "x mod ?R \<le> ?l mod ?R"
      using x div_mult_mod_eq [of x ?R] div_mult_mod_eq [of ?l ?R] by (metis add_le_cancel_left One_nat_def Suc_leI add_diff_cancel_left' diff_le_mono le_add1 less_imp_Suc_add add_Suc_right diff_Suc_1)
    moreover have "x mod U = x mod ?R mod U" by (simp add: mod_mod_cancel)
    ultimately show ?thesis using True last by (simp add: unit_offset_def mult.commute)
  next
    case False
    then have "(x div ?R + 1) * U \<le> ?l div ?R * U" using r by (intro mult_right_mono) auto
    then show ?thesis using row by linarith
  qed
qed

lemma parity_slice_covers:
  assumes U: "0 < U" "0 < k" and x: "o0 \<le> x" "x < o0 + a"
    and mode: "mode = ''UNILRC_MODE'' \<or> mode = ''CACHED_MODE''" and par: "parity_slice mode U k o0 a = Some (sz, off)"
  shows "off \<le> int (unit_offset U k x)" "int (unit_offset U k x) < off + int sz"
proof -
  let ?R = "U * k" and ?l = "o0 + a - 1"
  let ?rows = "?l div ?R - o0 div ?R + 1"
  note rows = rows_cover [OF U(1) x, of k]
  have "off \<le> int (unit_offset U k x) \<and> int (unit_offset U k x) < off + int sz"
  proof (cases "mode = ''UNILRC_MODE''")
    case False
    then have "sz = ?rows * U" "off = int (o0 div ?R * U)" using mode par by (auto simp: parity_slice_def Let_def)
    then show ?thesis using int_interval [OF rows] by simp
  next
    case True
    consider (one) "?l div U - o0 div U + 1 = 1" | (partial) "?l div U - o0 div U + 1 \<noteq> 1" "?rows > 1" "?l mod ?R < U - 1"
      | (full) "?l div U - o0 div U + 1 \<noteq> 1" "\<not> (?rows > 1 \<and> ?l mod ?R < U - 1)" by blast
    then show ?thesis
    proof cases
      case one
      note c = one_unit_cover [OF U(1) x one, of k]
      have "sz = a" "off = int (o0 div ?R * U + o0 mod U)"
        using True par one c(2) by (simp_all add: parity_slice_def Let_def)
      then show ?thesis using c(1) x by simp
    next
      case partial
      have "sz = (?rows - 1) * U + ?l mod ?R + 1" "off = int (o0 div ?R * U)"
        using True par partial by (simp_all add: parity_slice_def Let_def)
      moreover have "(?l div ?R) * U = o0 div ?R * U + (?rows - 1) * U" using partial(2) by (simp add: diff_mult_distrib)
      ultimately show ?thesis
        using last_unit_cover [OF U x partial(3)] int_interval [OF rows(1), of sz] by linarith
    next
      case full
      have "sz = ?rows * U" "off = int (o0 div ?R * U)"
        using True par full by (auto simp: parity_slice_def Let_def)
      then show ?thesis using int_interval [OF rows] by simp
    qed
  qed
  then show "off \<le> int (unit_offset U k x)" "int (unit_offset U k x) < off + int sz" by simp_all
qed

section \<open>Client and coordinator agree\<close>

lemma client_parity_slice_eq:
  assumes "mode = ''UNILRC_MODE'' \<or> mode = ''CACHED_MODE''"
  shows "parity_slice mode U k o0 a = Some (fst (client_parity_slice mode U k o0 a), int (snd (client_parity_slice mode U k o0 a)))"
  using assms by (auto simp: parity_slice_def client_parity_slice_def Let_def)

lemma client_add_slice_eq:
  "client_add_slice b s (\<lambda>i. map_option fst (m i)) = (\<lambda>i. map_option fst (add_data_slice U k b s t m i))"
  by (auto simp: client_add_slice_def add_data_slice_def fun_eq_iff split: option.splits)

lemma client_slices_loop_eq:
  "client_slices_loop U k o0 a c n (\<lambda>i. map_option fst (m i)) = (\<lambda>i. map_option fst (data_slices_loop U k o0 a c n t m i))"
proof (induction U k o0 a c n t m rule: data_slices_loop.induct)
  case (1 U k o0 a c n t m)
  show ?case
  proof (cases "U = 0 \<or> n = 0")
    case True
    then show ?thesis by (simp add: client_slices_loop.simps data_slices_loop.simps)
  next
    case False
    then show ?thesis using 1
      by (subst client_slices_loop.simps, subst data_slices_loop.simps)
         (simp add: Let_def client_add_slice_eq [where t = t and U = U and k = k])
  qed
qed

lemma getClusterAppendSize_sum:
  assumes "z dvd stripe_r stripe" "0 < z" "z = stripe_z stripe"
  shows "getClusterAppendSize stripe slices i psz =
    sum_list (map (\<lambda>j. fst (the (slices j))) (filter (\<lambda>j. slices j \<noteq> None) [i * stripe_k stripe div z..<(i + 1) * stripe_k stripe div z]))
    + psz * (stripe_r stripe div z + 1)"
proof -
  have "fold (\<lambda>i s. s + (case slices i of None \<Rightarrow> 0 | Some sl \<Rightarrow> fst sl)) xs s0
      = s0 + sum_list (map (\<lambda>j. fst (the (slices j))) (filter (\<lambda>j. slices j \<noteq> None) xs))" for xs s0
    by (induction xs arbitrary: s0) (auto split: option.splits)
  moreover have "psz * (stripe_r stripe + z) div z = psz * (stripe_r stripe div z + 1)"
  proof -
    obtain q where q: "stripe_r stripe = z * q" using assms(1) by blast
    have e: "psz * (z * q + z) = psz * (q + 1) * z" by (simp add: algebra_simps)
    show ?thesis unfolding q e using assms(2) by (simp only: nonzero_mult_div_cancel_right nonzero_mult_div_cancel_left)
  qed
  ultimately show ?thesis using assms(3) by (simp add: getClusterAppendSize_def)
qed

lemma generateAppendPlan_Some:
  assumes "generateAppendPlan cfg st stripe o0 a = Some plans" "plans \<noteq> []"
  obtains par where "parity_slice (AppendMode cfg) (UnitSize cfg) (stripe_k stripe) o0 a = Some par"
    "plans = map (append_plan cfg st stripe o0 a par (with_parity (stripe_k stripe) (stripe_n stripe) par
       (data_slices (UnitSize cfg) (stripe_k stripe) o0 a))) [0..<stripe_z stripe]"
  using assms by (auto simp: generateAppendPlan_def Let_def split: if_splits option.splits)

lemma append_plan_simps:
  "sizes (append_plan cfg st stripe o0 a par slices i)
   = map (\<lambda>j. fst (the (slices j))) (plan_blocks (stripe_k stripe) (stripe_r stripe) (stripe_z stripe) slices i)"
  "append_size (append_plan cfg st stripe o0 a par slices i) = getClusterAppendSize stripe slices i (fst par)"
  by (simp_all add: append_plan_def Let_def fold_add_stripe_block empty_append_plan_def)

text \<open>With \<open>z\<close> dividing \<open>r\<close>, a plan lists \<open>r div z + 1\<close> parity slices after its data slices.\<close>

lemma plan_blocks_parities:
  assumes "z dvd r" "i < z" "\<And>j. k \<le> j \<Longrightarrow> j < k + r + z \<Longrightarrow> f j = c"
  shows "map f (plan_blocks k r z slices i)
    = map f (filter (\<lambda>j. slices j \<noteq> None) [i * k div z..<(i + 1) * k div z]) @ replicate (r div z + 1) c"
proof -
  have z: "0 < z" using assms(2) by simp
  obtain q where q: "r = z * q" using assms(1) by blast
  have d: "i * r div z = i * q" "(i + 1) * r div z = (i + 1) * q" "i * z div z = i" "(i + 1) * z div z = i + 1"
    using z by (simp_all only: q mult.left_commute [of _ z] nonzero_mult_div_cancel_left nonzero_mult_div_cancel_right)
  have le: "(i + 1) * q \<le> r" using assms(2) unfolding q by (intro mult_right_mono) auto
  have "map f [k + i * q..<k + (i + 1) * q] = replicate q c" using assms(3) le by (intro nth_equalityI) auto
  moreover have "map f [k + r + i..<k + r + (i + 1)] = [c]" using assms(3) [of "k + r + i"] assms(2) by simp
  moreover have "r div z = q" using z q by simp
  ultimately show ?thesis unfolding plan_blocks_def d map_append by (simp add: replicate_append_same)
qed

lemma append_plan_sizes:
  assumes "generateAppendPlan cfg st stripe o0 a = Some plans" "plans \<noteq> []" "i < stripe_z stripe"
    and "stripe_n stripe = stripe_k stripe + stripe_r stripe + stripe_z stripe" "stripe_z stripe dvd stripe_r stripe"
  shows "sum_list (sizes (plans ! i)) = append_size (plans ! i)"
proof -
  let ?k = "stripe_k stripe" and ?r = "stripe_r stripe" and ?z = "stripe_z stripe"
  from generateAppendPlan_Some [OF assms(1,2)] obtain par where
    p: "plans = map (append_plan cfg st stripe o0 a par (with_parity ?k (stripe_n stripe) par
       (data_slices (UnitSize cfg) ?k o0 a))) [0..<?z]" by blast
  let ?sl = "with_parity ?k (stripe_n stripe) par (data_slices (UnitSize cfg) ?k o0 a)"
  have "map (\<lambda>j. fst (the (?sl j))) (plan_blocks ?k ?r ?z ?sl i)
      = map (\<lambda>j. fst (the (?sl j))) (filter (\<lambda>j. ?sl j \<noteq> None) [i * ?k div ?z..<(i + 1) * ?k div ?z])
        @ replicate (?r div ?z + 1) (fst par)"
    using assms(4) by (intro plan_blocks_parities [OF assms(5,3)]) (simp add: with_parity_def)
  then show ?thesis using assms(3) getClusterAppendSize_sum [OF assms(5) _ refl, of ?sl i "fst par"]
    by (simp add: p append_plan_simps sum_list_replicate mult.commute)
qed

lemma with_parity_map: "with_parity k n (f par) (\<lambda>i. map_option f (data i)) j = map_option f (with_parity k n par data j)"
  by (simp add: with_parity_def)

lemma client_plan_agrees:
  assumes "generateAppendPlan cfg st stripe o0 a = Some plans" "plans \<noteq> []"
    and "get_append_slice_plans cfg (AppendMode cfg) o0 a = Some (node_sizes, data_nums, data_sizes, par, b0)"
    and cfg: "cfg_n cfg = stripe_n stripe" "cfg_k cfg = stripe_k stripe" "cfg_r cfg = stripe_r stripe" "cfg_z cfg = stripe_z stripe"
    and n: "stripe_n stripe = stripe_k stripe + stripe_r stripe + stripe_z stripe"
  shows "node_sizes = map sizes plans"
    "parity_slice (AppendMode cfg) (UnitSize cfg) (stripe_k stripe) o0 a = Some (fst par, int (snd par))"
proof -
  let ?U = "UnitSize cfg" and ?k = "stripe_k stripe" and ?r = "stripe_r stripe" and ?z = "stripe_z stripe" and ?n = "stripe_n stripe"
  let ?data = "data_slices ?U ?k o0 a"
  have loop: "client_slices_loop ?U ?k o0 a (o0 div ?U mod ?k) a Map.empty = (\<lambda>j. map_option fst (?data j))"
    using client_slices_loop_eq [of ?U ?k o0 a _ a Map.empty o0] by (simp add: data_slices_def)
  have mode: "AppendMode cfg = ''UNILRC_MODE'' \<or> AppendMode cfg = ''CACHED_MODE''"
    and par: "par = client_parity_slice (AppendMode cfg) ?U ?k o0 a"
    using assms(3) by (auto simp: get_append_slice_plans_def Let_def cfg split: if_splits)
  let ?csl = "with_parity ?k ?n (fst par) (\<lambda>j. map_option fst (?data j))"
  have ns: "node_sizes = map (\<lambda>i. map (\<lambda>j. the (?csl j)) (plan_blocks ?k ?r ?z ?csl i)) [0..<?z]"
    using assms(3) by (auto simp: get_append_slice_plans_def Let_def cfg loop split: if_splits)
  show p: "parity_slice (AppendMode cfg) ?U ?k o0 a = Some (fst par, int (snd par))"
    using client_parity_slice_eq [OF mode] par by simp
  let ?sl = "with_parity ?k ?n (fst par, int (snd par)) ?data"
  have conv: "?csl = (\<lambda>j. map_option fst (?sl j))" by (simp add: with_parity_def fun_eq_iff)
  have pl: "plans = map (append_plan cfg st stripe o0 a (fst par, int (snd par)) ?sl) [0..<?z]"
    using generateAppendPlan_Some [OF assms(1,2)] p by (metis option.inject)
  have blocks: "plan_blocks ?k ?r ?z (\<lambda>j. map_option fst (?sl j)) i = plan_blocks ?k ?r ?z ?sl i" for i
    by (simp add: plan_blocks_def)
  have touched: "?sl j \<noteq> None" if "j \<in> set (plan_blocks ?k ?r ?z ?sl i)" "i < ?z" for i j
  proof -
    have "(i + 1) * ?r \<le> ?z * ?r" using that(2) by (intro mult_right_mono) auto
    then have "(i + 1) * ?r div ?z \<le> ?r" using that(2) div_le_mono [of "(i + 1) * ?r" "?z * ?r" ?z] by simp
    then show ?thesis using that n by (auto simp: plan_blocks_def with_parity_def)
  qed
  show "node_sizes = map sizes plans" unfolding ns pl conv blocks
    using touched by (auto simp: append_plan_simps option.map_sel)
qed

end
