(* ===== verification/SingleRepair.thy ===== *)
theory SingleRepair
  imports PlacementProps LocalRepair
begin

text \<open>
  Repair and degraded read of a single block (\<^verbatim>\<open>coordinator.cpp\<close>): which groups take part, the requests the
  coordinator sends to the proxies, in the order it creates their threads, and the number of data blocks per group.
  A repair picks a replacement node at random; \<open>draws\<close> are the indices it draws.
\<close>

section \<open>Groups that take part in a repair\<close>

definition ceil_div :: "nat \<Rightarrow> nat \<Rightarrow> nat" where
  "ceil_div a b = a div b + (if a mod b \<noteq> 0 then 1 else 0)"

definition azure_recovery_groups :: "nat \<Rightarrow> nat \<Rightarrow> nat \<Rightarrow> nat \<Rightarrow> nat list" where
  "azure_recovery_groups k r z b =
     (if k \<le> b \<and> b < k + r then [1..<z + 1]
      else if b \<ge> k + r then [b - k - r]
      else [b div (k div z)])"

definition unilrc_recovery_groups :: "nat \<Rightarrow> nat \<Rightarrow> nat \<Rightarrow> nat \<Rightarrow> nat list" where
  "unilrc_recovery_groups k r z b =
     (if k \<le> b \<and> b < k + r then [(b - k) div (r div z)]
      else if b \<ge> k + r then [b - k - r]
      else [b div (k div z)])"

definition optimal_recovery_groups :: "nat \<Rightarrow> nat \<Rightarrow> nat \<Rightarrow> nat \<Rightarrow> nat list" where
  "optimal_recovery_groups k r z b =
     (if k \<le> b \<and> b < k + r
      then let group_num = ceil_div (k div z) (r + 1) * z + 1
           in (group_num - 1) # [0..<group_num div z]
      else if b \<ge> k + r
      then let local_group_size = k div z; local_group_id = b - k - r; per_group = local_group_size div (r + 1) + 1;
               group_num = z * per_group + 1
           in ((local_group_id + 1) * per_group - 1)
              # [local_group_id * per_group..<(local_group_id + 1) * per_group - 1] @ [group_num - 1]
      else let local_group_size = k div z; per_group = local_group_size div (r + 1) + 1;
               local_group_id = b div local_group_size; group_id_in_local_group = b mod local_group_size div (r + 1);
               group_num = z * per_group + 1
           in (local_group_id * per_group + group_id_in_local_group)
              # map (\<lambda>i. local_group_id * per_group + i) (filter (\<lambda>i. i \<noteq> group_id_in_local_group) [0..<per_group])
              @ [group_num - 1])"

definition glrc_recovery_groups :: "nat \<Rightarrow> nat \<Rightarrow> nat \<Rightarrow> nat \<Rightarrow> nat list" where
  "glrc_recovery_groups k r z b =
     (if b < k + r then [nat (glrc_payload_group_id (int b) (int k) (int r) (int z))] else [b - k - r])"

definition uniform_recovery_groups :: "nat \<Rightarrow> nat \<Rightarrow> nat \<Rightarrow> nat \<Rightarrow> nat list" where
  "uniform_recovery_groups k r z b =
     (let larger = (k + r) mod z; smaller = z - larger; size0 = (k + r) div z; per0 = ceil_div size0 r;
          size1 = size0 + 1; per1 = ceil_div size1 r; all_small = smaller * per0 in
      if b \<ge> k + r
      then let g = b - k - r in
        if g + larger < z then ((g + 1) * per0 - 1) # [g * per0..<(g + 1) * per0 - 1]
        else let h = g - smaller
             in (all_small + (h + 1) * per1 - 1) # [all_small + h * per1..<all_small + (h + 1) * per1 - 1]
      else let small_blocks = smaller * size0 in
        if b < small_blocks
        then let g = b div size0; grp = g * per0 + (b - g * size0) div r
             in grp # filter (\<lambda>i. i \<noteq> grp) [g * per0..<g * per0 + per0]
        else let g = (b - small_blocks) div size1; grp = g * per1 + (b - (g * size1 + small_blocks)) div r
             in (grp + all_small) # map (\<lambda>i. i + all_small) (filter (\<lambda>i. i \<noteq> grp) [g * per1..<g * per1 + per1]))"

definition get_recovery_group_ids :: "string \<Rightarrow> nat \<Rightarrow> nat \<Rightarrow> nat \<Rightarrow> nat \<Rightarrow> nat list" where
  "get_recovery_group_ids code_type k r z failed_block_id =
     (if code_type = ''AzureLRC'' then azure_recovery_groups k r z failed_block_id
      else if code_type = ''UniLRC'' then unilrc_recovery_groups k r z failed_block_id
      else if code_type = ''OptimalLRC'' then optimal_recovery_groups k r z failed_block_id
      else if code_type = ''gLRC'' then glrc_recovery_groups k r z failed_block_id
      else if code_type = ''UniformLRC'' then uniform_recovery_groups k r z failed_block_id
      else [])"

definition init_recovery_group_lookup_table :: "SysConfig \<Rightarrow> (nat \<times> nat list) list" where
  "init_recovery_group_lookup_table cfg =
     map (\<lambda>i. (i, get_recovery_group_ids (CodeType cfg) (cfg_k cfg) (cfg_r cfg) (cfg_z cfg) i)) [0..<cfg_n cfg]"

definition get_data_block_num_per_group :: "nat \<Rightarrow> nat \<Rightarrow> nat \<Rightarrow> string \<Rightarrow> nat list" where
  "get_data_block_num_per_group k r z code_type =
     (if code_type = ''AzureLRC'' then replicate z (k div z) @ [0]
      else if code_type = ''OptimalLRC''
      then let group_size = r + 1; local_group_size = k div z; per_group = local_group_size div group_size + 1;
               group_num = z * per_group + 1
           in map (\<lambda>i. if (i + 1) mod per_group \<noteq> 0 then group_size else local_group_size mod group_size) [0..<group_num - 1] @ [0]
      else if code_type = ''gLRC'' then map nat (glrc_fill_data_blocks_per_group (int k) (int r) (int z))
      else if code_type = ''UniformLRC'' then replicate (z - 1) ((k + r) div z) @ [0]
      else if code_type = ''UniLRC'' then replicate z (k div z)
      else [])"

section \<open>Requests\<close>

record RecoveryRequest =
  rq_failed_block_id :: nat
  rq_failed_block_key :: string
  replaced_node_ip :: string
  replaced_node_port :: int
  cross_rack_num :: nat
  rq_datanodeip :: "string list"
  rq_datanodeport :: "int list"
  rq_blockkeys :: "string list"
  rq_blockids :: "nat list"
  rq_proxyip :: "string list"
  rq_proxyport :: "int list"

record DegradedReadRequest =
  clientip :: string
  clientport :: int
  dr_failed_block_id :: nat
  dr_failed_block_key :: string
  dr_datanodeip :: "string list"
  dr_datanodeport :: "int list"
  dr_blockkeys :: "string list"
  dr_blockids :: "nat list"

datatype proxy_call = Recovery RecoveryRequest | DegradedRead DegradedReadRequest | DegradedRead2Client RecoveryRequest

definition default_stripe :: Stripe where
  "default_stripe = \<lparr>stripe_id = 0, stripe_n = 0, stripe_k = 0, stripe_r = 0, stripe_z = 0, object_keys = [],
     stripe_blocks = [], place2clusters = {}, num_groups = 0, group_to_blocks = []\<rparr>"

definition stripe_at :: "coordinator \<Rightarrow> nat \<Rightarrow> Stripe" where
  "stripe_at st sid = tbl_get default_stripe sid (m_stripe_table st)"

definition get_cluster_id_by_group_id :: "Stripe \<Rightarrow> nat \<Rightarrow> int" where
  "get_cluster_id_by_group_id stripe g = map2cluster (stripe_blocks stripe ! (group_blocks stripe g ! 0))"

definition cluster_proxy :: "coordinator \<Rightarrow> int \<Rightarrow> string \<times> int" where
  "cluster_proxy st cid = (cl_proxy_ip (cluster_at st cid), cl_proxy_port (cluster_at st cid))"

text \<open>
  The helper blocks of a request: AzureLRC stops after \<open>k div z\<close> blocks, and a partial read of another group also
  skips its local parity.
\<close>

definition helper_ids :: "SysConfig \<Rightarrow> bool \<Rightarrow> nat \<Rightarrow> nat list \<Rightarrow> nat list" where
  "helper_ids cfg other_group failed ids =
     (if CodeType cfg = ''AzureLRC''
      then take (cfg_k cfg div cfg_z cfg)
             (filter (\<lambda>b. \<not> ((other_group \<and> b \<ge> cfg_k cfg + cfg_r cfg) \<or> b = failed)) ids)
      else filter (\<lambda>b. b \<noteq> failed) ids)"

definition recovery_request :: "coordinator \<Rightarrow> Stripe \<Rightarrow> nat \<Rightarrow> string \<Rightarrow> int \<Rightarrow> nat \<Rightarrow> nat list \<Rightarrow> RecoveryRequest" where
  "recovery_request st stripe failed ip port cross ids =
     (let blk = (\<lambda>b. stripe_blocks stripe ! b); nd = (\<lambda>b. node_at st (map2node (blk b)))
      in \<lparr>rq_failed_block_id = failed, rq_failed_block_key = blk_key (blk failed), replaced_node_ip = ip,
          replaced_node_port = port, cross_rack_num = cross, rq_datanodeip = map (\<lambda>b. node_ip (nd b)) ids,
          rq_datanodeport = map (\<lambda>b. node_port (nd b)) ids, rq_blockkeys = map (\<lambda>b. blk_key (blk b)) ids,
          rq_blockids = map (\<lambda>b. blk_id (blk b)) ids, rq_proxyip = [], rq_proxyport = []\<rparr>)"

definition partial_read_request :: "coordinator \<Rightarrow> Stripe \<Rightarrow> nat \<Rightarrow> string \<times> int \<Rightarrow> nat list \<Rightarrow> DegradedReadRequest" where
  "partial_read_request st stripe failed dest ids =
     (let blk = (\<lambda>b. stripe_blocks stripe ! b); nd = (\<lambda>b. node_at st (map2node (blk b)))
      in \<lparr>clientip = fst dest, clientport = snd dest + 1, dr_failed_block_id = failed, dr_failed_block_key = blk_key (blk failed),
          dr_datanodeip = map (\<lambda>b. node_ip (nd b)) ids, dr_datanodeport = map (\<lambda>b. node_port (nd b)) ids,
          dr_blockkeys = map (\<lambda>b. blk_key (blk b)) ids, dr_blockids = map (\<lambda>b. blk_id (blk b)) ids\<rparr>)"

definition partial_reads :: "SysConfig \<Rightarrow> coordinator \<Rightarrow> Stripe \<Rightarrow> nat \<Rightarrow> nat list \<Rightarrow> nat \<Rightarrow> string \<times> int
    \<Rightarrow> ((string \<times> int) \<times> proxy_call) list" where
  "partial_reads cfg st stripe failed groups dest_group dest =
     map (\<lambda>g. (cluster_proxy st (get_cluster_id_by_group_id stripe g),
           DegradedRead (partial_read_request st stripe failed dest (helper_ids cfg True failed (group_blocks stripe g)))))
       (filter (\<lambda>g. g \<noteq> dest_group) groups)"

definition recovery_one_block :: "SysConfig \<Rightarrow> coordinator \<Rightarrow> nat list \<Rightarrow> nat \<Rightarrow> nat
    \<Rightarrow> ((string \<times> int) \<times> proxy_call) list option" where
  "recovery_one_block cfg st draws sid failed =
     (let stripe = stripe_at st sid;
          groups = get_recovery_group_ids (CodeType cfg) (cfg_k cfg) (cfg_r cfg) (cfg_z cfg) failed in
      if length groups = 1
      then let cid = get_cluster_id_by_group_id stripe (groups ! 0) in
        case randomly_select_a_node st cid sid draws of None \<Rightarrow> None
        | Some t \<Rightarrow>
            Some [(cluster_proxy st cid, Recovery (recovery_request st stripe failed (node_ip (node_at st t)) (node_port (node_at st t)) 0
                     (filter (\<lambda>b. b \<noteq> failed) (group_blocks stripe (groups ! 0)))))]
      else let dest_group = nat (map2group (stripe_blocks stripe ! failed));
               cid = get_cluster_id_by_group_id stripe dest_group; dest = cluster_proxy st cid;
               others = filter (\<lambda>g. g \<noteq> dest_group) groups in
        case randomly_select_a_node st cid sid draws of None \<Rightarrow> None
        | Some t \<Rightarrow>
            Some (partial_reads cfg st stripe failed groups dest_group dest
              @ [(dest, Recovery ((recovery_request st stripe failed (node_ip (node_at st t)) (node_port (node_at st t))
                     (length groups - 1) (helper_ids cfg False failed (group_blocks stripe dest_group)))
                     \<lparr>rq_proxyip := map (\<lambda>g. fst (cluster_proxy st (get_cluster_id_by_group_id stripe g))) others,
                      rq_proxyport := map (\<lambda>g. snd (cluster_proxy st (get_cluster_id_by_group_id stripe g))) others\<rparr>))]))"

definition degraded_read_one_block :: "SysConfig \<Rightarrow> coordinator \<Rightarrow> nat \<Rightarrow> nat \<Rightarrow> string \<Rightarrow> int
    \<Rightarrow> ((string \<times> int) \<times> proxy_call) list" where
  "degraded_read_one_block cfg st sid failed client_ip client_port =
     (let stripe = stripe_at st sid;
          groups = get_recovery_group_ids (CodeType cfg) (cfg_k cfg) (cfg_r cfg) (cfg_z cfg) failed in
      if length groups = 1
      then [(cluster_proxy st (get_cluster_id_by_group_id stripe (groups ! 0)),
             DegradedRead2Client (recovery_request st stripe failed client_ip client_port 0
               (filter (\<lambda>b. b \<noteq> failed) (group_blocks stripe (groups ! 0)))))]
      else let dest_group = nat (map2group (stripe_blocks stripe ! failed));
               dest = cluster_proxy st (get_cluster_id_by_group_id stripe dest_group)
           in partial_reads cfg st stripe failed groups dest_group dest
              @ [(dest, DegradedRead2Client (recovery_request st stripe failed client_ip client_port (length groups - 1)
                    (helper_ids cfg False failed (group_blocks stripe dest_group))))])"

section \<open>gLRC stripes\<close>

lemma glrc_block_group_home:
  assumes "0 < z" "i < k + r + z"
  shows "glrc_block_group k r z i = int (home_group k r z i)"
  using glrc_block_group_eq [OF assms home_group_less [OF assms]] home_group_iff [OF assms home_group_less [OF assms]] by simp

lemma glrc_recovery_groups_home:
  assumes "0 < z" "i < k + r + z"
  shows "glrc_recovery_groups k r z i = [home_group k r z i]"
proof -
  have "(if i < k + r then glrc_payload_group_id (int i) (int k) (int r) (int z) else int (i - k - r)) = int (home_group k r z i)"
    using glrc_block_group_home [OF assms] by (simp add: glrc_block_group_def glrc_data_group_id_def split: if_splits)
  then show ?thesis by (auto simp: glrc_recovery_groups_def split: if_splits)
qed

text \<open>A stripe as the gLRC placement leaves it.\<close>

definition glrc_placed :: "nat \<Rightarrow> nat \<Rightarrow> nat \<Rightarrow> Stripe \<Rightarrow> bool" where
  "glrc_placed k r z stripe \<longleftrightarrow> length (stripe_blocks stripe) = k + r + z
     \<and> (\<forall>i < k + r + z. blk_id (stripe_blocks stripe ! i) = i)
     \<and> (\<forall>g<z. group_blocks stripe g = filter (\<lambda>i. glrc_block_group k r z i = int g) [0..<k + r + z])"

lemma glrc_placed_survivors:
  assumes "glrc_placed k r z stripe" "0 < z" "b < k + r + z"
  shows "group_survivors k r z b (filter (\<lambda>c. c \<noteq> b) (group_blocks stripe (home_group k r z b)))"
    "filter (\<lambda>c. c \<noteq> b) (group_blocks stripe (home_group k r z b))
     = filter (\<lambda>c. c \<noteq> b \<and> home_group k r z c = home_group k r z b) [0..<k + r + z]"
proof -
  let ?g = "home_group k r z b"
  have g: "?g < z" by (rule home_group_less [OF assms(2,3)])
  have eq: "group_blocks stripe ?g = filter (\<lambda>c. home_group k r z c = ?g) [0..<k + r + z]"
    using assms(1) g glrc_block_group_home [OF assms(2)] by (auto simp: glrc_placed_def intro!: filter_cong)
  have "c \<in> set (glrc_build_placement_groups k r z ! ?g) \<longleftrightarrow> c < k + r + z \<and> home_group k r z c = ?g" for c
    using home_group_iff [OF assms(2) _ g, of c k r] in_placement_group [OF g] g by auto
  then show "group_survivors k r z b (filter (\<lambda>c. c \<noteq> b) (group_blocks stripe ?g))"
    by (auto simp: group_survivors_def eq)
  show "filter (\<lambda>c. c \<noteq> b) (group_blocks stripe ?g)
     = filter (\<lambda>c. c \<noteq> b \<and> home_group k r z c = home_group k r z b) [0..<k + r + z]"
    unfolding eq by (auto intro!: filter_cong)
qed

lemma degraded_read_glrc:
  assumes cfg: "CodeType cfg = ''gLRC''" "cfg_k cfg = k" "cfg_r cfg = r" "cfg_z cfg = z"
    and b: "0 < z" "b < k + r + z"
  shows "degraded_read_one_block cfg st sid b ip port =
    [(cluster_proxy st (get_cluster_id_by_group_id (stripe_at st sid) (home_group k r z b)),
      DegradedRead2Client (recovery_request st (stripe_at st sid) b ip port 0
        (filter (\<lambda>c. c \<noteq> b) (group_blocks (stripe_at st sid) (home_group k r z b)))))]"
  using glrc_recovery_groups_home [OF b] by (simp add: degraded_read_one_block_def get_recovery_group_ids_def Let_def cfg)

text \<open>
  A repair of a gLRC block looks for a node of the group's cluster without a block of the stripe.  The placement leaves
  none, so the search does not end.
\<close>

lemma recovery_glrc_never:
  assumes cfg: "CodeType cfg = ''gLRC''" "cfg_k cfg = k" "cfg_r cfg = r" "cfg_z cfg = z"
    and b: "0 < z" "b < k + r + z"
    and full: "\<forall>c. \<forall>v\<in>set (cl_nodes (cluster_at st c)). nd_stripes (node_at st v) sid \<noteq> None"
  shows "recovery_one_block cfg st draws sid b = None"
proof -
  have "randomly_select_a_node st c sid draws = None" for c
    using select_node_never full by (simp add: randomly_select_a_node_def)
  then show ?thesis
    using glrc_recovery_groups_home [OF b] by (simp add: recovery_one_block_def get_recovery_group_ids_def Let_def cfg)
qed

end
