(* ===== verification/Service.thy ===== *)
theory Service
  imports AppendPlan SingleRepair Hmbr
begin

text \<open>
  The request handlers of the coordinator that keep the metadata (\<^verbatim>\<open>coordinator.cpp\<close>): loading the cluster
  description, resetting, uploads of full, partial and appended stripes, deletion, and the commit protocol between
  the proxies and the clients.

  A handler is a function on the coordinator's state.  \<^const>\<open>None\<close> is a handler that does not return: a failed
  \<^verbatim>\<open>assert\<close>, a search for a node that does not end, a mutex that is never released, a condition variable that is
  waited for, or undefined behaviour.  The XML document of the cluster description is given as the list of its elements;
  the outcomes of the RPCs to the proxies are arguments.  Handlers run one at a time, and the threads that notify
  the proxies of one upload, which write different keys, run one after the other.
\<close>

section \<open>The cluster description\<close>

definition stoi_value :: "string \<Rightarrow> int option" where
  "stoi_value s = map_option fst (stoi s)"

text \<open>\<^verbatim>\<open>substr(0, pos)\<close> and \<^verbatim>\<open>substr(pos + 1, size)\<close> for the first colon; without one both are the whole string.\<close>

definition split_address :: "string \<Rightarrow> string \<times> string" where
  "split_address s =
     (let ip = takeWhile (\<lambda>c. c \<noteq> CHR '':'') s
      in if length ip = length s then (s, s) else (ip, drop (length ip + 1) s))"

record XmlNode =
  xml_uri :: string
  xml_node_proxy :: "string option"

record XmlCluster =
  xml_id :: string
  xml_proxy :: string
  xml_nodes :: "XmlNode list"

definition init_node :: "int \<Rightarrow> XmlNode \<Rightarrow> int \<times> coordinator \<Rightarrow> (int \<times> coordinator) option" where
  "init_node cid node = (\<lambda>(node_id, st).
     let cl = cluster_at st cid; st = set_cluster cid (cl\<lparr>cl_nodes := cl_nodes cl @ [node_id]\<rparr>) st in
     case stoi_value (snd (split_address (xml_uri node))) of None \<Rightarrow> None
     | Some port \<Rightarrow>
         (case (case xml_node_proxy node of
                  Some px \<Rightarrow> map_option (\<lambda>p. (fst (split_address px), p)) (stoi_value (snd (split_address px)))
                | None \<Rightarrow> Some (cl_proxy_ip cl, cl_proxy_port cl)) of None \<Rightarrow> None
          | Some (pip, pport) \<Rightarrow>
              Some (node_id + 1, set_node node_id ((node_at st node_id)\<lparr>nd_id := node_id,
                node_ip := fst (split_address (xml_uri node)), node_port := port, nd_cluster := cid,
                repair_proxy_ip := pip, repair_proxy_port := pport\<rparr>) st)))"

definition init_cluster :: "XmlCluster \<Rightarrow> int \<times> coordinator \<Rightarrow> (int \<times> coordinator) option" where
  "init_cluster xc = (\<lambda>(node_id, st).
     case stoi_value (xml_id xc) of None \<Rightarrow> None
     | Some cid \<Rightarrow>
         (case stoi_value (snd (split_address (xml_proxy xc))) of None \<Rightarrow> None
          | Some port \<Rightarrow>
              let st = set_cluster cid (default_cluster\<lparr>cl_id := cid, cl_proxy_ip := fst (split_address (xml_proxy xc)),
                         cl_proxy_port := port\<rparr>) st in
              (case fold_option (init_node cid) (xml_nodes xc) (node_id, st) of None \<Rightarrow> None
               | Some (node_id, st) \<Rightarrow> Some (node_id, st\<lparr>m_num_of_Clusters := m_num_of_Clusters st + 1\<rparr>))))"

definition init_clusterinfo :: "XmlCluster list \<Rightarrow> coordinator \<Rightarrow> coordinator option" where
  "init_clusterinfo doc st = map_option snd (fold_option init_cluster doc (0, st\<lparr>m_num_of_Clusters := 0\<rparr>))"

definition initial_coordinator :: coordinator where
  "initial_coordinator = \<lparr>m_node_table = [], m_cluster_table = [], m_stripe_table = [], m_cur_stripe_id = 0,
     m_object_commit_table = Map.empty, m_object_updating_table = Map.empty, m_stripe_deleting_table = [],
     m_cur_offset_table = Map.empty, m_num_of_Clusters = 0, m_mutex_held = False\<rparr>"

definition setParameter :: "coordinator \<Rightarrow> coordinator" where
  "setParameter st =
     st\<lparr>m_cur_stripe_id := 0, m_object_commit_table := Map.empty, m_object_updating_table := Map.empty,
        m_stripe_deleting_table := [],
        m_cluster_table := map (\<lambda>(c, cl). (c, cl\<lparr>cl_blocks := [], cl_stripes := {}\<rparr>)) (m_cluster_table st),
        m_node_table := map (\<lambda>(v, nd). (v, nd\<lparr>nd_stripes := Map.empty\<rparr>)) (m_node_table st),
        m_stripe_table := []\<rparr>"

section \<open>Uploads\<close>

datatype OpperateType = SET | GET | DEL | REPAIR | MERGE | APPEND

datatype rpc_status = OK | UNAVAILABLE | INVALID_ARGUMENT

record ReplyProxyIPsPorts =
  append_keys :: "string list"
  proxyips :: "string list"
  proxyports :: "int list"
  cluster_slice_sizes :: "nat list"
  sum_append_size :: nat

definition new_stripe :: "SysConfig \<Rightarrow> nat \<Rightarrow> string \<Rightarrow> Stripe" where
  "new_stripe cfg sid key = \<lparr>stripe_id = sid, stripe_n = cfg_n cfg, stripe_k = cfg_k cfg, stripe_r = cfg_r cfg,
     stripe_z = cfg_z cfg, object_keys = [key], stripe_blocks = [], place2clusters = {}, num_groups = 0, group_to_blocks = []\<rparr>"

definition known_code :: "string \<Rightarrow> bool" where
  "known_code code_type \<longleftrightarrow> code_type \<in> {''UniLRC'', ''AzureLRC'', ''OptimalLRC'', ''UniformLRC'', ''gLRC''}"

definition place_stripe :: "SysConfig \<Rightarrow> (nat \<Rightarrow> nat list) \<Rightarrow> Stripe \<Rightarrow> coordinator \<Rightarrow> (coordinator \<times> Stripe) option" where
  "place_stripe cfg draws stripe st =
     (let code_type = CodeType cfg in
      if code_type = ''UniLRC'' \<or> code_type = ''AzureLRC'' then initialize_unilrc_and_azurelrc_stripe_placement cfg draws stripe st
      else if code_type = ''OptimalLRC'' then initialize_optimal_lrc_stripe_placement cfg draws stripe st
      else if code_type = ''gLRC'' then initialize_glrc_stripe_placement cfg stripe st
      else if code_type = ''UniformLRC'' then initialize_uniform_lrc_stripe_placement cfg draws stripe st
      else Some (st, stripe))"

text \<open>At most three attempts; \<open>attempts\<close> are their outcomes, and one that is missing has failed.\<close>

definition notify_proxies_ready :: "AppendStripeDataPlacement \<Rightarrow> bool list \<Rightarrow> coordinator \<Rightarrow> coordinator \<times> bool" where
  "notify_proxies_ready plan attempts st =
     (let st = st\<lparr>m_object_updating_table := (m_object_updating_table st)(plan_key plan \<mapsto>
                    \<lparr>object_size = append_size plan, map2stripe_of = plan_stripe_id plan\<rparr>)\<rparr> in
      if list_ex id (take 3 attempts) then (st, True)
      else (st\<lparr>m_object_updating_table := (m_object_updating_table st)(plan_key plan := None)\<rparr>, False))"

definition PROXY_PORT_SHIFT :: int where
  "PROXY_PORT_SHIFT = 1"

definition upload_reply :: "coordinator \<Rightarrow> AppendStripeDataPlacement list \<Rightarrow> nat \<Rightarrow> ReplyProxyIPsPorts" where
  "upload_reply st plans total_size =
     \<lparr>append_keys = map plan_key plans, proxyips = map (\<lambda>p. cl_proxy_ip (cluster_at st (plan_cluster_id p))) plans,
      proxyports = map (\<lambda>p. cl_proxy_port (cluster_at st (plan_cluster_id p)) + PROXY_PORT_SHIFT) plans,
      cluster_slice_sizes = map append_size plans, sum_append_size = total_size\<rparr>"

definition notify_step :: "AppendStripeDataPlacement list \<Rightarrow> (nat \<Rightarrow> bool list) \<Rightarrow> nat \<Rightarrow> coordinator \<times> bool \<Rightarrow> coordinator \<times> bool" where
  "notify_step plans attempts i = (\<lambda>(st, ready).
     let (st, ok) = notify_proxies_ready (plans ! i) (attempts i) st in (st, ready \<and> ok))"

definition upload_plans :: "AppendStripeDataPlacement list \<Rightarrow> (nat \<Rightarrow> bool list) \<Rightarrow> coordinator
    \<Rightarrow> (coordinator \<times> bool \<times> ReplyProxyIPsPorts) option" where
  "upload_plans plans attempts st =
     (if plans \<noteq> [] \<and> m_mutex_held st then None
      else let st = st\<lparr>m_object_commit_table := fold (\<lambda>p m. m(plan_key p := None)) plans (m_object_commit_table st)\<rparr>;
               (st, ready) = fold (notify_step plans attempts) [0..<length plans] (st, True)
           in Some (st, ready, upload_reply st plans (if ready then sum_list (map append_size plans) else 0)))"

definition upload_stripe :: "SysConfig \<Rightarrow> (coordinator \<Rightarrow> Stripe \<Rightarrow> AppendStripeDataPlacement list) \<Rightarrow> (nat \<Rightarrow> nat list)
    \<Rightarrow> (nat \<Rightarrow> bool list) \<Rightarrow> string \<Rightarrow> coordinator \<Rightarrow> (coordinator \<times> rpc_status \<times> ReplyProxyIPsPorts) option" where
  "upload_stripe cfg plans_of draws attempts key st =
     (let sid = m_cur_stripe_id st; st = st\<lparr>m_cur_stripe_id := sid + 1\<rparr> in
      case place_stripe cfg draws (new_stripe cfg sid key) st of None \<Rightarrow> None
      | Some (st, stripe) \<Rightarrow>
          (case upload_plans (plans_of st stripe) attempts st of None \<Rightarrow> None
           | Some (st, ready, reply) \<Rightarrow>
               Some (if ready then (st\<lparr>m_stripe_table := tbl_set sid stripe (m_stripe_table st)\<rparr>, OK, reply)
                     else (st, UNAVAILABLE, reply))))"

definition uploadSetValue :: "SysConfig \<Rightarrow> (nat \<Rightarrow> nat list) \<Rightarrow> (nat \<Rightarrow> bool list) \<Rightarrow> string \<Rightarrow> nat \<Rightarrow> coordinator
    \<Rightarrow> (coordinator \<times> rpc_status \<times> ReplyProxyIPsPorts) option" where
  "uploadSetValue cfg draws attempts clientID setSizeBytes st =
     (if setSizeBytes \<noteq> BlockSize cfg * cfg_k cfg \<or> \<not> known_code (CodeType cfg) then None
      else upload_stripe cfg (generate_add_plans cfg) draws attempts clientID st)"

definition uploadSubsetValue :: "SysConfig \<Rightarrow> (nat \<Rightarrow> nat list) \<Rightarrow> (nat \<Rightarrow> bool list) \<Rightarrow> string \<Rightarrow> nat \<Rightarrow> coordinator
    \<Rightarrow> (coordinator \<times> rpc_status \<times> ReplyProxyIPsPorts) option" where
  "uploadSubsetValue cfg draws attempts clientID setSizeBytes st =
     (if setSizeBytes > BlockSize cfg * cfg_k cfg \<or> \<not> known_code (CodeType cfg) then None
      else upload_stripe cfg (\<lambda>st stripe. generate_sub_add_plans cfg st stripe setSizeBytes) draws attempts clientID st)"

text \<open>The stripe of an append: a new one at offset zero, else the one of the table (\<^verbatim>\<open>operator[]\<close>).\<close>

definition touch_stripe :: "nat \<Rightarrow> coordinator \<Rightarrow> coordinator" where
  "touch_stripe sid st = st\<lparr>m_stripe_table := tbl_set sid (stripe_at st sid) (m_stripe_table st)\<rparr>"

definition append_stripe :: "SysConfig \<Rightarrow> (nat \<Rightarrow> nat list) \<Rightarrow> string \<Rightarrow> StripeOffset \<Rightarrow> coordinator \<Rightarrow> coordinator option" where
  "append_stripe cfg draws clientID cur st =
     (if so_offset cur = 0
      then map_option (\<lambda>(st, stripe). st\<lparr>m_stripe_table := tbl_set (so_stripe_id cur) stripe (m_stripe_table st)\<rparr>)
             (initialize_unilrc_and_azurelrc_stripe_placement cfg draws (new_stripe cfg (so_stripe_id cur) clientID) st)
      else Some (touch_stripe (so_stripe_id cur) st))"

definition open_offset :: "string \<Rightarrow> coordinator \<Rightarrow> coordinator" where
  "open_offset clientID st =
     (if m_cur_offset_table st clientID = None
      then st\<lparr>m_cur_offset_table := (m_cur_offset_table st)(clientID \<mapsto> \<lparr>so_stripe_id = m_cur_stripe_id st, so_offset = 0\<rparr>),
              m_cur_stripe_id := m_cur_stripe_id st + 1\<rparr>
      else st)"

definition advance_offset :: "SysConfig \<Rightarrow> string \<Rightarrow> StripeOffset \<Rightarrow> nat \<Rightarrow> coordinator \<Rightarrow> coordinator" where
  "advance_offset cfg clientID cur appendSizeBytes st =
     (let cur = cur\<lparr>so_offset := so_offset cur + appendSizeBytes\<rparr>
      in st\<lparr>m_cur_offset_table := (m_cur_offset_table st)(clientID :=
            (if so_offset cur = BlockSize cfg * cfg_k cfg then None else Some cur))\<rparr>)"

definition uploadAppendValue :: "SysConfig \<Rightarrow> (nat \<Rightarrow> nat list) \<Rightarrow> (nat \<Rightarrow> bool list) \<Rightarrow> string \<Rightarrow> nat \<Rightarrow> coordinator
    \<Rightarrow> (coordinator \<times> rpc_status \<times> ReplyProxyIPsPorts) option" where
  "uploadAppendValue cfg draws attempts clientID appendSizeBytes st =
     (let st = open_offset clientID st; cur = the (m_cur_offset_table st clientID) in
      if so_offset cur + appendSizeBytes > BlockSize cfg * cfg_k cfg then None
      else case append_stripe cfg draws clientID cur st of None \<Rightarrow> None
      | Some st \<Rightarrow>
          (case generateAppendPlan cfg st (stripe_at st (so_stripe_id cur)) (so_offset cur) appendSizeBytes of None \<Rightarrow> None
           | Some plans \<Rightarrow>
               if plans = [] then Some (st, INVALID_ARGUMENT, upload_reply st [] 0)
               else (case upload_plans plans attempts st of None \<Rightarrow> None
                     | Some (st, ready, reply) \<Rightarrow>
                         Some (if ready then (advance_offset cfg clientID cur appendSizeBytes st, OK, reply)
                               else (st, UNAVAILABLE, reply)))))"

section \<open>Deletion\<close>

record NodeAndBlock =
  nb_datanodeip :: "string list"
  nb_datanodeport :: "int list"
  nb_blockkeys :: "string list"
  nb_stripe_id :: int
  nb_key :: string

definition delete_request :: "coordinator \<Rightarrow> Block list \<Rightarrow> int \<Rightarrow> string \<Rightarrow> NodeAndBlock" where
  "delete_request st blocks sid key =
     \<lparr>nb_datanodeip = map (\<lambda>b. node_ip (node_at st (map2node b))) blocks,
      nb_datanodeport = map (\<lambda>b. node_port (node_at st (map2node b))) blocks,
      nb_blockkeys = map blk_key blocks, nb_stripe_id = sid, nb_key = key\<rparr>"

text \<open>
  The request goes to the proxy of a random cluster that holds one of the blocks: the element of the set that the
  drawn index selects is \<open>pick\<close>.  Without any block the draw is from an empty range.
\<close>

definition send_delete :: "coordinator \<Rightarrow> int \<Rightarrow> Block list \<Rightarrow> NodeAndBlock \<Rightarrow> (coordinator \<times> (string \<times> int) \<times> NodeAndBlock) option" where
  "send_delete st pick blocks req =
     (if pick \<in> set (map map2cluster blocks) then Some (st, cluster_proxy st pick, req) else None)"

text \<open>
  \<^verbatim>\<open>at\<close> throws on an unknown key after the mutex has been locked; the handler catches the exception, answers, and the
  mutex stays locked.
\<close>

definition delByKey :: "string \<Rightarrow> int \<Rightarrow> coordinator \<Rightarrow> (coordinator \<times> ((string \<times> int) \<times> NodeAndBlock) option) option" where
  "delByKey key pick st =
     (if m_mutex_held st then None
      else case m_object_commit_table st key of
          None \<Rightarrow> Some (st\<lparr>m_mutex_held := True\<rparr>, None)
        | Some object_info \<Rightarrow>
            let st = touch_stripe (map2stripe_of object_info)
                       (st\<lparr>m_object_updating_table := (m_object_updating_table st)(key \<mapsto> object_info)\<rparr>);
                blocks = filter (\<lambda>b. map2key b = key) (stripe_blocks (stripe_at st (map2stripe_of object_info)))
            in map_option (\<lambda>(st, r). (st, Some r)) (send_delete st pick blocks (delete_request st blocks (- 1) key)))"

definition delByStripe :: "nat \<Rightarrow> int \<Rightarrow> coordinator \<Rightarrow> (coordinator \<times> ((string \<times> int) \<times> NodeAndBlock) option) option" where
  "delByStripe sid pick st =
     (if m_mutex_held st then None
      else let st = touch_stripe sid (st\<lparr>m_stripe_deleting_table := m_stripe_deleting_table st @ [sid]\<rparr>);
               blocks = filter (\<lambda>b. map2stripe b = sid) (stripe_blocks (stripe_at st sid))
           in map_option (\<lambda>(st, r). (st, Some r)) (send_delete st pick blocks (delete_request st blocks (int sid) '''')))"

definition listStripes :: "coordinator \<Rightarrow> nat list" where
  "listStripes st = map fst (m_stripe_table st)"

section \<open>The commit protocol\<close>

definition default_object :: ObjectInfo where
  "default_object = \<lparr>object_size = 0, map2stripe_of = 0\<rparr>"

definition commit_object :: "string \<Rightarrow> coordinator \<Rightarrow> coordinator" where
  "commit_object key st =
     st\<lparr>m_object_commit_table := (m_object_commit_table st)(key \<mapsto>
          (case m_object_updating_table st key of None \<Rightarrow> default_object | Some v \<Rightarrow> v)),
        m_object_updating_table := (m_object_updating_table st)(key := None)\<rparr>"

text \<open>The blocks of \<open>key\<close> leave the cluster, each with an update of its node.\<close>

definition drop_key_blocks :: "string \<Rightarrow> int \<Rightarrow> coordinator \<Rightarrow> coordinator" where
  "drop_key_blocks key cid st =
     (let cl = cluster_at st cid;
          st = fold (\<lambda>b. count_stripe_in_node False (map2node b) (map2stripe b)) (filter (\<lambda>b. map2key b = key) (cl_blocks cl)) st
      in set_cluster cid (cl\<lparr>cl_blocks := filter (\<lambda>b. map2key b \<noteq> key) (cl_blocks cl)\<rparr>) st)"

definition commit_delete_key :: "string \<Rightarrow> coordinator \<Rightarrow> coordinator" where
  "commit_delete_key key st =
     (case m_object_commit_table st key of None \<Rightarrow> st
      | Some object_info \<Rightarrow>
          let sid = map2stripe_of object_info;
              st = st\<lparr>m_object_commit_table := (m_object_commit_table st)(key := None),
                      m_object_updating_table := (m_object_updating_table st)(key := None)\<rparr>;
              stripe = (stripe_at st sid)\<lparr>stripe_blocks := filter (\<lambda>b. map2key b \<noteq> key) (stripe_blocks (stripe_at st sid))\<rparr>;
              st = st\<lparr>m_stripe_table := (if stripe_blocks stripe = [] then tbl_erase sid (m_stripe_table st)
                                         else tbl_set sid stripe (m_stripe_table st))\<rparr>
          in fold (drop_key_blocks key) (map fst (m_cluster_table st)) st)"

definition commit_delete_stripe :: "nat \<Rightarrow> coordinator \<Rightarrow> coordinator" where
  "commit_delete_stripe sid st =
     (let object_keys_set = map map2key (filter (\<lambda>b. map2stripe b = sid) (concat (map (\<lambda>(_, cl). cl_blocks cl) (m_cluster_table st))))
      in st\<lparr>m_stripe_deleting_table := remove1 sid (m_stripe_deleting_table st),
            m_stripe_table := tbl_erase sid (m_stripe_table st),
            m_cluster_table := map (\<lambda>(c, cl). (c, cl\<lparr>cl_blocks := filter (\<lambda>b. map2stripe b \<noteq> sid) (cl_blocks cl)\<rparr>)) (m_cluster_table st),
            m_node_table := map (\<lambda>(v, nd). (v, nd\<lparr>nd_stripes := (nd_stripes nd)(sid := None)\<rparr>)) (m_node_table st),
            m_object_commit_table := (\<lambda>key. if key \<in> set object_keys_set then None else m_object_commit_table st key)\<rparr>)"

definition reportCommitAbort :: "string \<Rightarrow> OpperateType \<Rightarrow> int \<Rightarrow> bool \<Rightarrow> coordinator \<Rightarrow> coordinator option" where
  "reportCommitAbort key opp sid ifcommitmetadata st =
     (if m_mutex_held st then None
      else Some (if ifcommitmetadata
        then if opp = SET \<or> opp = APPEND then commit_object key st
             else if opp = DEL
             then if sid < 0 then commit_delete_key key st else commit_delete_stripe (nat sid) st
             else st
        else st\<lparr>m_object_updating_table := (m_object_updating_table st)(key := None)\<rparr>))"

text \<open>The answer, or \<^const>\<open>None\<close> while the handler waits.\<close>

definition checkCommitAbort :: "string \<Rightarrow> OpperateType \<Rightarrow> int \<Rightarrow> coordinator \<Rightarrow> bool option" where
  "checkCommitAbort key opp sid st =
     (if m_mutex_held st
         \<or> ((opp = SET \<or> opp = APPEND) \<and> m_object_updating_table st key \<noteq> None)
         \<or> (opp = DEL \<and> sid < 0 \<and> m_object_commit_table st key \<noteq> None)
         \<or> (opp = DEL \<and> sid \<ge> 0 \<and> nat sid \<in> set (m_stripe_deleting_table st))
      then None else Some (m_object_commit_table st key \<noteq> None))"

end
