(* ===== verification/PlacementFrame.thy ===== *)
theory PlacementFrame
  imports Service
begin

text \<open>
  What the placement of a stripe leaves unchanged: the topology, the bookkeeping tables, the entries of other stripes,
  and the blocks already entered in the clusters.
\<close>

section \<open>What a placement changes\<close>

lemma fold_option_invar:
  assumes "fold_option f xs s = Some s'" "I s" "\<And>x s s'. x \<in> set xs \<Longrightarrow> I s \<Longrightarrow> f x s = Some s' \<Longrightarrow> I s'"
  shows "I s'"
  using assms
proof (induction xs arbitrary: s)
  case (Cons x xs)
  from Cons.prems(1) obtain t where t: "f x s = Some t" "fold_option f xs t = Some s'" by (auto split: option.splits)
  show ?case
  proof (rule Cons.IH [OF t(2)])
    show "I t" by (rule Cons.prems(3) [OF _ Cons.prems(2) t(1)]) simp
    show "I w'" if "y \<in> set xs" "I w" "f y w = Some w'" for y w w' using Cons.prems(3) that by (meson list.set_intros(2))
  qed
qed simp

text \<open>The nodes are numbered from zero, and the clusters list only such nodes.\<close>

definition topology_ok :: "nat \<Rightarrow> coordinator \<Rightarrow> bool" where
  "topology_ok N st \<longleftrightarrow> tables_ok st \<and> map fst (m_node_table st) = map int [0..<N]
     \<and> (\<forall>c. set (cl_nodes (cluster_at st c)) \<subseteq> int ` {..<N})"

lemma topology_nodes: "topology_ok N st \<Longrightarrow> fst ` set (m_node_table st) = int ` {..<N}"
  unfolding topology_ok_def by (metis atLeast0LessThan list.set_map set_upt)

lemma topology_cl_nodes: "topology_ok N st \<Longrightarrow> v \<in> set (cl_nodes (cluster_at st c)) \<Longrightarrow> v \<in> int ` {..<N}"
  unfolding topology_ok_def by blast

definition bookkeeping :: "coordinator \<Rightarrow> (nat \<times> Stripe) list \<times> nat \<times> (string \<Rightarrow> ObjectInfo option) \<times> (string \<Rightarrow> ObjectInfo option)
    \<times> nat list \<times> (string \<Rightarrow> StripeOffset option) \<times> bool" where
  "bookkeeping st = (m_stripe_table st, m_cur_stripe_id st, m_object_commit_table st, m_object_updating_table st,
     m_stripe_deleting_table st, m_cur_offset_table st, m_mutex_held st)"

definition placement_frame :: "nat \<Rightarrow> nat \<Rightarrow> coordinator \<Rightarrow> coordinator \<Rightarrow> bool" where
  "placement_frame N sid st st' \<longleftrightarrow> topology_ok N st'
     \<and> bookkeeping st' = bookkeeping st
     \<and> (\<forall>v s. s \<noteq> sid \<longrightarrow> nd_stripes (node_at st' v) s = nd_stripes (node_at st v) s)
     \<and> (\<forall>c. cl_nodes (cluster_at st' c) = cl_nodes (cluster_at st c))
     \<and> (\<forall>c. \<forall>b\<in>set (cl_blocks (cluster_at st' c)). b \<in> set (cl_blocks (cluster_at st c))
          \<or> (map2stripe b = sid \<and> map2node b \<in> int ` {..<N}))"

lemma placement_frame_refl: "topology_ok N st \<Longrightarrow> placement_frame N sid st st"
  by (simp add: placement_frame_def)

lemma update_enter_frame:
  assumes "placement_frame N sid st0 st" "update_stripe_info_in_node st v sid i = Some st1" "v \<in> int ` {..<N}"
    and "map2stripe b = sid" "map2node b = v"
  shows "placement_frame N sid st0 (enter_block c b sid st1)"
proof -
  have top: "topology_ok N st" using assms(1) by (simp add: placement_frame_def)
  then have ok: "tables_ok st" by (simp add: topology_ok_def)
  note u = update_stripe_info_inv [OF assms(2) ok]
  have keys: "map fst (m_node_table st1) = map fst (m_node_table st)"
    using u(5) topology_nodes [OF top] assms(3) by simp
  have same: "bookkeeping st1 = bookkeeping st"
    using assms(2) by (auto simp: update_stripe_info_in_node_def Let_def set_node_def bookkeeping_def split: if_splits)
  have nodes: "cl_nodes (cluster_at (enter_block c b sid st1) d) = cl_nodes (cluster_at st d)" for d
    using u(2,4) by (simp add: cluster_at_enter)
  have "topology_ok N (enter_block c b sid st1)"
    using top u(2) keys nodes by (simp add: topology_ok_def)
  moreover have "bookkeeping (enter_block c b sid st1) = bookkeeping st0"
    using assms(1) same by (simp add: placement_frame_def enter_block_def Let_def set_cluster_def bookkeeping_def)
  moreover have "nd_stripes (node_at (enter_block c b sid st1) w) s = nd_stripes (node_at st0 w) s" if "s \<noteq> sid" for w s
    using assms(1) u(3) [of w] that by (simp add: placement_frame_def)
  ultimately show ?thesis using assms nodes u(2,4)
    by (auto simp: placement_frame_def cluster_at_enter split: if_splits)
qed

lemma place_block_frame:
  assumes "placement_frame N sid st0 (fst s)" "stripe_id (snd s) = sid" "place_block cfg grp draws i s = Some s'"
  shows "placement_frame N sid st0 (fst s')" "stripe_id (snd s') = sid"
proof -
  obtain st stripe where s: "s = (st, stripe)" by (cases s)
  note sid = assms(2) [unfolded s snd_conv]
  from assms(3) obtain g v st1 where
      v: "randomly_select_a_node st ((int (sid mod ClusterNum cfg) + g) smod int (ClusterNum cfg)) sid (draws i) = Some v"
    and u: "update_stripe_info_in_node st v sid i = Some st1"
    and s': "fst s' = enter_block ((int (sid mod ClusterNum cfg) + g) smod int (ClusterNum cfg))
       (new_block cfg stripe g ((int (sid mod ClusterNum cfg) + g) smod int (ClusterNum cfg)) v i) sid st1" "stripe_id (snd s') = sid"
    using sid by (auto simp: place_block_def s Let_def split: option.splits)
  have "v \<in> int ` {..<N}"
  proof (rule topology_cl_nodes)
    show "topology_ok N st" using assms(1) by (simp add: placement_frame_def s)
  qed (rule conjunct2 [OF select_node_Some [OF v [unfolded randomly_select_a_node_def]]])
  then show "placement_frame N sid st0 (fst s')"
    unfolding s' using assms(1) u sid s by (intro update_enter_frame [where st = st]) (simp_all add: new_block_def Let_def)
  show "stripe_id (snd s') = sid" by (rule s'(2))
qed

lemma place_by_group_frame:
  assumes "place_by_group cfg grp draws stripe st = Some (st', stripe')" "topology_ok N st"
  shows "placement_frame N (stripe_id stripe) st st'" "stripe_id stripe' = stripe_id stripe"
proof -
  from assms(1) obtain stripe1 where
      f: "fold_option (place_block cfg grp draws) [0..<stripe_n stripe] (st, stripe) = Some (st', stripe1)"
    and s1: "stripe' = stripe1\<lparr>num_groups := length (group_to_blocks stripe1)\<rparr>"
    by (auto simp: place_by_group_def split: if_splits)
  have "placement_frame N (stripe_id stripe) st (fst (st', stripe1)) \<and> stripe_id (snd (st', stripe1)) = stripe_id stripe"
  proof (rule fold_option_invar [OF f])
    show "placement_frame N (stripe_id stripe) st (fst (st, stripe)) \<and> stripe_id (snd (st, stripe)) = stripe_id stripe"
      using placement_frame_refl [OF assms(2)] by simp
  qed (use place_block_frame in blast)
  then show "placement_frame N (stripe_id stripe) st st'" "stripe_id stripe' = stripe_id stripe" using s1 by simp_all
qed

lemma glrc_ring_step_frame:
  assumes "placement_frame N sid st0 (fst s)" "\<forall>b\<in>set (fst (snd s)). map2stripe b = sid" "length (fst (snd s)) = n"
    and "glrc_ring_step ring all_nodes n sid j s = Some s'" "set all_nodes \<subseteq> int ` {..<N}" "length all_nodes = n" "j < n" "ring ! j < n"
  shows "placement_frame N sid st0 (fst s')" "\<forall>b\<in>set (fst (snd s')). map2stripe b = sid" "length (fst (snd s')) = n"
proof -
  obtain st blocks clusters where s: "s = (st, blocks, clusters)" by (cases s)
  let ?v = "all_nodes ! ((j + sid) mod n)"
  let ?b = "(blocks ! (ring ! j))\<lparr>map2node := ?v, map2cluster := nd_cluster (node_at st ?v)\<rparr>"
  from assms(4) obtain st1 where u: "update_stripe_info_in_node st ?v sid (ring ! j) = Some st1"
    and s': "s' = (enter_block (nd_cluster (node_at st ?v)) ?b sid st1, blocks[ring ! j := ?b],
      insert (nd_cluster (node_at st ?v)) clusters)"
    by (auto simp: glrc_ring_step_def s Let_def split: option.splits)
  have v: "?v \<in> int ` {..<N}" 
    by (rule subsetD [OF assms(5) nth_mem]) (use assms(6,7) in simp)
  have b: "map2stripe ?b = sid" using assms(2,3,8) by (simp add: s)
  show "placement_frame N sid st0 (fst s')"
    unfolding s' fst_conv using assms(1) u v b s by (intro update_enter_frame [where st = st]) simp_all
  show "\<forall>b\<in>set (fst (snd s')). map2stripe b = sid" "length (fst (snd s')) = n"
    using assms(2,3) b set_update_subset_insert [of blocks "ring ! j" ?b] by (auto simp: s s')
qed

lemma glrc_placement_frame:
  assumes "initialize_glrc_stripe_placement cfg stripe st = Some (st', stripe')" "topology_ok N st"
  shows "placement_frame N (stripe_id stripe) st st'" "stripe_id stripe' = stripe_id stripe"
proof -
  let ?n = "stripe_n stripe" and ?k = "stripe_k stripe" and ?r = "stripe_r stripe" and ?z = "stripe_z stripe" and ?sid = "stripe_id stripe"
  let ?blocks = "map (\<lambda>i. new_block cfg stripe (glrc_block_group ?k ?r ?z i) (- 1) (- 1) i) [0..<?n]"
  let ?ring = "concat (glrc_build_placement_groups ?k ?r ?z)"
  from assms(1) obtain blocks clusters where
      f: "fold_option (glrc_ring_step ?ring (map fst (m_node_table st)) ?n ?sid) [0..<?n] (st, ?blocks, place2clusters stripe)
        = Some (st', blocks, clusters)"
    and len: "length (m_node_table st) = ?n" "length ?ring = ?n" "length (glrc_build_placement_groups ?k ?r ?z) = ?z"
    and s': "stripe_id stripe' = ?sid"
    by (auto simp: initialize_glrc_stripe_placement_def Let_def split: if_splits option.splits)
  have ring: "?ring ! j < ?n" if "j < ?n" for j
  proof -
    have z: "0 < ?z" using len(2,3) that by (cases "?z = 0") (simp_all add: glrc_build_placement_groups_def)
    have "?ring ! j \<in> {..<?n}"
      using nth_mem [of j ?ring] len(2) that length_ring [OF z, of ?k ?r] set_ring [OF z, of ?k ?r] by (simp only:)
    then show ?thesis by simp
  qed
  let ?I = "\<lambda>s. placement_frame N ?sid st (fst s) \<and> (\<forall>b\<in>set (fst (snd s)). map2stripe b = ?sid) \<and> length (fst (snd s)) = ?n"
  have "?I (st', blocks, clusters)"
  proof (rule fold_option_invar [OF f])
    show "?I (st, ?blocks, place2clusters stripe)" using placement_frame_refl [OF assms(2)] by (auto simp: new_block_def Let_def)
    fix j s s' assume "j \<in> set [0..<?n]" "?I s" "glrc_ring_step ?ring (map fst (m_node_table st)) ?n ?sid j s = Some s'"
    then show "?I s'" using glrc_ring_step_frame [of N ?sid st s ?n ?ring "map fst (m_node_table st)" j s'] ring len(1)
        topology_nodes [OF assms(2)] by simp
  qed
  then show "placement_frame N ?sid st st'" "stripe_id stripe' = ?sid" using s' by simp_all
qed

lemma place_stripe_frame:
  assumes "place_stripe cfg draws stripe st = Some (st', stripe')" "topology_ok N st"
  shows "placement_frame N (stripe_id stripe) st st'" "stripe_id stripe' = stripe_id stripe"
  using assms place_by_group_frame glrc_placement_frame placement_frame_refl
  by (auto simp: place_stripe_def Let_def initialize_optimal_lrc_stripe_placement_def initialize_uniform_lrc_stripe_placement_def
      initialize_unilrc_and_azurelrc_stripe_placement_def split: if_splits)

end
