(* ===== verification/ServiceInv.thy ===== *)
theory ServiceInv
  imports PlacementFrame
begin

text \<open>
  The invariant of the coordinator's metadata: uploads, deletions and the commit protocol keep it, and the state that
  loading the cluster description yields has it.  \<open>service_step\<close> is one request, \<open>service_reachable\<close> the states
  that requests lead to.
\<close>

section \<open>The invariant\<close>

text \<open>Every stripe number in the metadata is below \<open>cur\<close>; \<open>cap\<close> is the number of data bytes of a stripe.\<close>

definition offsets_ok :: "nat \<Rightarrow> nat \<Rightarrow> (string \<Rightarrow> StripeOffset option) \<Rightarrow> bool" where
  "offsets_ok cap cur offs \<longleftrightarrow>
     (\<forall>c so. offs c = Some so \<longrightarrow> so_stripe_id so < cur \<and> (so_offset so = 0 \<or> so_offset so < cap))
     \<and> (\<forall>c c' so so'. offs c = Some so \<and> offs c' = Some so' \<and> so_stripe_id so = so_stripe_id so' \<longrightarrow> c = c')"

definition meta_inv :: "nat \<Rightarrow> nat \<Rightarrow> nat \<Rightarrow> coordinator \<Rightarrow> bool" where
  "meta_inv N cap cur st \<longleftrightarrow> topology_ok N st
     \<and> (\<forall>v s. nd_stripes (node_at st v) s \<noteq> None \<longrightarrow> s < cur)
     \<and> (\<forall>c. \<forall>b\<in>set (cl_blocks (cluster_at st c)). map2stripe b < cur \<and> map2node b \<in> int ` {..<N})
     \<and> (\<forall>e\<in>set (m_stripe_table st). fst e < cur \<and> stripe_id (snd e) < cur)
     \<and> (\<forall>obj\<in>ran (m_object_commit_table st) \<union> ran (m_object_updating_table st). map2stripe_of obj < cur)
     \<and> offsets_ok cap cur (m_cur_offset_table st)"

definition service_inv :: "SysConfig \<Rightarrow> nat \<Rightarrow> coordinator \<Rightarrow> bool" where
  "service_inv cfg N st \<longleftrightarrow> meta_inv N (BlockSize cfg * cfg_k cfg) (m_cur_stripe_id st) st"

lemma offsets_ok_mono: "offsets_ok cap cur offs \<Longrightarrow> cur \<le> cur' \<Longrightarrow> offsets_ok cap cur' offs"
  by (fastforce simp: offsets_ok_def)

lemma meta_inv_mono:
  assumes "meta_inv N cap cur st" "cur \<le> cur'"
  shows "meta_inv N cap cur' st"
proof -
  have less: "s < cur'" if "s < cur" for s using that assms(2) by simp
  show ?thesis using assms(1) offsets_ok_mono [OF _ assms(2)] unfolding meta_inv_def by (blast intro: less)
qed

text \<open>Fields outside the node, cluster and stripe tables do not affect what the tables say.\<close>

lemma tables_frame [simp]:
  "node_at (st\<lparr>m_stripe_table := a\<rparr>) v = node_at st v" "cluster_at (st\<lparr>m_stripe_table := a\<rparr>) c = cluster_at st c"
  "node_at (st\<lparr>m_object_commit_table := b\<rparr>) v = node_at st v" "cluster_at (st\<lparr>m_object_commit_table := b\<rparr>) c = cluster_at st c"
  "node_at (st\<lparr>m_object_updating_table := b\<rparr>) v = node_at st v" "cluster_at (st\<lparr>m_object_updating_table := b\<rparr>) c = cluster_at st c"
  "node_at (st\<lparr>m_cur_offset_table := d\<rparr>) v = node_at st v" "cluster_at (st\<lparr>m_cur_offset_table := d\<rparr>) c = cluster_at st c"
  "node_at (st\<lparr>m_cur_stripe_id := e\<rparr>) v = node_at st v" "cluster_at (st\<lparr>m_cur_stripe_id := e\<rparr>) c = cluster_at st c"
  "node_at (st\<lparr>m_stripe_deleting_table := f\<rparr>) v = node_at st v" "cluster_at (st\<lparr>m_stripe_deleting_table := f\<rparr>) c = cluster_at st c"
  "node_at (st\<lparr>m_num_of_Clusters := h\<rparr>) v = node_at st v" "cluster_at (st\<lparr>m_num_of_Clusters := h\<rparr>) c = cluster_at st c"
  "node_at (st\<lparr>m_mutex_held := g\<rparr>) v = node_at st v" "cluster_at (st\<lparr>m_mutex_held := g\<rparr>) c = cluster_at st c"
  by (simp_all add: node_at_def cluster_at_def)

lemma topology_frame [simp]:
  "topology_ok N (st\<lparr>m_object_commit_table := b\<rparr>) = topology_ok N st" "topology_ok N (st\<lparr>m_object_updating_table := b\<rparr>) = topology_ok N st"
  "topology_ok N (st\<lparr>m_cur_offset_table := d\<rparr>) = topology_ok N st" "topology_ok N (st\<lparr>m_cur_stripe_id := e\<rparr>) = topology_ok N st"
  "topology_ok N (st\<lparr>m_stripe_deleting_table := f\<rparr>) = topology_ok N st" "topology_ok N (st\<lparr>m_mutex_held := g\<rparr>) = topology_ok N st"
  "topology_ok N (st\<lparr>m_num_of_Clusters := h\<rparr>) = topology_ok N st"
  by (simp_all add: topology_ok_def tables_ok_def)

lemma meta_inv_frame [simp]:
  "meta_inv N cap cur (st\<lparr>m_cur_stripe_id := e\<rparr>) = meta_inv N cap cur st"
  "meta_inv N cap cur (st\<lparr>m_stripe_deleting_table := f\<rparr>) = meta_inv N cap cur st"
  "meta_inv N cap cur (st\<lparr>m_mutex_held := g\<rparr>) = meta_inv N cap cur st"
  by (simp_all add: meta_inv_def)

lemma frame_inv:
  assumes "meta_inv N cap cur st" "placement_frame N sid st st'" "sid < cur"
  shows "meta_inv N cap cur st'"
proof -
  have "m_stripe_table st' = m_stripe_table st" "m_object_commit_table st' = m_object_commit_table st"
    "m_object_updating_table st' = m_object_updating_table st" "m_cur_offset_table st' = m_cur_offset_table st"
    using assms(2) by (simp_all add: placement_frame_def bookkeeping_def)
  moreover have "s < cur" if "nd_stripes (node_at st' v) s \<noteq> None" for v s
    using assms that by (cases "s = sid") (auto simp: placement_frame_def meta_inv_def)
  moreover have "map2stripe b < cur \<and> map2node b \<in> int ` {..<N}" if "b \<in> set (cl_blocks (cluster_at st' c))" for b c
    using assms that unfolding placement_frame_def meta_inv_def by blast
  ultimately show ?thesis using assms by (simp add: meta_inv_def placement_frame_def)
qed

lemma stripe_table_inv:
  assumes "meta_inv N cap cur st" "sid < cur" "stripe_id s < cur"
  shows "meta_inv N cap cur (st\<lparr>m_stripe_table := tbl_set sid s (m_stripe_table st)\<rparr>)"
  using assms set_tbl_set [of sid s "m_stripe_table st"] tbl_ok_set [of "m_stripe_table st" sid s]
  by (auto simp: meta_inv_def topology_ok_def tables_ok_def)

lemma stripe_erase_inv:
  assumes "meta_inv N cap cur st"
  shows "meta_inv N cap cur (st\<lparr>m_stripe_table := tbl_erase sid (m_stripe_table st)\<rparr>)"
  using assms tbl_ok_erase [of "m_stripe_table st" sid]
  by (auto simp: meta_inv_def topology_ok_def tables_ok_def tbl_erase_def)

lemma commit_inv:
  assumes "meta_inv N cap cur st" "ran m \<subseteq> ran (m_object_commit_table st) \<union> ran (m_object_updating_table st)"
  shows "meta_inv N cap cur (st\<lparr>m_object_commit_table := m\<rparr>)"
  using assms by (auto simp: meta_inv_def)

lemma updating_inv:
  assumes "meta_inv N cap cur st" "\<forall>obj\<in>ran m. map2stripe_of obj < cur"
  shows "meta_inv N cap cur (st\<lparr>m_object_updating_table := m\<rparr>)"
  using assms by (auto simp: meta_inv_def)

section \<open>Uploads keep the invariant\<close>

lemma notify_simps:
  "m_object_updating_table (fst (notify_proxies_ready plan att st)) = (m_object_updating_table st)(plan_key plan :=
     (if list_ex id (take 3 att) then Some \<lparr>object_size = append_size plan, map2stripe_of = plan_stripe_id plan\<rparr> else None))"
  "fst (notify_proxies_ready plan att st) = st\<lparr>m_object_updating_table := m_object_updating_table (fst (notify_proxies_ready plan att st))\<rparr>"
  "snd (notify_proxies_ready plan att st) = list_ex id (take 3 att)"
  by (simp_all add: notify_proxies_ready_def Let_def)

lemma ran_update: "ran (m(k := x)) \<subseteq> ran m \<union> set_option x"
  by (auto simp: ran_def split: if_splits)

lemma notify_inv:
  assumes "meta_inv N cap cur st" "plan_stripe_id plan < cur"
  shows "meta_inv N cap cur (fst (notify_proxies_ready plan att st))"
proof (subst notify_simps(2), rule updating_inv [OF assms(1)])
  show "\<forall>obj\<in>ran (m_object_updating_table (fst (notify_proxies_ready plan att st))). map2stripe_of obj < cur"
    using assms by (force simp: notify_simps(1) meta_inv_def ran_def split: if_splits)
qed

text \<open>Scheduling the plans writes the two object tables only.\<close>

definition layout_of :: "coordinator \<Rightarrow> (int \<times> Node) list \<times> (int \<times> Cluster) list \<times> (nat \<times> Stripe) list \<times> nat
    \<times> nat list \<times> (string \<Rightarrow> StripeOffset option) \<times> bool" where
  "layout_of st = (m_node_table st, m_cluster_table st, m_stripe_table st, m_cur_stripe_id st, m_stripe_deleting_table st,
     m_cur_offset_table st, m_mutex_held st)"

lemma notify_layout: "layout_of (fst (notify_proxies_ready plan att st)) = layout_of st"
  by (simp add: notify_proxies_ready_def Let_def layout_of_def)

lemma fst_notify_step: "fst (notify_step plans att i s) = fst (notify_proxies_ready (plans ! i) (att i) (fst s))"
  by (simp add: notify_step_def case_prod_beta Let_def)

lemma notify_fold:
  assumes "meta_inv N cap cur (fst s)" "\<forall>p\<in>set plans. plan_stripe_id p < cur" "set is \<subseteq> {..<length plans}"
  shows "meta_inv N cap cur (fst (fold (notify_step plans att) is s))
    \<and> layout_of (fst (fold (notify_step plans att) is s)) = layout_of (fst s)"
  using assms(1,3)
proof (induction "is" arbitrary: s)
  case (Cons i "is")
  have "meta_inv N cap cur (fst (notify_step plans att i s))"
    using Cons.prems assms(2) unfolding fst_notify_step by (intro notify_inv) auto
  from Cons.IH [OF this] show ?case using Cons.prems by (simp add: fst_notify_step notify_layout)
qed simp

lemma fold_erase_ran: "ran (fold (\<lambda>p m. m(plan_key p := None)) plans m) \<subseteq> ran m"
proof (induction plans arbitrary: m)
  case (Cons p plans)
  have "ran (m(plan_key p := None)) \<subseteq> ran m" using ran_update [of m "plan_key p" None] by (simp only: option.set Un_empty_right)
  with Cons [of "m(plan_key p := None)"] show ?case by (simp only: fold.simps comp_apply)
qed simp

lemma upload_plans_inv:
  assumes "upload_plans plans att st = Some (st', ready, reply)" "meta_inv N cap cur st" "\<forall>p\<in>set plans. plan_stripe_id p < cur"
  shows "meta_inv N cap cur st'" "layout_of st' = layout_of st"
proof -
  let ?st = "st\<lparr>m_object_commit_table := fold (\<lambda>p m. m(plan_key p := None)) plans (m_object_commit_table st)\<rparr>"
  have inv: "meta_inv N cap cur (fst (?st, True))" 
    unfolding fst_conv by (rule commit_inv [OF assms(2) subset_trans [OF fold_erase_ran Un_upper1]])
  have st': "st' = fst (fold (notify_step plans att) [0..<length plans] (?st, True))"
    using assms(1) by (auto simp: upload_plans_def Let_def case_prod_beta split: if_splits)
  have sub: "set [0..<length plans] \<subseteq> {..<length plans}" by auto
  show "meta_inv N cap cur st'" "layout_of st' = layout_of st"
    unfolding st' using notify_fold [OF inv assms(3) sub] by (simp_all add: layout_of_def)
qed

lemma add_plans_stripe_id:
  "p \<in> set (generate_add_plans cfg st stripe) \<Longrightarrow> plan_stripe_id p = stripe_id stripe"
  "p \<in> set (generate_sub_add_plans cfg st stripe nbytes) \<Longrightarrow> plan_stripe_id p = stripe_id stripe"
  "p \<in> set (the (generateAppendPlan cfg st stripe o0 a)) \<Longrightarrow> generateAppendPlan cfg st stripe o0 a \<noteq> None \<Longrightarrow> plan_stripe_id p = stripe_id stripe"
  by (auto simp: generate_add_plans_def generate_sub_add_plans_def generateAppendPlan_def append_plan_def Let_def fold_add_stripe_block
      split: if_splits option.splits)

lemma upload_stripe_inv:
  assumes "upload_stripe cfg plans_of draws att key st = Some (st', status, reply)" "service_inv cfg N st"
    and "\<And>st stripe p. p \<in> set (plans_of st stripe) \<Longrightarrow> plan_stripe_id p = stripe_id stripe"
  shows "service_inv cfg N st'"
proof -
  let ?sid = "m_cur_stripe_id st" and ?st = "st\<lparr>m_cur_stripe_id := m_cur_stripe_id st + 1\<rparr>" and ?cap = "BlockSize cfg * cfg_k cfg"
  from assms(1) obtain st1 stripe st2 ready where
      p: "place_stripe cfg draws (new_stripe cfg ?sid key) ?st = Some (st1, stripe)"
    and u: "upload_plans (plans_of st1 stripe) att st1 = Some (st2, ready, reply)"
    and s': "st' = (if ready then st2\<lparr>m_stripe_table := tbl_set ?sid stripe (m_stripe_table st2)\<rparr> else st2)"
    by (auto simp: upload_stripe_def Let_def split: option.splits if_splits)
  have inv: "meta_inv N ?cap (?sid + 1) ?st"
    using assms(2) meta_inv_mono [of N ?cap ?sid ?st "?sid + 1"] by (simp add: service_inv_def)
  note f = place_stripe_frame [OF p, of N]
  have top: "topology_ok N ?st" using inv by (simp add: meta_inv_def)
  have id: "stripe_id stripe = ?sid" using f(2) [OF top] by (simp add: new_stripe_def)
  have inv1: "meta_inv N ?cap (?sid + 1) st1"
    using frame_inv [OF inv f(1) [OF top]] by (simp add: new_stripe_def)
  note i2 = upload_plans_inv [OF u inv1]
  have inv2: "meta_inv N ?cap (?sid + 1) st2" "layout_of st2 = layout_of st1" using i2 assms(3) id by auto
  have "m_cur_stripe_id st1 = ?sid + 1" using f(1) [OF top] by (simp add: placement_frame_def bookkeeping_def)
  then have "m_cur_stripe_id st2 = ?sid + 1" using inv2(2) by (simp add: layout_of_def)
  then show ?thesis using inv2(1) stripe_table_inv [OF inv2(1), of ?sid stripe] id by (simp add: s' service_inv_def)
qed

lemma open_offset_inv:
  assumes "service_inv cfg N st"
  shows "service_inv cfg N (open_offset key st)" "m_cur_offset_table (open_offset key st) key \<noteq> None"
proof -
  let ?cap = "BlockSize cfg * cfg_k cfg" and ?cur = "m_cur_stripe_id st"
  let ?offs = "(m_cur_offset_table st)(key \<mapsto> \<lparr>so_stripe_id = ?cur, so_offset = 0\<rparr>)"
  have inv: "meta_inv N ?cap ?cur st" using assms by (simp add: service_inv_def)
  have old: "offsets_ok ?cap ?cur (m_cur_offset_table st)" using inv by (simp add: meta_inv_def)
  then have less: "so_stripe_id so < ?cur" if "m_cur_offset_table st c = Some so" for c so
    using that by (simp add: offsets_ok_def)
  have "so_stripe_id so \<noteq> ?cur" if "m_cur_offset_table st c = Some so" for c so using less [OF that] by simp
  then have "offsets_ok ?cap (?cur + 1) ?offs"
    using old offsets_ok_mono [OF old, of "?cur + 1"] unfolding offsets_ok_def by (auto split: if_splits dest: less)
  then have "meta_inv N ?cap (?cur + 1) (st\<lparr>m_cur_offset_table := ?offs\<rparr>)"
    using meta_inv_mono [OF inv, of "?cur + 1"] by (simp add: meta_inv_def)
  then show "service_inv cfg N (open_offset key st)" using assms by (auto simp: open_offset_def service_inv_def)
  show "m_cur_offset_table (open_offset key st) key \<noteq> None" by (simp add: open_offset_def)
qed

lemma stripe_at_bound:
  assumes "meta_inv N cap cur st" "0 < cur"
  shows "stripe_id (stripe_at st sid) < cur"
proof (cases "map_of (m_stripe_table st) sid")
  case (Some s)
  then show ?thesis using assms(1) map_of_SomeD [OF Some] by (auto simp: stripe_at_def tbl_get_def meta_inv_def)
qed (use assms(2) in \<open>simp add: stripe_at_def tbl_get_def default_stripe_def\<close>)

lemma append_stripe_inv:
  assumes "append_stripe cfg draws key cur st = Some st'" "meta_inv N cap m st" "so_stripe_id cur < m"
  shows "meta_inv N cap m st'" "m_cur_offset_table st' = m_cur_offset_table st" "m_cur_stripe_id st' = m_cur_stripe_id st"
proof -
  let ?sid = "so_stripe_id cur"
  have top: "topology_ok N st" using assms(2) by (simp add: meta_inv_def)
  show "meta_inv N cap m st'" "m_cur_offset_table st' = m_cur_offset_table st" "m_cur_stripe_id st' = m_cur_stripe_id st"
  proof (atomize (full), cases "so_offset cur = 0")
    case True
    with assms(1) obtain st1 stripe where
        p: "initialize_unilrc_and_azurelrc_stripe_placement cfg draws (new_stripe cfg ?sid key) st = Some (st1, stripe)"
      and s': "st' = st1\<lparr>m_stripe_table := tbl_set ?sid stripe (m_stripe_table st1)\<rparr>"
      by (auto simp: append_stripe_def)
    note f = place_by_group_frame [OF p [unfolded initialize_unilrc_and_azurelrc_stripe_placement_def] top]
    have id: "stripe_id (new_stripe cfg ?sid key) = ?sid" by (simp add: new_stripe_def)
    have "meta_inv N cap m st1" using frame_inv [OF assms(2) f(1)] assms(3) by (simp add: id)
    then show "meta_inv N cap m st' \<and> m_cur_offset_table st' = m_cur_offset_table st \<and> m_cur_stripe_id st' = m_cur_stripe_id st"
      using stripe_table_inv [of N cap m st1 ?sid stripe] f assms(3) id
      by (simp add: s' placement_frame_def bookkeeping_def)
  next
    case False
    then have s': "st' = touch_stripe ?sid st" using assms(1) by (simp add: append_stripe_def)
    then show "meta_inv N cap m st' \<and> m_cur_offset_table st' = m_cur_offset_table st \<and> m_cur_stripe_id st' = m_cur_stripe_id st"
      using stripe_table_inv [OF assms(2,3)] stripe_at_bound [OF assms(2)] assms(3) by (simp add: touch_stripe_def)
  qed
qed

lemma advance_offset_inv:
  assumes "meta_inv N (BlockSize cfg * cfg_k cfg) m st" "m_cur_offset_table st key = Some cur"
    and "so_offset cur + a \<le> BlockSize cfg * cfg_k cfg"
  shows "meta_inv N (BlockSize cfg * cfg_k cfg) m (advance_offset cfg key cur a st)"
proof -
  let ?offs = "(m_cur_offset_table st)(key := (if so_offset cur + a = BlockSize cfg * cfg_k cfg then None
    else Some (cur\<lparr>so_offset := so_offset cur + a\<rparr>)))"
  have "offsets_ok (BlockSize cfg * cfg_k cfg) m (m_cur_offset_table st)" using assms(1) by (simp add: meta_inv_def)
  then have "offsets_ok (BlockSize cfg * cfg_k cfg) m ?offs"
    using assms(2,3) unfolding offsets_ok_def by (auto split: if_splits)
  then show ?thesis using assms(1) by (simp add: meta_inv_def advance_offset_def Let_def)
qed

lemma uploadAppendValue_inv:
  assumes "uploadAppendValue cfg draws att key a st = Some (st', status, reply)" "service_inv cfg N st"
  shows "service_inv cfg N st'"
proof -
  let ?cap = "BlockSize cfg * cfg_k cfg" and ?st = "open_offset key st"
  obtain cur where cur: "m_cur_offset_table ?st key = Some cur" using open_offset_inv(2) [OF assms(2)] by blast
  let ?m = "m_cur_stripe_id ?st"
  have inv: "meta_inv N ?cap ?m ?st" using open_offset_inv(1) [OF assms(2)] by (simp add: service_inv_def)
  then have less: "so_stripe_id cur < ?m" using cur by (simp add: meta_inv_def offsets_ok_def)
  from assms(1) cur obtain st1 plans where fit: "so_offset cur + a \<le> ?cap"
    and s1: "append_stripe cfg draws key cur ?st = Some st1"
    and pl: "generateAppendPlan cfg st1 (stripe_at st1 (so_stripe_id cur)) (so_offset cur) a = Some plans"
    and rest: "(if plans = [] then Some (st1, INVALID_ARGUMENT, upload_reply st1 [] 0)
       else (case upload_plans plans att st1 of None \<Rightarrow> None
         | Some (st, ready, reply) \<Rightarrow> Some (if ready then (advance_offset cfg key cur a st, OK, reply) else (st, UNAVAILABLE, reply))))
       = Some (st', status, reply)"
    by (auto simp: uploadAppendValue_def Let_def not_less split: option.splits if_splits)
  note i1 = append_stripe_inv [OF s1 inv less]
  have ids: "\<forall>p\<in>set plans. plan_stripe_id p < ?m"
    using add_plans_stripe_id(3) [of _ cfg st1 _ "so_offset cur" a] pl stripe_at_bound [OF i1(1)] less by force
  show ?thesis
  proof (cases "plans = []")
    case True
    then show ?thesis using rest i1 by (simp add: service_inv_def)
  next
    case False
    with rest obtain st2 ready where u: "upload_plans plans att st1 = Some (st2, ready, reply)"
      and s': "st' = (if ready then advance_offset cfg key cur a st2 else st2)" by (auto split: option.splits if_splits)
    note i2 = upload_plans_inv [OF u i1(1) ids]
    have "m_cur_offset_table st2 key = Some cur" "m_cur_stripe_id st2 = ?m" using i2(2) i1(2,3) cur by (simp_all add: layout_of_def)
    then show ?thesis using advance_offset_inv [OF i2(1) _ fit] i2(1)
      by (simp add: s' service_inv_def) (simp add: advance_offset_def Let_def)
  qed
qed

section \<open>Deletion and the commit protocol keep the invariant\<close>

lemma topology_set_node:
  assumes "topology_ok N st" "v \<in> int ` {..<N}"
  shows "topology_ok N (set_node v nd st)"
proof -
  have ok: "tbl_ok (m_node_table st)" using assms(1) by (simp add: topology_ok_def tables_ok_def)
  have "map_of (m_node_table st) v \<noteq> None" using topology_nodes [OF assms(1)] assms(2) by (simp add: map_of_eq_None_iff)
  then have "map fst (m_node_table (set_node v nd st)) = map fst (m_node_table st)"
    using tbl.keys_update_present [OF ok] by (simp add: set_node_def)
  then show ?thesis using assms(1) by (simp add: topology_ok_def)
qed

lemma count_inv:
  assumes "meta_inv N cap cur st" "v \<in> int ` {..<N}" "s < cur"
  shows "meta_inv N cap cur (count_stripe_in_node f v s st)"
proof -
  obtain nd where nd: "count_stripe_in_node f v s st = set_node v nd st"
      "\<And>t. t \<noteq> s \<Longrightarrow> nd_stripes nd t = nd_stripes (node_at st v) t"
    unfolding count_stripe_in_node_def Let_def by fastforce
  have ok: "tables_ok st" using assms(1) by (simp add: meta_inv_def topology_ok_def)
  have less: "t < cur" if "nd_stripes (node_at (set_node v nd st) w) t \<noteq> None" for w t
    using assms(1,3) that nd(2) [of t] ok unfolding meta_inv_def by (cases "t = s") (auto split: if_splits)
  have "m_object_commit_table (set_node v nd st) = m_object_commit_table st"
    "m_object_updating_table (set_node v nd st) = m_object_updating_table st"
    "m_cur_offset_table (set_node v nd st) = m_cur_offset_table st" by (simp_all add: set_node_def)
  then show ?thesis using assms(1) topology_set_node [OF _ assms(2)] less unfolding nd(1) by (simp add: meta_inv_def)
qed

lemma set_cluster_inv:
  assumes "meta_inv N cap cur st" "cl_nodes cl = cl_nodes (cluster_at st c)" "set (cl_blocks cl) \<subseteq> set (cl_blocks (cluster_at st c))"
  shows "meta_inv N cap cur (set_cluster c cl st)"
proof -
  have ok: "tables_ok st" using assms(1) by (simp add: meta_inv_def topology_ok_def)
  have top: "topology_ok N (set_cluster c cl st)" using assms(1,2) ok by (auto simp: meta_inv_def topology_ok_def)
  have blocks: "map2stripe b < cur \<and> map2node b \<in> int ` {..<N}" if "b \<in> set (cl_blocks (cluster_at (set_cluster c cl st) d))" for b d
  proof -
    have "b \<in> set (cl_blocks (cluster_at st d))" using that ok assms(3) by (auto split: if_splits)
    then show ?thesis using assms(1) unfolding meta_inv_def by blast
  qed
  have "m_object_commit_table (set_cluster c cl st) = m_object_commit_table st"
    "m_object_updating_table (set_cluster c cl st) = m_object_updating_table st"
    "m_cur_offset_table (set_cluster c cl st) = m_cur_offset_table st" by (simp_all add: set_cluster_def)
  then show ?thesis using assms(1) top blocks by (simp add: meta_inv_def)
qed

lemma count_fold_inv:
  assumes "meta_inv N cap cur st" "\<forall>b\<in>set bs. map2stripe b < cur \<and> map2node b \<in> int ` {..<N}"
  shows "meta_inv N cap cur (fold (\<lambda>b. count_stripe_in_node f (map2node b) (map2stripe b)) bs st)
    \<and> m_cluster_table (fold (\<lambda>b. count_stripe_in_node f (map2node b) (map2stripe b)) bs st) = m_cluster_table st
    \<and> m_cur_stripe_id (fold (\<lambda>b. count_stripe_in_node f (map2node b) (map2stripe b)) bs st) = m_cur_stripe_id st"
  using assms
proof (induction bs arbitrary: st)
  case (Cons b bs)
  have "meta_inv N cap cur (count_stripe_in_node f (map2node b) (map2stripe b) st)" using Cons.prems by (intro count_inv) auto
  from Cons.IH [OF this] show ?case using Cons.prems by (simp add: count_stripe_in_node_def set_node_def Let_def)
qed simp

lemma drop_key_blocks_inv:
  assumes "meta_inv N cap cur st"
  shows "meta_inv N cap cur (drop_key_blocks key c st)" "m_cur_stripe_id (drop_key_blocks key c st) = m_cur_stripe_id st"
proof -
  let ?bs = "filter (\<lambda>b. map2key b = key) (cl_blocks (cluster_at st c))"
  let ?st = "fold (\<lambda>b. count_stripe_in_node False (map2node b) (map2stripe b)) ?bs st"
  have "\<forall>b\<in>set ?bs. map2stripe b < cur \<and> map2node b \<in> int ` {..<N}" using assms unfolding meta_inv_def by auto
  note i = count_fold_inv [OF assms this, of False]
  then have "cluster_at ?st c = cluster_at st c" by (simp add: cluster_at_def)
  then show "meta_inv N cap cur (drop_key_blocks key c st)"
    unfolding drop_key_blocks_def Let_def using i by (intro set_cluster_inv) auto
  show "m_cur_stripe_id (drop_key_blocks key c st) = m_cur_stripe_id st"
    using i by (simp add: drop_key_blocks_def Let_def set_cluster_def)
qed

lemma drop_fold_inv:
  "meta_inv N cap cur st \<Longrightarrow> meta_inv N cap cur (fold (drop_key_blocks key) cs st)
     \<and> m_cur_stripe_id (fold (drop_key_blocks key) cs st) = m_cur_stripe_id st"
  by (induction cs arbitrary: st) (simp_all add: drop_key_blocks_inv)

lemma commit_delete_key_inv:
  assumes "service_inv cfg N st"
  shows "service_inv cfg N (commit_delete_key key st)"
proof (cases "m_object_commit_table st key")
  case (Some obj)
  let ?cap = "BlockSize cfg * cfg_k cfg" and ?cur = "m_cur_stripe_id st" and ?sid = "map2stripe_of obj"
  let ?st = "st\<lparr>m_object_commit_table := (m_object_commit_table st)(key := None),
    m_object_updating_table := (m_object_updating_table st)(key := None)\<rparr>"
  let ?stripe = "(stripe_at st ?sid)\<lparr>stripe_blocks := filter (\<lambda>b. map2key b \<noteq> key) (stripe_blocks (stripe_at st ?sid))\<rparr>"
  let ?st1 = "?st\<lparr>m_stripe_table := (if stripe_blocks ?stripe = [] then tbl_erase ?sid (m_stripe_table st)
    else tbl_set ?sid ?stripe (m_stripe_table st))\<rparr>"
  have inv: "meta_inv N ?cap ?cur st" using assms by (simp add: service_inv_def)
  have less: "?sid < ?cur" using inv Some by (auto simp: meta_inv_def ran_def)
  have "meta_inv N ?cap ?cur ?st" using inv by (auto simp: meta_inv_def ran_def)
  then have "meta_inv N ?cap ?cur ?st1"
    using stripe_erase_inv [of N ?cap ?cur ?st ?sid] stripe_table_inv [of N ?cap ?cur ?st ?sid ?stripe]
      stripe_at_bound [OF inv, of ?sid] less by simp
  note drop = drop_fold_inv [OF this, of key "map fst (m_cluster_table st)"]
  have "stripe_at ?st ?sid = stripe_at st ?sid" by (simp add: stripe_at_def)
  then have eq: "commit_delete_key key st = fold (drop_key_blocks key) (map fst (m_cluster_table st)) ?st1"
    using Some by (simp add: commit_delete_key_def Let_def cong: if_cong)
  have cur: "m_cur_stripe_id ?st1 = ?cur" by simp
  show ?thesis unfolding eq service_inv_def conjunct2 [OF drop] cur by (rule conjunct1 [OF drop])
qed (use assms in \<open>simp add: commit_delete_key_def\<close>)

lemma commit_delete_stripe_simps:
  "nd_stripes (node_at (commit_delete_stripe sid st) v) = (nd_stripes (node_at st v))(sid := None)"
  "cl_nodes (cluster_at (commit_delete_stripe sid st) c) = cl_nodes (cluster_at st c)"
  "cl_blocks (cluster_at (commit_delete_stripe sid st) c) = filter (\<lambda>b. map2stripe b \<noteq> sid) (cl_blocks (cluster_at st c))"
  by (auto simp: node_at_def cluster_at_def tbl_get_def commit_delete_stripe_def Let_def map_of_map default_node_def default_cluster_def
      split: option.splits)

lemma commit_delete_stripe_inv:
  assumes "service_inv cfg N st"
  shows "service_inv cfg N (commit_delete_stripe sid st)"
proof -
  let ?cap = "BlockSize cfg * cfg_k cfg" and ?cur = "m_cur_stripe_id st" and ?st = "commit_delete_stripe sid st"
  have inv: "meta_inv N ?cap ?cur st" using assms by (simp add: service_inv_def)
  have keys: "map fst (m_node_table ?st) = map fst (m_node_table st)" "map fst (m_cluster_table ?st) = map fst (m_cluster_table st)"
    by (auto simp: commit_delete_stripe_def Let_def)
  have st: "m_stripe_table ?st = tbl_erase sid (m_stripe_table st)" "m_object_updating_table ?st = m_object_updating_table st"
    "m_cur_offset_table ?st = m_cur_offset_table st" "m_cur_stripe_id ?st = ?cur"
    and ran: "ran (m_object_commit_table ?st) \<subseteq> ran (m_object_commit_table st)"
    by (auto simp: commit_delete_stripe_def Let_def ran_def)
  have ok: "tables_ok st" using inv by (simp add: meta_inv_def topology_ok_def)
  have "tables_ok ?st"
    using ok tbl_ok_erase [of "m_stripe_table st" sid] unfolding tables_ok_def tbl_ok_def keys st(1) by simp
  then have "topology_ok N ?st" using inv keys(1) by (simp add: meta_inv_def topology_ok_def commit_delete_stripe_simps)
  then show ?thesis using inv ran
    by (auto simp: service_inv_def meta_inv_def commit_delete_stripe_simps st tbl_erase_def split: if_splits)
qed

lemma touch_stripe_at: "stripe_at (touch_stripe s st) s' = (if tables_ok st then stripe_at st s' else stripe_at (touch_stripe s st) s')"
  by (simp add: touch_stripe_def stripe_at_def tbl_get_def tables_ok_def map_of_tbl_set)

lemma send_delete_blocks: "send_delete st pick blocks req = Some r \<Longrightarrow> blocks \<noteq> [] \<and> fst r = st"
  by (auto simp: send_delete_def split: if_splits)

lemma delByKey_inv:
  assumes "delByKey key pick st = Some (st', r)" "service_inv cfg N st"
  shows "service_inv cfg N st'"
proof (cases "m_object_commit_table st key")
  case None
  then show ?thesis using assms by (auto simp: delByKey_def service_inv_def split: if_splits)
next
  case (Some obj)
  let ?cap = "BlockSize cfg * cfg_k cfg" and ?cur = "m_cur_stripe_id st"
  let ?st = "st\<lparr>m_object_updating_table := (m_object_updating_table st)(key \<mapsto> obj)\<rparr>"
  have inv: "meta_inv N ?cap ?cur st" using assms(2) by (simp add: service_inv_def)
  then have less: "map2stripe_of obj < ?cur" using Some by (auto simp: meta_inv_def ran_def)
  have inv1: "meta_inv N ?cap ?cur ?st" using inv less by (auto simp: meta_inv_def ran_def)
  have "st' = touch_stripe (map2stripe_of obj) ?st"
    using assms(1) Some by (auto simp: delByKey_def Let_def dest!: send_delete_blocks split: if_splits)
  then show ?thesis
    using stripe_table_inv [OF inv1 less, of "stripe_at ?st (map2stripe_of obj)"] stripe_at_bound [OF inv1] less
    by (simp add: service_inv_def touch_stripe_def)
qed

lemma delByStripe_inv:
  assumes "delByStripe sid pick st = Some (st', r)" "service_inv cfg N st"
  shows "service_inv cfg N st'"
proof -
  let ?cap = "BlockSize cfg * cfg_k cfg" and ?cur = "m_cur_stripe_id st"
  let ?st = "st\<lparr>m_stripe_deleting_table := m_stripe_deleting_table st @ [sid]\<rparr>"
  have inv: "meta_inv N ?cap ?cur st" using assms(2) by (simp add: service_inv_def)
  have "st' = touch_stripe sid ?st" "stripe_blocks (stripe_at (touch_stripe sid ?st) sid) \<noteq> []"
    using assms(1) by (auto simp: delByStripe_def Let_def dest!: send_delete_blocks split: if_splits)
  moreover have "stripe_at (touch_stripe sid ?st) sid = stripe_at st sid"
    using touch_stripe_at [of sid ?st sid] inv by (simp add: meta_inv_def topology_ok_def tables_ok_def stripe_at_def)
  ultimately have st': "st' = touch_stripe sid ?st" and "stripe_blocks (stripe_at st sid) \<noteq> []" by auto
  then obtain s where "map_of (m_stripe_table st) sid = Some s"
    by (auto simp: stripe_at_def tbl_get_def default_stripe_def split: option.splits)
  then have less: "sid < ?cur" using inv map_of_SomeD by (fastforce simp: meta_inv_def)
  have inv1: "meta_inv N ?cap ?cur ?st" using inv by simp
  show ?thesis
    using stripe_table_inv [OF inv1 less, of "stripe_at ?st sid"] stripe_at_bound [OF inv1] less
    by (simp add: service_inv_def touch_stripe_def st')
qed

text \<open>A proxy reports the commit of a key that was scheduled.\<close>

lemma report_inv:
  assumes "reportCommitAbort key opp sid c st = Some st'" "service_inv cfg N st"
    and "c \<and> (opp = SET \<or> opp = APPEND) \<longrightarrow> m_object_updating_table st key \<noteq> None"
  shows "service_inv cfg N st'"
proof -
  have inv: "meta_inv N (BlockSize cfg * cfg_k cfg) (m_cur_stripe_id st) st" using assms(2) by (simp add: service_inv_def)
  have "service_inv cfg N (commit_object key st)" if "m_object_updating_table st key \<noteq> None"
    using inv that by (auto simp: service_inv_def meta_inv_def commit_object_def ran_def split: if_splits)
  moreover have "service_inv cfg N (st\<lparr>m_object_updating_table := (m_object_updating_table st)(key := None)\<rparr>)"
    using inv by (auto simp: service_inv_def meta_inv_def ran_def split: if_splits)
  ultimately show ?thesis using assms commit_delete_key_inv commit_delete_stripe_inv
    by (auto simp: reportCommitAbort_def split: if_splits)
qed

section \<open>Loading the cluster description\<close>

lemma fold_option_counts:
  fixes I :: "nat \<Rightarrow> 's \<Rightarrow> bool"
  assumes "fold_option f xs s = Some s'" "I m s" "\<And>x m s s'. I m s \<Longrightarrow> f x s = Some s' \<Longrightarrow> I (m + g x) s'"
  shows "I (m + sum_list (map g xs)) s'"
  using assms(1,2)
proof (induction xs arbitrary: s m)
  case (Cons x xs)
  from Cons.prems(1) obtain t where t: "f x s = Some t" "fold_option f xs t = Some s'" by (auto split: option.splits)
  from Cons.IH [OF t(2) assms(3) [OF Cons.prems(2) t(1)]] show ?case by (simp add: add.assoc)
qed simp

lemma tbl_set_last: "\<forall>e\<in>set t. fst e < k \<Longrightarrow> tbl_set k v t = t @ [(k, v)]"
  by (induction t) (auto split: prod.splits)

text \<open>The state while \<open>m\<close> nodes are loaded: no block, no stripe.\<close>

definition loaded :: "nat \<Rightarrow> int \<times> coordinator \<Rightarrow> bool" where
  "loaded m = (\<lambda>(node_id, st). node_id = int m \<and> topology_ok m st \<and> bookkeeping st = bookkeeping initial_coordinator
     \<and> (\<forall>v. nd_stripes (node_at st v) = Map.empty) \<and> (\<forall>c. cl_blocks (cluster_at st c) = []))"

lemma topology_set_cluster:
  assumes "topology_ok m st" "set (cl_nodes cl) \<subseteq> int ` {..<m'}" "m \<le> m'" "map fst (m_node_table st') = map int [0..<m']"
    and "tables_ok st'" "\<And>c. cluster_at st' c = (if c = cid then cl else cluster_at st c)"
  shows "topology_ok m' st'"
proof -
  have "int ` {..<m} \<subseteq> int ` {..<m'}" using assms(3) by (intro image_mono) auto
  moreover have "set (cl_nodes (cluster_at st c)) \<subseteq> int ` {..<m}" for c using assms(1) by (simp add: topology_ok_def)
  ultimately have "set (cl_nodes (cluster_at st' c)) \<subseteq> int ` {..<m'}" for c
    using assms(2) subset_trans [of _ "int ` {..<m}"] unfolding assms(6) by (cases "c = cid") simp_all
  then show ?thesis using assms(4,5) by (simp add: topology_ok_def)
qed

lemma init_node_loaded:
  assumes "loaded m s" "init_node cid node s = Some s'"
  shows "loaded (m + 1) s'"
proof -
  obtain nid st where s: "s = (nid, st)" by (cases s)
  have L: "nid = int m" "topology_ok m st" "bookkeeping st = bookkeeping initial_coordinator"
    "\<And>v. nd_stripes (node_at st v) = Map.empty" "\<And>c. cl_blocks (cluster_at st c) = []" using assms(1) by (auto simp: loaded_def s)
  have ok: "tables_ok st" and keys: "map fst (m_node_table st) = map int [0..<m]" using L(2) by (simp_all add: topology_ok_def)
  let ?cl = "(cluster_at st cid)\<lparr>cl_nodes := cl_nodes (cluster_at st cid) @ [int m]\<rparr>"
  obtain port where p: "stoi_value (snd (split_address (xml_uri node))) = Some port"
    using assms(2) by (auto simp: init_node_def s Let_def split: option.splits)
  obtain pip pport where q: "(case xml_node_proxy node of
      Some px \<Rightarrow> map_option (\<lambda>p. (fst (split_address px), p)) (stoi_value (snd (split_address px)))
    | None \<Rightarrow> Some (cl_proxy_ip (cluster_at st cid), cl_proxy_port (cluster_at st cid))) = Some (pip, pport)"
    using assms(2) p by (auto simp: init_node_def s Let_def split: option.splits)
  define nd where "nd = (node_at st (int m))\<lparr>nd_id := int m, node_ip := fst (split_address (xml_uri node)), node_port := port,
    nd_cluster := cid, repair_proxy_ip := pip, repair_proxy_port := pport\<rparr>"
  have nd: "nd_stripes nd = nd_stripes (node_at st (int m))" by (simp add: nd_def)
  have s': "s' = (int m + 1, set_node (int m) nd (set_cluster cid ?cl st))"
    using assms(2) by (simp add: init_node_def s Let_def L(1) p q nd_def)
  let ?st = "set_node (int m) nd (set_cluster cid ?cl st)"
  have "fst e < int m" if "e \<in> set (m_node_table st)" for e
    using imageI [OF that, of fst] unfolding topology_nodes [OF L(2)] by auto
  then have keys': "map fst (m_node_table ?st) = map int [0..<m + 1]" using keys by (simp add: set_node_def tbl_set_last)
  have "topology_ok (m + 1) ?st"
  proof (rule topology_set_cluster [OF L(2) _ _ keys'])
    show "set (cl_nodes ?cl) \<subseteq> int ` {..<m + 1}" using L(2) by (fastforce simp: topology_ok_def)
  qed (use ok in auto)
  moreover have "bookkeeping ?st = bookkeeping st" by (simp add: bookkeeping_def set_node_def set_cluster_def)
  ultimately show ?thesis using L nd ok by (auto simp: loaded_def s')
qed

lemma init_cluster_loaded:
  assumes "loaded m s" "init_cluster xc s = Some s'"
  shows "loaded (m + length (xml_nodes xc)) s'"
proof -
  obtain nid st where s: "s = (nid, st)" by (cases s)
  obtain cid port where p: "stoi_value (xml_id xc) = Some cid" "stoi_value (snd (split_address (xml_proxy xc))) = Some port"
    using assms(2) by (auto simp: init_cluster_def s split: option.splits)
  define cl where "cl = default_cluster\<lparr>cl_id := cid, cl_proxy_ip := fst (split_address (xml_proxy xc)), cl_proxy_port := port\<rparr>"
  have cl: "cl_nodes cl = []" "cl_blocks cl = []" by (simp_all add: cl_def default_cluster_def)
  obtain nid2 st2 where f: "fold_option (init_node cid) (xml_nodes xc) (nid, set_cluster cid cl st) = Some (nid2, st2)"
    using assms(2) p by (auto simp: init_cluster_def s Let_def cl_def split: option.splits)
  have s': "s' = (nid2, st2\<lparr>m_num_of_Clusters := m_num_of_Clusters st2 + 1\<rparr>)"
    using assms(2) p f by (simp add: init_cluster_def s Let_def cl_def)
  have ok: "tables_ok st" using assms(1) by (simp add: loaded_def s topology_ok_def)
  have "topology_ok m (set_cluster cid cl st)"
    by (rule topology_set_cluster [where st = st and cid = cid and cl = cl]) (use assms(1) cl ok in \<open>auto simp: loaded_def s topology_ok_def\<close>)
  moreover have "bookkeeping (set_cluster cid cl st) = bookkeeping st" by (simp add: bookkeeping_def set_cluster_def)
  ultimately have "loaded m (nid, set_cluster cid cl st)" using assms(1) cl ok by (simp add: loaded_def s)
  from fold_option_counts [where I = loaded and g = "\<lambda>_. 1", OF f this init_node_loaded]
  have "loaded (m + length (xml_nodes xc)) (nid2, st2)" by (simp add: sum_list_triv)
  moreover have "bookkeeping (st2\<lparr>m_num_of_Clusters := m_num_of_Clusters st2 + 1\<rparr>) = bookkeeping st2"
    by (simp add: bookkeeping_def)
  ultimately show ?thesis by (simp add: loaded_def s')
qed

lemma init_clusterinfo_loaded:
  assumes "init_clusterinfo doc initial_coordinator = Some st"
  shows "loaded (sum_list (map (\<lambda>xc. length (xml_nodes xc)) doc)) (int (sum_list (map (\<lambda>xc. length (xml_nodes xc)) doc)), st)"
proof -
  let ?n = "sum_list (map (\<lambda>xc. length (xml_nodes xc)) doc)"
  from assms obtain nid where f: "fold_option init_cluster doc (0, initial_coordinator\<lparr>m_num_of_Clusters := 0\<rparr>) = Some (nid, st)"
    by (auto simp: init_clusterinfo_def)
  have "loaded 0 (0, initial_coordinator\<lparr>m_num_of_Clusters := 0\<rparr>)"
    by (simp add: loaded_def topology_ok_def tables_ok_def tbl_ok_def bookkeeping_def initial_coordinator_def node_at_def cluster_at_def
        tbl_get_def default_node_def default_cluster_def)
  from fold_option_counts [where I = loaded, OF f this init_cluster_loaded] have "loaded ?n (nid, st)" by simp
  then show ?thesis by (simp add: loaded_def)
qed

lemma loaded_inv: "loaded N (nid, st) \<Longrightarrow> service_inv cfg N st"
  by (auto simp: loaded_def service_inv_def meta_inv_def bookkeeping_def initial_coordinator_def offsets_ok_def)

text \<open>The description loads exactly when its numbers parse.\<close>

definition node_parses :: "XmlNode \<Rightarrow> bool" where
  "node_parses node \<longleftrightarrow> stoi_value (snd (split_address (xml_uri node))) \<noteq> None
     \<and> (case xml_node_proxy node of None \<Rightarrow> True | Some px \<Rightarrow> stoi_value (snd (split_address px)) \<noteq> None)"

definition cluster_parses :: "XmlCluster \<Rightarrow> bool" where
  "cluster_parses xc \<longleftrightarrow> stoi_value (xml_id xc) \<noteq> None \<and> stoi_value (snd (split_address (xml_proxy xc))) \<noteq> None
     \<and> list_all node_parses (xml_nodes xc)"

lemma fold_option_total_iff:
  assumes "\<And>x s. f x s \<noteq> None \<longleftrightarrow> P x"
  shows "fold_option f xs s \<noteq> None \<longleftrightarrow> list_all P xs"
proof (induction xs arbitrary: s)
  case (Cons x xs)
  show ?case
  proof (cases "f x s")
    case None
    then show ?thesis using assms [of x s] by simp
  next
    case (Some s')
    then show ?thesis using assms [of x s] Cons [of s'] by simp
  qed
qed simp

lemma init_clusterinfo_iff: "init_clusterinfo doc st \<noteq> None \<longleftrightarrow> list_all cluster_parses doc"
proof -
  have node: "init_node cid node s \<noteq> None \<longleftrightarrow> node_parses node" for cid node s
    by (cases s) (auto simp: init_node_def node_parses_def Let_def split: option.splits)
  have "init_cluster xc s \<noteq> None \<longleftrightarrow> cluster_parses xc" for xc s
  proof -
    obtain nid st where s: "s = (nid, st)" by (cases s)
    have "fold_option (init_node cid) ns s' = None \<longleftrightarrow> \<not> list_all node_parses ns" for cid ns s'
      using fold_option_total_iff [of "init_node cid" node_parses, OF node] by blast
    then show ?thesis by (auto simp: init_cluster_def s cluster_parses_def Let_def split: option.splits) (metis option.distinct(1))
  qed
  from fold_option_total_iff [of init_cluster cluster_parses, OF this] show ?thesis by (simp add: init_clusterinfo_def)
qed

section \<open>Reachable states\<close>

inductive service_step :: "SysConfig \<Rightarrow> coordinator \<Rightarrow> coordinator \<Rightarrow> bool" for cfg where
  upload_set: "uploadSetValue cfg draws att key nbytes st = Some (st', status, reply) \<Longrightarrow> service_step cfg st st'"
| upload_subset: "uploadSubsetValue cfg draws att key nbytes st = Some (st', status, reply) \<Longrightarrow> service_step cfg st st'"
| upload_append: "uploadAppendValue cfg draws att key nbytes st = Some (st', status, reply) \<Longrightarrow> service_step cfg st st'"
| delete_key: "delByKey key pick st = Some (st', r) \<Longrightarrow> service_step cfg st st'"
| delete_stripe: "delByStripe sid pick st = Some (st', r) \<Longrightarrow> service_step cfg st st'"
| report: "reportCommitAbort key opp i c st = Some st' \<Longrightarrow> (c \<and> (opp = SET \<or> opp = APPEND) \<longrightarrow> m_object_updating_table st key \<noteq> None)
    \<Longrightarrow> service_step cfg st st'"

inductive service_reachable :: "SysConfig \<Rightarrow> XmlCluster list \<Rightarrow> coordinator \<Rightarrow> bool" for cfg doc where
  start: "init_clusterinfo doc initial_coordinator = Some st \<Longrightarrow> service_reachable cfg doc st"
| step: "service_reachable cfg doc st \<Longrightarrow> service_step cfg st st' \<Longrightarrow> service_reachable cfg doc st'"

lemma service_step_inv:
  assumes "service_step cfg st st'" "service_inv cfg N st"
  shows "service_inv cfg N st'"
  using assms
proof cases
  case upload_set
  then show ?thesis using assms(2) upload_stripe_inv [of cfg "generate_add_plans cfg"] add_plans_stripe_id(1)
    by (auto simp: uploadSetValue_def split: if_splits)
next
  case (upload_subset draws att key nbytes)
  then show ?thesis using assms(2) upload_stripe_inv [of cfg "\<lambda>st stripe. generate_sub_add_plans cfg st stripe nbytes"] add_plans_stripe_id(2)
    by (auto simp: uploadSubsetValue_def split: if_splits)
next
  case upload_append
  then show ?thesis using uploadAppendValue_inv assms(2) by simp
next
  case delete_key
  then show ?thesis using delByKey_inv assms(2) by simp
next
  case delete_stripe
  then show ?thesis using delByStripe_inv assms(2) by simp
next
  case report
  then show ?thesis using report_inv assms(2) by simp
qed

lemma service_reachable_inv:
  "service_reachable cfg doc st \<Longrightarrow> service_inv cfg (sum_list (map (\<lambda>xc. length (xml_nodes xc)) doc)) st"
proof (induction rule: service_reachable.induct)
  case (start st)
  then show ?case by (rule loaded_inv [OF init_clusterinfo_loaded])
next
  case (step st st')
  then show ?case by (simp add: service_step_inv)
qed

lemma next_stripe_fresh: "service_inv cfg N st \<Longrightarrow> nd_stripes (node_at st v) (m_cur_stripe_id st) = None"
  by (force simp: service_inv_def meta_inv_def)

end
