(* ===== verification/ProxyRepair.thy ===== *)
theory ProxyRepair
  imports Service
begin


text \<open>
  The proxy's part of a repair or degraded read (\<^verbatim>\<open>proxy.cpp\<close>): read the helper blocks of the request from the
  datanodes, combine them with the decoder of the code, add what the other racks have sent, and deliver.

  A read is a pair: whether the RPC to the datanode succeeded, and the bytes that the buffer holds afterwards, which
  are those of a fresh allocation when nothing arrived.  Buffers that the source allocates and does not fill are
  arguments.  The parts from the other racks are given in the order the proxy accepts the connections.
\<close>

unbundle bit_operations_syntax

type_synonym node_read = "string \<Rightarrow> int \<Rightarrow> string \<Rightarrow> bool \<times> buffer"

definition GetFromDatanode :: "bool \<Rightarrow> node_read \<Rightarrow> string \<Rightarrow> string \<Rightarrow> int \<Rightarrow> bool \<times> buffer" where
  "GetFromDatanode if_debug rd key ip port =
     (case rd ip port key of (call_ok, buf) \<Rightarrow> if if_debug \<and> \<not> call_ok then (False, buf) else (True, buf))"

definition get_blocks :: "bool \<Rightarrow> node_read \<Rightarrow> string list \<Rightarrow> int list \<Rightarrow> string list \<Rightarrow> (bool \<times> buffer) list" where
  "get_blocks if_debug rd ips ports keys =
     map (\<lambda>i. GetFromDatanode if_debug rd (keys ! i) (ips ! i) (ports ! i)) [0..<length ips]"

text \<open>The decoder of the code; another code type ends the process.\<close>

definition decode_by_code :: "SysConfig \<Rightarrow> nat list \<Rightarrow> buffer list \<Rightarrow> buffer \<Rightarrow> nat \<Rightarrow> buffer option" where
  "decode_by_code cfg idxs ptrs res failed_block_id =
     (let k = cfg_k cfg; r = cfg_r cfg; z = cfg_z cfg; bs = BlockSize cfg; num = length ptrs; code_type = CodeType cfg in
      if code_type = ''UniLRC'' then Some (decode_unilrc num ptrs res bs)
      else if code_type = ''AzureLRC'' then Some (decode_azure_lrc k r z num idxs ptrs res bs failed_block_id)
      else if code_type = ''OptimalLRC'' then Some (decode_optimal_lrc k r z num idxs ptrs res bs failed_block_id)
      else if code_type = ''gLRC'' then Some (decode_glrc k r z num idxs ptrs res bs failed_block_id)
      else if code_type = ''UniformLRC'' then Some (decode_uniform_lrc k r z num idxs ptrs res bs failed_block_id)
      else None)"

definition cross_rack_xor :: "SysConfig \<Rightarrow> buffer list \<Rightarrow> buffer \<Rightarrow> buffer \<Rightarrow> buffer" where
  "cross_rack_xor cfg cross_rack_bufs res real_res =
     the (last (xor_avx (int (length cross_rack_bufs) + 2) (int (BlockSize cfg)) (map Some (cross_rack_bufs @ [res]) @ [Some real_res])))"

text \<open>What the helper reads and the other racks' parts combine to: the value of \<^verbatim>\<open>real_res_buf\<close> or \<^verbatim>\<open>res_buf\<close>.\<close>

definition combine_parts :: "SysConfig \<Rightarrow> RecoveryRequest \<Rightarrow> buffer list \<Rightarrow> buffer list \<Rightarrow> buffer \<Rightarrow> buffer \<Rightarrow> buffer option" where
  "combine_parts cfg rq bufs parts res real_res =
     map_option (\<lambda>part. if cross_rack_num rq \<noteq> 0 then cross_rack_xor cfg parts part real_res else part)
       (decode_by_code cfg (rq_blockids rq) bufs res (rq_failed_block_id rq))"

text \<open>A partial read for another rack: the address and the bytes sent, nothing when a read failed.\<close>

definition degradedRead :: "SysConfig \<Rightarrow> bool \<Rightarrow> node_read \<Rightarrow> buffer \<Rightarrow> DegradedReadRequest \<Rightarrow> ((string \<times> int) \<times> buffer) option option" where
  "degradedRead cfg if_debug rd res rq =
     (let got = get_blocks if_debug rd (dr_datanodeip rq) (dr_datanodeport rq) (dr_blockkeys rq) in
      if \<not> list_all fst got then Some None
      else map_option (\<lambda>buf. Some ((clientip rq, clientport rq), buf))
             (decode_by_code cfg (dr_blockids rq) (map snd got) res (dr_failed_block_id rq)))"

definition degradedRead2Client :: "SysConfig \<Rightarrow> bool \<Rightarrow> node_read \<Rightarrow> buffer list \<Rightarrow> buffer \<Rightarrow> buffer \<Rightarrow> RecoveryRequest
    \<Rightarrow> ((string \<times> int) \<times> buffer) option" where
  "degradedRead2Client cfg if_debug rd parts res real_res rq =
     (let got = get_blocks if_debug rd (rq_datanodeip rq) (rq_datanodeport rq) (rq_blockkeys rq) in
      map_option (\<lambda>buf. ((replaced_node_ip rq, replaced_node_port rq), buf))
        (if \<not> list_all fst got then Some (if cross_rack_num rq \<noteq> 0 then real_res else res)
         else combine_parts cfg rq (map snd got) parts res real_res))"

definition recovery :: "SysConfig \<Rightarrow> bool \<Rightarrow> node_read \<Rightarrow> buffer list \<Rightarrow> buffer \<Rightarrow> buffer \<Rightarrow> RecoveryRequest
    \<Rightarrow> ((string \<times> int) \<times> string \<times> buffer) option option" where
  "recovery cfg if_debug rd parts res real_res rq =
     (let got = get_blocks if_debug rd (rq_datanodeip rq) (rq_datanodeport rq) (rq_blockkeys rq) in
      if \<not> list_all fst got then Some None
      else map_option (\<lambda>buf. Some ((replaced_node_ip rq, replaced_node_port rq), rq_failed_block_key rq, buf))
             (combine_parts cfg rq (map snd got) parts res real_res))"


section \<open>Parts from several racks\<close>

lemma map_over_indices: "map (\<lambda>v. f (xs ! v)) [0..<length xs] = map f xs"
  by (intro nth_equalityI) auto

lemma cross_rack_xor_nth:
  assumes "length real_res = BlockSize cfg" "i < BlockSize cfg"
  shows "GF (cross_rack_xor cfg parts res real_res ! i) = (\<Sum>p\<leftarrow>parts. GF (p ! i)) + GF (res ! i)"
    "length (cross_rack_xor cfg parts res real_res) = BlockSize cfg"
proof -
  let ?srcs = "parts @ [res]" and ?bs = "BlockSize cfg"
  have eq: "cross_rack_xor cfg parts res real_res
      = map (\<lambda>i. fold (\<lambda>v acc. acc XOR ?srcs ! v ! i) [0..<length ?srcs] 0) [0..<?bs]"
    using xor_avx_sum [of real_res ?bs ?srcs] assms by (simp add: cross_rack_xor_def add.commute add.left_commute)
  show "length (cross_rack_xor cfg parts res real_res) = ?bs" by (simp add: eq)
  have "GF (cross_rack_xor cfg parts res real_res ! i) = (\<Sum>v\<leftarrow>[0..<length ?srcs]. GF (?srcs ! v ! i))"
    using assms(2) by (simp add: eq GF_fold_xor del: upt_Suc)
  also have "\<dots> = (\<Sum>p\<leftarrow>?srcs. GF (p ! i))"
    unfolding map_over_indices [of "\<lambda>p. GF (p ! i)" ?srcs] ..
  finally show "GF (cross_rack_xor cfg parts res real_res ! i) = (\<Sum>p\<leftarrow>parts. GF (p ! i)) + GF (res ! i)" by simp
qed

text \<open>
  Each rack combines its share of the local group with the weights of the whole repair, so the XOR of the shares is the
  block.
\<close>

lemma cross_rack_recovers:
  assumes cw: "glrc_codeword k r z (BlockSize cfg) blocks" "0 < z" "k + r < 256" "b < k + r + z"
    and idxs: "group_survivors k r z b (concat others @ own)"
    and len: "length real_res = BlockSize cfg" "length res = BlockSize cfg" "\<forall>buf\<in>set bufs. length buf = BlockSize cfg"
      "length bufs = length others"
  defines "dec \<equiv> \<lambda>buf ids. decode_glrc k r z (length ids) ids (map ((!) blocks) ids) buf (BlockSize cfg) b"
  shows "cross_rack_xor cfg (map (\<lambda>(buf, ids). dec buf ids) (zip bufs others)) (dec res own) real_res = blocks ! b"
proof (rule buffer_eqI)
  let ?bs = "BlockSize cfg" and ?parts = "map (\<lambda>(buf, ids). dec buf ids) (zip bufs others)"
  have lb: "length (blocks ! b) = ?bs"
    using cw(1,4) blocks_ok_nth [of "k + r + z" ?bs blocks b] by (simp add: glrc_codeword_def)
  have lx: "length (cross_rack_xor cfg ?parts (dec res own) real_res) = ?bs"
  proof (cases "?bs = 0")
    case True
    then show ?thesis using len(1) by (simp add: cross_rack_xor_def xor_avx_def)
  next
    case False
    then show ?thesis using cross_rack_xor_nth(2) [OF len(1), of 0] by simp
  qed
  then show "length (cross_rack_xor cfg ?parts (dec res own) real_res) = length (blocks ! b)" using lb by simp
  fix i assume "i < length (blocks ! b)"
  then have i: "i < ?bs" using lb by simp
  let ?lc = "\<lambda>b. GF (glrc_local_block_coefficient (int b) (int k) (int r))"
  let ?s = "\<lambda>ids. \<Sum>c\<leftarrow>ids. ?lc c * GF (blocks ! c ! i)"
  have "(\<Sum>p\<leftarrow>?parts. GF (p ! i)) = (\<Sum>(buf, ids)\<leftarrow>zip bufs others. inverse (?lc b) * ?s ids)"
    using len(3) decode_glrc_sum(1) [OF _ i, of _ k r z _ blocks b]
    by (auto simp: dec_def comp_def case_prod_beta dest!: set_zip_leftD intro!: arg_cong [of _ _ sum_list] map_cong)
  also have "\<dots> = inverse (?lc b) * ?s (concat others)"
    using len(4) by (induction bufs others rule: list_induct2) (simp_all add: algebra_simps)
  finally have "GF (cross_rack_xor cfg ?parts (dec res own) real_res ! i) = inverse (?lc b) * ?s (concat others @ own)"
    using cross_rack_xor_nth(1) [OF len(1) i, of ?parts "dec res own"] decode_glrc_sum(1) [OF len(2) i, of k r z own blocks b]
    by (simp add: dec_def algebra_simps)
  then show "GF (cross_rack_xor cfg ?parts (dec res own) real_res ! i) = GF (blocks ! b ! i)"
    using group_sum_recovers [OF cw idxs i] by simp
qed


section \<open>A degraded read end to end\<close>

text \<open>Every other block of the stripe can be read from the node it was placed on.\<close>

definition stripe_readable :: "coordinator \<Rightarrow> Stripe \<Rightarrow> node_read \<Rightarrow> buffer list \<Rightarrow> nat \<Rightarrow> bool" where
  "stripe_readable st stripe rd blocks failed \<longleftrightarrow>
     (\<forall>i < length (stripe_blocks stripe). i \<noteq> failed \<longrightarrow>
        (let blk = stripe_blocks stripe ! i; nd = node_at st (map2node blk)
         in rd (node_ip nd) (node_port nd) (blk_key blk) = (True, blocks ! i)))"

lemma get_blocks_readable:
  fixes ip :: string and port :: int and cross :: nat
  assumes "stripe_readable st stripe rd blocks failed" "set ids \<subseteq> {..<length (stripe_blocks stripe)} - {failed}"
  defines "rq \<equiv> recovery_request st stripe failed ip port cross ids"
  shows "get_blocks dbg rd (rq_datanodeip rq) (rq_datanodeport rq) (rq_blockkeys rq) = map (\<lambda>c. (True, blocks ! c)) ids"
proof (rule nth_equalityI)
  fix i assume "i < length (get_blocks dbg rd (rq_datanodeip rq) (rq_datanodeport rq) (rq_blockkeys rq))"
  then have i: "i < length ids" by (simp add: get_blocks_def rq_def recovery_request_def Let_def)
  then have "ids ! i < length (stripe_blocks stripe)" "ids ! i \<noteq> failed" using subsetD [OF assms(2) nth_mem [OF i]] by auto
  then show "get_blocks dbg rd (rq_datanodeip rq) (rq_datanodeport rq) (rq_blockkeys rq) ! i = map (\<lambda>c. (True, blocks ! c)) ids ! i"
    using assms(1) i by (simp add: get_blocks_def rq_def recovery_request_def Let_def GetFromDatanode_def stripe_readable_def)
qed (simp add: get_blocks_def rq_def recovery_request_def Let_def)

lemma glrc_read_delivers:
  assumes cfg: "CodeType cfg = ''gLRC''" "cfg_k cfg = k" "cfg_r cfg = r" "cfg_z cfg = z"
    and cw: "glrc_codeword k r z (BlockSize cfg) blocks" "0 < z" "k + r < 256" "b < k + r + z"
    and placed: "glrc_placed k r z stripe" and rd: "stripe_readable st stripe rd blocks b"
    and res: "length res = BlockSize cfg"
  shows "degradedRead2Client cfg dbg rd parts res real_res (recovery_request st stripe b ip port 0
      (filter (\<lambda>c. c \<noteq> b) (group_blocks stripe (home_group k r z b)))) = Some ((ip, port), blocks ! b)"
proof -
  let ?ids = "filter (\<lambda>c. c \<noteq> b) (group_blocks stripe (home_group k r z b))"
  let ?rq = "recovery_request st stripe b ip port 0 ?ids"
  have sub: "set ?ids \<subseteq> {..<length (stripe_blocks stripe)} - {b}"
    unfolding glrc_placed_survivors(2) [OF placed cw(2,4)] using placed by (auto simp: glrc_placed_def)
  have "map (\<lambda>c. blk_id (stripe_blocks stripe ! c)) ?ids = ?ids"
    unfolding glrc_placed_survivors(2) [OF placed cw(2,4)] using placed by (intro map_idI) (auto simp: glrc_placed_def)
  then have rq: "rq_blockids ?rq = ?ids" "rq_failed_block_id ?rq = b" "cross_rack_num ?rq = 0"
    "replaced_node_ip ?rq = ip" "replaced_node_port ?rq = port"
    by (simp_all add: recovery_request_def Let_def)
  have dec: "decode_by_code cfg ?ids (map ((!) blocks) ?ids) res b = Some (blocks ! b)"
    using decode_glrc_recovers [OF cw glrc_placed_survivors(1) [OF placed cw(2,4)] res]
    by (simp add: decode_by_code_def Let_def cfg)
  show ?thesis unfolding degradedRead2Client_def get_blocks_readable [OF rd sub] Let_def rq combine_parts_def
    using dec by (simp add: list_all_iff comp_def)
qed

end
