(* ===== verification/ServiceRuns.thy ===== *)
theory ServiceRuns
  imports ServiceInv ProxyRepair
begin

text \<open>
  Runs of the coordinator: an accepted upload of a gLRC stripe, the commit protocol, deletion, and what a reset leaves
  behind.
\<close>

section \<open>Scheduling the plans\<close>

lemma snd_notify_step: "snd (notify_step plans att i s) = (snd s \<and> list_ex id (take 3 (att i)))"
  by (simp add: notify_step_def case_prod_beta Let_def notify_simps(3))

lemma ready_fold: "snd (fold (notify_step plans att) is s) = (snd s \<and> (\<forall>i\<in>set is. list_ex id (take 3 (att i))))"
  by (induction "is" arbitrary: s) (auto simp: snd_notify_step)

lemma updating_fold:
  assumes "\<forall>i\<in>set is. list_ex id (take 3 (att i))"
  shows "m_object_updating_table (fst (fold (notify_step plans att) is s)) key \<noteq> None
    \<longleftrightarrow> m_object_updating_table (fst s) key \<noteq> None \<or> key \<in> (\<lambda>i. plan_key (plans ! i)) ` set is"
  using assms by (induction "is" arbitrary: s) (auto simp: fst_notify_step notify_simps(1))

lemma commit_fold: "m_object_commit_table (fst (fold (notify_step plans att) is s)) = m_object_commit_table (fst s)"
proof (induction "is" arbitrary: s)
  case (Cons i "is")
  have "m_object_commit_table (fst (notify_step plans att i s)) = m_object_commit_table (fst s)"
    unfolding fst_notify_step by (simp add: notify_proxies_ready_def Let_def)
  then show ?case using Cons by simp
qed simp

lemma fold_erase: "fold (\<lambda>p m. m(plan_key p := None)) plans m key = (if key \<in> plan_key ` set plans then None else m key)"
  by (induction plans arbitrary: m) auto

lemma plan_keys_indices: "(\<lambda>i. plan_key (plans ! i)) ` set [0..<length plans] = plan_key ` set plans"
proof -
  have "set plans = (!) plans ` set [0..<length plans]" by (metis map_nth set_map)
  then show ?thesis by (metis image_image)
qed

text \<open>When every proxy accepts, each key is pending and none is committed.\<close>

lemma upload_plans_ready:
  assumes "upload_plans plans att st = Some (st', True, reply)" "\<not> m_mutex_held st"
  shows "layout_of st' = layout_of st"
    "\<forall>key\<in>plan_key ` set plans. m_object_updating_table st' key \<noteq> None \<and> m_object_commit_table st' key = None"
proof -
  let ?st = "st\<lparr>m_object_commit_table := fold (\<lambda>p m. m(plan_key p := None)) plans (m_object_commit_table st)\<rparr>"
  let ?res = "fold (notify_step plans att) [0..<length plans] (?st, True)"
  have st': "st' = fst ?res" and "snd ?res" using assms by (auto simp: upload_plans_def Let_def case_prod_beta)
  then have acc: "\<forall>i\<in>set [0..<length plans]. list_ex id (take 3 (att i))" by (simp add: ready_fold)
  show "\<forall>key\<in>plan_key ` set plans. m_object_updating_table st' key \<noteq> None \<and> m_object_commit_table st' key = None"
    using updating_fold [OF acc, of plans "(?st, True)"] plan_keys_indices [of plans] by (simp add: st' commit_fold fold_erase)
  show "layout_of st' = layout_of st"
    using fold_invariant [of "[0..<length plans]" "\<lambda>_. True" "\<lambda>s. layout_of (fst s) = layout_of ?st" "(?st, True)" "notify_step plans att"]
    by (simp add: st' fst_notify_step notify_layout) (simp add: layout_of_def)
qed

lemma upload_plans_accepted:
  assumes "\<forall>i. list_ex id (take 3 (att i))" "\<not> m_mutex_held st"
  shows "\<exists>st'. upload_plans plans att st = Some (st', True, upload_reply st' plans (sum_list (map append_size plans)))
    \<and> layout_of st' = layout_of st
    \<and> (\<forall>key\<in>plan_key ` set plans. m_object_updating_table st' key \<noteq> None \<and> m_object_commit_table st' key = None)"
proof -
  obtain st' where u: "upload_plans plans att st = Some (st', True, upload_reply st' plans (sum_list (map append_size plans)))"
    using assms by (simp add: upload_plans_def Let_def case_prod_beta ready_fold)
  show ?thesis using u upload_plans_ready [OF u assms(2)] by (intro exI [of _ st']) simp
qed

section \<open>Uploading a gLRC stripe\<close>

lemma layout_simps:
  assumes "layout_of st' = layout_of st"
  shows "node_at st' v = node_at st v" "cluster_at st' c = cluster_at st c" "m_stripe_table st' = m_stripe_table st"
    "m_mutex_held st' = m_mutex_held st" "m_node_table st' = m_node_table st"
  using assms by (simp_all add: layout_of_def node_at_def cluster_at_def)

lemma glrc_upload_accepted:
  fixes k r z :: nat
  assumes inv: "service_inv cfg (k + r + z) st"
    and cfg: "CodeType cfg = ''gLRC''" "cfg_k cfg = k" "cfg_r cfg = r" "cfg_z cfg = z" "cfg_n cfg = k + r + z"
    and z: "0 < z" and free: "\<not> m_mutex_held st" and acc: "\<forall>i. list_ex id (take 3 (att i))"
  defines "sid \<equiv> m_cur_stripe_id st"
  shows "\<exists>st' reply. uploadSetValue cfg draws att key (BlockSize cfg * k) st = Some (st', OK, reply)
    \<and> append_keys reply = map (gen_append_key sid) [0..<z]
    \<and> glrc_placed k r z (stripe_at st' sid)
    \<and> (\<forall>i < k + r + z. blk_key (stripe_blocks (stripe_at st' sid) ! i) = blk_key (new_block cfg (new_stripe cfg sid key) 0 0 0 i))
    \<and> distinct (map map2node (stripe_blocks (stripe_at st' sid)))
    \<and> set (map map2node (stripe_blocks (stripe_at st' sid))) = int ` {..<k + r + z}
    \<and> (\<forall>c. \<forall>v\<in>set (cl_nodes (cluster_at st' c)). nd_stripes (node_at st' v) sid \<noteq> None)
    \<and> (\<forall>key\<in>set (append_keys reply). m_object_updating_table st' key \<noteq> None \<and> m_object_commit_table st' key = None)
    \<and> \<not> m_mutex_held st'
    \<and> num_groups (stripe_at st' sid) = z \<and> stripe_id (stripe_at st' sid) = sid
    \<and> cluster_slice_sizes reply = map append_size (generate_add_plans cfg st' (stripe_at st' sid))
    \<and> sum_append_size reply = sum_list (cluster_slice_sizes reply)
    \<and> (\<forall>b\<in>set (stripe_blocks (stripe_at st' sid)). map2stripe b = sid)"
proof -
  let ?st = "st\<lparr>m_cur_stripe_id := sid + 1\<rparr>" and ?stripe = "new_stripe cfg sid key" and ?n = "k + r + z"
  have top: "topology_ok ?n ?st" using inv by (simp add: service_inv_def meta_inv_def)
  have new: "stripe_k ?stripe = k" "stripe_r ?stripe = r" "stripe_z ?stripe = z" "stripe_n ?stripe = ?n" "stripe_id ?stripe = sid"
    "length (object_keys ?stripe) = 1" "stripe_blocks ?stripe = []" "group_to_blocks ?stripe = []"
    by (simp_all add: new_stripe_def cfg)
  have ok: "tables_ok ?st" and keys0: "map fst (m_node_table ?st) = map int [0..<?n]" using top by (simp_all add: topology_ok_def)
  have len: "length (m_node_table ?st) = ?n" using arg_cong [OF keys0, of length] by (simp only: length_map length_upt diff_zero)
  have nodes: "fst ` set (m_node_table ?st) = int ` {..<?n}" by (rule topology_nodes [OF top])
  have pos: "\<forall>v\<in>fst ` set (m_node_table ?st). 0 \<le> v" unfolding nodes by auto
  have fresh: "\<forall>v\<in>fst ` set (m_node_table ?st). nd_stripes (node_at ?st v) (stripe_id ?stripe) = None"
    using next_stripe_fresh [OF inv] by (simp add: sid_def new_stripe_def)
  have pre: "0 < stripe_z ?stripe" "stripe_n ?stripe = stripe_k ?stripe + stripe_r ?stripe + stripe_z ?stripe"
    "length (m_node_table ?st) = stripe_n ?stripe" using z len by (simp_all only: new)
  from glrc_placement_blocks [OF pre(1,2) new(6-8) ok pre(3) pos fresh, of cfg, unfolded new(1-5) nodes Let_def]
  obtain st1 stripe where p: "initialize_glrc_stripe_placement cfg ?stripe ?st = Some (st1, stripe)"
    and s: "length (stripe_blocks stripe) = ?n" "num_groups stripe = z"
      "\<forall>g<z. group_blocks stripe g = filter (\<lambda>i. glrc_block_group k r z i = int g) [0..<?n]"
      "distinct (map map2node (stripe_blocks stripe))" "set (map map2node (stripe_blocks stripe)) = int ` {..<?n}"
      "\<forall>v\<in>int ` {..<?n}. nd_stripes (node_at st1 v) sid \<noteq> None"
    and blk: "\<forall>i < ?n. stripe_blocks stripe ! i = new_block cfg ?stripe (glrc_block_group k r z i)
        (nd_cluster (node_at ?st (map2node (stripe_blocks stripe ! i)))) (map2node (stripe_blocks stripe ! i)) i
      \<and> nd_stripes (node_at st1 (map2node (stripe_blocks stripe ! i))) sid = Some (int i)"
    by - (elim exE conjE, rule that, assumption+)
  have ids: "blk_id (stripe_blocks stripe ! i) = i" if "i < ?n" for i using blk that by (metis new_block_simps(1))
  have names: "blk_key (stripe_blocks stripe ! i) = blk_key (new_block cfg ?stripe 0 0 0 i)" if "i < ?n" for i
  proof -
    have "blk_key (stripe_blocks stripe ! i) = blk_key (new_block cfg ?stripe (glrc_block_group k r z i)
        (nd_cluster (node_at ?st (map2node (stripe_blocks stripe ! i)))) (map2node (stripe_blocks stripe ! i)) i)"
      using blk that by (auto intro!: arg_cong [of _ _ blk_key])
    then show ?thesis by (simp add: new_block_def Let_def)
  qed
  have owner: "map2stripe b = sid" if b: "b \<in> set (stripe_blocks stripe)" for b
  proof -
    obtain i where i: "i < ?n" "b = stripe_blocks stripe ! i" using b s(1) by (auto simp: in_set_conv_nth)
    then have "map2stripe b = map2stripe (new_block cfg ?stripe (glrc_block_group k r z i)
        (nd_cluster (node_at ?st (map2node (stripe_blocks stripe ! i)))) (map2node (stripe_blocks stripe ! i)) i)"
      using blk by (auto intro!: arg_cong [of _ _ map2stripe])
    then show ?thesis by (simp add: new_block_def Let_def new(5))
  qed
  have placed: "glrc_placed k r z stripe" using s(1,3) ids by (simp add: glrc_placed_def)
  note f = glrc_placement_frame [OF p top, unfolded new]
  have held: "\<not> m_mutex_held st1" using f(1) free by (simp add: placement_frame_def bookkeeping_def)
  let ?plans = "generate_add_plans cfg st1 stripe"
  have keys: "map plan_key ?plans = map (gen_append_key sid) [0..<z]"
    using f(2) s(2) by (simp add: generate_add_plans_def fold_add_stripe_block)
  from upload_plans_accepted [OF acc held, of ?plans] obtain st2 where
      u: "upload_plans ?plans att st1 = Some (st2, True, upload_reply st2 ?plans (sum_list (map append_size ?plans)))"
    and lay: "layout_of st2 = layout_of st1"
    and pend: "\<forall>key\<in>plan_key ` set ?plans. m_object_updating_table st2 key \<noteq> None \<and> m_object_commit_table st2 key = None" by blast
  let ?st' = "st2\<lparr>m_stripe_table := tbl_set sid stripe (m_stripe_table st2)\<rparr>" and ?reply = "upload_reply st2 ?plans (sum_list (map append_size ?plans))"
  have up: "uploadSetValue cfg draws att key (BlockSize cfg * k) st = Some (?st', OK, ?reply)"
    using p u by (simp add: uploadSetValue_def upload_stripe_def place_stripe_def known_code_def Let_def cfg(1,2) sid_def)
  have at: "stripe_at ?st' sid = stripe"
    using f(1) layout_simps(3) [OF lay]
    by (simp add: stripe_at_def tbl_get_def map_of_tbl_set placement_frame_def topology_ok_def tables_ok_def)
  have top1: "topology_ok ?n st1" using f(1) by (simp add: placement_frame_def)
  have full: "\<forall>c. \<forall>v\<in>set (cl_nodes (cluster_at ?st' c)). nd_stripes (node_at ?st' v) sid \<noteq> None"
    unfolding tables_frame layout_simps [OF lay] using s(6) topology_cl_nodes [OF top1] by blast
  have rk: "append_keys ?reply = map (gen_append_key sid) [0..<z]" using keys by (simp add: upload_reply_def)
  have same: "generate_add_plans cfg ?st' stripe = ?plans"
    by (simp add: generate_add_plans_def add_stripe_block_def [abs_def] layout_simps(1) [OF lay] tables_frame)
  have rs: "cluster_slice_sizes ?reply = map append_size ?plans" "sum_append_size ?reply = sum_list (cluster_slice_sizes ?reply)"
    by (simp_all add: upload_reply_def)
  have "set (append_keys ?reply) = plan_key ` set ?plans" by (simp add: upload_reply_def)
  then show ?thesis using up rk rs s(2) f(2) placed names owner s(4,5) full pend held layout_simps(4) [OF lay]
    by (intro exI [of _ ?st'] exI [of _ ?reply]) (simp add: at same)
qed

section \<open>The commit protocol\<close>

text \<open>
  A client that asks for a pending key waits; the report of the proxy answers it, with success when the proxy
  committed and the key had not been committed before.
\<close>

lemma commit_protocol:
  assumes "m_object_updating_table st key \<noteq> None" "\<not> m_mutex_held st" "opp = SET \<or> opp = APPEND"
  shows "checkCommitAbort key opp i st = None"
    "\<exists>st'. reportCommitAbort key opp i True st = Some st' \<and> checkCommitAbort key opp i st' = Some True"
    "\<exists>st'. reportCommitAbort key opp i False st = Some st'
       \<and> checkCommitAbort key opp i st' = Some (m_object_commit_table st key \<noteq> None)"
  using assms by (auto simp: checkCommitAbort_def reportCommitAbort_def commit_object_def)

section \<open>Deletion\<close>

text \<open>Deleting a key that is not committed leaves the mutex locked: no later request that needs it returns.\<close>

lemma delete_unknown_key:
  assumes "m_object_commit_table st key = None" "\<not> m_mutex_held st"
  shows "\<exists>st'. delByKey key pick st = Some (st', None)
    \<and> (\<forall>key' pick'. delByKey key' pick' st' = None) \<and> (\<forall>sid pick'. delByStripe sid pick' st' = None)
    \<and> (\<forall>key' opp i c. reportCommitAbort key' opp i c st' = None) \<and> (\<forall>key' opp i. checkCommitAbort key' opp i st' = None)
    \<and> (\<forall>plans att. plans \<noteq> [] \<longrightarrow> upload_plans plans att st' = None)"
  using assms by (auto simp: delByKey_def delByStripe_def reportCommitAbort_def checkCommitAbort_def upload_plans_def)

text \<open>Committing the deletion of a stripe removes it from every table but that of the committed keys.\<close>

lemma delete_stripe_commit:
  assumes "\<not> m_mutex_held st" "tables_ok st"
  shows "\<exists>st'. reportCommitAbort key DEL (int sid) True st = Some st' \<and> sid \<notin> set (listStripes st')
    \<and> (\<forall>v. nd_stripes (node_at st' v) sid = None) \<and> (\<forall>c. \<forall>b\<in>set (cl_blocks (cluster_at st' c)). map2stripe b \<noteq> sid)
    \<and> (\<forall>s. s \<noteq> sid \<longrightarrow> stripe_at st' s = stripe_at st s)
    \<and> (\<forall>v s. s \<noteq> sid \<longrightarrow> nd_stripes (node_at st' v) s = nd_stripes (node_at st v) s)
    \<and> (\<forall>key. (\<forall>c. \<forall>b\<in>set (cl_blocks (cluster_at st c)). map2stripe b = sid \<longrightarrow> map2key b \<noteq> key)
         \<longrightarrow> m_object_commit_table st' key = m_object_commit_table st key)"
proof -
  let ?st = "commit_delete_stripe sid st"
  have at: "stripe_at ?st s = stripe_at st s" if "s \<noteq> sid" for s
    using that by (simp add: stripe_at_def tbl_get_def commit_delete_stripe_def Let_def map_of_tbl_erase)
  have "tbl_ok (m_cluster_table st)" using assms(2) by (simp add: tables_ok_def)
  then have "cluster_at st c = cl" if "(c, cl) \<in> set (m_cluster_table st)" for c cl
    using that by (simp add: cluster_at_def tbl_get_def map_of_is_SomeI tbl_ok_distinct)
  then have keys: "m_object_commit_table ?st key = m_object_commit_table st key"
    if "\<forall>c. \<forall>b\<in>set (cl_blocks (cluster_at st c)). map2stripe b = sid \<longrightarrow> map2key b \<noteq> key" for key
    using that by (force simp: commit_delete_stripe_def Let_def)
  have "sid \<notin> set (listStripes ?st)" by (auto simp: listStripes_def commit_delete_stripe_def Let_def tbl_erase_def)
  then show ?thesis using assms(1) commit_delete_stripe_simps at keys by (intro exI [of _ ?st]) (simp add: reportCommitAbort_def)
qed

text \<open>A reset forgets the stripes but not the clients' append offsets.\<close>

lemma setParameter_stale:
  assumes "m_cur_offset_table st key = Some so"
  shows "\<not> service_inv cfg N (setParameter st)" "m_cur_offset_table (setParameter st) key = Some so"
    "m_stripe_table (setParameter st) = []" "m_cur_stripe_id (setParameter st) = 0"
  using assms by (auto simp: service_inv_def meta_inv_def offsets_ok_def setParameter_def)

end
