(* ===== verification/Datanode.thy ===== *)
theory Datanode
  imports Metadata
begin

unbundle bit_operations_syntax

text \<open>
  The storage server (\<^verbatim>\<open>datanode.cpp\<close>).  A datanode keeps one file per block key in the directory of its port, so its
  state is a map from keys to contents; every handler reads a request, exchanges bytes with a proxy and changes that map.

  The bytes that arrive on the socket are an argument.  The contents of memory from \<^verbatim>\<open>new char[n]\<close> that is not filled are
  \<open>fresh n\<close>.  Whether a temporary file can be written and renamed is the flag \<open>disk\<close>; other writes to the disk succeed.
  \<^const>\<open>None\<close> stands for a process that ends (\<^verbatim>\<open>exit\<close>, a failed \<^verbatim>\<open>assert\<close>) or leaves the language (a write past a buffer).
\<close>

type_synonym files = "string \<Rightarrow> buffer option"

section \<open>Bytes in and out\<close>

text \<open>\<^verbatim>\<open>asio::read\<close> into a zeroed buffer of \<open>n\<close> bytes; a connection that ends early leaves the zeros.\<close>

definition received :: "nat \<Rightarrow> buffer \<Rightarrow> buffer" where
  "received n recv = take n recv @ replicate (n - length recv) 0"

definition int32_bytes :: "int \<Rightarrow> buffer" where
  "int32_bytes v = map (\<lambda>i. word_of_int (v div 2 ^ (8 * i))) [0..<4]"

definition bytes_int32 :: "buffer \<Rightarrow> int" where
  "bytes_int32 bs = signed_take_bit 31 (horner_sum uint 256 bs)"

definition int32_range :: "int \<Rightarrow> bool" where
  "int32_range v \<longleftrightarrow> - (2 ^ 31) \<le> v \<and> v < 2 ^ 31"

text \<open>Filling part of fresh memory.\<close>

definition fill :: "(nat \<Rightarrow> buffer) \<Rightarrow> nat \<Rightarrow> buffer \<Rightarrow> buffer" where
  "fill fresh n got = take n got @ drop (length (take n got)) (fresh n)"

text \<open>
  The loop that forwards a stream in chunks: a chunk that cannot be read in full ends it.  The result is what was forwarded.
\<close>

function stream_chunks :: "nat \<Rightarrow> nat \<Rightarrow> buffer \<Rightarrow> buffer" where
  "stream_chunks chunk remaining src =
     (let requested = min chunk remaining in
      if requested = 0 \<or> length src < requested then []
      else take requested src @ stream_chunks chunk (remaining - requested) (drop requested src))"
  by pat_completeness auto
termination by (relation "measure (\<lambda>(_, remaining, _). remaining)") auto

declare stream_chunks.simps [simp del]

definition kStreamChunkBytes :: nat where
  "kStreamChunkBytes = 1024 * 1024"

section \<open>Files\<close>

definition write_block_file_atomic :: "bool \<Rightarrow> string \<Rightarrow> buffer \<Rightarrow> files \<Rightarrow> files \<times> bool" where
  "write_block_file_atomic disk key data fs = (if disk then (fs(key \<mapsto> data), True) else (fs, False))"

text \<open>A positional write; the bytes between the end of the file and the position read as zero.\<close>

definition write_at :: "nat \<Rightarrow> buffer \<Rightarrow> buffer \<Rightarrow> buffer" where
  "write_at off data file =
     take off (file @ replicate (off - length file) 0) @ data @ drop (off + length data) file"

definition write_slice :: "bool \<Rightarrow> string \<Rightarrow> int \<Rightarrow> buffer \<Rightarrow> files \<Rightarrow> files \<times> bool" where
  "write_slice disk key off data fs =
     (if off = 0 then write_block_file_atomic disk key data fs
      else let file = (case fs key of None \<Rightarrow> [] | Some f \<Rightarrow> f) in
      if off < 0 then (fs(key \<mapsto> file), False) else (fs(key \<mapsto> write_at (nat off) data file), True))"

section \<open>Parity slices\<close>

record ParitySlice =
  ps_offset :: int
  ps_size :: int
  slice_ptr :: buffer

definition slice_bytes :: "ParitySlice \<Rightarrow> buffer" where
  "slice_bytes s = int32_bytes (ps_offset s) @ int32_bytes (ps_size s) @ take (nat (ps_size s)) (slice_ptr s)"

definition serialize :: "string \<Rightarrow> ParitySlice \<Rightarrow> files \<Rightarrow> files" where
  "serialize key s fs = fs(key \<mapsto> (case fs key of None \<Rightarrow> [] | Some f \<Rightarrow> f) @ slice_bytes s)"

text \<open>
  Reading one \<^verbatim>\<open>int\<close> whose memory holds 0: its value, the rest of the stream and whether the stream is still good.  A stream
  that has failed delivers nothing.
\<close>

definition read_int :: "buffer \<times> bool \<Rightarrow> int \<times> buffer \<times> bool" where
  "read_int = (\<lambda>(s, good).
     if \<not> good then (0, s, False)
     else if length s < 4 then (bytes_int32 (s @ replicate (4 - length s) 0), [], False)
     else (bytes_int32 (take 4 s), drop 4 s, True))"

text \<open>
  All slices of a file.  A negative size makes \<^verbatim>\<open>new char[size]\<close> throw, which is \<^const>\<open>None\<close>; a file that ends inside a slice
  leaves the rest of that slice as allocated.
\<close>

function deserialize :: "(nat \<Rightarrow> buffer) \<Rightarrow> buffer \<Rightarrow> ParitySlice list option" where
  "deserialize fresh s =
     (if s = [] then Some []
      else let (off, s1, good1) = read_int (s, True); (sz, s2, good2) = read_int (s1, good1) in
      if sz < 0 then None
      else let got = (if good2 then take (nat sz) s2 else []);
               sl = \<lparr>ps_offset = off, ps_size = sz, slice_ptr = fill fresh (nat sz) got\<rparr> in
      if good2 \<and> length got = nat sz then map_option (\<lambda>sls. sl # sls) (deserialize fresh (drop (nat sz) s2))
      else Some [sl])"
  by pat_completeness auto
termination
  by (relation "measure (\<lambda>(_, s). length s)") (auto simp: read_int_def split: if_splits)

declare deserialize.simps [simp del]

text \<open>
  The overload that copies all slices one after the other into a buffer.  \<^const>\<open>None\<close>: a header is incomplete, so that the size
  is not initialised, or the slices do not fit into the buffer.
\<close>

function deserialize_flat :: "buffer \<Rightarrow> nat \<Rightarrow> buffer \<Rightarrow> buffer option" where
  "deserialize_flat s accumulated_offset buf =
     (if s = [] then Some buf
      else if length s < 8 then None
      else let sz = bytes_int32 (take 4 (drop 4 s)); got = take (nat sz) (drop 8 s) in
      if sz < 0 then Some buf
      else if accumulated_offset + length got > length buf then None
      else let buf = take accumulated_offset buf @ got @ drop (accumulated_offset + length got) buf in
      if length got < nat sz then Some buf
      else deserialize_flat (drop (8 + nat sz) s) (accumulated_offset + nat sz) buf)"
  by pat_completeness auto
termination by (relation "measure (\<lambda>(s, _, _). length s)") auto

declare deserialize_flat.simps [simp del]

section \<open>Handlers\<close>

record AppendInfo =
  ai_block_key :: string
  ai_block_id :: nat
  ai_append_size :: nat
  ai_append_offset :: int
  ai_is_serialized :: bool

text \<open>The bytes have been received; the handler of a parity block keeps the slice with its header when it is serialized.\<close>

definition handleAppend :: "SysConfig \<Rightarrow> bool \<Rightarrow> AppendInfo \<Rightarrow> buffer \<Rightarrow> files \<Rightarrow> files \<times> bool" where
  "handleAppend cfg disk rq recv fs =
     (let buf = received (ai_append_size rq) recv in
      if ai_block_id rq < cfg_k cfg then write_slice disk (ai_block_key rq) (ai_append_offset rq) buf fs
      else if ai_is_serialized rq
      then (serialize (ai_block_key rq)
              \<lparr>ps_offset = ai_append_offset rq, ps_size = int (ai_append_size rq), slice_ptr = buf\<rparr> fs, True)
      else write_slice disk (ai_block_key rq) (ai_append_offset rq) buf fs)"

definition merge_byte :: "SysConfig \<Rightarrow> ParitySlice \<Rightarrow> nat \<Rightarrow> buffer \<Rightarrow> buffer option" where
  "merge_byte cfg s i mergedBuf =
     (let p = ps_offset s + int i in
      if 0 \<le> p \<and> p < int (BlockSize cfg) then Some (mergedBuf[nat p := mergedBuf ! nat p XOR slice_ptr s ! i]) else None)"

fun merge_slice :: "SysConfig \<Rightarrow> ParitySlice \<Rightarrow> nat list \<Rightarrow> buffer \<Rightarrow> buffer option" where
  "merge_slice cfg s [] mergedBuf = Some mergedBuf"
| "merge_slice cfg s (i # is) mergedBuf =
     (case merge_byte cfg s i mergedBuf of None \<Rightarrow> None | Some buf \<Rightarrow> merge_slice cfg s is buf)"

fun merge_slices :: "SysConfig \<Rightarrow> ParitySlice list \<Rightarrow> buffer \<Rightarrow> buffer option" where
  "merge_slices cfg [] mergedBuf = Some mergedBuf"
| "merge_slices cfg (s # ss) mergedBuf =
     (case merge_slice cfg s [0..<nat (ps_size s)] mergedBuf of None \<Rightarrow> None | Some buf \<Rightarrow> merge_slices cfg ss buf)"

definition handleMergeParity :: "SysConfig \<Rightarrow> (nat \<Rightarrow> buffer) \<Rightarrow> string \<Rightarrow> files \<Rightarrow> files option" where
  "handleMergeParity cfg fresh key fs =
     (case fs key of None \<Rightarrow> None
      | Some file \<Rightarrow>
          (case deserialize fresh file of None \<Rightarrow> Some fs
           | Some slices \<Rightarrow>
               map_option (\<lambda>mergedBuf. fs(key \<mapsto> mergedBuf)) (merge_slices cfg slices (replicate (BlockSize cfg) 0))))"

definition handleSet :: "bool \<Rightarrow> string \<Rightarrow> nat \<Rightarrow> buffer \<Rightarrow> files \<Rightarrow> files \<times> bool" where
  "handleSet disk key block_size recv fs = write_block_file_atomic disk key (received block_size recv) fs"

text \<open>The bytes that a full read sends.\<close>

definition handleGet :: "(nat \<Rightarrow> buffer) \<Rightarrow> string \<Rightarrow> nat \<Rightarrow> files \<Rightarrow> buffer" where
  "handleGet fresh key block_size fs =
     fill fresh block_size (case fs key of None \<Rightarrow> [] | Some file \<Rightarrow> file)"

text \<open>A range read sends whole chunks only.\<close>

definition handleGetBreakdown :: "string \<Rightarrow> nat \<Rightarrow> nat \<Rightarrow> int \<Rightarrow> files \<Rightarrow> buffer" where
  "handleGetBreakdown key block_size read_offset read_length fs =
     (let (off, len) = (if read_length \<le> 0 then (0, block_size) else (read_offset, nat read_length)) in
      case fs key of None \<Rightarrow> []
      | Some file \<Rightarrow> stream_chunks (min kStreamChunkBytes len) len (drop off file))"

text \<open>The reply is absent when the request is refused.\<close>

definition readBlockBytes :: "string \<Rightarrow> int \<Rightarrow> files \<Rightarrow> buffer option option" where
  "readBlockBytes key block_size fs =
     (case fs key of None \<Rightarrow> Some None
      | Some file \<Rightarrow>
          if block_size \<le> 0 \<or> file = [] then Some None
          else if length file = nat block_size then Some (Some file)
          else map_option Some (deserialize_flat file 0 (replicate (nat block_size) 0)))"

text \<open>
  Merging the parities of two stripes; the second parity may have to be read from another datanode, in up to five attempts
  whose replies are \<open>remote\<close>.
\<close>

definition load_parity :: "nat \<Rightarrow> buffer \<Rightarrow> buffer option" where
  "load_parity block_size file =
     (if length file = block_size then Some file else deserialize_flat file 0 (replicate block_size 0))"

definition handleStripeMergeParity :: "string \<Rightarrow> string \<Rightarrow> string \<Rightarrow> nat \<Rightarrow> byte \<Rightarrow> string \<Rightarrow> int
    \<Rightarrow> (nat \<Rightarrow> buffer option) \<Rightarrow> files \<Rightarrow> (files \<times> bool) option" where
  "handleStripeMergeParity key_a key_b new_key block_size coeff b_ip b_port remote fs =
     (case fs key_a of None \<Rightarrow> Some (fs, False)
      | Some file_a \<Rightarrow>
          (case load_parity block_size file_a of None \<Rightarrow> None
           | Some buf_a \<Rightarrow>
               let loaded_b =
                 (case fs key_b of
                    Some file_b \<Rightarrow> map_option Some (load_parity block_size file_b)
                  | None \<Rightarrow>
                      if b_ip \<noteq> [] \<and> b_port > 0
                      then Some (first_some (\<lambda>attempt. case remote attempt of
                               Some data \<Rightarrow> if length data = block_size then Some data else None | None \<Rightarrow> None) [0..<5])
                      else Some None) in
               (case loaded_b of None \<Rightarrow> None
                | Some None \<Rightarrow> Some (fs, False)
                | Some (Some buf_b) \<Rightarrow>
                    Some (fs(new_key \<mapsto> map (\<lambda>i. buf_a ! i XOR gf_mul coeff (buf_b ! i)) [0..<block_size]), True))))"

definition handleDelete :: "string \<Rightarrow> files \<Rightarrow> files" where
  "handleDelete key fs = fs(key := None)"

definition handleRecovery :: "SysConfig \<Rightarrow> string \<Rightarrow> buffer \<Rightarrow> files \<Rightarrow> files \<times> bool" where
  "handleRecovery cfg key recv fs =
     (fs(key \<mapsto> received (BlockSize cfg) recv), BlockSize cfg \<le> length recv)"

section \<open>Round trips\<close>

lemma length_int32_bytes [simp]: "length (int32_bytes v) = 4"
  by (simp add: int32_bytes_def)

lemma int32_bytes_not_Nil [simp]: "int32_bytes v \<noteq> []"
  by (simp add: int32_bytes_def)

lemma int32_round_trip: "int32_range v \<Longrightarrow> bytes_int32 (int32_bytes v) = v"
proof -
  assume r: "int32_range v"
  have upt: "[0..<4] = [0, 1, 2, 3 :: nat]" by (simp add: upt_rec)
  have digit: "v div 256 ^ i mod 256 + 256 * (v div 256 ^ Suc i mod 256 ^ j) = v div 256 ^ i mod 256 ^ Suc j" for i j
    using zmod_zmult2_eq [of "256 ^ j" "v div 256 ^ i" 256] by (simp add: zdiv_zmult2_eq [symmetric] mult.commute)
  have "horner_sum uint 256 (int32_bytes v) = v mod 256 ^ 4"
    using digit [of 0 3] digit [of 1 2] digit [of 2 1] digit [of 3 0]
    by (simp add: int32_bytes_def upt unsigned_of_int take_bit_eq_mod)
  then have "bytes_int32 (int32_bytes v) = signed_take_bit 31 (take_bit 32 v)"
    by (simp add: bytes_int32_def take_bit_eq_mod)
  also have "\<dots> = v" using r by (simp add: int32_range_def signed_take_bit_take_bit signed_take_bit_int_eq_self)
  finally show ?thesis .
qed

definition slice_ok :: "ParitySlice \<Rightarrow> bool" where
  "slice_ok s \<longleftrightarrow> int32_range (ps_offset s) \<and> ps_size s = int (length (slice_ptr s)) \<and> int32_range (ps_size s)"

lemma fill_full: "length got = n \<Longrightarrow> length (fresh n) = n \<Longrightarrow> fill fresh n got = got"
  by (simp add: fill_def)

lemma deserialize_slice:
  assumes "slice_ok s" "\<And>n. length (fresh n) = n"
  shows "deserialize fresh (slice_bytes s @ rest) = map_option (\<lambda>sls. s # sls) (deserialize fresh rest)"
proof -
  have "bytes_int32 (int32_bytes (int (length (slice_ptr s)))) = int (length (slice_ptr s))"
      "bytes_int32 (int32_bytes (ps_offset s)) = ps_offset s"
    using assms(1) int32_round_trip [of "ps_offset s"] int32_round_trip [of "ps_size s"] by (auto simp: slice_ok_def)
  then show ?thesis using assms
    by (cases s, subst deserialize.simps) (simp add: slice_bytes_def read_int_def slice_ok_def fill_full Let_def)
qed

lemma deserialize_slices:
  assumes "\<And>n. length (fresh n) = n" "list_all slice_ok ss"
  shows "deserialize fresh (concat (map slice_bytes ss)) = Some ss"
  using assms(2) by (induction ss) (simp_all add: deserialize_slice assms(1) deserialize.simps [of _ "[]"])

lemma serialize_fold:
  "fold (serialize key) ss fs key' =
    (if key' = key \<and> ss \<noteq> [] then Some ((case fs key of None \<Rightarrow> [] | Some f \<Rightarrow> f) @ concat (map slice_bytes ss)) else fs key')"
  by (induction ss arbitrary: fs) (simp_all add: serialize_def)

section \<open>Merging\<close>

definition slice_at :: "ParitySlice \<Rightarrow> nat \<Rightarrow> byte" where
  "slice_at s p = (if ps_offset s \<le> int p \<and> int p < ps_offset s + ps_size s then slice_ptr s ! nat (int p - ps_offset s) else 0)"

definition slice_fits :: "nat \<Rightarrow> ParitySlice \<Rightarrow> bool" where
  "slice_fits bsize s \<longleftrightarrow> ps_size s \<le> 0 \<or> 0 \<le> ps_offset s \<and> ps_offset s + ps_size s \<le> int bsize"

lemma merge_slice_fold:
  "merge_slice cfg s is buf =
    (if \<forall>i\<in>set is. 0 \<le> ps_offset s + int i \<and> ps_offset s + int i < int (BlockSize cfg)
     then Some (fold (\<lambda>i buf. buf[nat (ps_offset s + int i) := buf ! nat (ps_offset s + int i) XOR slice_ptr s ! i]) is buf)
     else None)"
  by (induction "is" arbitrary: buf) (auto simp: merge_byte_def Let_def)

lemma xor_fold_nth:
  assumes "p < length buf" "0 \<le> off"
  shows "fold (\<lambda>i buf. buf[nat (off + int i) := buf ! nat (off + int i) XOR d ! i]) [0..<n] buf ! p
    = buf ! p XOR (if off \<le> int p \<and> int p < off + int n then d ! nat (int p - off) else 0)"
proof (induction n)
  case (Suc n)
  have len: "length (fold (\<lambda>i buf. buf[nat (off + int i) := buf ! nat (off + int i) XOR d ! i]) [0..<n] buf) = length buf"
    by (simp add: len_simps)
  show ?case
  proof (cases "p = nat (off + int n)")
    case True
    then have "int p = off + int n" using assms(2) by simp
    then show ?thesis using Suc.IH len assms True by (auto simp: nth_list_update)
  next
    case False
    then have "int p \<noteq> off + int n" by linarith
    then show ?thesis using Suc.IH len assms False by (auto simp: nth_list_update)
  qed
qed (use assms in auto)

lemma merge_slice_result:
  assumes "length buf = BlockSize cfg"
  shows "merge_slice cfg s [0..<nat (ps_size s)] buf =
    (if slice_fits (BlockSize cfg) s then Some (map (\<lambda>p. buf ! p XOR slice_at s p) [0..<BlockSize cfg]) else None)"
proof -
  let ?n = "nat (ps_size s)" and ?B = "BlockSize cfg"
  have fits: "(\<forall>i\<in>set [0..<?n]. 0 \<le> ps_offset s + int i \<and> ps_offset s + int i < int ?B) \<longleftrightarrow> slice_fits ?B s"
  proof (cases "ps_size s \<le> 0")
    case False
    have "0 \<le> ps_offset s \<and> ps_offset s + ps_size s \<le> int ?B"
      if "\<forall>i<?n. 0 \<le> ps_offset s + int i \<and> ps_offset s + int i < int ?B"
      using that [THEN spec, of 0] that [THEN spec, of "?n - 1"] False by (simp add: of_nat_diff nat_less_iff)
    then show ?thesis using False by (auto simp: slice_fits_def)
  qed (simp add: slice_fits_def)
  show ?thesis
  proof (cases "slice_fits ?B s")
    case True
    have "fold (\<lambda>i buf. buf[nat (ps_offset s + int i) := buf ! nat (ps_offset s + int i) XOR slice_ptr s ! i]) [0..<?n] buf
        = map (\<lambda>p. buf ! p XOR slice_at s p) [0..<?B]"
    proof (cases "ps_size s \<le> 0")
      case True
      then have "slice_at s p = 0" for p by (auto simp: slice_at_def)
      then show ?thesis using True assms by (auto intro!: nth_equalityI)
    next
      case False
      then show ?thesis using \<open>slice_fits ?B s\<close> assms
        by (auto simp: slice_fits_def slice_at_def xor_fold_nth len_simps intro!: nth_equalityI)
    qed
    then show ?thesis unfolding merge_slice_fold using fits True by simp
  next
    case False
    then show ?thesis unfolding merge_slice_fold using fits by simp
  qed
qed

lemma merge_slices_result:
  assumes "length buf = BlockSize cfg"
  shows "merge_slices cfg ss buf =
    (if list_all (slice_fits (BlockSize cfg)) ss
     then Some (map (\<lambda>p. fold (\<lambda>s b. b XOR slice_at s p) ss (buf ! p)) [0..<BlockSize cfg]) else None)"
  using assms
proof (induction ss arbitrary: buf)
  case Nil
  then show ?case by (auto intro: nth_equalityI)
next
  case (Cons s ss)
  then show ?case by (simp add: merge_slice_result)
qed

text \<open>The slices that were appended come back and are summed at their positions.\<close>

lemma merge_appended_slices:
  assumes "\<And>n. length (fresh n) = n" "list_all slice_ok ss" "list_all (slice_fits (BlockSize cfg)) ss" "ss \<noteq> []" "fs key = None"
  shows "handleMergeParity cfg fresh key (fold (serialize key) ss fs) =
    Some ((fold (serialize key) ss fs)(key \<mapsto> map (\<lambda>p. fold (\<lambda>s b. b XOR slice_at s p) ss 0) [0..<BlockSize cfg]))"
proof -
  have "fold (serialize key) ss fs key = Some (concat (map slice_bytes ss))" using assms by (simp add: serialize_fold)
  moreover have merged: "map (\<lambda>p. fold (\<lambda>s b. b XOR slice_at s p) ss (replicate (BlockSize cfg) 0 ! p)) [0..<BlockSize cfg]
      = map (\<lambda>p. fold (\<lambda>s b. b XOR slice_at s p) ss 0) [0..<BlockSize cfg]" by (rule map_cong) auto
  ultimately show ?thesis
    using assms by (simp add: handleMergeParity_def deserialize_slices merge_slices_result merged)
qed

section \<open>Streams\<close>

lemma stream_chunks_prefix: "\<exists>n\<le>remaining. stream_chunks chunk remaining src = take n src \<and> n \<le> length src"
proof (induction chunk remaining src rule: stream_chunks.induct)
  case (1 chunk remaining src)
  let ?q = "min chunk remaining"
  show ?case
  proof (cases "?q = 0 \<or> length src < ?q")
    case True
    then show ?thesis by (intro exI [of _ 0]) (auto simp: stream_chunks.simps [of chunk remaining src])
  next
    case False
    then obtain n where "n \<le> remaining - ?q" "stream_chunks chunk (remaining - ?q) (drop ?q src) = take n (drop ?q src)"
        "n \<le> length (drop ?q src)"
      using 1 by blast
    then show ?thesis using False
      by (intro exI [of _ "?q + n"]) (auto simp: stream_chunks.simps [of chunk remaining src] take_add Let_def)
  qed
qed

lemma stream_chunks_whole: "0 < chunk \<Longrightarrow> remaining \<le> length src \<Longrightarrow> stream_chunks chunk remaining src = take remaining src"
proof (induction chunk remaining src rule: stream_chunks.induct)
  case (1 chunk remaining src)
  let ?q = "min chunk remaining"
  show ?case
  proof (cases "remaining = 0")
    case True
    then show ?thesis by (simp add: stream_chunks.simps)
  next
    case False
    then have q: "?q \<noteq> 0" "\<not> length src < ?q" "?q + (remaining - ?q) = remaining" using 1 by auto
    then have "stream_chunks chunk (remaining - ?q) (drop ?q src) = take (remaining - ?q) (drop ?q src)"
      using 1 by auto
    then have "stream_chunks chunk remaining src = take ?q src @ take (remaining - ?q) (drop ?q src)"
      using q(1,2) by (simp only: stream_chunks.simps [of chunk remaining src] Let_def if_False simp_thms)
    also have "\<dots> = take remaining src" using q(3) by (simp only: take_add [symmetric])
    finally show ?thesis .
  qed
qed

text \<open>A stream is complete exactly when enough bytes are there.\<close>

lemma stream_chunks_complete:
  "0 < chunk \<Longrightarrow> length (stream_chunks chunk remaining src) = remaining \<longleftrightarrow> remaining \<le> length src"
  using stream_chunks_prefix [of remaining chunk src] stream_chunks_whole [of chunk remaining src] by (auto simp: min_def split: if_splits)

lemma range_read_exact:
  assumes "fs key = Some file" "0 < len" "off + len \<le> length file"
  shows "handleGetBreakdown key bsize off (int len) fs = take len (drop off file)"
  using assms by (simp add: handleGetBreakdown_def kStreamChunkBytes_def stream_chunks_whole)

lemma received_full [simp]: "length recv = n \<Longrightarrow> received n recv = recv"
  by (simp add: received_def)

lemma length_received [simp]: "length (received n recv) = n"
  by (simp add: received_def)

section \<open>Positional writes\<close>

lemma length_write_at: "length (write_at off data file) = max (length file) (off + length data)"
  by (auto simp: write_at_def)

lemma write_at_nth:
  assumes "p < max (length file) (off + length data)"
  shows "write_at off data file ! p =
    (if off \<le> p \<and> p < off + length data then data ! (p - off) else if p < length file then file ! p else 0)"
proof -
  have "min (length file) off + (off - length file) = off" by simp
  then show ?thesis using assms by (auto simp: write_at_def nth_append)
qed

text \<open>Writes to different places commute: concurrent writers of disjoint ranges need no order.\<close>

lemma write_at_commute:
  assumes "a + length d \<le> b \<or> b + length e \<le> a"
  shows "write_at a d (write_at b e file) = write_at b e (write_at a d file)"
  using assms by (intro nth_equalityI) (auto simp: length_write_at write_at_nth)

section \<open>A store of blocks\<close>

text \<open>
  What the proxies rely on: a block that was written is read back, and other blocks are left alone.  The order in which
  different blocks are written does not matter, so they may be written by concurrent threads.
\<close>

locale block_store =
  fixes fetch :: "'s \<Rightarrow> 'k \<Rightarrow> 'v option" and store :: "'k \<times> 'v \<Rightarrow> 's \<Rightarrow> 's" and discard :: "'k \<Rightarrow> 's \<Rightarrow> 's" and valid :: "'v \<Rightarrow> bool"
  assumes fetch_store: "valid v \<Longrightarrow> fetch (store (k, v) s) k' = (if k' = k then Some v else fetch s k')"
    and fetch_discard: "fetch (discard k s) k' = (if k' = k then None else fetch s k')"
begin

lemma fetch_stores:
  assumes "\<And>k v. (k, v) \<in> set kvs \<Longrightarrow> valid v \<and> v = h k"
  shows "fetch (fold store kvs s) k = (if k \<in> fst ` set kvs then Some (h k) else fetch s k)"
  using assms
proof (induction kvs arbitrary: s)
  case (Cons kv kvs)
  obtain k' v where kv: "kv = (k', v)" by force
  then have "valid v" "v = h k'" using Cons.prems [of k' v] by auto
  moreover have "fetch (fold store kvs (store kv s)) k = (if k \<in> fst ` set kvs then Some (h k) else fetch (store kv s) k)"
    using Cons.prems by (intro Cons.IH) (meson list.set_intros(2))
  ultimately show ?case using kv by (simp add: fetch_store)
qed simp

lemma fetch_discards: "fetch (fold discard ks s) k = (if k \<in> set ks then None else fetch s k)"
  by (induction ks arbitrary: s) (simp_all add: fetch_discard)

end

definition full_append :: "SysConfig \<Rightarrow> nat \<Rightarrow> string \<Rightarrow> AppendInfo" where
  "full_append cfg bid key = \<lparr>ai_block_key = key, ai_block_id = bid, ai_append_size = BlockSize cfg, ai_append_offset = 0,
     ai_is_serialized = False\<rparr>"

lemma handleAppend_full:
  "length data = BlockSize cfg \<Longrightarrow> handleAppend cfg disk (full_append cfg bid key) data fs = write_block_file_atomic disk key data fs"
  by (simp add: handleAppend_def full_append_def write_slice_def Let_def)

interpretation node_store: block_store "\<lambda>fs key. fs key" "\<lambda>(key, data) fs. fst (handleAppend cfg True (full_append cfg bid key) data fs)"
  handleDelete "\<lambda>data. length data = BlockSize cfg" for cfg bid
  by unfold_locales (auto simp: handleAppend_full write_block_file_atomic_def handleDelete_def)

text \<open>A block that a datanode stored is what it sends.\<close>

lemma get_after_store:
  assumes "fs key = Some data" "length data = n" "length (fresh n) = n"
  shows "handleGet fresh key n fs = data"
  using assms by (simp add: handleGet_def fill_full)

end
