(* ===== verification/UploadPath.thy ===== *)
theory UploadPath
  imports ServiceRuns Datanode
begin

text \<open>
  The way of a stripe from the client to the datanodes (\<^verbatim>\<open>Client::set\<close> of \<^verbatim>\<open>client.cpp\<close>, \<^verbatim>\<open>scheduleAppend2Datanode\<close> and
  \<^verbatim>\<open>deleteBlock\<close> of \<^verbatim>\<open>proxy.cpp\<close>, \<^verbatim>\<open>splitCharPointer\<close> of \<^verbatim>\<open>toolbox.cpp\<close>).

  A pointer into a buffer is an offset.  The client fills one buffer with the blocks of all groups, encodes in place and
  sends each proxy the part of its group; the proxy cuts it into slices and sends them to the datanodes, which are a map
  from addresses to files.  A failed \<^verbatim>\<open>assert\<close> is \<^const>\<open>None\<close>.
\<close>

section \<open>Cutting a buffer\<close>

fun split_from :: "nat \<Rightarrow> nat \<Rightarrow> nat list \<Rightarrow> nat list option" where
  "split_from currentOffset str_size [] = (if currentOffset = str_size then Some [] else None)"
| "split_from currentOffset str_size (s # ss) =
     (if currentOffset + s \<le> str_size then map_option (\<lambda>ps. currentOffset # ps) (split_from (currentOffset + s) str_size ss)
      else None)"

definition splitCharPointer :: "nat \<Rightarrow> nat \<Rightarrow> nat list \<Rightarrow> nat list option" where
  "splitCharPointer str str_size ss = map_option (map ((+) str)) (split_from 0 str_size ss)"

section \<open>The client\<close>

text \<open>
  How many data, global and local blocks each group has in the client's buffer.  The branches for RS, which the
  coordinator refuses, are left out.
\<close>

definition client_data_block_num_per_group :: "nat \<Rightarrow> nat \<Rightarrow> nat \<Rightarrow> string \<Rightarrow> nat list" where
  "client_data_block_num_per_group k r z code_type =
     (if code_type = ''AzureLRC'' then replicate z (k div z) @ [0]
      else if code_type = ''OptimalLRC''
      then let group_size = r + 1; local_group_size = k div z; per_group = local_group_size div group_size + 1;
               group_num = z * per_group + 1
           in map (\<lambda>i. if (i + 1) mod per_group \<noteq> 0 then group_size else local_group_size mod group_size) [0..<group_num - 1] @ [0]
      else if code_type = ''UniformLRC'' then replicate (z - 1) ((k + r) div z) @ [0]
      else if code_type = ''UniLRC'' then replicate z (k div z)
      else if code_type = ''gLRC'' then map nat (glrc_fill_data_blocks_per_group (int k) (int r) (int z))
      else [])"

definition get_global_parity_block_num_per_group :: "nat \<Rightarrow> nat \<Rightarrow> nat \<Rightarrow> string \<Rightarrow> nat list" where
  "get_global_parity_block_num_per_group k r z code_type =
     (if code_type = ''AzureLRC'' then replicate z 0 @ [r]
      else if code_type = ''OptimalLRC''
      then replicate (z * (k div z div (r + 1) + 1)) 0 @ [r]
      else if code_type = ''UniformLRC'' then replicate (z - 1) 0 @ [r]
      else if code_type = ''UniLRC'' then replicate z (r div z)
      else if code_type = ''gLRC'' then map (\<lambda>i. nat (glrc_global_blocks_in_group (int i) (int k) (int r) (int z))) [0..<z]
      else [])"

definition get_local_parity_block_num_per_group :: "nat \<Rightarrow> nat \<Rightarrow> nat \<Rightarrow> string \<Rightarrow> nat list" where
  "get_local_parity_block_num_per_group k r z code_type =
     (if code_type = ''AzureLRC'' then replicate z 1 @ [0]
      else if code_type = ''OptimalLRC''
      then let per_group = k div z div (r + 1) + 1
           in map (\<lambda>i. if (i + 1) mod per_group \<noteq> 0 then 0 else 1) [0..<z * per_group] @ [0]
      else if code_type = ''UniformLRC'' \<or> code_type = ''UniLRC'' \<or> code_type = ''gLRC'' then replicate z 1
      else [])"

text \<open>The pointers to the data, global and local blocks; an index past the counts of the code is a read past a vector.\<close>

definition split_group :: "SysConfig \<Rightarrow> nat list \<Rightarrow> nat list \<Rightarrow> nat list \<Rightarrow> nat list \<Rightarrow> nat list \<Rightarrow> nat
    \<Rightarrow> nat list \<times> nat list \<times> nat list \<Rightarrow> (nat list \<times> nat list \<times> nat list) option" where
  "split_group cfg slice_sizes cluster_slice_data dnum gnum lnum i = (\<lambda>(ds, gs, ls).
     if i \<ge> length dnum \<or> i \<ge> length gnum \<or> i \<ge> length lnum then None
     else map_option (\<lambda>ps. (ds @ take (dnum ! i) ps, gs @ take (gnum ! i) (drop (dnum ! i) ps),
                            ls @ take (lnum ! i) (drop (dnum ! i + gnum ! i) ps)))
       (splitCharPointer (cluster_slice_data ! i) (slice_sizes ! i) (replicate (dnum ! i + gnum ! i + lnum ! i) (BlockSize cfg))))"

definition split_for_set_data_and_parity :: "SysConfig \<Rightarrow> nat list \<Rightarrow> nat list \<Rightarrow> nat list \<Rightarrow> nat list \<Rightarrow> nat list
    \<Rightarrow> (nat list \<times> nat list \<times> nat list) option" where
  "split_for_set_data_and_parity cfg slice_sizes cluster_slice_data dnum gnum lnum =
     fold_option (split_group cfg slice_sizes cluster_slice_data dnum gnum lnum) [0..<length cluster_slice_data] ([], [], [])"

definition encode_by_code :: "SysConfig \<Rightarrow> buffer list \<Rightarrow> buffer list \<Rightarrow> buffer list option" where
  "encode_by_code cfg data parity =
     (let k = cfg_k cfg; r = cfg_r cfg; z = cfg_z cfg; bs = BlockSize cfg; code_type = CodeType cfg in
      if code_type = ''UniLRC'' then Some (encode_unilrc k r z data parity bs)
      else if code_type = ''OptimalLRC'' then Some (encode_optimal_lrc k r z data parity bs)
      else if code_type = ''UniformLRC'' then Some (encode_uniform_lrc k r z data parity bs)
      else if code_type = ''AzureLRC'' then Some (encode_azure_lrc k r z data parity bs)
      else if code_type = ''gLRC'' then Some (encode_glrc k r z data parity bs)
      else None)"

definition block_in :: "SysConfig \<Rightarrow> buffer \<Rightarrow> nat \<Rightarrow> buffer" where
  "block_in cfg m p = take (BlockSize cfg) (drop p m)"

definition set_pointers :: "SysConfig \<Rightarrow> ReplyProxyIPsPorts \<Rightarrow> (nat list \<times> nat list \<times> nat list \<times> nat list) option" where
  "set_pointers cfg reply =
     (case splitCharPointer 0 (sum_append_size reply) (cluster_slice_sizes reply) of None \<Rightarrow> None
      | Some cluster_slice_data \<Rightarrow>
          let k = cfg_k cfg; r = cfg_r cfg; z = cfg_z cfg; code_type = CodeType cfg in
          map_option (\<lambda>ptrs. (cluster_slice_data, ptrs))
            (split_for_set_data_and_parity cfg (cluster_slice_sizes reply) cluster_slice_data
               (client_data_block_num_per_group k r z code_type) (get_global_parity_block_num_per_group k r z code_type)
               (get_local_parity_block_num_per_group k r z code_type)))"

text \<open>The data blocks of the client's buffer, and what \<^verbatim>\<open>set\<close> sends to each proxy.\<close>

definition client_data :: "SysConfig \<Rightarrow> ReplyProxyIPsPorts \<Rightarrow> buffer \<Rightarrow> buffer list option" where
  "client_data cfg reply m = map_option (\<lambda>(_, ds, _, _). map (block_in cfg m) ds) (set_pointers cfg reply)"

definition client_set :: "SysConfig \<Rightarrow> ReplyProxyIPsPorts \<Rightarrow> buffer \<Rightarrow> buffer list option" where
  "client_set cfg reply m =
     (case set_pointers cfg reply of None \<Rightarrow> None
      | Some (cluster_slice_data, ds, gs, ls) \<Rightarrow>
          map_option (\<lambda>parity.
              let m = fold (\<lambda>(p, b). write_at p b) (zip (gs @ ls) parity) m
              in map (\<lambda>i. take (cluster_slice_sizes reply ! i) (drop (cluster_slice_data ! i) m)) [0..<length (append_keys reply)])
            (encode_by_code cfg (map (block_in cfg m) ds) (map (block_in cfg m) (gs @ ls))))"

section \<open>The proxy\<close>

type_synonym cluster_files = "string \<times> int \<Rightarrow> files"

definition AppendToDatanode :: "SysConfig \<Rightarrow> (string \<times> int \<Rightarrow> bool) \<Rightarrow> string \<Rightarrow> nat \<Rightarrow> nat \<Rightarrow> buffer \<Rightarrow> int \<Rightarrow> string \<Rightarrow> int \<Rightarrow> bool
    \<Rightarrow> cluster_files \<Rightarrow> cluster_files" where
  "AppendToDatanode cfg disk block_key block_id slice_size slice_buf slice_offset ip port serialized cf =
     cf((ip, port) := fst (handleAppend cfg (disk (ip, port))
          \<lparr>ai_block_key = block_key, ai_block_id = block_id, ai_append_size = slice_size, ai_append_offset = slice_offset,
           ai_is_serialized = serialized\<rparr> slice_buf (cf (ip, port))))"

definition MergeParityOnDatanode :: "SysConfig \<Rightarrow> (nat \<Rightarrow> buffer) \<Rightarrow> string \<Rightarrow> string \<Rightarrow> int \<Rightarrow> string \<Rightarrow> cluster_files \<Rightarrow> cluster_files option" where
  "MergeParityOnDatanode cfg fresh block_key ip port append_mode cf =
     (if append_mode = ''UNILRC_MODE'' \<or> append_mode = ''CACHED_MODE''
      then map_option (\<lambda>fs. cf((ip, port) := fs)) (handleMergeParity cfg fresh block_key (cf (ip, port)))
      else Some cf)"

text \<open>
  The slices are sent by one thread each, in the order \<open>order\<close>; afterwards the parities are merged where the plan says so
  and the key is reported to the coordinator as committed.
\<close>

definition send_slice :: "SysConfig \<Rightarrow> (string \<times> int \<Rightarrow> bool) \<Rightarrow> AppendStripeDataPlacement \<Rightarrow> buffer \<Rightarrow> nat list \<Rightarrow> nat
    \<Rightarrow> cluster_files \<Rightarrow> cluster_files" where
  "send_slice cfg disk plan append_buf slices j =
     AppendToDatanode cfg disk (blockkeys plan ! j) (blockids plan ! j) (sizes plan ! j)
       (take (sizes plan ! j) (drop (slices ! j) append_buf)) (offsets plan ! j) (datanodeip plan ! j) (datanodeport plan ! j)
       (is_serialized plan)"

definition scheduleAppend2Datanode :: "SysConfig \<Rightarrow> (string \<times> int \<Rightarrow> bool) \<Rightarrow> (nat \<Rightarrow> buffer) \<Rightarrow> nat list \<Rightarrow> AppendStripeDataPlacement
    \<Rightarrow> buffer \<Rightarrow> cluster_files \<Rightarrow> (cluster_files \<times> string) option" where
  "scheduleAppend2Datanode cfg disk fresh order plan recv cf =
     (let append_buf = received (append_size plan) recv in
      case splitCharPointer 0 (append_size plan) (sizes plan) of None \<Rightarrow> None
      | Some slices \<Rightarrow>
          let cf = fold (send_slice cfg disk plan append_buf slices) order cf in
          map_option (\<lambda>cf. (cf, plan_key plan))
            (if is_merge_parity plan
             then fold_option (\<lambda>j cf. MergeParityOnDatanode cfg fresh (blockkeys plan ! j) (datanodeip plan ! j) (datanodeport plan ! j)
                    (plan_append_mode plan) cf) (filter (\<lambda>j. blockids plan ! j \<ge> cfg_k cfg) [0..<length (blockkeys plan)]) cf
             else Some cf))"

definition DelInDatanode :: "(string \<times> int) \<times> string \<Rightarrow> cluster_files \<Rightarrow> cluster_files" where
  "DelInDatanode = (\<lambda>(addr, key) cf. cf(addr := handleDelete key (cf addr)))"

text \<open>Deleting blocks: the files, and the report to the coordinator (key, stripe id) if there is one.\<close>

definition deleteBlock :: "NodeAndBlock \<Rightarrow> nat list \<Rightarrow> cluster_files \<Rightarrow> cluster_files \<times> (string \<times> int) option" where
  "deleteBlock rq order cf =
     (fold (\<lambda>j. DelInDatanode ((nb_datanodeip rq ! j, nb_datanodeport rq ! j), nb_blockkeys rq ! j)) order cf,
      if nb_stripe_id rq \<noteq> - 1 \<or> nb_key rq \<noteq> [] then Some (nb_key rq, nb_stripe_id rq) else None)"

text \<open>What a proxy reads from a datanode.\<close>

definition cluster_read :: "SysConfig \<Rightarrow> (nat \<Rightarrow> buffer) \<Rightarrow> cluster_files \<Rightarrow> string \<Rightarrow> int \<Rightarrow> string \<Rightarrow> bool \<times> buffer" where
  "cluster_read cfg fresh cf ip port key = (True, handleGet fresh key (BlockSize cfg) (cf (ip, port)))"

end
