(* ===== verification/UploadProps.thy ===== *)
theory UploadProps
  imports UploadPath PortSession
begin

text \<open>
  What an upload leaves on the datanodes.  Every block of a gLRC stripe has a slot in the client's buffer; the client fills
  the slots with a codeword, the proxies cut the streams at the same slots, and each datanode ends up with its block.
\<close>

section \<open>Cutting\<close>

lemma split_from_sum:
  "off + sum_list ss = total_size \<Longrightarrow> split_from off total_size ss = Some (map (\<lambda>i. off + sum_list (take i ss)) [0..<length ss])"
proof (induction ss arbitrary: off)
  case (Cons s ss)
  have "map (\<lambda>i. off + sum_list (take i (s # ss))) [0..<length (s # ss)]
      = off # map (\<lambda>i. off + s + sum_list (take i ss)) [0..<length ss]"
    by (simp add: upt_conv_Cons map_Suc_upt [symmetric] add.assoc del: upt_Suc)
  then show ?case using Cons.IH [of "off + s"] Cons.prems by (simp del: upt_Suc)
qed simp

lemma splitCharPointer_sum:
  "sum_list ss = total_size \<Longrightarrow> splitCharPointer p total_size ss = Some (map (\<lambda>i. p + sum_list (take i ss)) [0..<length ss])"
  by (simp add: splitCharPointer_def split_from_sum)

lemma splitCharPointer_blocks:
  "splitCharPointer p (n * bs) (replicate n bs) = Some (map (\<lambda>j. p + j * bs) [0..<n])"
proof -
  have "map (\<lambda>i. p + sum_list (take i (replicate n bs))) [0..<n] = map (\<lambda>j. p + j * bs) [0..<n]"
    by (rule map_cong) (auto simp: sum_list_replicate min_def)
  then show ?thesis using splitCharPointer_sum [of "replicate n bs" "n * bs" p] by (simp add: sum_list_replicate)
qed

section \<open>Slots of a gLRC stripe\<close>

definition group_list :: "nat \<Rightarrow> nat \<Rightarrow> nat \<Rightarrow> nat \<Rightarrow> nat list" where
  "group_list k r z g = [group_start k r z g..<group_start k r z (Suc g)] @ [k + r + g]"

definition slot_of :: "nat \<Rightarrow> nat \<Rightarrow> nat \<Rightarrow> nat \<Rightarrow> nat" where
  "slot_of k r z i = (if i < k + r then i + group_of k r z i else group_start k r z (Suc (i - (k + r))) + (i - (k + r)))"

lemma group_start_le: "g \<le> z \<Longrightarrow> 0 < z \<Longrightarrow> group_start k r z g \<le> k + r"
  using group_start_mono [of g z k r z] by (simp add: group_start_z)

lemma group_list_filter:
  assumes "0 < z" "g < z"
  shows "filter (\<lambda>i. glrc_block_group k r z i = int g) [0..<k + r + z] = group_list k r z g"
proof (rule sorted_distinct_set_unique)
  have le: "group_start k r z (Suc g) \<le> k + r" using group_start_le [of "Suc g" z k r] assms by simp
  then show "sorted (group_list k r z g)" "distinct (group_list k r z g)" by (auto simp: group_list_def sorted_append)
  have "group_list k r z g = glrc_build_placement_groups k r z ! g" using assms by (simp add: placement_groups_eq group_list_def)
  moreover have "set (group_list k r z g) \<subseteq> {..<k + r + z}" using le assms by (auto simp: group_list_def)
  ultimately show "set (filter (\<lambda>i. glrc_block_group k r z i = int g) [0..<k + r + z]) = set (group_list k r z g)"
    using glrc_block_group_eq [OF assms(1) _ assms(2), of _ k r] by auto
qed (simp_all add: sorted_wrt_filter)

lemma slot_of_nth:
  assumes "0 < z" "g < z" "j < length (group_list k r z g)"
  shows "slot_of k r z (group_list k r z g ! j) = group_start k r z g + g + j"
proof -
  have le: "group_start k r z g \<le> group_start k r z (Suc g)" "group_start k r z (Suc g) \<le> k + r"
    using group_start_le [of "Suc g" z k r] group_start_mono [of g "Suc g" k r z] assms by simp_all
  show ?thesis
  proof (cases "j < group_start k r z (Suc g) - group_start k r z g")
    case True
    then have "group_start k r z g + j < k + r" "group_of k r z (group_start k r z g + j) = g"
      using le group_of_iff [of "group_start k r z g + j" k r z g] assms by auto
    then show ?thesis using True by (simp add: group_list_def nth_append slot_of_def)
  next
    case False
    then have "j = group_start k r z (Suc g) - group_start k r z g" using assms le by (simp add: group_list_def)
    then show ?thesis using le by (simp add: group_list_def nth_append slot_of_def)
  qed
qed

lemma length_group_list: "g < z \<Longrightarrow> length (group_list k r z g) = group_start k r z (Suc g) + Suc g - (group_start k r z g + g)"
  using group_start_mono [of g "Suc g" k r z] by (simp add: group_list_def)

lemma sum_group_lists:
  assumes "g \<le> z"
  shows "sum_list (take g (map (\<lambda>h. length (group_list k r z h) * bs) [0..<z])) = (group_start k r z g + g) * bs"
  using assms
proof (induction g)
  case (Suc g)
  have "group_start k r z g \<le> group_start k r z (Suc g)" by (rule group_start_mono) simp
  then show ?case using Suc by (simp add: take_Suc_conv_app_nth length_group_list add_mult_distrib [symmetric])
qed simp

text \<open>Every block is in one group; its slot lies in the part of that group.\<close>

lemma block_in_group:
  assumes "0 < z" "i < k + r + z"
  obtains g j where "g < z" "j < length (group_list k r z g)" "group_list k r z g ! j = i"
    "slot_of k r z i = group_start k r z g + g + j"
proof -
  obtain g where g: "g < z" "i \<in> set (group_list k r z g)"
  proof (cases "i < k + r")
    case True
    then show ?thesis using that [of "group_of k r z i"] group_of_iff [OF True assms(1), of "group_of k r z i"]
      group_of_less [OF True assms(1)] by (auto simp: group_list_def)
  next
    case False
    then show ?thesis using that [of "i - (k + r)"] assms by (auto simp: group_list_def)
  qed
  then obtain j where "j < length (group_list k r z g)" "group_list k r z g ! j = i" by (auto simp: in_set_conv_nth)
  then show thesis using that [OF g(1)] slot_of_nth [OF assms(1) g(1)] by blast
qed

lemma slot_of_less:
  assumes "0 < z" "i < k + r + z"
  shows "slot_of k r z i < k + r + z"
proof (rule block_in_group [OF assms])
  fix g j assume g: "g < z" "j < length (group_list k r z g)" and s: "slot_of k r z i = group_start k r z g + g + j"
  have "slot_of k r z i < group_start k r z (Suc g) + Suc g"
    using g s length_group_list [of g z k r] group_start_mono [of g "Suc g" k r z] by simp
  also have "\<dots> \<le> k + r + z" using group_start_le [of "Suc g" z k r] g assms by simp
  finally show ?thesis .
qed

lemma slot_of_inj:
  assumes "0 < z" "i < k + r + z" "i' < k + r + z" "slot_of k r z i = slot_of k r z i'"
  shows "i = i'"
proof (rule block_in_group [OF assms(1,2)], rule block_in_group [OF assms(1,3)])
  fix g j g' j'
  assume g: "g < z" "j < length (group_list k r z g)" "group_list k r z g ! j = i" "slot_of k r z i = group_start k r z g + g + j"
    and g': "g' < z" "j' < length (group_list k r z g')" "group_list k r z g' ! j' = i'" "slot_of k r z i' = group_start k r z g' + g' + j'"
  have less: "group_start k r z a + a + b < group_start k r z c + c"
    if "a < c" "b < length (group_list k r z a)" for a b c
  proof -
    have "group_start k r z a + a + b < group_start k r z (Suc a) + Suc a"
      using that group_start_mono [of a "Suc a" k r z] by (simp add: group_list_def)
    also have "\<dots> \<le> group_start k r z c + c" using that group_start_mono [of "Suc a" c k r z] by simp
    finally show ?thesis .
  qed
  have "g = g'" using less [of g g' j] less [of g' g j'] g g' assms(4) by (cases g g' rule: linorder_cases) auto
  then show ?thesis using g g' assms(4) by auto
qed

section \<open>The client's pointers\<close>

lemma glrc_client_counts:
  assumes "0 < z" "g < z"
  shows "client_data_block_num_per_group k r z ''gLRC'' ! g = min k (group_start k r z (Suc g)) - min k (group_start k r z g)"
    "get_global_parity_block_num_per_group k r z ''gLRC'' ! g = max k (group_start k r z (Suc g)) - max k (group_start k r z g)"
    "get_local_parity_block_num_per_group k r z ''gLRC'' ! g = 1"
proof -
  let ?s = "group_start k r z g" and ?e = "group_start k r z (Suc g)"
  have le: "?s \<le> ?e" by (rule group_start_mono) simp
  have pay: "glrc_payload_blocks_in_group (int g) (int k) (int r) (int z) = int ?e - int ?s"
    using group_start_Suc [OF assms(2), of k r] payload_blocks_nat [OF assms(2), of k r] by simp
  have "nat (max 0 (min (int ?e) (int k) - int ?s)) = min k ?e - min k ?s" "nat (max 0 (int ?e - max (int ?s) (int k))) = max k ?e - max k ?s"
    using le by linarith+
  then show "client_data_block_num_per_group k r z ''gLRC'' ! g = min k ?e - min k ?s"
    "get_global_parity_block_num_per_group k r z ''gLRC'' ! g = max k ?e - max k ?s"
    "get_local_parity_block_num_per_group k r z ''gLRC'' ! g = 1"
    using assms
    by (simp_all add: client_data_block_num_per_group_def get_global_parity_block_num_per_group_def get_local_parity_block_num_per_group_def
        glrc_fill_data_blocks_per_group_def glrc_data_blocks_in_group_def glrc_global_blocks_in_group_def payload_start_loop_eq Let_def pay)
qed

lemma length_client_counts:
  "length (client_data_block_num_per_group k r z ''gLRC'') = z" "length (get_global_parity_block_num_per_group k r z ''gLRC'') = z"
  "length (get_local_parity_block_num_per_group k r z ''gLRC'') = z"
  by (simp_all add: client_data_block_num_per_group_def get_global_parity_block_num_per_group_def get_local_parity_block_num_per_group_def
      glrc_fill_data_blocks_per_group_def)

text \<open>The pointers of one group are the slots of its blocks.\<close>

lemma group_pointers:
  fixes k r z g bs :: nat
  assumes z: "0 < z" "g < z"
  defines "ps \<equiv> map (\<lambda>j. (group_start k r z g + g) * bs + j * bs) [0..<length (group_list k r z g)]"
    and "a \<equiv> min k (group_start k r z (Suc g)) - min k (group_start k r z g)"
    and "c \<equiv> max k (group_start k r z (Suc g)) - max k (group_start k r z g)"
  shows "take a ps = map (\<lambda>i. slot_of k r z i * bs) [min k (group_start k r z g)..<min k (group_start k r z (Suc g))]"
    "take c (drop a ps) = map (\<lambda>i. slot_of k r z i * bs) [max k (group_start k r z g)..<max k (group_start k r z (Suc g))]"
    "take 1 (drop (a + c) ps) = [slot_of k r z (k + r + g) * bs]"
    "length (group_list k r z g) = a + c + 1"
proof -
  let ?s = "group_start k r z g" and ?e = "group_start k r z (Suc g)"
  have le: "?s \<le> ?e" by (rule group_start_mono) simp
  have ps: "ps = map (\<lambda>i. slot_of k r z i * bs) (group_list k r z g)"
    unfolding ps_def by (rule nth_equalityI) (simp_all add: slot_of_nth [OF z] add_mult_distrib)
  have split: "group_list k r z g = [min k ?s..<min k ?e] @ [max k ?s..<max k ?e] @ [k + r + g]"
    using le upt_add_eq_append [of ?s k "?e - k"] by (auto simp: group_list_def min_def max_def)
  have len: "length [min k ?s..<min k ?e] = a" "length [max k ?s..<max k ?e] = c" by (simp_all add: a_def c_def)
  show "take a ps = map (\<lambda>i. slot_of k r z i * bs) [min k ?s..<min k ?e]"
    "take c (drop a ps) = map (\<lambda>i. slot_of k r z i * bs) [max k ?s..<max k ?e]"
    "take 1 (drop (a + c) ps) = [slot_of k r z (k + r + g) * bs]" "length (group_list k r z g) = a + c + 1"
    unfolding ps split using len by simp_all
qed

definition client_ptrs :: "nat \<Rightarrow> nat \<Rightarrow> nat \<Rightarrow> nat \<Rightarrow> nat list \<Rightarrow> nat list" where
  "client_ptrs k r z bs is = map (\<lambda>i. slot_of k r z i * bs) is"

lemma split_pointers:
  fixes k r z :: nat
  assumes z: "0 < z" and m: "m \<le> z"
    and sizes: "length slice_sizes = z" "\<And>g. g < z \<Longrightarrow> slice_sizes ! g = length (group_list k r z g) * BlockSize cfg"
    and starts: "length starts = z" "\<And>g. g < z \<Longrightarrow> starts ! g = (group_start k r z g + g) * BlockSize cfg"
  shows "fold_option (split_group cfg slice_sizes starts (client_data_block_num_per_group k r z ''gLRC'')
      (get_global_parity_block_num_per_group k r z ''gLRC'') (get_local_parity_block_num_per_group k r z ''gLRC'')) [0..<m] ([], [], [])
    = Some (client_ptrs k r z (BlockSize cfg) [0..<min k (group_start k r z m)],
        client_ptrs k r z (BlockSize cfg) [k..<max k (group_start k r z m)], client_ptrs k r z (BlockSize cfg) [k + r..<k + r + m])"
  using m
proof (induction m)
  case 0
  then show ?case by (simp add: client_ptrs_def)
next
  case (Suc m)
  let ?s = "group_start k r z m" and ?e = "group_start k r z (Suc m)"
  have mz: "m < z" using Suc.prems by simp
  have le: "?s \<le> ?e" by (rule group_start_mono) simp
  note p = group_pointers [OF z mz, where k = k and r = r]
  have app: "[0..<min k ?s] @ [min k ?s..<min k ?e] = [0..<min k ?e]" "[k..<max k ?s] @ [max k ?s..<max k ?e] = [k..<max k ?e]"
    using le upt_add_eq_append [of 0 "min k ?s" "min k ?e - min k ?s"] upt_add_eq_append [of k "max k ?s" "max k ?e - max k ?s"]
    by (auto simp: min_def max_def)
  let ?a = "min k ?e - min k ?s" and ?c = "max k ?e - max k ?s" and ?B = "BlockSize cfg"
  let ?ps = "map (\<lambda>j. (?s + m) * ?B + j * ?B) [0..<length (group_list k r z m)]"
  have "splitCharPointer (starts ! m) (slice_sizes ! m) (replicate (?a + ?c + 1) ?B) = Some ?ps"
    unfolding sizes(2) [OF mz] starts(2) [OF mz] p(4) [symmetric] by (rule splitCharPointer_blocks)
  then have "split_group cfg slice_sizes starts (client_data_block_num_per_group k r z ''gLRC'')
      (get_global_parity_block_num_per_group k r z ''gLRC'') (get_local_parity_block_num_per_group k r z ''gLRC'') m
      (client_ptrs k r z ?B [0..<min k ?s], client_ptrs k r z ?B [k..<max k ?s], client_ptrs k r z ?B [k + r..<k + r + m])
    = Some (client_ptrs k r z ?B [0..<min k ?e], client_ptrs k r z ?B [k..<max k ?e], client_ptrs k r z ?B [k + r..<k + r + Suc m])"
    unfolding split_group_def glrc_client_counts [OF z mz] length_client_counts app [symmetric]
    using mz p(1-3) by (simp add: client_ptrs_def)
  then show ?case using Suc.IH mz by (simp add: fold_option_append)
qed

lemma glrc_set_pointers:
  fixes k r z :: nat
  assumes z: "0 < z" and cfg: "CodeType cfg = ''gLRC''" "cfg_k cfg = k" "cfg_r cfg = r" "cfg_z cfg = z"
    and reply: "cluster_slice_sizes reply = map (\<lambda>g. length (group_list k r z g) * BlockSize cfg) [0..<z]"
      "sum_append_size reply = sum_list (cluster_slice_sizes reply)"
  shows "set_pointers cfg reply = Some (map (\<lambda>g. (group_start k r z g + g) * BlockSize cfg) [0..<z],
    client_ptrs k r z (BlockSize cfg) [0..<k], client_ptrs k r z (BlockSize cfg) [k..<k + r],
    client_ptrs k r z (BlockSize cfg) [k + r..<k + r + z])"
proof -
  let ?starts = "map (\<lambda>g. (group_start k r z g + g) * BlockSize cfg) [0..<z]"
  have "splitCharPointer 0 (sum_append_size reply) (cluster_slice_sizes reply) = Some ?starts"
    using splitCharPointer_sum [of "cluster_slice_sizes reply" "sum_append_size reply" 0] reply
    by (auto simp: sum_group_lists)
  moreover have "split_for_set_data_and_parity cfg (cluster_slice_sizes reply) ?starts (client_data_block_num_per_group k r z ''gLRC'')
      (get_global_parity_block_num_per_group k r z ''gLRC'') (get_local_parity_block_num_per_group k r z ''gLRC'')
    = Some (client_ptrs k r z (BlockSize cfg) [0..<k], client_ptrs k r z (BlockSize cfg) [k..<k + r],
        client_ptrs k r z (BlockSize cfg) [k + r..<k + r + z])"
    using split_pointers [OF z order.refl, of "cluster_slice_sizes reply" k r cfg ?starts] reply z
    by (simp add: split_for_set_data_and_parity_def group_start_z)
  ultimately show ?thesis by (simp add: set_pointers_def cfg)
qed

section \<open>The client's buffer\<close>

lemma block_in_nth:
  "i < BlockSize cfg \<Longrightarrow> p + BlockSize cfg \<le> length m \<Longrightarrow> block_in cfg m p ! i = m ! (p + i)"
  by (simp add: block_in_def)

lemma length_block_in: "p + BlockSize cfg \<le> length m \<Longrightarrow> length (block_in cfg m p) = BlockSize cfg"
  by (simp add: block_in_def)

text \<open>Writing one slot changes that slot only.\<close>

lemma block_in_write_at:
  fixes s t n :: nat
  assumes "length m = n * BlockSize cfg" "s < n" "t < n" "length b = BlockSize cfg"
  shows "block_in cfg (write_at (t * BlockSize cfg) b m) (s * BlockSize cfg) = (if s = t then b else block_in cfg m (s * BlockSize cfg))"
    "length (write_at (t * BlockSize cfg) b m) = n * BlockSize cfg"
proof -
  let ?B = "BlockSize cfg"
  have end_le: "u * ?B + ?B \<le> n * ?B" if "u < n" for u using mult_le_mono1 [of "Suc u" n ?B] that by simp
  show len: "length (write_at (t * ?B) b m) = n * ?B" using assms end_le [OF assms(3)] by (simp add: length_write_at)
  show "block_in cfg (write_at (t * ?B) b m) (s * ?B) = (if s = t then b else block_in cfg m (s * ?B))"
  proof (rule nth_equalityI)
    show "length (block_in cfg (write_at (t * ?B) b m) (s * ?B)) = length (if s = t then b else block_in cfg m (s * ?B))"
      using end_le [OF assms(2)] len assms by (simp add: length_block_in)
    fix i assume "i < length (block_in cfg (write_at (t * ?B) b m) (s * ?B))"
    then have i: "i < ?B" by (simp add: block_in_def)
    have "t * ?B \<le> s * ?B + i \<and> s * ?B + i < t * ?B + ?B \<longleftrightarrow> s = t"
    proof -
      have "(s * ?B + i) div ?B = s" "0 < ?B" using i by simp_all
      then show ?thesis using i by (metis add.commute div_nat_eqI le_add1 mult.commute mult_Suc nat_add_left_cancel_less)
    qed
    then show "block_in cfg (write_at (t * ?B) b m) (s * ?B) ! i = (if s = t then b else block_in cfg m (s * ?B)) ! i"
      using i end_le [OF assms(2)] end_le [OF assms(3)] len assms by (auto simp: block_in_nth write_at_nth)
  qed
qed

lemma block_in_writes:
  fixes n :: nat
  assumes "length m = n * BlockSize cfg" "\<forall>t\<in>set ts. t < n" "\<forall>b\<in>set bs. length b = BlockSize cfg" "length ts = length bs" "distinct ts" "s < n"
  shows "block_in cfg (fold (\<lambda>(p, b). write_at p b) (zip (map (\<lambda>t. t * BlockSize cfg) ts) bs) m) (s * BlockSize cfg)
      = (case map_of (zip ts bs) s of None \<Rightarrow> block_in cfg m (s * BlockSize cfg) | Some b \<Rightarrow> b)
    \<and> length (fold (\<lambda>(p, b). write_at p b) (zip (map (\<lambda>t. t * BlockSize cfg) ts) bs) m) = n * BlockSize cfg"
  using assms(4,1-3,5)
proof (induction ts bs arbitrary: m rule: list_induct2)
  case (Cons t ts b bs)
  have w: "block_in cfg (write_at (t * BlockSize cfg) b m) (s * BlockSize cfg) = (if s = t then b else block_in cfg m (s * BlockSize cfg))"
    "length (write_at (t * BlockSize cfg) b m) = n * BlockSize cfg"
    using block_in_write_at [where m = m and n = n and s = s and t = t and b = b and cfg = cfg] assms(6) Cons.prems by simp_all
  have "t \<notin> set ts" using Cons.prems by simp
  then have "map_of (zip ts bs) t = None" using Cons.hyps by (simp add: map_of_zip_is_None)
  then show ?case using Cons.IH [of "write_at (t * BlockSize cfg) b m"] Cons.prems w by (auto split: option.splits)
qed simp

lemma encode_glrc_start:
  assumes "blocks_ok (r + z) bs ps"
  shows "encode_glrc k r z data ps bs = encode_glrc k r z data (replicate (r + z) (replicate bs 0)) bs"
proof -
  have clear: "clear_blocks n bs qs = replicate n (replicate bs 0)" if "blocks_ok n bs qs" for n qs
  proof (rule nth_equalityI)
    show len: "length (clear_blocks n bs qs) = length (replicate n (replicate bs 0))"
      using clear_blocks_ok [OF that] by (simp add: blocks_ok_def)
    fix i assume "i < length (clear_blocks n bs qs)"
    then have i: "i < n" "i < length qs" using len that by (simp_all add: blocks_ok_def)
    have "clear_blocks n bs qs ! i = memset (qs ! i) 0 bs"
      unfolding clear_blocks_def
      by (rule fold_update_nth [where g = "\<lambda>i. i" and h = "\<lambda>i p. memset (p ! i) 0 bs", simplified]) (use i in auto)
    then show "clear_blocks n bs qs ! i = replicate n (replicate bs 0) ! i" using i that by (simp add: memset_def blocks_ok_nth)
  qed
  have "blocks_ok (r + z) bs (replicate (r + z) (replicate bs 0))" by (simp add: blocks_ok_def)
  then show ?thesis using assms by (simp add: encode_glrc_def encode_with_def clear)
qed

text \<open>
  The stripe that the client builds: the data blocks of its buffer and their parities.
\<close>

definition client_stripe :: "nat \<Rightarrow> nat \<Rightarrow> nat \<Rightarrow> SysConfig \<Rightarrow> buffer \<Rightarrow> buffer list" where
  "client_stripe k r z cfg m =
     (let data = map (\<lambda>i. block_in cfg m (slot_of k r z i * BlockSize cfg)) [0..<k]
      in data @ encode_glrc k r z data (replicate (r + z) (replicate (BlockSize cfg) 0)) (BlockSize cfg))"

lemma slot_end:
  assumes "0 < z" "i < k + r + z"
  shows "slot_of k r z i * bs + bs \<le> (k + r + z) * bs"
  using mult_le_mono1 [of "Suc (slot_of k r z i)" "k + r + z" bs] slot_of_less [OF assms] by simp

lemma client_stripe_codeword:
  assumes "0 < z" "length m = (k + r + z) * BlockSize cfg"
  shows "glrc_codeword k r z (BlockSize cfg) (client_stripe k r z cfg m)" "length (client_stripe k r z cfg m) = k + r + z"
proof -
  have "blocks_ok k (BlockSize cfg) (map (\<lambda>i. block_in cfg m (slot_of k r z i * BlockSize cfg)) [0..<k])"
    using assms slot_end [OF assms(1), of _ k r "BlockSize cfg"] by (auto simp: blocks_ok_def length_block_in)
  from encode_glrc_codeword [OF this, of r z]
  show "glrc_codeword k r z (BlockSize cfg) (client_stripe k r z cfg m)" by (simp add: client_stripe_def Let_def)
  then show "length (client_stripe k r z cfg m) = k + r + z" by (simp add: glrc_codeword_def blocks_ok_def)
qed

text \<open>After encoding in place every slot holds its block of the stripe.\<close>

lemma client_buffer:
  fixes k r z :: nat
  assumes z: "0 < z" and m: "length m = (k + r + z) * BlockSize cfg"
  defines "parity \<equiv> drop k (client_stripe k r z cfg m)"
    and "ptrs \<equiv> client_ptrs k r z (BlockSize cfg) [k..<k + r] @ client_ptrs k r z (BlockSize cfg) [k + r..<k + r + z]"
  defines "m' \<equiv> fold (\<lambda>(p, b). write_at p b) (zip ptrs parity) m"
  shows "length m' = (k + r + z) * BlockSize cfg"
    "\<And>i. i < k + r + z \<Longrightarrow> block_in cfg m' (slot_of k r z i * BlockSize cfg) = client_stripe k r z cfg m ! i"
proof -
  let ?n = "k + r + z" and ?B = "BlockSize cfg" and ?st = "client_stripe k r z cfg m"
  let ?ts = "map (slot_of k r z) [k..<?n]"
  have "[k..<k + r] @ [k + r..<?n] = [k..<?n]" using upt_add_eq_append [of k "k + r" z] by simp
  then have ptrs: "ptrs = map (\<lambda>t. t * ?B) ?ts" unfolding ptrs_def client_ptrs_def map_append [symmetric] by simp
  have ok: "blocks_ok ?n ?B ?st" using client_stripe_codeword [OF z m] by (simp add: glrc_codeword_def)
  have ts: "\<forall>t\<in>set ?ts. t < ?n" using slot_of_less [OF z, of _ k r] by auto
  have par: "\<forall>b\<in>set parity. length b = ?B" "length ?ts = length parity"
    using ok by (auto simp: parity_def blocks_ok_def dest: in_set_dropD)
  have inj: "inj_on (slot_of k r z) {..<?n}" using slot_of_inj [OF z] by (auto simp: inj_on_def)
  have dist: "distinct ?ts" using inj by (simp add: distinct_map) (rule inj_on_subset, assumption, auto)
  show "length m' = ?n * ?B" unfolding m'_def ptrs
    using block_in_writes [OF m ts par dist, of 0] z by simp
  fix i assume i: "i < ?n"
  have res: "block_in cfg m' (slot_of k r z i * ?B)
      = (case map_of (zip ?ts parity) (slot_of k r z i) of None \<Rightarrow> block_in cfg m (slot_of k r z i * ?B) | Some b \<Rightarrow> b)"
    unfolding m'_def ptrs using block_in_writes [OF m ts par dist slot_of_less [OF z i]] by blast
  show "block_in cfg m' (slot_of k r z i * ?B) = ?st ! i"
  proof (cases "i < k")
    case True
    have "slot_of k r z i \<notin> set ?ts" using slot_of_inj [OF z i] True by fastforce
    then have "map_of (zip ?ts parity) (slot_of k r z i) = None" using par(2) by (simp add: map_of_zip_is_None)
    then show ?thesis using res True by (simp add: client_stripe_def Let_def nth_append)
  next
    case False
    then have idx: "?ts ! (i - k) = slot_of k r z i" "i - k < length parity" using i unfolding par(2) [symmetric] by simp_all
    have "map_of (zip ?ts parity) (slot_of k r z i) = Some (parity ! (i - k))"
      using map_of_zip_nth [OF par(2) dist idx(2)] unfolding idx(1) .
    then show ?thesis using res False i ok by (simp add: parity_def blocks_ok_def)
  qed
qed

section \<open>Streams and plans\<close>

lemma slice_of_stream:
  fixes a n j :: nat
  assumes "(a + n) * bs \<le> length m" "j < n"
  shows "take bs (drop (j * bs) (take (n * bs) (drop (a * bs) m))) = take bs (drop ((a + j) * bs) m)"
proof -
  have "bs \<le> n * bs - j * bs" using mult_le_mono1 [of "Suc j" n bs] assms(2) by simp
  moreover have "drop (j * bs) (drop (a * bs) m) = drop ((a + j) * bs) m" by (simp add: add_mult_distrib add.commute)
  ultimately show ?thesis by (simp only: drop_take take_take min_absorb1)
qed

text \<open>What the client sends for a group, cut into blocks, are the blocks of the group in the order of the plan.\<close>

lemma client_streams:
  fixes k r z :: nat
  assumes z: "0 < z" and cfg: "CodeType cfg = ''gLRC''" "cfg_k cfg = k" "cfg_r cfg = r" "cfg_z cfg = z"
    and reply: "cluster_slice_sizes reply = map (\<lambda>g. length (group_list k r z g) * BlockSize cfg) [0..<z]"
      "sum_append_size reply = sum_list (cluster_slice_sizes reply)" "length (append_keys reply) = z"
    and m: "length m = (k + r + z) * BlockSize cfg"
  obtains streams where "client_set cfg reply m = Some streams" "length streams = z"
    "\<And>g. g < z \<Longrightarrow> length (streams ! g) = length (group_list k r z g) * BlockSize cfg"
    "\<And>g j. g < z \<Longrightarrow> j < length (group_list k r z g) \<Longrightarrow>
       take (BlockSize cfg) (drop (j * BlockSize cfg) (streams ! g)) = client_stripe k r z cfg m ! (group_list k r z g ! j)"
proof -
  let ?n = "k + r + z" and ?B = "BlockSize cfg" and ?st = "client_stripe k r z cfg m"
  let ?ds = "client_ptrs k r z ?B [0..<k]"
  let ?ptrs = "client_ptrs k r z ?B [k..<k + r] @ client_ptrs k r z ?B [k + r..<?n]"
  let ?m = "fold (\<lambda>(p, b). write_at p b) (zip ?ptrs (drop k ?st)) m"
  let ?streams = "map (\<lambda>g. take (cluster_slice_sizes reply ! g) (drop ((group_start k r z g + g) * ?B) ?m)) [0..<z]"
  have ends: "p * ?B + ?B \<le> length m" if "p \<in> slot_of k r z ` {..<?n}" for p
    using that slot_end [OF z, of _ k r ?B] m by auto
  have "blocks_ok (r + z) ?B (map (block_in cfg m) ?ptrs)"
    using ends by (auto simp: blocks_ok_def client_ptrs_def intro!: length_block_in)
  then have "encode_by_code cfg (map (block_in cfg m) ?ds) (map (block_in cfg m) ?ptrs) = Some (drop k ?st)"
    using encode_glrc_start [of r z ?B "map (block_in cfg m) ?ptrs" k]
    by (simp add: encode_by_code_def Let_def cfg client_stripe_def client_ptrs_def comp_def)
  then have set: "client_set cfg reply m = Some ?streams"
    unfolding client_set_def glrc_set_pointers [OF z cfg reply(1,2)] by (simp add: reply(3) Let_def)
  note b = client_buffer [OF z m]
  have within: "(group_start k r z g + g + length (group_list k r z g)) * ?B \<le> length ?m" if "g < z" for g
    using that group_start_le [of "Suc g" z k r] group_start_mono [of g "Suc g" k r z] length_group_list [OF that, of k r] z
    unfolding b(1) by (intro mult_le_mono1) simp
  show thesis
  proof (rule that [OF set])
    fix g assume g: "g < z"
    then show "length (?streams ! g) = length (group_list k r z g) * ?B"
      using within [OF g] by (simp add: reply(1) add_mult_distrib)
    fix j assume j: "j < length (group_list k r z g)"
    then have "group_list k r z g ! j < ?n"
      using nth_mem [OF j] group_start_le [of "Suc g" z k r] z g by (auto simp: group_list_def)
    from b(2) [OF this] show "take ?B (drop (j * ?B) (?streams ! g)) = ?st ! (group_list k r z g ! j)"
      using slice_of_stream [OF within [OF g] j] g by (simp add: reply(1) block_in_def slot_of_nth [OF z g j])
  qed simp
qed

section \<open>Names of blocks\<close>

lemma block_name_parts:
  fixes sid i :: nat
  shows "takeWhile (\<lambda>c. c \<noteq> CHR ''_'') (block_name sid [CHR ''_'', t] i) = to_string sid"
    "block_name sid [CHR ''_'', t] i ! Suc (length (to_string sid)) = t"
    "from_digits (drop (length (to_string sid) + 2) (block_name sid [CHR ''_'', t] i)) = i"
proof -
  have "c \<noteq> CHR ''_''" if "c \<in> set (to_string sid)" for c using to_string_digits [OF that] by auto
  then show "takeWhile (\<lambda>c. c \<noteq> CHR ''_'') (block_name sid [CHR ''_'', t] i) = to_string sid"
    by (auto simp: block_name_def takeWhile_append)
  show "block_name sid [CHR ''_'', t] i ! Suc (length (to_string sid)) = t" by (simp add: block_name_def nth_append)
  have "from_digits (CHR ''0'' # s) = from_digits s" for s by (simp add: from_digits_def)
  then show "from_digits (drop (length (to_string sid) + 2) (block_name sid [CHR ''_'', t] i)) = i"
    by (simp add: block_name_def from_digits_to_string)
qed

lemma block_name_inject: "block_name sid [CHR ''_'', t] i = block_name sid' [CHR ''_'', t'] i' \<longleftrightarrow> sid = sid' \<and> t = t' \<and> i = i'"
  by (metis block_name_parts to_string_inject)

text \<open>Blocks of all stripes have different names.\<close>

definition block_key_of :: "nat \<Rightarrow> nat \<Rightarrow> nat \<Rightarrow> nat \<Rightarrow> string" where
  "block_key_of k r sid i = (if i < k then block_name sid ''_D'' i else if i < k + r then block_name sid ''_G'' (i - k)
     else block_name sid ''_L'' (i - k - r))"

lemma block_key_of_inject: "block_key_of k r sid i = block_key_of k r sid' i' \<longleftrightarrow> sid = sid' \<and> i = i'"
  by (auto simp: block_key_of_def block_name_inject)

section \<open>Stores\<close>

definition block_at :: "coordinator \<Rightarrow> Stripe \<Rightarrow> nat \<Rightarrow> (string \<times> int) \<times> string" where
  "block_at st stripe i = (let b = stripe_blocks stripe ! i; nd = node_at st (map2node b)
     in ((node_ip nd, node_port nd), blk_key b))"

definition store_block :: "SysConfig \<Rightarrow> (string \<times> int \<Rightarrow> bool) \<Rightarrow> nat \<Rightarrow> ((string \<times> int) \<times> string) \<times> buffer \<Rightarrow> cluster_files \<Rightarrow> cluster_files" where
  "store_block cfg disk bid = (\<lambda>(((ip, port), key), data). AppendToDatanode cfg disk key bid (BlockSize cfg) data 0 ip port False)"

definition cluster_fetch :: "cluster_files \<Rightarrow> (string \<times> int) \<times> string \<Rightarrow> buffer option" where
  "cluster_fetch cf = (\<lambda>(addr, key). cf addr key)"

lemma store_block_any_id: "length data = BlockSize cfg \<Longrightarrow> store_block cfg disk bid (a, data) = store_block cfg disk 0 (a, data)"
  using handleAppend_full [unfolded full_append_def, of data cfg]
  by (cases a) (auto simp: store_block_def AppendToDatanode_def fun_eq_iff split: prod.splits)

interpretation cluster_store: block_store cluster_fetch "store_block cfg (\<lambda>_. True) bid" DelInDatanode
  "\<lambda>data. length data = BlockSize cfg" for cfg bid
  by unfold_locales (auto simp: store_block_def AppendToDatanode_def cluster_fetch_def DelInDatanode_def handleDelete_def
      handleAppend_full [unfolded full_append_def] write_block_file_atomic_def split: prod.splits)

section \<open>One proxy\<close>

lemma glrc_plan:
  fixes k r z :: nat and cfg :: SysConfig and st :: coordinator
  assumes "glrc_placed k r z stripe" "0 < z" "num_groups stripe = z" "g < z"
  defines "plan \<equiv> generate_add_plans cfg st stripe ! g" and "gs \<equiv> group_list k r z g"
  shows "append_size plan = length gs * BlockSize cfg" "sizes plan = replicate (length gs) (BlockSize cfg)"
    "\<not> is_serialized plan" "\<not> is_merge_parity plan" "length (blockkeys plan) = length gs"
    "\<And>j. j < length gs \<Longrightarrow> offsets plan ! j = 0 \<and> ((datanodeip plan ! j, datanodeport plan ! j), blockkeys plan ! j) = block_at st stripe (gs ! j)"
    "plan_key plan = gen_append_key (stripe_id stripe) g"
proof -
  have "group_blocks stripe g = gs" using assms(1,4) group_list_filter [OF assms(2,4), of k r] by (simp add: glrc_placed_def gs_def)
  then show "append_size plan = length gs * BlockSize cfg" "sizes plan = replicate (length gs) (BlockSize cfg)"
    "\<not> is_serialized plan" "\<not> is_merge_parity plan" "length (blockkeys plan) = length gs"
    "\<And>j. j < length gs \<Longrightarrow> offsets plan ! j = 0 \<and> ((datanodeip plan ! j, datanodeport plan ! j), blockkeys plan ! j) = block_at st stripe (gs ! j)"
    "plan_key plan = gen_append_key (stripe_id stripe) g"
    using assms(3,4) by (simp_all add: plan_def generate_add_plans_def fold_add_stripe_block empty_append_plan_def block_at_def Let_def
        map_replicate_const)
qed

lemma proxy_stores:
  fixes k r z :: nat
  assumes placed: "glrc_placed k r z stripe" "0 < z" "num_groups stripe = z" "g < z"
    and stream: "length stream = length (group_list k r z g) * BlockSize cfg"
      "\<And>j. j < length (group_list k r z g) \<Longrightarrow> take (BlockSize cfg) (drop (j * BlockSize cfg) stream) = blocks ! (group_list k r z g ! j)"
    and order: "set order \<subseteq> {..<length (group_list k r z g)}" and ok: "blocks_ok (k + r + z) (BlockSize cfg) blocks"
  shows "scheduleAppend2Datanode cfg disk fresh order (generate_add_plans cfg st stripe ! g) stream cf
    = Some (fold (store_block cfg disk 0) (map (\<lambda>j. let i = group_list k r z g ! j in (block_at st stripe i, blocks ! i)) order) cf,
        gen_append_key (stripe_id stripe) g)"
proof -
  let ?gs = "group_list k r z g" and ?plan = "generate_add_plans cfg st stripe ! g" and ?B = "BlockSize cfg"
  note p = glrc_plan [OF placed, where cfg = cfg and st = st]
  have send: "send_slice cfg disk ?plan (received (length ?gs * ?B) stream) (map (\<lambda>j. 0 + j * ?B) [0..<length ?gs]) j
      = store_block cfg disk 0 (block_at st stripe (?gs ! j), blocks ! (?gs ! j))" if j: "j < length ?gs" for j
  proof -
    have "?gs ! j < k + r + z" using nth_mem [OF j] group_start_le [of "Suc g" z k r] placed by (auto simp: group_list_def)
    then have len: "length (blocks ! (?gs ! j)) = ?B" using ok by (simp add: blocks_ok_nth)
    have "send_slice cfg disk ?plan (received (length ?gs * ?B) stream) (map (\<lambda>j. 0 + j * ?B) [0..<length ?gs]) j
      = store_block cfg disk (blockids ?plan ! j) (block_at st stripe (?gs ! j), blocks ! (?gs ! j))"
      unfolding p(6) [OF j, THEN conjunct2, symmetric]
      using p(2,3) p(6) [OF j, THEN conjunct1] j stream(1) stream(2) [OF j] by (simp add: send_slice_def store_block_def received_def)
    also have "\<dots> = store_block cfg disk 0 (block_at st stripe (?gs ! j), blocks ! (?gs ! j))" by (rule store_block_any_id [OF len])
    finally show ?thesis .
  qed
  have "fold (send_slice cfg disk ?plan (received (length ?gs * ?B) stream) (map (\<lambda>j. 0 + j * ?B) [0..<length ?gs])) order cf
    = fold (store_block cfg disk 0) (map (\<lambda>j. let i = ?gs ! j in (block_at st stripe i, blocks ! i)) order) cf"
    unfolding fold_map comp_def by (rule fold_cong) (use send order in \<open>auto simp: Let_def\<close>)
  then show ?thesis using p(4,7)
    unfolding scheduleAppend2Datanode_def p(1,2) splitCharPointer_blocks by (simp add: Let_def)
qed

section \<open>All proxies\<close>

lemma nth_image_lessThan: "(!) xs ` {..<length xs} = set xs"
  by (simp add: set_conv_nth image_def Bex_def conj_commute)

text \<open>
  The proxies \<open>gs\<close>, one after the other; proxy \<open>g\<close> sends its slices in the order \<open>orders g\<close>.  The second component collects the
  keys that are reported as committed.
\<close>

definition run_proxies :: "SysConfig \<Rightarrow> (string \<times> int \<Rightarrow> bool) \<Rightarrow> (nat \<Rightarrow> buffer) \<Rightarrow> AppendStripeDataPlacement list \<Rightarrow> buffer list
    \<Rightarrow> (nat \<Rightarrow> nat list) \<Rightarrow> nat list \<Rightarrow> cluster_files \<Rightarrow> (cluster_files \<times> string list) option" where
  "run_proxies cfg disk fresh plans streams orders gs cf =
     fold_option (\<lambda>g (cf, keys). map_option (\<lambda>(cf, key). (cf, keys @ [key]))
       (scheduleAppend2Datanode cfg disk fresh (orders g) (plans ! g) (streams ! g) cf)) gs (cf, [])"

lemma proxies_store:
  fixes k r z :: nat
  assumes placed: "glrc_placed k r z stripe" "0 < z" "num_groups stripe = z" and gs: "set gs \<subseteq> {..<z}"
    and stream: "\<And>g. g < z \<Longrightarrow> length (streams ! g) = length (group_list k r z g) * BlockSize cfg"
      "\<And>g j. g < z \<Longrightarrow> j < length (group_list k r z g) \<Longrightarrow>
         take (BlockSize cfg) (drop (j * BlockSize cfg) (streams ! g)) = blocks ! (group_list k r z g ! j)"
    and order: "\<And>g. g < z \<Longrightarrow> set (orders g) \<subseteq> {..<length (group_list k r z g)}"
    and ok: "blocks_ok (k + r + z) (BlockSize cfg) blocks"
  defines "ids \<equiv> concat (map (\<lambda>g. map ((!) (group_list k r z g)) (orders g)) gs)"
  shows "run_proxies cfg disk fresh (generate_add_plans cfg st stripe) streams orders gs cf
    = Some (fold (store_block cfg disk 0) (map (\<lambda>i. (block_at st stripe i, blocks ! i)) ids) cf, map (gen_append_key (stripe_id stripe)) gs)"
proof -
  let ?step = "\<lambda>g (cf, keys). map_option (\<lambda>(cf, key). (cf, keys @ [key]))
       (scheduleAppend2Datanode cfg disk fresh (orders g) (generate_add_plans cfg st stripe ! g) (streams ! g) cf)"
  let ?store = "\<lambda>is. fold (store_block cfg disk 0) (map (\<lambda>i. (block_at st stripe i, blocks ! i)) is)"
  have "fold_option ?step gs (cf, keys) = Some (?store (concat (map (\<lambda>g. map ((!) (group_list k r z g)) (orders g)) gs)) cf,
      keys @ map (gen_append_key (stripe_id stripe)) gs)" for keys
    using gs
  proof (induction gs arbitrary: cf keys)
    case (Cons g gs)
    then have g: "g < z" by simp
    have "?step g (cf, keys) = Some (?store (map ((!) (group_list k r z g)) (orders g)) cf, keys @ [gen_append_key (stripe_id stripe) g])"
      using proxy_stores [OF placed g stream(1) [OF g] stream(2) [OF g] order [OF g] ok] by (simp add: Let_def comp_def)
    then show ?case using Cons by simp
  qed simp
  then show ?thesis by (simp add: run_proxies_def ids_def)
qed

text \<open>Afterwards every block of the stripe is on its node, and no other file has changed.\<close>

definition stripe_stored :: "coordinator \<Rightarrow> Stripe \<Rightarrow> buffer list \<Rightarrow> cluster_files \<Rightarrow> cluster_files \<Rightarrow> bool" where
  "stripe_stored st stripe blocks cf cf' \<longleftrightarrow>
     (\<forall>i < length (stripe_blocks stripe). cluster_fetch cf' (block_at st stripe i) = Some (blocks ! i))
     \<and> (\<forall>a. a \<notin> block_at st stripe ` {..<length (stripe_blocks stripe)} \<longrightarrow> cluster_fetch cf' a = cluster_fetch cf a)"

lemma proxies_store_stripe:
  fixes k r z :: nat
  assumes placed: "glrc_placed k r z stripe" "0 < z" "num_groups stripe = z" and gs: "set gs = {..<z}"
    and keys: "inj_on (block_at st stripe) {..<k + r + z}"
    and stream: "\<And>g. g < z \<Longrightarrow> length (streams ! g) = length (group_list k r z g) * BlockSize cfg"
      "\<And>g j. g < z \<Longrightarrow> j < length (group_list k r z g) \<Longrightarrow>
         take (BlockSize cfg) (drop (j * BlockSize cfg) (streams ! g)) = blocks ! (group_list k r z g ! j)"
    and order: "\<And>g. g < z \<Longrightarrow> set (orders g) = {..<length (group_list k r z g)}"
    and ok: "blocks_ok (k + r + z) (BlockSize cfg) blocks"
  shows "\<exists>cf'. run_proxies cfg (\<lambda>_. True) fresh (generate_add_plans cfg st stripe) streams orders gs cf
      = Some (cf', map (gen_append_key (stripe_id stripe)) gs) \<and> stripe_stored st stripe blocks cf cf'"
proof -
  let ?n = "k + r + z" and ?ids = "concat (map (\<lambda>g. map ((!) (group_list k r z g)) (orders g)) gs)"
  let ?kvs = "map (\<lambda>i. (block_at st stripe i, blocks ! i)) ?ids"
  let ?h = "\<lambda>a. blocks ! the_inv_into {..<?n} (block_at st stripe) a"
  have grp: "set (map ((!) (group_list k r z g)) (orders g)) = set (group_list k r z g)" if "g < z" for g
    unfolding set_map order [OF that] by (rule nth_image_lessThan)
  have ids: "set ?ids = {..<?n}"
  proof (intro set_eqI iffI)
    fix i assume "i \<in> set ?ids"
    then obtain g where "g < z" "i \<in> set (group_list k r z g)" using grp gs by auto
    then show "i \<in> {..<?n}" using group_start_le [of "Suc g" z k r] placed(2) by (auto simp: group_list_def)
  next
    fix i assume "i \<in> {..<?n}"
    then have "i < ?n" by simp
    then obtain g j where "g < z" "j < length (group_list k r z g)" "group_list k r z g ! j = i"
      by (rule block_in_group [OF placed(2)])
    then have "g < z" "i \<in> set (group_list k r z g)" by auto
    then show "i \<in> set ?ids" using grp [of g] gs by (simp add: bexI [of _ g])
  qed
  have run: "run_proxies cfg (\<lambda>_. True) fresh (generate_add_plans cfg st stripe) streams orders gs cf
      = Some (fold (store_block cfg (\<lambda>_. True) 0) ?kvs cf, map (gen_append_key (stripe_id stripe)) gs)"
    using proxies_store [OF placed _ stream _ ok, of gs orders] gs order by simp
  have inv: "the_inv_into {..<?n} (block_at st stripe) (block_at st stripe i) = i" if "i < ?n" for i
    using keys that by (simp add: the_inv_into_f_f)
  have kvs: "length v = BlockSize cfg \<and> v = ?h a" if "(a, v) \<in> set ?kvs" for a v
    using that ids ok inv by (auto simp: blocks_ok_nth)
  have dom: "fst ` set ?kvs = block_at st stripe ` {..<?n}" unfolding ids [symmetric] by (auto simp: image_image image_iff)
  have fetch: "cluster_fetch (fold (store_block cfg (\<lambda>_. True) 0) ?kvs cf) a
      = (if a \<in> block_at st stripe ` {..<?n} then Some (?h a) else cluster_fetch cf a)" for a
    using cluster_store.fetch_stores [where kvs = ?kvs and cfg = cfg and bid = 0 and s = cf and h = ?h, OF kvs] unfolding dom by simp
  have "length (stripe_blocks stripe) = ?n" using placed(1) by (simp add: glrc_placed_def)
  then show ?thesis unfolding stripe_stored_def using run fetch inv by (intro exI [of _ "fold (store_block cfg (\<lambda>_. True) 0) ?kvs cf"]) simp
qed

text \<open>A stored stripe can be read, also when one of its blocks is gone.\<close>

lemma stripe_stored_readable:
  assumes "stripe_stored st stripe blocks cf cf'" "inj_on (block_at st stripe) {..<length (stripe_blocks stripe)}"
    "blocks_ok (length (stripe_blocks stripe)) (BlockSize cfg) blocks" "\<And>n. length (fresh n) = n" "b < length (stripe_blocks stripe)"
  shows "stripe_readable st stripe (cluster_read cfg fresh (DelInDatanode (block_at st stripe b) cf')) blocks b"
proof -
  have "cluster_fetch (DelInDatanode (block_at st stripe b) cf') (block_at st stripe i) = Some (blocks ! i)"
    if "i < length (stripe_blocks stripe)" "i \<noteq> b" for i
    using that assms(1,2,5) by (simp add: cluster_store.fetch_discard stripe_stored_def inj_on_eq_iff)
  then show ?thesis using assms(3,4)
    by (simp add: stripe_readable_def cluster_read_def Let_def cluster_fetch_def block_at_def get_after_store blocks_ok_nth)
qed

section \<open>From the client to the datanodes\<close>

lemma glrc_upload_stored:
  fixes k r z :: nat
  assumes inv: "service_inv cfg (k + r + z) st"
    and cfg: "CodeType cfg = ''gLRC''" "cfg_k cfg = k" "cfg_r cfg = r" "cfg_z cfg = z" "cfg_n cfg = k + r + z"
    and z: "0 < z" and free: "\<not> m_mutex_held st" and acc: "\<forall>i. list_ex id (take 3 (att i))"
    and up: "uploadSetValue cfg rnd att key (BlockSize cfg * k) st = Some (st', OK, reply)"
    and m: "length m = (k + r + z) * BlockSize cfg" and gs: "set gs = {..<z}"
  defines "stripe \<equiv> stripe_at st' (m_cur_stripe_id st)"
  defines "plans \<equiv> generate_add_plans cfg st' stripe"
  assumes order: "\<And>g. g < z \<Longrightarrow> set (orders g) = {..<length (blockkeys (plans ! g))}"
  shows "glrc_placed k r z stripe" "inj_on (block_at st' stripe) {..<k + r + z}" "length plans = z"
    "client_data cfg reply m = Some (take k (client_stripe k r z cfg m))"
    "\<exists>streams cf'. client_set cfg reply m = Some streams
       \<and> run_proxies cfg (\<lambda>_. True) fresh plans streams orders gs cf = Some (cf', map ((!) (append_keys reply)) gs)
       \<and> stripe_stored st' stripe (client_stripe k r z cfg m) cf cf'"
proof -
  let ?sid = "m_cur_stripe_id st"
  have names: "blk_key (new_block cfg (new_stripe cfg ?sid key) 0 0 0 i) = block_key_of k r ?sid i" for i
    by (simp add: new_block_def Let_def block_key_of_def new_stripe_def cfg)
  from glrc_upload_accepted [OF inv cfg z free acc, of rnd key]
  have placed: "glrc_placed k r z stripe" and nums: "num_groups stripe = z" "stripe_id stripe = ?sid"
    and keys: "append_keys reply = map (gen_append_key ?sid) [0..<z]"
    and blks: "\<forall>i < k + r + z. blk_key (stripe_blocks stripe ! i) = block_key_of k r ?sid i"
    and reply: "cluster_slice_sizes reply = map append_size plans" "sum_append_size reply = sum_list (cluster_slice_sizes reply)"
    by (auto simp: up stripe_def plans_def names)
  show placed: "glrc_placed k r z stripe" by (fact placed)
  show inj: "inj_on (block_at st' stripe) {..<k + r + z}"
    using blks by (intro inj_onI) (auto simp: block_at_def Let_def block_key_of_inject)
  show len: "length plans = z" by (simp add: plans_def generate_add_plans_def nums)
  note plan = glrc_plan [OF placed z nums(1), where cfg = cfg and st = st', folded plans_def]
  have slices: "cluster_slice_sizes reply = map (\<lambda>g. length (group_list k r z g) * BlockSize cfg) [0..<z]"
    unfolding reply(1) by (rule nth_equalityI) (simp_all add: len plan(1))
  have lk: "length (append_keys reply) = z" by (simp add: keys)
  show "client_data cfg reply m = Some (take k (client_stripe k r z cfg m))"
    by (simp add: client_data_def glrc_set_pointers [OF z cfg(1-4) slices reply(2)] client_ptrs_def client_stripe_def Let_def comp_def)
  obtain streams where streams: "client_set cfg reply m = Some streams" "length streams = z"
    "\<And>g. g < z \<Longrightarrow> length (streams ! g) = length (group_list k r z g) * BlockSize cfg"
    "\<And>g j. g < z \<Longrightarrow> j < length (group_list k r z g) \<Longrightarrow>
       take (BlockSize cfg) (drop (j * BlockSize cfg) (streams ! g)) = client_stripe k r z cfg m ! (group_list k r z g ! j)"
    by (rule client_streams [OF z cfg(1-4) slices reply(2) lk m]) (rule that)
  have ok: "blocks_ok (k + r + z) (BlockSize cfg) (client_stripe k r z cfg m)"
    using client_stripe_codeword [OF z m] by (simp add: glrc_codeword_def)
  have "\<And>g. g < z \<Longrightarrow> set (orders g) = {..<length (group_list k r z g)}" using order plan(5) by simp
  from proxies_store_stripe [OF placed z nums(1) gs inj streams(3,4) this ok, of fresh cf]
  obtain cf' where cf': "run_proxies cfg (\<lambda>_. True) fresh plans streams orders gs cf = Some (cf', map (gen_append_key ?sid) gs)"
    "stripe_stored st' stripe (client_stripe k r z cfg m) cf cf'" by (auto simp: plans_def nums)
  moreover have "map (gen_append_key ?sid) gs = map ((!) (append_keys reply)) gs" using gs keys by auto
  ultimately show "\<exists>streams cf'. client_set cfg reply m = Some streams
       \<and> run_proxies cfg (\<lambda>_. True) fresh plans streams orders gs cf = Some (cf', map ((!) (append_keys reply)) gs)
       \<and> stripe_stored st' stripe (client_stripe k r z cfg m) cf cf'"
    using streams(1) by auto
qed

section \<open>Deletion\<close>

text \<open>Where the blocks of a stripe are.\<close>

definition block_place :: "coordinator \<Rightarrow> Block \<Rightarrow> (string \<times> int) \<times> string" where
  "block_place st b = (let nd = node_at st (map2node b) in ((node_ip nd, node_port nd), blk_key b))"

lemma deleteBlock_files:
  assumes "set order = {..<length blocks}"
  shows "cluster_fetch (fst (deleteBlock (delete_request st blocks sid key) order cf)) a
    = (if a \<in> block_place st ` set blocks then None else cluster_fetch cf a)"
proof -
  have "fst (deleteBlock (delete_request st blocks sid key) order cf) = fold DelInDatanode (map (\<lambda>j. block_place st (blocks ! j)) order) cf"
    unfolding deleteBlock_def fst_conv fold_map comp_def
    by (rule fold_cong) (use assms in \<open>auto simp: delete_request_def block_place_def Let_def\<close>)
  moreover have "set (map (\<lambda>j. block_place st (blocks ! j)) order) = block_place st ` set blocks"
    unfolding set_map assms nth_image_lessThan [of blocks, symmetric] image_image ..
  ultimately show ?thesis by (simp only: cluster_store.fetch_discards)
qed

text \<open>Deleting a stripe: the files of its blocks go, no other file does, and the proxy's report names the stripe.\<close>

lemma delete_stripe_files:
  fixes sid :: nat
  assumes "\<not> m_mutex_held st" "tables_ok st"
  defines "blocks \<equiv> filter (\<lambda>b. map2stripe b = sid) (stripe_blocks (stripe_at st sid))"
  assumes "pick \<in> map2cluster ` set blocks" "set order = {..<length blocks}"
  shows "\<exists>st1 rq cf'. delByStripe sid pick st = Some (st1, Some (cluster_proxy st pick, rq))
    \<and> deleteBlock rq order cf = (cf', Some ([], int sid)) \<and> \<not> m_mutex_held st1 \<and> tables_ok st1
    \<and> (\<forall>s. stripe_at st1 s = stripe_at st s) \<and> (\<forall>v. node_at st1 v = node_at st v)
    \<and> (\<forall>c. cluster_at st1 c = cluster_at st c) \<and> m_object_commit_table st1 = m_object_commit_table st
    \<and> (\<forall>a. cluster_fetch cf' a = (if a \<in> block_place st ` set blocks then None else cluster_fetch cf a))"
proof -
  let ?st = "st\<lparr>m_stripe_deleting_table := m_stripe_deleting_table st @ [sid]\<rparr>"
  let ?st1 = "touch_stripe sid ?st" and ?rq = "delete_request st blocks (int sid) []"
  have at: "stripe_at ?st1 s = stripe_at st s" for s
    using assms(2) by (simp add: touch_stripe_def stripe_at_def tbl_get_def tables_ok_def map_of_tbl_set)
  have same: "node_at ?st1 v = node_at st v" "cluster_proxy ?st1 c = cluster_proxy st c" "cluster_at ?st1 c = cluster_at st c"
    "m_object_commit_table ?st1 = m_object_commit_table st" for v c
    by (simp_all add: touch_stripe_def node_at_def cluster_proxy_def cluster_at_def)
  have ok: "\<not> m_mutex_held ?st1" "tables_ok ?st1" using assms(1,2) by (simp_all add: touch_stripe_def tables_ok_def tbl_ok_set)
  have "delByStripe sid pick st = Some (?st1, Some (cluster_proxy st pick, ?rq))"
    using assms(1,4) by (simp add: delByStripe_def at send_delete_def delete_request_def same blocks_def Let_def)
  moreover have "snd (deleteBlock ?rq order cf) = Some ([], int sid)" by (simp add: deleteBlock_def delete_request_def)
  ultimately show ?thesis using ok at same deleteBlock_files [OF assms(5), of st "int sid" "[]" cf]
    by (intro exI [of _ ?st1] exI [of _ ?rq] exI [of _ "fst (deleteBlock ?rq order cf)"]) (auto simp: prod_eq_iff)
qed

end
