(* ===== verification/RangeCommit.thy ===== *)
theory RangeCommit
  imports Datanode
begin

text \<open>
  Recovered ranges of one block (\<^verbatim>\<open>handleRecoveryBreakdown\<close> and \<^verbatim>\<open>coordinate_hybrid_range_commit\<close> of \<^verbatim>\<open>datanode.cpp\<close>).
  The two halves of a hybrid repair write their ranges into a temporary file, each in its own thread; a barrier then renames
  the file to the block when every part has arrived and is durable.

  Each function below is one critical section of the barrier or one file operation; \<open>commit_step\<close> interleaves them.  The
  120-second wait of a part may end at any time.
\<close>

section \<open>Range writes\<close>

definition range_write :: "SysConfig \<Rightarrow> string \<Rightarrow> nat \<Rightarrow> nat \<Rightarrow> buffer \<Rightarrow> files \<Rightarrow> files \<times> bool" where
  "range_write cfg path recovery_offset recovery_size recv fs =
     (let file = (case fs path of None \<Rightarrow> [] | Some f \<Rightarrow> f);
          sized = file @ replicate (BlockSize cfg - length file) 0;
          wrote = stream_chunks (min kStreamChunkBytes recovery_size) recovery_size recv
      in (fs(path \<mapsto> write_at recovery_offset wrote sized), length wrote = recovery_size))"

text \<open>A whole block goes to a temporary file and is renamed when it is complete.\<close>

definition block_write :: "SysConfig \<Rightarrow> bool \<Rightarrow> string \<Rightarrow> buffer \<Rightarrow> files \<Rightarrow> files \<times> bool" where
  "block_write cfg disk key recv fs =
     (let wrote = stream_chunks (min kStreamChunkBytes (BlockSize cfg)) (BlockSize cfg) recv;
          ok = (disk \<and> length wrote = BlockSize cfg)
      in (if ok then fs(key \<mapsto> wrote) else fs, ok))"

definition range_writepath :: "string \<Rightarrow> string \<Rightarrow> string" where
  "range_writepath key commit_token = key @ ''.recovery.hybrid.'' @ commit_token"

text \<open>
  The handler up to the barrier: the files, whether the payload was complete, and whether the part goes on to the barrier.
  A size of 0 asks for the whole block.
\<close>

definition handleRecoveryBreakdown :: "SysConfig \<Rightarrow> bool \<Rightarrow> string \<Rightarrow> nat \<Rightarrow> nat \<Rightarrow> bool \<Rightarrow> string \<Rightarrow> nat \<Rightarrow> buffer \<Rightarrow> files
    \<Rightarrow> (files \<times> bool) \<times> bool" where
  "handleRecoveryBreakdown cfg disk key recovery_offset recovery_size defer_fsync commit_token commit_parts recv fs =
     (let stripe_mode = recovery_size > 0;
          hybrid_atomic_range = (stripe_mode \<and> defer_fsync \<and> commit_token \<noteq> [] \<and> commit_parts > 1);
          path = (if hybrid_atomic_range then range_writepath key commit_token else key)
      in (if stripe_mode then range_write cfg path recovery_offset recovery_size recv fs else block_write cfg disk key recv fs,
          hybrid_atomic_range))"

section \<open>The barrier\<close>

record HybridRangeCommitState =
  arrived :: nat
  waiters :: nat
  all_parts_ok :: bool
  commit_done :: bool
  commit_ok :: bool

definition fresh_slot :: HybridRangeCommitState where
  "fresh_slot = \<lparr>arrived = 0, waiters = 0, all_parts_ok = True, commit_done = False, commit_ok = False\<rparr>"

definition enter_slot :: "bool \<Rightarrow> HybridRangeCommitState option \<Rightarrow> HybridRangeCommitState" where
  "enter_slot this_part_ok slot =
     (let st = (case slot of None \<Rightarrow> fresh_slot | Some st \<Rightarrow> st)
      in st\<lparr>arrived := arrived st + 1, waiters := waiters st + 1, all_parts_ok := all_parts_ok st \<and> this_part_ok\<rparr>)"

definition publish_files :: "string \<Rightarrow> string \<Rightarrow> bool \<Rightarrow> bool \<Rightarrow> bool \<Rightarrow> files \<Rightarrow> files \<times> bool" where
  "publish_files temp_path final_path should_commit rename_ok sync_ok fs =
     (let renamed = (should_commit \<and> rename_ok \<and> fs temp_path \<noteq> None);
          fs = (if renamed then fs(final_path := fs temp_path, temp_path := None) else fs);
          publish_ok = (renamed \<and> sync_ok)
      in (if publish_ok then fs else fs(temp_path := None), publish_ok))"

definition finish_slot :: "bool \<Rightarrow> HybridRangeCommitState \<Rightarrow> HybridRangeCommitState" where
  "finish_slot publish_ok st = st\<lparr>commit_ok := publish_ok, commit_done := True\<rparr>"

definition expire_slot :: "HybridRangeCommitState \<Rightarrow> HybridRangeCommitState" where
  "expire_slot st = (if commit_done st then st else st\<lparr>commit_ok := False, commit_done := True\<rparr>)"

definition leave_slot :: "HybridRangeCommitState \<Rightarrow> HybridRangeCommitState option" where
  "leave_slot st =
     (let st = st\<lparr>waiters := waiters st - 1\<rparr> in if waiters st = 0 \<and> commit_done st then None else Some st)"

section \<open>Interleavings\<close>

datatype part_phase = Receiving | Written | Waiting | Publishing bool | Published bool | Returned bool

record commit_system =
  cs_files :: files
  cs_slot :: "HybridRangeCommitState option"
  cs_phase :: "nat \<Rightarrow> part_phase"
  cs_durable :: "nat \<Rightarrow> bool"

text \<open>One part of the request: its range and the bytes that arrive for it.\<close>

record range_part =
  rp_offset :: nat
  rp_size :: nat
  rp_recv :: buffer

inductive commit_step :: "SysConfig \<Rightarrow> string \<Rightarrow> string \<Rightarrow> nat \<Rightarrow> (nat \<Rightarrow> range_part) \<Rightarrow> commit_system \<Rightarrow> commit_system \<Rightarrow> bool"
  for cfg temp_path final_path expected_parts part where
  receive: "i < expected_parts \<Longrightarrow> cs_phase s i = Receiving \<Longrightarrow>
    range_write cfg temp_path (rp_offset (part i)) (rp_size (part i)) (rp_recv (part i)) (cs_files s) = (fs, payload_ok) \<Longrightarrow>
    commit_step cfg temp_path final_path expected_parts part s
      (s\<lparr>cs_files := fs, cs_phase := (cs_phase s)(i := Written), cs_durable := (cs_durable s)(i := payload_ok \<and> fsync_ok)\<rparr>)"
| arrive: "i < expected_parts \<Longrightarrow> cs_phase s i = Written \<Longrightarrow> st = enter_slot (cs_durable s i) (cs_slot s) \<Longrightarrow>
    commit_step cfg temp_path final_path expected_parts part s
      (s\<lparr>cs_slot := Some st,
         cs_phase := (cs_phase s)(i := (if arrived st = expected_parts then Publishing (all_parts_ok st) else Waiting))\<rparr>)"
| publish: "i < expected_parts \<Longrightarrow> cs_phase s i = Publishing should_commit \<Longrightarrow>
    publish_files temp_path final_path should_commit rename_ok sync_ok (cs_files s) = (fs, publish_ok) \<Longrightarrow>
    commit_step cfg temp_path final_path expected_parts part s
      (s\<lparr>cs_files := fs, cs_phase := (cs_phase s)(i := Published publish_ok)\<rparr>)"
| finish: "i < expected_parts \<Longrightarrow> cs_phase s i = Published publish_ok \<Longrightarrow> cs_slot s = Some st \<Longrightarrow>
    commit_step cfg temp_path final_path expected_parts part s
      (s\<lparr>cs_slot := leave_slot (finish_slot publish_ok st), cs_phase := (cs_phase s)(i := Returned publish_ok)\<rparr>)"
| wake: "i < expected_parts \<Longrightarrow> cs_phase s i = Waiting \<Longrightarrow> cs_slot s = Some st \<Longrightarrow> st' = expire_slot st \<Longrightarrow>
    commit_step cfg temp_path final_path expected_parts part s
      (s\<lparr>cs_slot := leave_slot st', cs_phase := (cs_phase s)(i := Returned (commit_ok st'))\<rparr>)"

definition commit_start :: "files \<Rightarrow> commit_system" where
  "commit_start fs = \<lparr>cs_files = fs, cs_slot = None, cs_phase = (\<lambda>_. Receiving), cs_durable = (\<lambda>_. False)\<rparr>"

definition commit_reachable :: "SysConfig \<Rightarrow> string \<Rightarrow> string \<Rightarrow> nat \<Rightarrow> (nat \<Rightarrow> range_part) \<Rightarrow> files \<Rightarrow> commit_system \<Rightarrow> bool" where
  "commit_reachable cfg temp_path final_path expected_parts part fs =
     (commit_step cfg temp_path final_path expected_parts part)\<^sup>*\<^sup>* (commit_start fs)"

inductive_cases commit_stepE: "commit_step cfg temp_path final_path expected_parts part s s'"

section \<open>The invariant\<close>

text \<open>
  The parts carry the bytes of \<open>block\<close>, possibly cut short by a broken connection, and their ranges cover it.
\<close>

definition parts_of :: "SysConfig \<Rightarrow> nat \<Rightarrow> (nat \<Rightarrow> range_part) \<Rightarrow> buffer \<Rightarrow> bool" where
  "parts_of cfg n part block \<longleftrightarrow> length block = BlockSize cfg
     \<and> (\<forall>i<n. 0 < rp_size (part i) \<and> rp_offset (part i) + rp_size (part i) \<le> BlockSize cfg
            \<and> (\<exists>got. rp_recv (part i) = take got (take (rp_size (part i)) (drop (rp_offset (part i)) block))))
     \<and> (\<forall>p<BlockSize cfg. \<exists>i<n. rp_offset (part i) \<le> p \<and> p < rp_offset (part i) + rp_size (part i))"

definition range_done :: "(nat \<Rightarrow> range_part) \<Rightarrow> nat \<Rightarrow> buffer \<Rightarrow> buffer \<Rightarrow> bool" where
  "range_done part i block f \<longleftrightarrow>
     (\<forall>p. rp_offset (part i) \<le> p \<longrightarrow> p < rp_offset (part i) + rp_size (part i) \<longrightarrow> f ! p = block ! p)"

definition entered :: "commit_system \<Rightarrow> nat \<Rightarrow> bool" where
  "entered s i \<longleftrightarrow> cs_phase s i \<noteq> Receiving \<and> cs_phase s i \<noteq> Written"

definition holds_slot :: "part_phase \<Rightarrow> bool" where
  "holds_slot ph \<longleftrightarrow> (case ph of Waiting \<Rightarrow> True | Publishing _ \<Rightarrow> True | Published _ \<Rightarrow> True | _ \<Rightarrow> False)"

definition temp_inv :: "SysConfig \<Rightarrow> string \<Rightarrow> nat \<Rightarrow> (nat \<Rightarrow> range_part) \<Rightarrow> buffer \<Rightarrow> commit_system \<Rightarrow> bool" where
  "temp_inv cfg temp_path n part block s \<longleftrightarrow>
     (case cs_files s temp_path of
        Some f \<Rightarrow> length f = BlockSize cfg \<and> (\<forall>i<n. cs_durable s i \<longrightarrow> range_done part i block f)
      | None \<Rightarrow> (\<forall>i<n. \<not> cs_durable s i) \<or> (\<forall>i<n. entered s i))"

definition slot_inv :: "nat \<Rightarrow> commit_system \<Rightarrow> bool" where
  "slot_inv n s \<longleftrightarrow>
     (case cs_slot s of
        None \<Rightarrow> \<forall>i<n. \<not> holds_slot (cs_phase s i)
      | Some st \<Rightarrow> waiters st = card {i. i < n \<and> holds_slot (cs_phase s i)}
          \<and> (\<exists>E \<subseteq> {i. i < n \<and> entered s i}. arrived st = card E \<and> (all_parts_ok st \<longrightarrow> (\<forall>i\<in>E. cs_durable s i))))"

definition result_inv :: "string \<Rightarrow> nat \<Rightarrow> buffer \<Rightarrow> commit_system \<Rightarrow> bool" where
  "result_inv final_path n block s \<longleftrightarrow>
     (\<forall>i<n. (\<exists>c. cs_phase s i = Publishing c) \<longrightarrow> (\<forall>j<n. entered s j))
     \<and> (\<forall>i<n. cs_phase s i = Publishing True \<longrightarrow> (\<forall>j<n. cs_durable s j))
     \<and> (\<forall>i<n. cs_phase s i = Published True \<or> cs_phase s i = Returned True \<longrightarrow> cs_files s final_path = Some block)
     \<and> (\<forall>st. cs_slot s = Some st \<longrightarrow> commit_ok st \<longrightarrow> cs_files s final_path = Some block)"

definition commit_inv :: "SysConfig \<Rightarrow> string \<Rightarrow> string \<Rightarrow> nat \<Rightarrow> (nat \<Rightarrow> range_part) \<Rightarrow> buffer \<Rightarrow> files \<Rightarrow> commit_system \<Rightarrow> bool" where
  "commit_inv cfg temp_path final_path n part block fs s \<longleftrightarrow>
     temp_inv cfg temp_path n part block s \<and> slot_inv n s \<and> result_inv final_path n block s
     \<and> (\<forall>i. cs_durable s i \<longrightarrow> cs_phase s i \<noteq> Receiving)
     \<and> cs_files s final_path \<in> {fs final_path, Some block}"

text \<open>What a part writes are bytes of the block at their place.\<close>

lemma range_write_temp:
  assumes parts: "parts_of cfg n part block" and i: "i < n"
    and w: "range_write cfg path (rp_offset (part i)) (rp_size (part i)) (rp_recv (part i)) fs = (fs', payload_ok)"
    and old: "\<And>f. fs path = Some f \<Longrightarrow> length f = BlockSize cfg"
  obtains f' where "fs' = fs(path \<mapsto> f')" "length f' = BlockSize cfg" "payload_ok \<Longrightarrow> range_done part i block f'"
    "\<And>f p. fs path = Some f \<Longrightarrow> p < BlockSize cfg \<Longrightarrow> f' ! p = block ! p \<or> f' ! p = f ! p"
proof -
  let ?o = "rp_offset (part i)" and ?n = "rp_size (part i)" and ?r = "rp_recv (part i)" and ?B = "BlockSize cfg"
  let ?wrote = "stream_chunks (min kStreamChunkBytes ?n) ?n ?r"
  let ?file = "case fs path of None \<Rightarrow> [] | Some f \<Rightarrow> f"
  let ?sized = "?file @ replicate (?B - length ?file) 0"
  obtain got where b: "length block = ?B" "0 < ?n" "?o + ?n \<le> ?B" and r: "?r = take got (take ?n (drop ?o block))"
    using parts i by (auto simp: parts_of_def)
  have sized: "length ?sized = ?B" using old by (auto split: option.splits)
  obtain m where m: "m \<le> ?n" "?wrote = take m ?r" "m \<le> length ?r"
    using stream_chunks_prefix [of ?n "min kStreamChunkBytes ?n" ?r] by blast
  then have wrote: "?wrote = take m (drop ?o block)" unfolding r by (simp add: min_absorb1)
  have len: "length ?wrote = m" using wrote m(1) b by simp
  let ?f = "write_at ?o ?wrote ?sized"
  have nth: "?f ! p = (if ?o \<le> p \<and> p < ?o + m then block ! p else ?sized ! p)" if "p < ?B" for p
    using that sized len b by (auto simp: write_at_nth wrote)
  show thesis
  proof (rule that [of ?f])
    show "fs' = fs(path \<mapsto> ?f)" using w by (simp add: range_write_def Let_def)
    show "length ?f = ?B" using sized len m(1) b by (simp add: length_write_at)
    show "range_done part i block ?f" if "payload_ok"
    proof -
      have "m = ?n" using that w len by (simp add: range_write_def Let_def)
      then show ?thesis using nth b by (simp add: range_done_def)
    qed
    show "?f ! p = block ! p \<or> ?f ! p = f ! p" if "fs path = Some f" "p < ?B" for f p
      using nth [OF that(2)] that old by (auto simp: nth_append)
  qed
qed

lemma range_done_all:
  assumes "parts_of cfg n part block" "length f = BlockSize cfg" "\<And>i. i < n \<Longrightarrow> range_done part i block f"
  shows "f = block"
proof (rule nth_equalityI)
  show "length f = length block" using assms by (simp add: parts_of_def)
  show "f ! p = block ! p" if "p < length f" for p
    using assms that unfolding parts_of_def range_done_def by metis
qed

lemma holders_update:
  fixes ph :: "nat \<Rightarrow> part_phase"
  assumes "i < n"
  shows "{j. j < n \<and> holds_slot ((ph(i := x)) j)} =
    (if holds_slot x then insert i {j. j < n \<and> holds_slot (ph j)} else {j. j < n \<and> holds_slot (ph j)} - {i})"
  using assms by auto

lemma holds_slot_simps [simp]:
  "\<not> holds_slot Receiving" "\<not> holds_slot Written" "holds_slot Waiting" "holds_slot (Publishing b)" "holds_slot (Published b)"
  "\<not> holds_slot (Returned b)"
  by (simp_all add: holds_slot_def)

lemma entered_update: "entered (s\<lparr>cs_phase := (cs_phase s)(i := x)\<rparr>) j = (if j = i then x \<noteq> Receiving \<and> x \<noteq> Written else entered s j)"
  by (simp add: entered_def)

lemma entered_cong: "cs_phase s' = (cs_phase s)(i := x) \<Longrightarrow> entered s' j = (if j = i then x \<noteq> Receiving \<and> x \<noteq> Written else entered s j)"
  by (simp add: entered_def)

lemma slot_invI:
  assumes "cs_slot s = Some st" "waiters st = card {i. i < n \<and> holds_slot (cs_phase s i)}"
    "E \<subseteq> {i. i < n \<and> entered s i}" "arrived st = card E" "all_parts_ok st \<Longrightarrow> \<forall>i\<in>E. cs_durable s i"
  shows "slot_inv n s"
  using assms unfolding slot_inv_def by auto

lemma slot_invE:
  assumes "slot_inv n s" "cs_slot s = Some st"
  obtains E where "waiters st = card {i. i < n \<and> holds_slot (cs_phase s i)}" "E \<subseteq> {i. i < n \<and> entered s i}"
    "arrived st = card E" "all_parts_ok st \<Longrightarrow> \<forall>i\<in>E. cs_durable s i"
  using assms unfolding slot_inv_def by auto

lemma slot_inv_cong:
  assumes "cs_slot s' = cs_slot s" "cs_durable s' = cs_durable s" "\<And>j. entered s' j = entered s j"
    and "\<And>j. holds_slot (cs_phase s' j) = holds_slot (cs_phase s j)"
  shows "slot_inv n s' = slot_inv n s"
  unfolding slot_inv_def assms ..

text \<open>Leaving the slot, as the last step of a part.\<close>

lemma leave_slot_inv:
  assumes inv: "slot_inv n s" and i: "i < n" "holds_slot (cs_phase s i)" and slot: "cs_slot s = Some st"
    and st': "arrived st' = arrived st" "waiters st' = waiters st" "all_parts_ok st' = all_parts_ok st" "commit_done st'"
  shows "slot_inv n (s\<lparr>cs_slot := leave_slot st', cs_phase := (cs_phase s)(i := Returned b)\<rparr>)"
proof -
  let ?H = "{j. j < n \<and> holds_slot (cs_phase s j)}" and ?s = "s\<lparr>cs_slot := leave_slot st', cs_phase := (cs_phase s)(i := Returned b)\<rparr>"
  have fin: "finite ?H" by simp
  have H: "{j. j < n \<and> holds_slot (cs_phase ?s j)} = ?H - {i}" using i by auto
  obtain E where w: "waiters st = card ?H" and E: "E \<subseteq> {j. j < n \<and> entered s j}" "arrived st = card E"
      "all_parts_ok st \<longrightarrow> (\<forall>j\<in>E. cs_durable s j)"
    using inv slot by (auto simp: slot_inv_def)
  have ent: "{j. j < n \<and> entered s j} \<subseteq> {j. j < n \<and> entered ?s j}" by (auto simp: entered_def)
  have card: "card (?H - {i}) = waiters st - 1" using i w fin by simp
  show ?thesis
  proof (cases "waiters st - 1 = 0")
    case True
    then have "?H - {i} = {}" using card fin by simp
    then show ?thesis using H True st' by (auto simp: slot_inv_def leave_slot_def Let_def)
  next
    case False
    then have "leave_slot st' = Some (st'\<lparr>waiters := waiters st - 1\<rparr>)" using st' by (simp add: leave_slot_def Let_def)
    moreover have "\<exists>E \<subseteq> {j. j < n \<and> entered ?s j}. arrived st' = card E \<and> (all_parts_ok st' \<longrightarrow> (\<forall>j\<in>E. cs_durable s j))"
      using E ent st' by (intro exI [of _ E]) auto
    ultimately show ?thesis using H card by (simp add: slot_inv_def)
  qed
qed

lemma receive_inv:
  assumes inv: "commit_inv cfg temp final n part block fs0 s" and parts: "parts_of cfg n part block" and tf: "temp \<noteq> final"
    and i: "i < n" "cs_phase s i = Receiving"
    and w: "range_write cfg temp (rp_offset (part i)) (rp_size (part i)) (rp_recv (part i)) (cs_files s) = (fs, payload_ok)"
  shows "commit_inv cfg temp final n part block fs0
    (s\<lparr>cs_files := fs, cs_phase := (cs_phase s)(i := Written), cs_durable := (cs_durable s)(i := payload_ok \<and> fsync_ok)\<rparr>)"
proof -
  let ?s = "s\<lparr>cs_files := fs, cs_phase := (cs_phase s)(i := Written), cs_durable := (cs_durable s)(i := payload_ok \<and> fsync_ok)\<rparr>"
  note inv = inv [unfolded commit_inv_def]
  have ni: "\<not> entered s i" "\<not> entered ?s i" using i by (auto simp: entered_def)
  have ent: "entered ?s j = entered s j" for j using i by (simp add: entered_def)
  have hold: "holds_slot (cs_phase ?s j) = holds_slot (cs_phase s j)" for j using i by simp
  obtain f' where f': "fs = (cs_files s)(temp \<mapsto> f')" "length f' = BlockSize cfg" "payload_ok \<Longrightarrow> range_done part i block f'"
      "\<And>f p. cs_files s temp = Some f \<Longrightarrow> p < BlockSize cfg \<Longrightarrow> f' ! p = block ! p \<or> f' ! p = f ! p"
    using range_write_temp [OF parts i(1) w] inv by (auto simp: temp_inv_def split: option.splits)
  have ranges: "range_done part j block f'" if j: "j < n" "cs_durable ?s j" for j
  proof (cases "j = i")
    case True
    then show ?thesis using that f'(3) by simp
  next
    case False
    then have d: "cs_durable s j" using that by simp
    then obtain f where f: "cs_files s temp = Some f"
      using inv j(1) i(1) ni by (auto simp: temp_inv_def split: option.splits)
    have rd: "range_done part j block f" using inv d f j(1) by (simp add: temp_inv_def)
    have "rp_offset (part j) + rp_size (part j) \<le> BlockSize cfg" using parts j(1) by (simp add: parts_of_def)
    then have "f' ! p = block ! p" if "rp_offset (part j) \<le> p" "p < rp_offset (part j) + rp_size (part j)" for p
      using f'(4) [OF f, of p] rd that by (auto simp: range_done_def)
    then show ?thesis by (simp add: range_done_def)
  qed
  have "temp_inv cfg temp n part block ?s" using f' ranges by (simp add: temp_inv_def)
  moreover have "slot_inv n ?s"
  proof (cases "cs_slot s")
    case None
    then show ?thesis using inv hold by (simp add: slot_inv_def)
  next
    case (Some st)
    then obtain E where E: "waiters st = card {j. j < n \<and> holds_slot (cs_phase s j)}" "E \<subseteq> {j. j < n \<and> entered s j}"
        "arrived st = card E" "all_parts_ok st \<Longrightarrow> \<forall>j\<in>E. cs_durable s j"
      using inv slot_invE [of n s st] by blast
    show ?thesis
      by (rule slot_invI [of _ st n E]) (use Some E hold ent ni in \<open>simp_all del: fun_upd_apply\<close>, use E ni in auto)
  qed
  moreover have "result_inv final n block ?s"
  proof -
    have "\<not> (\<exists>j<n. \<exists>c. cs_phase s j = Publishing c)" using inv ni(1) i(1) unfolding result_inv_def by blast
    then show ?thesis using inv f'(1) tf by (auto simp: result_inv_def)
  qed
  ultimately show ?thesis using inv f'(1) tf unfolding commit_inv_def by (auto split: if_splits)
qed

lemma enter_slot_simps [simp]:
  "arrived (enter_slot ok slot) = Suc (case slot of None \<Rightarrow> 0 | Some st \<Rightarrow> arrived st)"
  "waiters (enter_slot ok slot) = Suc (case slot of None \<Rightarrow> 0 | Some st \<Rightarrow> waiters st)"
  "all_parts_ok (enter_slot ok slot) \<longleftrightarrow> (case slot of None \<Rightarrow> True | Some st \<Rightarrow> all_parts_ok st) \<and> ok"
  "commit_ok (enter_slot ok slot) \<longleftrightarrow> (case slot of None \<Rightarrow> False | Some st \<Rightarrow> commit_ok st)"
  by (simp_all add: enter_slot_def fresh_slot_def Let_def split: option.splits)

text \<open>The parts that have entered a slot, with the new one.\<close>

lemma enter_slot_members:
  assumes inv: "slot_inv n s" and i: "i < n" "cs_phase s i = Written"
    and s': "cs_phase s' = (cs_phase s)(i := x)" "x \<noteq> Receiving" "x \<noteq> Written" "cs_durable s' = cs_durable s"
  obtains E where "E \<subseteq> {j. j < n \<and> entered s' j}" "arrived (enter_slot (cs_durable s i) (cs_slot s)) = card E"
    "all_parts_ok (enter_slot (cs_durable s i) (cs_slot s)) \<Longrightarrow> \<forall>j\<in>E. cs_durable s' j"
proof -
  have ni: "\<not> entered s i" using i by (simp add: entered_def)
  have ent: "entered s' j = (j = i \<or> entered s j)" for j using s' by (simp add: entered_def)
  show thesis
  proof (cases "cs_slot s")
    case None
    then show ?thesis using i ent s' that [of "{i}"] by auto
  next
    case (Some st)
    then obtain E where E: "E \<subseteq> {j. j < n \<and> entered s j}" "arrived st = card E" "all_parts_ok st \<Longrightarrow> \<forall>j\<in>E. cs_durable s j"
      using inv slot_invE by metis
    have "finite E" "i \<notin> E" using E(1) ni finite_subset [OF E(1)] by auto
    then show ?thesis using E i ent s' Some that [of "insert i E"] by auto
  qed
qed

lemma arrive_inv:
  assumes inv: "commit_inv cfg temp final n part block fs0 s" and i: "i < n" "cs_phase s i = Written"
    and st: "st = enter_slot (cs_durable s i) (cs_slot s)"
  shows "commit_inv cfg temp final n part block fs0
    (s\<lparr>cs_slot := Some st, cs_phase := (cs_phase s)(i := (if arrived st = n then Publishing (all_parts_ok st) else Waiting))\<rparr>)"
proof -
  let ?x = "if arrived st = n then Publishing (all_parts_ok st) else Waiting"
  let ?s = "s\<lparr>cs_slot := Some st, cs_phase := (cs_phase s)(i := ?x)\<rparr>"
  note inv = inv [unfolded commit_inv_def]
  have ent: "entered ?s j = (j = i \<or> entered s j)" for j by (simp add: entered_def)
  have sinv: "slot_inv n s" using inv by simp
  have x: "cs_phase ?s = (cs_phase s)(i := ?x)" "?x \<noteq> Receiving" "?x \<noteq> Written" "cs_durable ?s = cs_durable s" by simp_all
  obtain E where E: "E \<subseteq> {j. j < n \<and> entered ?s j}" "arrived st = card E" "all_parts_ok st \<Longrightarrow> \<forall>j\<in>E. cs_durable s j"
    by (rule enter_slot_members [OF sinv i x, folded st]) (rule that, simp_all)
  have all: "\<forall>j<n. entered ?s j" "all_parts_ok st \<Longrightarrow> \<forall>j<n. cs_durable s j" if "arrived st = n"
  proof -
    have "E = {j. j < n}" using E(1,2) that by (intro card_subset_eq) auto
    then show "\<forall>j<n. entered ?s j" "all_parts_ok st \<Longrightarrow> \<forall>j<n. cs_durable s j" using E by auto
  qed
  have "waiters st = card {j. j < n \<and> holds_slot (cs_phase ?s j)}"
  proof -
    have "{j. j < n \<and> holds_slot (cs_phase ?s j)} = insert i {j. j < n \<and> holds_slot (cs_phase s j)}" using i(1) by auto
    moreover have "i \<notin> {j. j < n \<and> holds_slot (cs_phase s j)}" using i by simp
    moreover have "(case cs_slot s of None \<Rightarrow> 0 | Some st \<Rightarrow> waiters st) = card {j. j < n \<and> holds_slot (cs_phase s j)}"
      using sinv by (auto simp: slot_inv_def split: option.splits)
    ultimately show ?thesis by (simp add: st)
  qed
  then have "slot_inv n ?s" using E by (intro slot_invI [of _ st n E]) auto
  moreover have "temp_inv cfg temp n part block ?s" using inv ent by (auto simp: temp_inv_def split: option.splits)
  moreover have "result_inv final n block ?s"
  proof -
    have "commit_ok st \<Longrightarrow> cs_files s final = Some block"
      using inv by (auto simp: st result_inv_def split: option.splits)
    then show ?thesis using inv all ent by (auto simp: result_inv_def)
  qed
  ultimately show ?thesis using inv by (simp add: commit_inv_def)
qed

lemma publish_files_result:
  assumes "publish_files temp final should_commit rename_ok sync_ok fs = (fs', publish_ok)" "temp \<noteq> final"
  shows "fs' temp = None"
    "fs' final = fs final \<or> should_commit \<and> fs temp \<noteq> None \<and> fs' final = fs temp"
    "publish_ok \<Longrightarrow> should_commit \<and> fs temp \<noteq> None \<and> fs' final = fs temp"
  using assms by (auto simp: publish_files_def Let_def split: if_splits)

lemma publish_inv:
  assumes inv: "commit_inv cfg temp final n part block fs0 s" and parts: "parts_of cfg n part block" and tf: "temp \<noteq> final"
    and i: "i < n" "cs_phase s i = Publishing should_commit"
    and p: "publish_files temp final should_commit rename_ok sync_ok (cs_files s) = (fs, publish_ok)"
  shows "commit_inv cfg temp final n part block fs0 (s\<lparr>cs_files := fs, cs_phase := (cs_phase s)(i := Published publish_ok)\<rparr>)"
proof -
  let ?s = "s\<lparr>cs_files := fs, cs_phase := (cs_phase s)(i := Published publish_ok)\<rparr>"
  note inv = inv [unfolded commit_inv_def] and pub = publish_files_result [OF p tf]
  have ent: "entered ?s j = entered s j" for j using i by (simp add: entered_def)
  have all: "\<forall>j<n. entered s j" using inv i by (auto simp: result_inv_def)
  have hold: "holds_slot (cs_phase ?s j) = holds_slot (cs_phase s j)" for j using i by simp
  have block: "f = block" if "should_commit" "cs_files s temp = Some f" for f
    using range_done_all [OF parts, of f] inv i that by (auto simp: temp_inv_def result_inv_def)
  have final: "fs final = cs_files s final \<or> fs final = Some block" using pub(2) block by force
  have "temp_inv cfg temp n part block ?s" using pub(1) all ent by (simp add: temp_inv_def)
  moreover have "slot_inv n ?s"
    using inv slot_inv_cong [of ?s s n] hold ent by simp
  moreover have "result_inv final n block ?s"
  proof -
    have "fs final = Some block" if "publish_ok" using pub(3) [OF that] block by force
    then show ?thesis using inv final ent by (auto simp: result_inv_def)
  qed
  ultimately show ?thesis using inv final by (auto simp: commit_inv_def)
qed

text \<open>Both ways of leaving the slot.\<close>

lemma return_inv:
  assumes inv: "commit_inv cfg temp final n part block fs0 s" and i: "i < n" "holds_slot (cs_phase s i)"
    and slot: "cs_slot s = Some st"
    and st': "arrived st' = arrived st" "waiters st' = waiters st" "all_parts_ok st' = all_parts_ok st" "commit_done st'"
    and ok: "commit_ok st' \<Longrightarrow> cs_files s final = Some block" "b \<Longrightarrow> commit_ok st'"
  shows "commit_inv cfg temp final n part block fs0 (s\<lparr>cs_slot := leave_slot st', cs_phase := (cs_phase s)(i := Returned b)\<rparr>)"
proof -
  let ?s = "s\<lparr>cs_slot := leave_slot st', cs_phase := (cs_phase s)(i := Returned b)\<rparr>"
  note inv = inv [unfolded commit_inv_def]
  have ent: "entered ?s j = entered s j" for j using i by (auto simp: entered_def)
  have "slot_inv n ?s" using leave_slot_inv [OF _ i slot st'] inv by simp
  moreover have "temp_inv cfg temp n part block ?s" using inv ent by (auto simp: temp_inv_def split: option.splits)
  moreover have "result_inv final n block ?s"
  proof -
    have "leave_slot st' = Some st'' \<Longrightarrow> commit_ok st'' = commit_ok st'" for st''
      by (auto simp: leave_slot_def Let_def split: if_splits)
    then show ?thesis using inv ok ent by (auto simp: result_inv_def)
  qed
  ultimately show ?thesis using inv by (auto simp: commit_inv_def)
qed

lemma commit_step_inv:
  assumes "commit_step cfg temp final n part s s'" "commit_inv cfg temp final n part block fs0 s"
    and "parts_of cfg n part block" "temp \<noteq> final"
  shows "commit_inv cfg temp final n part block fs0 s'"
  using assms(1)
proof cases
  case (receive i fs payload_ok fsync_ok)
  then show ?thesis using receive_inv assms by metis
next
  case (arrive i st)
  then show ?thesis using arrive_inv assms by metis
next
  case (publish i should_commit rename_ok sync_ok fs publish_ok)
  then show ?thesis using publish_inv assms by metis
next
  case (finish i publish_ok st)
  have "cs_files s final = Some block" if publish_ok
    using assms(2) finish that by (auto simp: commit_inv_def result_inv_def)
  then show ?thesis unfolding finish(1)
    by (intro return_inv [OF assms(2) finish(2) _ finish(4)]) (simp_all add: finish_slot_def finish(3))
next
  case (wake i st st')
  have "commit_ok st' \<Longrightarrow> cs_files s final = Some block"
    using assms(2) wake by (auto simp: commit_inv_def result_inv_def expire_slot_def split: if_splits)
  then show ?thesis unfolding wake(1)
    by (intro return_inv [OF assms(2) wake(2) _ wake(4)]) (simp_all add: wake(3,5) expire_slot_def)
qed

lemma commit_start_inv: "fs0 temp = None \<Longrightarrow> commit_inv cfg temp final n part block fs0 (commit_start fs0)"
  by (simp add: commit_inv_def commit_start_def temp_inv_def slot_inv_def result_inv_def)

lemma commit_reachable_inv:
  assumes "commit_reachable cfg temp final n part fs0 s" "parts_of cfg n part block" "temp \<noteq> final" "fs0 temp = None"
  shows "commit_inv cfg temp final n part block fs0 s"
  using assms(1) unfolding commit_reachable_def
proof (induction rule: rtranclp_induct)
  case base
  then show ?case using commit_start_inv assms(4) .
next
  case (step s s')
  then show ?case using commit_step_inv assms(2,3) by blast
qed

section \<open>Every part returns\<close>

definition part_work :: "part_phase \<Rightarrow> nat" where
  "part_work ph = (case ph of Receiving \<Rightarrow> 4 | Written \<Rightarrow> 3 | Waiting \<Rightarrow> 1 | Publishing _ \<Rightarrow> 2 | Published _ \<Rightarrow> 1 | Returned _ \<Rightarrow> 0)"

definition commit_work :: "nat \<Rightarrow> commit_system \<Rightarrow> nat" where
  "commit_work n s = (\<Sum>i<n. part_work (cs_phase s i))"

lemma commit_work_update:
  assumes "i < n" "part_work x < part_work (cs_phase s i)" "cs_phase s' = (cs_phase s)(i := x)"
  shows "commit_work n s' < commit_work n s"
  unfolding commit_work_def using assms by (intro sum_strict_mono_ex1) auto

lemma commit_step_work: "commit_step cfg temp final n part s s' \<Longrightarrow> commit_work n s' < commit_work n s"
  by (erule commit_step.cases) (auto intro!: commit_work_update simp: part_work_def split: if_splits)

lemma commit_step_enabled:
  assumes "commit_inv cfg temp final n part block fs0 s" "i < n" "\<nexists>b. cs_phase s i = Returned b"
  shows "\<exists>s'. commit_step cfg temp final n part s s'"
proof -
  have slot: "\<exists>st. cs_slot s = Some st" if "holds_slot (cs_phase s i)"
    using assms that by (cases "cs_slot s") (auto simp: commit_inv_def slot_inv_def)
  show ?thesis
  proof (cases "cs_phase s i")
    case Receiving
    then show ?thesis using assms(2) by (metis commit_step.receive surj_pair)
  next
    case (Publishing c)
    then show ?thesis using assms(2) by (metis commit_step.publish surj_pair)
  next
    case Written
    then show ?thesis using assms(2) by (metis commit_step.arrive)
  next
    case Waiting
    then show ?thesis using assms(2) slot by (metis commit_step.wake holds_slot_simps(3))
  next
    case (Published c)
    then show ?thesis using assms(2) slot by (metis commit_step.finish holds_slot_simps(5))
  next
    case (Returned b)
    then show ?thesis using assms(3) by simp
  qed
qed

text \<open>Any number of steps is bounded, and only a state in which every part has returned is final.\<close>

lemma commit_run_bound:
  assumes "(commit_step cfg temp final n part ^^ m) s s'"
  shows "m + commit_work n s' \<le> commit_work n s"
  using assms
proof (induction m arbitrary: s')
  case (Suc m)
  then obtain t where "(commit_step cfg temp final n part ^^ m) s t" "commit_step cfg temp final n part t s'" by auto
  then show ?case using Suc.IH commit_step_work by fastforce
qed simp

end
