(* ===== verification/MultiRepair.thy ===== *)
theory MultiRepair
  imports UploadProps RangeCommit Planner
begin

text \<open>
  The repair of several blocks of a gLRC stripe through one proxy (phase 1): \<^verbatim>\<open>recovery_glrc_ilp_breakdown\<close> of
  \<^verbatim>\<open>coordinator.cpp\<close> plans, the proxy of the first failed block reads the helpers, decodes and writes every block back
  (\<^verbatim>\<open>recoveryBreakdown\<close> of \<^verbatim>\<open>proxy.cpp\<close>), and the datanodes publish the blocks (\<^verbatim>\<open>handleRecoveryBreakdown\<close>).

  \<open>reach\<close> says for which datanodes the call and the connection succeed, \<open>disk\<close> whether a datanode can write and rename.
  The clock readings of the replies are left out.  A reply is \<^const>\<open>Inl\<close> with the message of a failure.
\<close>

section \<open>The coordinator\<close>

record GlrcRecoveryRequest =
  gr_failed_block_ids :: "nat list"
  gr_failed_block_keys :: "string list"
  gr_replaced_node_ips :: "string list"
  gr_replaced_node_ports :: "int list"
  gr_selected_equations :: "string list"
  gr_selected_equation_indices :: "nat list"
  gr_datanodeip :: "string list"
  gr_datanodeport :: "int list"
  gr_blockkeys :: "string list"
  gr_blockids :: "nat list"

definition repair_proxy_key_for_node :: "coordinator \<Rightarrow> int \<Rightarrow> string" where
  "repair_proxy_key_for_node st v =
     (case map_of (m_node_table st) v of None \<Rightarrow> [] | Some nd \<Rightarrow> proxy_key (repair_proxy_ip nd) (repair_proxy_port nd))"

text \<open>The proxies that the coordinator has a stub for.\<close>

definition init_proxyinfo :: "coordinator \<Rightarrow> string list" where
  "init_proxyinfo st =
     filter (\<lambda>key. key \<noteq> []) (map (\<lambda>(v, _). repair_proxy_key_for_node st v) (m_node_table st))
     @ map (\<lambda>(_, cl). proxy_key (cl_proxy_ip cl) (cl_proxy_port cl)) (m_cluster_table st)"

definition first_invalid_id :: "Stripe \<Rightarrow> int list \<Rightarrow> int option" where
  "first_invalid_id stripe ids = find (\<lambda>fid. fid < 0 \<or> int (length (stripe_blocks stripe)) \<le> fid) ids"

definition glrc_request :: "coordinator \<Rightarrow> Stripe \<Rightarrow> nat list \<Rightarrow> GlrcIlpRepairPlan \<Rightarrow> GlrcRecoveryRequest" where
  "glrc_request st stripe failed plan =
     (let blk = (\<lambda>i. stripe_blocks stripe ! i); nd = (\<lambda>i. node_at st (map2node (blk i)))
      in \<lparr>gr_failed_block_ids = failed, gr_failed_block_keys = map (\<lambda>i. blk_key (blk i)) failed,
          gr_replaced_node_ips = map (\<lambda>i. node_ip (nd i)) failed, gr_replaced_node_ports = map (\<lambda>i. node_port (nd i)) failed,
          gr_selected_equations = selected_equations plan, gr_selected_equation_indices = selected_equation_indices plan,
          gr_datanodeip = map (\<lambda>i. node_ip (nd i)) (helper_block_ids plan),
          gr_datanodeport = map (\<lambda>i. node_port (nd i)) (helper_block_ids plan),
          gr_blockkeys = map (\<lambda>i. blk_key (blk i)) (helper_block_ids plan),
          gr_blockids = map (\<lambda>i. blk_id (blk i)) (helper_block_ids plan)\<rparr>)"

type_synonym sorter = "(nat list \<Rightarrow> int \<times> nat) \<Rightarrow> nat list list \<Rightarrow> nat list list"

definition phase1_request :: "SysConfig \<Rightarrow> string list \<Rightarrow> sorter \<Rightarrow> real \<Rightarrow> string \<Rightarrow> coordinator \<Rightarrow> nat \<Rightarrow> int list
    \<Rightarrow> string + string \<times> GlrcRecoveryRequest" where
  "phase1_request cfg proxies std_sort elapsed GlrcEquationPolicy st sid failed =
     (let stripe = stripe_at st sid in
      if CodeType cfg \<noteq> ''gLRC'' then Inl ''recovery_glrc_ilp_breakdown requires CodeType gLRC''
      else case first_invalid_id stripe failed of
        Some fid \<Rightarrow> Inl (''invalid failed block id: '' @ int_to_string fid)
      | None \<Rightarrow>
          let F = map nat failed;
              plan = glrc_solve_repair_plan std_sort elapsed (glrc_normalize_equation_policy GlrcEquationPolicy)
                       (cfg_k cfg) (cfg_r cfg) (cfg_z cfg) F in
          if \<not> success plan then Inl (error_message plan)
          else let chosen_proxy = repair_proxy_key_for_node st (map2node (stripe_blocks stripe ! (F ! 0))) in
          if chosen_proxy \<notin> set proxies then Inl (''repair proxy stub not found: '' @ chosen_proxy)
          else Inr (chosen_proxy, glrc_request st stripe F plan))"

section \<open>The proxy\<close>

definition get_from_node_breakdown :: "SysConfig \<Rightarrow> (string \<times> int \<Rightarrow> bool) \<Rightarrow> cluster_files \<Rightarrow> string \<Rightarrow> int \<Rightarrow> string \<Rightarrow> buffer option" where
  "get_from_node_breakdown cfg reach cf ip port key =
     (if \<not> reach (ip, port) then None
      else let got = handleGetBreakdown key (BlockSize cfg) 0 0 (cf (ip, port))
           in if length got < BlockSize cfg then None else Some got)"

definition RecoveryToDatanodeBreakdown :: "SysConfig \<Rightarrow> (string \<times> int \<Rightarrow> bool) \<Rightarrow> (string \<times> int \<Rightarrow> bool) \<Rightarrow> string \<Rightarrow> buffer
    \<Rightarrow> string \<Rightarrow> int \<Rightarrow> cluster_files \<Rightarrow> cluster_files \<times> bool" where
  "RecoveryToDatanodeBreakdown cfg reach disk key buf ip port cf =
     (if \<not> reach (ip, port) then (cf, False)
      else let (res, _) = handleRecoveryBreakdown cfg (disk (ip, port)) key 0 0 False [] 0 buf (cf (ip, port))
           in (cf((ip, port) := fst res), snd res))"

text \<open>The write-back loop stops at the first block that cannot be written.\<close>

fun write_back :: "SysConfig \<Rightarrow> (string \<times> int \<Rightarrow> bool) \<Rightarrow> (string \<times> int \<Rightarrow> bool) \<Rightarrow> ((string \<times> int) \<times> string) list \<Rightarrow> buffer list
    \<Rightarrow> cluster_files \<Rightarrow> cluster_files \<times> bool" where
  "write_back cfg reach disk (((ip, port), key) # as) (buf # bufs) cf =
     (let (cf, ok) = RecoveryToDatanodeBreakdown cfg reach disk key buf ip port cf
      in if ok then write_back cfg reach disk as bufs cf else (cf, False))"
| "write_back cfg reach disk _ _ cf = (cf, True)"

definition recoveryBreakdown :: "SysConfig \<Rightarrow> (string \<times> int \<Rightarrow> bool) \<Rightarrow> (string \<times> int \<Rightarrow> bool) \<Rightarrow> GlrcRecoveryRequest \<Rightarrow> cluster_files
    \<Rightarrow> cluster_files \<times> (string + unit)" where
  "recoveryBreakdown cfg reach disk rq cf =
     (let got = map (\<lambda>((ip, port), key). get_from_node_breakdown cfg reach cf ip port key)
                  (zip (zip (gr_datanodeip rq) (gr_datanodeport rq)) (gr_blockkeys rq)) in
      if gr_datanodeip rq = [] then (cf, Inl ''no helper datanodes'')
      else if None \<in> set got then (cf, Inl ''read from datanodes failed'')
      else case decode_glrc_ilp (cfg_k cfg) (cfg_r cfg) (cfg_z cfg) (BlockSize cfg) (gr_blockids rq) (map the got)
                  (gr_failed_block_ids rq) (gr_selected_equation_indices rq) of
        None \<Rightarrow> (cf, Inl ''gLRC ILP decode failed'')
      | Some recovered \<Rightarrow>
          let (cf, write_ok) = write_back cfg reach disk
                (zip (zip (gr_replaced_node_ips rq) (gr_replaced_node_ports rq)) (gr_failed_block_keys rq)) recovered cf
          in (cf, if write_ok then Inr () else Inl ''gLRC ILP write back failed''))"

text \<open>\<open>up\<close>: the proxies that answer the coordinator.\<close>

definition recovery_glrc_ilp_breakdown :: "SysConfig \<Rightarrow> string list \<Rightarrow> (string \<Rightarrow> bool) \<Rightarrow> (string \<times> int \<Rightarrow> bool) \<Rightarrow> (string \<times> int \<Rightarrow> bool)
    \<Rightarrow> sorter \<Rightarrow> real \<Rightarrow> string \<Rightarrow> coordinator \<Rightarrow> nat \<Rightarrow> int list \<Rightarrow> cluster_files \<Rightarrow> cluster_files \<times> (string + unit)" where
  "recovery_glrc_ilp_breakdown cfg proxies up reach disk std_sort elapsed GlrcEquationPolicy st sid failed cf =
     (case phase1_request cfg proxies std_sort elapsed GlrcEquationPolicy st sid failed of
        Inl msg \<Rightarrow> (cf, Inl msg)
      | Inr (chosen_proxy, rq) \<Rightarrow>
          if \<not> up chosen_proxy then (cf, Inl ''proxy recoveryBreakdown failed: '')
          else (case recoveryBreakdown cfg reach disk rq cf of
                  (cf', Inl msg) \<Rightarrow> (cf', Inl (''proxy recoveryBreakdown failed: '' @ msg))
                | (cf', Inr _) \<Rightarrow> (cf', Inr ())))"

section \<open>Reading and writing whole blocks\<close>

text \<open>A whole-block read returns the block or nothing; a whole-block write stores all of it or nothing.\<close>

lemma whole_stream: "length xs = n \<Longrightarrow> stream_chunks (min kStreamChunkBytes n) n xs = xs"
  by (cases "n = 0") (simp_all add: stream_chunks_whole kStreamChunkBytes_def stream_chunks.simps [of _ 0])

lemma whole_read:
  assumes "cluster_fetch cf ((ip, port), key) = Some file" "length file = BlockSize cfg"
  shows "get_from_node_breakdown cfg reach cf ip port key = (if reach (ip, port) then Some file else None)"
  using assms by (simp add: get_from_node_breakdown_def handleGetBreakdown_def cluster_fetch_def whole_stream Let_def)

lemma whole_write:
  assumes "length buf = BlockSize cfg"
  shows "RecoveryToDatanodeBreakdown cfg reach disk key buf ip port cf =
    (if reach (ip, port) \<and> disk (ip, port) then (store_block cfg (\<lambda>_. True) 0 (((ip, port), key), buf) cf, True) else (cf, False))"
  using assms handleAppend_full [of buf cfg True 0 key, unfolded full_append_def]
  by (simp add: RecoveryToDatanodeBreakdown_def handleRecoveryBreakdown_def block_write_def whole_stream Let_def
      store_block_def AppendToDatanode_def write_block_file_atomic_def)

text \<open>The loop writes the blocks before the first datanode that fails.\<close>

lemma write_back_stores:
  assumes "length as = length bufs" "\<forall>buf\<in>set bufs. length buf = BlockSize cfg"
  shows "write_back cfg reach disk as bufs cf =
    (fold (store_block cfg (\<lambda>_. True) 0) (take (length (takeWhile (\<lambda>a. reach (fst a) \<and> disk (fst a)) as)) (zip as bufs)) cf,
     \<forall>a\<in>set as. reach (fst a) \<and> disk (fst a))"
  using assms by (induction as bufs arbitrary: cf rule: list_induct2) (auto simp: whole_write)

section \<open>The repair\<close>

lemma zip_request: "zip (zip (map f xs) (map g xs)) (map h xs) = map (\<lambda>x. ((f x, g x), h x)) xs"
  by (induction xs) simp_all

lemma normalize_idem: "glrc_normalize_equation_policy (glrc_normalize_equation_policy p) = glrc_normalize_equation_policy p"
  by (simp add: glrc_normalize_equation_policy_def)

text \<open>A stripe whose blocks, up to the failed ones, are on their nodes.\<close>

definition stripe_survives :: "nat \<Rightarrow> nat \<Rightarrow> nat \<Rightarrow> coordinator \<Rightarrow> Stripe \<Rightarrow> buffer list \<Rightarrow> nat list \<Rightarrow> cluster_files \<Rightarrow> bool" where
  "stripe_survives k r z st stripe blocks F cf \<longleftrightarrow>
     glrc_placed k r z stripe \<and> inj_on (block_at st stripe) {..<k + r + z}
     \<and> (\<forall>i < k + r + z. i \<notin> set F \<longrightarrow> cluster_fetch cf (block_at st stripe i) = Some (blocks ! i))"

lemma block_at_parts:
  "block_at st stripe i = ((node_ip (node_at st (map2node (stripe_blocks stripe ! i))), node_port (node_at st (map2node (stripe_blocks stripe ! i)))),
     blk_key (stripe_blocks stripe ! i))"
  by (simp add: block_at_def Let_def)

lemma codeword_length: "glrc_codeword k r z bs blocks \<Longrightarrow> i < k + r + z \<Longrightarrow> length (blocks ! i) = bs"
  by (auto simp: glrc_codeword_def intro: blocks_ok_nth)

text \<open>What the proxy does with a request for a valid plan.\<close>

lemma recoveryBreakdown_outcome:
  fixes reach disk :: "string \<times> int \<Rightarrow> bool"
  assumes plan: "repair_planner solve" "success (solve k r z F)" and z: "0 < z" "set F \<subseteq> {..<k + r + z}"
    and cfg: "cfg_k cfg = k" "cfg_r cfg = r" "cfg_z cfg = z"
    and cw: "glrc_codeword k r z (BlockSize cfg) blocks" and surv: "stripe_survives k r z st stripe blocks F cf"
  defines "hs \<equiv> helper_block_ids (solve k r z F)"
    and "alive \<equiv> \<lambda>i. reach (fst (block_at st stripe i))" and "writable \<equiv> \<lambda>i. reach (fst (block_at st stripe i)) \<and> disk (fst (block_at st stripe i))"
  shows "recoveryBreakdown cfg reach disk (glrc_request st stripe F (solve k r z F)) cf =
    (if hs = [] then (cf, Inl ''no helper datanodes'')
     else if \<exists>i\<in>set hs. \<not> alive i then (cf, Inl ''read from datanodes failed'')
     else (fold (store_block cfg (\<lambda>_. True) 0) (map (\<lambda>i. (block_at st stripe i, blocks ! i)) (takeWhile writable F)) cf,
           if \<forall>i\<in>set F. writable i then Inr () else Inl ''gLRC ILP write back failed''))"
proof -
  let ?p = "solve k r z F" and ?rq = "glrc_request st stripe F (solve k r z F)"
  have hs: "set hs \<subseteq> {..<k + r + z} - set F" unfolding hs_def by (rule repair_planner.plan_shape(6) [OF plan(1) z plan(2)])
  have ids: "i < k + r + z \<Longrightarrow> blk_id (stripe_blocks stripe ! i) = i" for i
    using surv by (simp add: stripe_survives_def glrc_placed_def)
  have lens: "i < k + r + z \<Longrightarrow> length (blocks ! i) = BlockSize cfg" for i by (rule codeword_length [OF cw])
  have rq: "gr_blockids ?rq = hs" "gr_failed_block_ids ?rq = F" "gr_selected_equation_indices ?rq = selected_equation_indices ?p"
      "gr_datanodeip ?rq = [] \<longleftrightarrow> hs = []"
      "zip (zip (gr_datanodeip ?rq) (gr_datanodeport ?rq)) (gr_blockkeys ?rq) = map (block_at st stripe) hs"
      "zip (zip (gr_replaced_node_ips ?rq) (gr_replaced_node_ports ?rq)) (gr_failed_block_keys ?rq) = map (block_at st stripe) F"
    using hs ids by (auto simp: glrc_request_def Let_def hs_def zip_request block_at_parts intro!: map_idI)
  have "get_from_node_breakdown cfg reach cf ip port key = (if alive i then Some (blocks ! i) else None)"
    if "i \<in> set hs" "block_at st stripe i = ((ip, port), key)" for i ip port key
  proof -
    have "i < k + r + z" "i \<notin> set F" using that hs by auto
    then have "cluster_fetch cf ((ip, port), key) = Some (blocks ! i)" using surv that(2) by (metis stripe_survives_def)
    from whole_read [OF this lens] \<open>i < k + r + z\<close> show ?thesis by (simp add: alive_def that(2))
  qed
  then have got: "map (\<lambda>((ip, port), key). get_from_node_breakdown cfg reach cf ip port key) (map (block_at st stripe) hs)
      = map (\<lambda>i. if alive i then Some (blocks ! i) else None) hs" by (auto split: prod.splits)
  have none: "None \<in> set (map (\<lambda>i. if alive i then Some (blocks ! i) else None) hs) \<longleftrightarrow> (\<exists>i\<in>set hs. \<not> alive i)" by auto
  have the: "map the (map (\<lambda>i. if alive i then Some (blocks ! i) else None) hs) = map ((!) blocks) hs" if "\<forall>i\<in>set hs. alive i"
    using that by simp
  have dec: "decode_glrc_ilp k r z (BlockSize cfg) hs (map ((!) blocks) hs) F (selected_equation_indices ?p) = Some (map ((!) blocks) F)"
    if "hs \<noteq> []" using repair_planner.plan_recovers [OF plan(1) z cw plan(2)] that by (simp add: hs_def)
  have "write_back cfg reach disk (map (block_at st stripe) F) (map ((!) blocks) F) cf =
    (fold (store_block cfg (\<lambda>_. True) 0) (map (\<lambda>i. (block_at st stripe i, blocks ! i)) (takeWhile writable F)) cf,
     \<forall>i\<in>set F. writable i)"
    using write_back_stores [of "map (block_at st stripe) F" "map ((!) blocks) F" cfg reach disk cf] lens z(2)
    by (auto simp: zip_map_map zip_same_conv_map takeWhile_map comp_def writable_def take_map takeWhile_eq_take [symmetric])
  note wb = this
  show ?thesis
  proof (cases "hs \<noteq> [] \<and> (\<forall>i\<in>set hs. alive i)")
    case True
    then have ok: "hs \<noteq> []" "\<forall>i\<in>set hs. alive i" by auto
    then show ?thesis unfolding recoveryBreakdown_def rq got none Let_def cfg the [OF ok(2)] dec [OF ok(1)] by (simp add: wb)
  next
    case False
    then show ?thesis unfolding recoveryBreakdown_def rq got none Let_def cfg by auto
  qed
qed

lemma first_invalid_None: "first_invalid_id stripe ids = None \<longleftrightarrow> (\<forall>fid\<in>set ids. 0 \<le> fid \<and> fid < int (length (stripe_blocks stripe)))"
  by (auto simp: first_invalid_id_def find_None_iff)

lemma phase1_request_cases:
  fixes failed :: "int list" and std_sort :: sorter and elapsed :: real and policy :: string
  defines "F \<equiv> map nat failed"
  assumes "CodeType cfg = ''gLRC''" "length (stripe_blocks (stripe_at st sid)) = n"
  defines "plan \<equiv> glrc_solve_repair_plan std_sort elapsed (glrc_normalize_equation_policy policy) (cfg_k cfg) (cfg_r cfg) (cfg_z cfg) F"
    and "key \<equiv> repair_proxy_key_for_node st (map2node (stripe_blocks (stripe_at st sid) ! (F ! 0)))"
  shows "(\<exists>msg. phase1_request cfg proxies std_sort elapsed policy st sid failed = Inl msg)
    \<or> phase1_request cfg proxies std_sort elapsed policy st sid failed = Inr (key, glrc_request st (stripe_at st sid) F plan)
      \<and> success plan \<and> set F \<subseteq> {..<n}"
    "set failed \<subseteq> {0..<int n} \<Longrightarrow> success plan \<Longrightarrow> key \<in> set proxies \<Longrightarrow>
      phase1_request cfg proxies std_sort elapsed policy st sid failed = Inr (key, glrc_request st (stripe_at st sid) F plan)"
  using assms first_invalid_None [of "stripe_at st sid" failed]
  by (auto simp: phase1_request_def Let_def F_def plan_def key_def nat_less_iff split: option.splits)

text \<open>Storing blocks of the stripe at their places changes these files only.\<close>

lemma store_blocks:
  assumes "inj_on (block_at st stripe) {..<n}" "set is \<subseteq> {..<n}" "\<And>i. i < n \<Longrightarrow> length (blocks ! i) = BlockSize cfg"
  shows "cluster_fetch (fold (store_block cfg (\<lambda>_. True) 0) (map (\<lambda>i. (block_at st stripe i, blocks ! i)) is) cf) a
    = (if a \<in> block_at st stripe ` set is then Some (blocks ! the_inv_into {..<n} (block_at st stripe) a) else cluster_fetch cf a)"
proof -
  let ?h = "\<lambda>a. blocks ! the_inv_into {..<n} (block_at st stripe) a"
  have inv: "the_inv_into {..<n} (block_at st stripe) (block_at st stripe i) = i" if "i < n" for i
    using assms(1) that by (simp add: the_inv_into_f_f)
  have "length v = BlockSize cfg \<and> v = ?h a" if "(a, v) \<in> set (map (\<lambda>i. (block_at st stripe i, blocks ! i)) is)" for a v
    using that assms(2,3) inv by auto
  from cluster_store.fetch_stores [where kvs = "map (\<lambda>i. (block_at st stripe i, blocks ! i)) is" and cfg = cfg and bid = 0 and s = cf and h = ?h, OF this]
  show "cluster_fetch (fold (store_block cfg (\<lambda>_. True) 0) (map (\<lambda>i. (block_at st stripe i, blocks ! i)) is) cf) a
    = (if a \<in> block_at st stripe ` set is then Some (?h a) else cluster_fetch cf a)"
    by (simp add: image_image)
qed

lemma phase1_repair:
  fixes failed :: "int list"
  assumes sorting: "std_sorting std_sort" "glrc_normalize_equation_policy policy \<in> set known_policies" and z: "0 < z"
    and cfg: "CodeType cfg = ''gLRC''" "cfg_k cfg = k" "cfg_r cfg = r" "cfg_z cfg = z"
    and cw: "glrc_codeword k r z (BlockSize cfg) blocks"
    and surv: "stripe_survives k r z st (stripe_at st sid) blocks (map nat failed) cf"
    and run: "recovery_glrc_ilp_breakdown cfg proxies up reach disk std_sort elapsed policy st sid failed cf = (cf', res)"
  shows "\<forall>a. cluster_fetch cf' a = cluster_fetch cf a
      \<or> (\<exists>i\<in>set (map nat failed). a = block_at st (stripe_at st sid) i \<and> cluster_fetch cf' a = Some (blocks ! i))"
    "res = Inr () \<Longrightarrow> \<forall>i < k + r + z. cluster_fetch cf' (block_at st (stripe_at st sid) i) = Some (blocks ! i)"
    "set failed \<subseteq> {0..<int (k + r + z)} \<Longrightarrow> success (glrc_solve_repair_plan std_sort elapsed policy k r z (map nat failed)) \<Longrightarrow>
      helper_block_ids (glrc_solve_repair_plan std_sort elapsed policy k r z (map nat failed)) \<noteq> [] \<Longrightarrow>
      repair_proxy_key_for_node st (map2node (stripe_blocks (stripe_at st sid) ! nat (failed ! 0))) \<in> set proxies \<Longrightarrow>
      \<forall>p. up p \<Longrightarrow> \<forall>a. reach a \<and> disk a \<Longrightarrow> failed \<noteq> [] \<Longrightarrow> res = Inr ()"
proof -
  let ?stripe = "stripe_at st sid" and ?F = "map nat failed" and ?n = "k + r + z"
  let ?solve = "glrc_solve_repair_plan std_sort elapsed (glrc_normalize_equation_policy policy)"
  have same: "?solve = glrc_solve_repair_plan std_sort elapsed policy"
    using sorting(2) by (auto simp: glrc_solve_repair_plan_def normalize_idem Let_def known_policies_def fun_eq_iff)
  have planner: "repair_planner ?solve" unfolding same by (rule std_sorting.dispatch_planner [OF sorting])
  have n: "length (stripe_blocks ?stripe) = ?n" and inj: "inj_on (block_at st ?stripe) {..<?n}"
    using surv by (simp_all add: stripe_survives_def glrc_placed_def)
  have lens: "i < ?n \<Longrightarrow> length (blocks ! i) = BlockSize cfg" for i by (rule codeword_length [OF cw])
  note req = phase1_request_cases [OF cfg(1) n, where std_sort = std_sort and elapsed = elapsed and policy = policy and failed = failed
    and proxies = proxies, unfolded cfg]
  note out = recoveryBreakdown_outcome [OF planner _ z _ cfg(2-4) cw surv, where reach = reach and disk = disk]
  consider (refused) msg where "cf' = cf" "res = Inl msg"
    | (stored) js where "set ?F \<subseteq> {..<?n}" "set js \<subseteq> set ?F" "res = Inr () \<longrightarrow> set js = set ?F"
      "cf' = fold (store_block cfg (\<lambda>_. True) 0) (map (\<lambda>i. (block_at st ?stripe i, blocks ! i)) js) cf"
  proof -
    show thesis using req(1)
    proof (elim disjE exE conjE)
      fix msg assume "phase1_request cfg proxies std_sort elapsed policy st sid failed = Inl msg"
      then have "cf' = cf" "res = Inl msg" using run by (auto simp: recovery_glrc_ilp_breakdown_def)
      then show thesis by (rule that(1))
    next
      assume rq: "phase1_request cfg proxies std_sort elapsed policy st sid failed = Inr
          (repair_proxy_key_for_node st (map2node (stripe_blocks ?stripe ! (?F ! 0))), glrc_request st ?stripe ?F (?solve k r z ?F))"
        and ok: "success (?solve k r z ?F)" and F: "set ?F \<subseteq> {..<?n}"
      let ?writable = "\<lambda>i. reach (fst (block_at st ?stripe i)) \<and> disk (fst (block_at st ?stripe i))"
      have js: "set (takeWhile ?writable ?F) \<subseteq> set ?F" using set_takeWhileD by fastforce
      have all: "set (takeWhile ?writable ?F) = nat ` set failed" if "\<forall>i\<in>set failed. ?writable (nat i)"
      proof -
        have "takeWhile ?writable ?F = ?F" using that by (subst takeWhile_eq_all_conv) simp
        then show ?thesis by (simp only: set_map)
      qed
      show thesis
        using run that(1) [of "''proxy recoveryBreakdown failed: ''"] that(1) that(2) [OF F js] all
        by (auto simp: recovery_glrc_ilp_breakdown_def rq out [OF ok F] split: if_splits)
    qed
  qed
  note cases = this
  show "\<forall>a. cluster_fetch cf' a = cluster_fetch cf a
      \<or> (\<exists>i\<in>set (map nat failed). a = block_at st (stripe_at st sid) i \<and> cluster_fetch cf' a = Some (blocks ! i))"
    using cases
  proof cases
    case stored
    then have js: "set js \<subseteq> {..<?n}" by auto
    have fetch: "cluster_fetch cf' a = (if a \<in> block_at st ?stripe ` set js then Some (blocks ! the_inv_into {..<?n} (block_at st ?stripe) a)
        else cluster_fetch cf a)" for a unfolding stored(4) by (rule store_blocks [OF inj js lens])
    have "cluster_fetch cf' (block_at st ?stripe i) = Some (blocks ! i)" if "i \<in> set js" for i
      using that js by (simp add: fetch the_inv_into_f_f [OF inj] subset_iff)
    then show ?thesis using fetch stored(2) by (metis imageE subsetD)
  qed simp
  show "\<forall>i < ?n. cluster_fetch cf' (block_at st ?stripe i) = Some (blocks ! i)" if "res = Inr ()"
    using cases
  proof cases
    case stored
    then have js: "set js = set ?F" "set js \<subseteq> {..<?n}" using that by auto
    show ?thesis
    proof (intro allI impI)
      fix i assume i: "i < ?n"
      have "block_at st ?stripe i \<in> block_at st ?stripe ` set js \<longleftrightarrow> i \<in> set js"
        using inj_on_image_mem_iff [OF inj, of i "set js"] i js(2) by simp
      then show "cluster_fetch cf' (block_at st ?stripe i) = Some (blocks ! i)"
        using stored(4) store_blocks [OF inj js(2), of blocks cfg cf] the_inv_into_f_f [OF inj] lens
          surv js(1) i by (simp add: stripe_survives_def)
    qed
  qed (use that in simp)
  assume F: "set failed \<subseteq> {0..<int ?n}" and ok: "success (glrc_solve_repair_plan std_sort elapsed policy k r z ?F)"
    and hs: "helper_block_ids (glrc_solve_repair_plan std_sort elapsed policy k r z ?F) \<noteq> []"
    and proxy: "repair_proxy_key_for_node st (map2node (stripe_blocks ?stripe ! nat (failed ! 0))) \<in> set proxies"
    and up: "\<forall>p. up p" "\<forall>a. reach a \<and> disk a" "failed \<noteq> []"
  have "set ?F \<subseteq> {..<?n}" using F by (force simp: nat_less_iff)
  from out [OF ok [folded same] this] req(2) [OF F ok [folded same]] proxy hs up
  show "res = Inr ()" using run by (auto simp: recovery_glrc_ilp_breakdown_def same)
qed

text \<open>Every node of an uploaded stripe is in the table and has a repair proxy that the coordinator has a stub for.\<close>

lemma uploaded_node:
  fixes k r z :: nat
  assumes inv: "service_inv cfg (k + r + z) st"
    and cfg: "CodeType cfg = ''gLRC''" "cfg_k cfg = k" "cfg_r cfg = r" "cfg_z cfg = z" "cfg_n cfg = k + r + z"
    and z: "0 < z" and free: "\<not> m_mutex_held st" and acc: "\<forall>i. list_ex id (take 3 (att i))"
    and up: "uploadSetValue cfg rnd att key (BlockSize cfg * k) st = Some (st', OK, reply)" and i: "i < k + r + z"
  defines "v \<equiv> map2node (stripe_blocks (stripe_at st' (m_cur_stripe_id st)) ! i)"
  shows "map_of (m_node_table st') v = Some (node_at st' v)"
    "repair_proxy_key_for_node st' v = proxy_key (repair_proxy_ip (node_at st' v)) (repair_proxy_port (node_at st' v))"
    "repair_proxy_key_for_node st' v \<in> set (init_proxyinfo st')"
proof -
  have "length (stripe_blocks (stripe_at st' (m_cur_stripe_id st))) = k + r + z"
    "set (map map2node (stripe_blocks (stripe_at st' (m_cur_stripe_id st)))) = int ` {..<k + r + z}"
    using glrc_upload_accepted [OF inv cfg z free acc, of rnd key] up by (auto simp: glrc_placed_def)
  then have "v \<in> int ` {..<k + r + z}" using i unfolding v_def by (metis length_map nth_map nth_mem)
  moreover have "map fst (m_node_table st') = map int [0..<k + r + z]"
    using service_step_inv [OF service_step.upload_set [OF up] inv] by (simp add: service_inv_def meta_inv_def topology_ok_def)
  then have "fst ` set (m_node_table st') = int ` {..<k + r + z}" by (metis list.set_map set_upt atLeast_upt)
  ultimately obtain nd where nd: "map_of (m_node_table st') v = Some nd" by (metis map_of_eq_None_iff not_Some_eq)
  then show "map_of (m_node_table st') v = Some (node_at st' v)" by (simp add: node_at_def tbl_get_def)
  then show "repair_proxy_key_for_node st' v = proxy_key (repair_proxy_ip (node_at st' v)) (repair_proxy_port (node_at st' v))"
    by (simp add: repair_proxy_key_for_node_def)
  moreover have "(v, nd) \<in> set (m_node_table st')" using nd by (rule map_of_SomeD)
  ultimately show "repair_proxy_key_for_node st' v \<in> set (init_proxyinfo st')"
    by (force simp: init_proxyinfo_def proxy_key_def)
qed

end
