(* ===== verification/Phase2Exchange.thy ===== *)
theory Phase2Exchange
  imports MultiRepair ShardPlan
begin

text \<open>
  The repair of several blocks in parallel (phase 2): \<^verbatim>\<open>recovery_glrc_ilp_phase2_breakdown_ex\<close> of \<^verbatim>\<open>coordinator.cpp\<close> gives each
  failed block a partition of the shards, and the proxy of each block (\<^verbatim>\<open>glrcIlpPhase2Recovery\<close> of \<^verbatim>\<open>proxy_glrc_phase2.cpp\<close>)
  reads its range of every helper, decodes its shards of all failed blocks, sends each peer the shards of the peer's
  block, and streams its own block to the datanode in shard order.

  The threads of the proxies are the steps of \<open>phase2_step\<close>; a connection is a queue of frames.  An input/output error, a
  timeout or a cancelled call is a \<open>phase2_fault\<close>, possible in every state.  \<open>reach\<close> and \<open>disk\<close> are those of \<open>MultiRepair\<close>.
\<close>

section \<open>Requests\<close>

record Phase2Peer =
  peer_proxy :: "string \<times> int"
  peer_partition_id :: int
  peer_shard_begin :: int
  peer_shard_count :: int

record Phase2Request =
  phase2_partition_id :: int
  phase2_shard_count :: int
  phase2_stripe_byte_len :: int
  phase2_shard_begin :: int
  phase2_shard_count_local :: int
  phase2_byte_off :: int
  phase2_byte_len :: int
  phase2_do_write_back :: bool
  phase2_share_proxy_node_bandwidth :: bool
  phase2_glrc :: GlrcRecoveryRequest
  phase2_peers :: "Phase2Peer list"

definition fill_phase2_request :: "bool \<Rightarrow> bool \<Rightarrow> GlrcRecoveryRequest \<Rightarrow> GlrcPhase2ShardPlan \<Rightarrow> nat \<Rightarrow> Phase2Request" where
  "fill_phase2_request do_write share rq shard_plan me =
     (let part = partitions shard_plan ! me in
      \<lparr>phase2_partition_id = int me, phase2_shard_count = shard_count shard_plan, phase2_stripe_byte_len = stripe_byte_len shard_plan,
       phase2_shard_begin = shard_begin part, phase2_shard_count_local = part_shard_count part,
       phase2_byte_off = byte_off part, phase2_byte_len = byte_len part, phase2_do_write_back = do_write,
       phase2_share_proxy_node_bandwidth = share, phase2_glrc = rq,
       phase2_peers = map (\<lambda>pj. let peer = partitions shard_plan ! pj in
          \<lparr>peer_proxy = (part_proxy_ip peer, part_proxy_port peer), peer_partition_id = int pj,
           peer_shard_begin = shard_begin peer, peer_shard_count = part_shard_count peer\<rparr>)
         (filter (\<lambda>pj. pj \<noteq> me) [0..<length (partitions shard_plan)])\<rparr>)"

text \<open>\<^verbatim>\<open>lookup_peer_shards\<close>: the first entry of a peer.\<close>

definition lookup_peer_shards :: "Phase2Request \<Rightarrow> int \<Rightarrow> (int \<times> int) option" where
  "lookup_peer_shards rq peer_part =
     map_option (\<lambda>p. (peer_shard_begin p, peer_shard_count p)) (find (\<lambda>p. peer_partition_id p = peer_part) (phase2_peers rq))"

definition hybrid_partial_write :: "SysConfig \<Rightarrow> Phase2Request \<Rightarrow> bool" where
  "hybrid_partial_write cfg rq \<longleftrightarrow>
     phase2_share_proxy_node_bandwidth rq \<and> phase2_shard_count rq * phase2_stripe_byte_len rq < int (BlockSize cfg)"

section \<open>What a proxy prepares\<close>

text \<open>The request after its checks, with the tables of the decoder; \<open>job_stub\<close>: the coordinator can call the proxy.\<close>

record Phase2Job =
  job_partition :: nat
  job_failed :: nat
  job_begin :: nat
  job_count :: nat
  job_total :: nat
  job_len :: nat
  job_idxs :: "nat list list"
  job_helper_tbls :: "buffer list"
  job_inv_tbls :: buffer
  job_helpers :: "((string \<times> int) \<times> string) list"
  job_peers :: "(nat \<times> nat \<times> nat) list"
  job_target :: "(string \<times> int) \<times> string"
  job_write :: bool
  job_hybrid :: bool
  job_stub :: bool

definition valid_geometry :: "SysConfig \<Rightarrow> Phase2Request \<Rightarrow> bool" where
  "valid_geometry cfg rq \<longleftrightarrow>
     (let bytes = phase2_shard_count rq * phase2_stripe_byte_len rq in
      0 \<le> phase2_shard_begin rq \<and> 0 \<le> phase2_shard_count_local rq \<and> 1 \<le> phase2_shard_count rq
      \<and> phase2_shard_begin rq + phase2_shard_count_local rq \<le> phase2_shard_count rq
      \<and> phase2_byte_off rq = phase2_shard_begin rq * phase2_stripe_byte_len rq
      \<and> phase2_byte_len rq = phase2_shard_count_local rq * phase2_stripe_byte_len rq
      \<and> 0 < bytes \<and> bytes \<le> int (BlockSize cfg)
      \<and> (phase2_share_proxy_node_bandwidth rq \<or> bytes = int (BlockSize cfg)))"

definition prepare_phase2 :: "SysConfig \<Rightarrow> bool \<Rightarrow> Phase2Request \<Rightarrow> string + Phase2Job" where
  "prepare_phase2 cfg stub rq =
     (let g = phase2_glrc rq; f = length (gr_failed_block_ids g); p = phase2_partition_id rq in
      if p < 0 \<or> int f \<le> p then Inl ''invalid partition_id''
      else if gr_datanodeip g = [] \<or> phase2_byte_len rq < 0 \<or> phase2_stripe_byte_len rq < 1 then Inl ''bad dims''
      else if \<not> valid_geometry cfg rq then Inl ''invalid phase2 shard geometry''
      else if length (gr_selected_equation_indices g) \<noteq> f then Inl ''selected_equation_indices size mismatch''
      else case glrc_ilp_prepare_helper_decode (cfg_k cfg) (cfg_r cfg) (cfg_z cfg) (gr_blockids g) (gr_failed_block_ids g)
                  (gr_selected_equation_indices g) of
        None \<Rightarrow> Inl ''phase2 prepare helper decode failed''
      | Some (A_inv, idxs, coefs) \<Rightarrow>
          Inr \<lparr>job_partition = nat p, job_failed = f, job_begin = nat (phase2_shard_begin rq),
               job_count = nat (phase2_shard_count_local rq), job_total = nat (phase2_shard_count rq),
               job_len = nat (phase2_stripe_byte_len rq), job_idxs = idxs,
               job_helper_tbls = map (\<lambda>c. ec_init_tables (length c) 1 c) coefs, job_inv_tbls = ec_init_tables f f A_inv,
               job_helpers = zip (zip (gr_datanodeip g) (gr_datanodeport g)) (gr_blockkeys g),
               job_peers = map (\<lambda>q. let (begin, count) = the (lookup_peer_shards rq (peer_partition_id q))
                                 in (nat (peer_partition_id q), nat begin, nat count)) (phase2_peers rq),
               job_target = ((gr_replaced_node_ips g ! nat p, gr_replaced_node_ports g ! nat p), gr_failed_block_keys g ! nat p),
               job_write = phase2_do_write_back rq, job_hybrid = hybrid_partial_write cfg rq, job_stub = stub\<rparr>)"

section \<open>Frames\<close>

definition kPhase2Magic :: "32 word" where
  "kPhase2Magic = 0x50483232"

record Phase2PeerHeader =
  hdr_magic :: "32 word"
  hdr_from_partition :: "32 word"
  hdr_stripe_byte_len :: "32 word"
  hdr_shard_begin :: "32 word"
  hdr_shard_count :: "32 word"

type_synonym frame = "Phase2PeerHeader \<times> buffer"

definition make_shard_header :: "nat \<Rightarrow> nat \<Rightarrow> nat \<Rightarrow> Phase2PeerHeader" where
  "make_shard_header from_partition global_shard stripe_len =
     \<lparr>hdr_magic = kPhase2Magic, hdr_from_partition = word_of_nat from_partition, hdr_stripe_byte_len = word_of_nat stripe_len,
      hdr_shard_begin = word_of_nat global_shard, hdr_shard_count = 1\<rparr>"

text \<open>The payload of the next frame on a connection, or an error; \<open>cap\<close> is the size of the receiver's buffer.\<close>

definition recv_shard_frame :: "nat \<Rightarrow> frame \<Rightarrow> (Phase2PeerHeader \<times> buffer) option" where
  "recv_shard_frame cap fr =
     (let (hdr, payload) = fr; payload_len = unat (hdr_stripe_byte_len hdr) * unat (hdr_shard_count hdr) in
      if hdr_magic hdr \<noteq> kPhase2Magic \<or> unat (hdr_shard_count hdr) < 1 \<or> hdr_stripe_byte_len hdr = 0 \<or> payload_len > cap
         \<or> length payload < payload_len then None
      else Some (hdr, take payload_len payload))"

section \<open>The threads of a proxy\<close>

record Phase2Proxy =
  peers_connected :: bool
  get_bufs :: "buffer list"
  helpers_read :: "nat list"
  decode_rhs :: "buffer list"
  shard_recovered :: "buffer list"
  recovered_ptrs :: "buffer list"
  decoded_shards :: nat
  sent_to :: "nat \<Rightarrow> nat"
  received_from :: "nat \<Rightarrow> nat"
  write_ready :: "bool list"
  next_shard :: nat
  write_stream :: buffer
  exchange_failed :: bool
  phase2_result :: "bool option"

text \<open>The buffers are cleared; the write stream is opened first.\<close>

definition phase2_begin :: "SysConfig \<Rightarrow> (string \<times> int \<Rightarrow> bool) \<Rightarrow> Phase2Job \<Rightarrow> Phase2Proxy" where
  "phase2_begin cfg reach job =
     \<lparr>peers_connected = False, get_bufs = map (\<lambda>_. replicate (job_count job * job_len job) 0) (job_helpers job), helpers_read = [],
      decode_rhs = replicate (job_failed job) (replicate (job_len job) 0),
      shard_recovered = replicate (job_failed job) (replicate (job_len job) 0),
      recovered_ptrs = replicate (job_failed job) (replicate (BlockSize cfg) 0), decoded_shards = 0,
      sent_to = (\<lambda>_. 0), received_from = (\<lambda>_. 0), write_ready = replicate (job_total job) False, next_shard = 0, write_stream = [],
      exchange_failed = (job_write job \<and> \<not> reach (fst (job_target job))), phase2_result = None\<rparr>"

definition mark_write_shard_ready :: "nat \<Rightarrow> Phase2Proxy \<Rightarrow> Phase2Proxy" where
  "mark_write_shard_ready global_shard px = px\<lparr>write_ready := (write_ready px)[global_shard := True]\<rparr>"

text \<open>A helper worker drains the proxy's range of one helper.\<close>

definition drain_helper :: "SysConfig \<Rightarrow> (string \<times> int \<Rightarrow> bool) \<Rightarrow> Phase2Job \<Rightarrow> nat \<Rightarrow> cluster_files \<Rightarrow> Phase2Proxy \<Rightarrow> Phase2Proxy" where
  "drain_helper cfg reach job h cf px =
     (let (a, key) = job_helpers job ! h; len = job_count job * job_len job;
          got = (if reach a then handleGetBreakdown key (BlockSize cfg) (job_begin job * job_len job) (int len) (cf a) else [])
      in if length got < len then px\<lparr>exchange_failed := True\<rparr>
         else px\<lparr>get_bufs := (get_bufs px)[h := got], helpers_read := h # helpers_read px\<rparr>)"

text \<open>The decode worker decodes the next shard of every failed block.\<close>

definition decode_shard :: "Phase2Job \<Rightarrow> Phase2Proxy \<Rightarrow> Phase2Proxy" where
  "decode_shard job px =
     (let shard = job_begin job + decoded_shards px; stripe_off = shard * job_len job in
      case decode_glrc_ilp_helper_compact_prepared (get_bufs px) (job_idxs job) (job_helper_tbls job) (job_inv_tbls job)
             (int (job_failed job)) (int (job_begin job * job_len job)) (int stripe_off) (int (job_len job))
             (decode_rhs px) (shard_recovered px) of
        None \<Rightarrow> px\<lparr>exchange_failed := True\<rparr>
      | Some (rhs, rec) \<Rightarrow>
          mark_write_shard_ready shard
            (px\<lparr>decode_rhs := rhs, shard_recovered := rec,
                recovered_ptrs := map (\<lambda>t. write_at stripe_off (rec ! t) (recovered_ptrs px ! t)) [0..<job_failed job],
                decoded_shards := decoded_shards px + 1\<rparr>))"

text \<open>The sender of a peer.\<close>

definition next_frame :: "Phase2Job \<Rightarrow> nat \<Rightarrow> Phase2Proxy \<Rightarrow> frame" where
  "next_frame job peer px =
     (let shard = job_begin job + sent_to px peer
      in (make_shard_header (job_partition job) shard (job_len job), take (job_len job) (drop (shard * job_len job) (recovered_ptrs px ! peer))))"

text \<open>The receiver of a peer.\<close>

definition recv_shard :: "Phase2Job \<Rightarrow> nat \<Rightarrow> nat \<Rightarrow> frame \<Rightarrow> Phase2Proxy \<Rightarrow> Phase2Proxy" where
  "recv_shard job peer peer_begin fr px =
     (case recv_shard_frame (job_len job) fr of
        None \<Rightarrow> px\<lparr>exchange_failed := True\<rparr>
      | Some (hdr, payload) \<Rightarrow>
          let recv_global = unat (hdr_shard_begin hdr); me = job_partition job in
          if recv_global \<noteq> peer_begin + received_from px peer \<or> hdr_shard_count hdr \<noteq> 1 then px\<lparr>exchange_failed := True\<rparr>
          else mark_write_shard_ready recv_global
            (px\<lparr>recovered_ptrs := (recovered_ptrs px)[me := write_at (recv_global * job_len job) payload (recovered_ptrs px ! me)],
                received_from := (received_from px)(peer := received_from px peer + 1)\<rparr>))"

text \<open>The writer sends the next shard of the proxy's own block.\<close>

definition write_shard :: "Phase2Job \<Rightarrow> Phase2Proxy \<Rightarrow> Phase2Proxy" where
  "write_shard job px =
     px\<lparr>write_stream := write_stream px @ take (job_len job) (drop (next_shard px * job_len job) (recovered_ptrs px ! job_partition job)),
        next_shard := next_shard px + 1\<rparr>"

definition work_done :: "Phase2Job \<Rightarrow> Phase2Proxy \<Rightarrow> bool" where
  "work_done job px \<longleftrightarrow> peers_connected px \<and> decoded_shards px = job_count job
     \<and> (\<forall>(peer, _, n)\<in>set (job_peers job). sent_to px peer = job_count job \<and> received_from px peer = n)
     \<and> (job_write job \<longrightarrow> next_shard px = job_total job)"

text \<open>
  The end: the stream is closed and the datanode answers.  A hybrid prefix goes to the barrier of \<open>RangeCommit\<close>, whose
  answer is \<open>barrier\<close>.
\<close>

definition finish_phase2 :: "SysConfig \<Rightarrow> (string \<times> int \<Rightarrow> bool) \<Rightarrow> (string \<times> int \<Rightarrow> bool) \<Rightarrow> Phase2Job \<Rightarrow> bool \<Rightarrow> Phase2Proxy \<Rightarrow> cluster_files
    \<Rightarrow> cluster_files \<times> Phase2Proxy" where
  "finish_phase2 cfg reach disk job barrier px cf =
     (let ((ip, port), key) = job_target job;
          (cf, ok) = (if \<not> job_write job then (cf, True)
                      else if job_hybrid job then (cf, barrier \<and> next_shard px = job_total job)
                      else let (cf', ok) = RecoveryToDatanodeBreakdown cfg reach disk key (write_stream px) ip port cf
                           in (cf', ok \<and> next_shard px = job_total job))
      in (cf, px\<lparr>phase2_result := Some (\<not> exchange_failed px \<and> ok)\<rparr>))"

section \<open>The system\<close>

record Phase2System =
  proxies_of :: "nat \<Rightarrow> Phase2Proxy"
  wires :: "nat \<Rightarrow> nat \<Rightarrow> frame list"
  sys_files :: cluster_files

abbreviation set_proxy :: "nat \<Rightarrow> Phase2Proxy \<Rightarrow> Phase2System \<Rightarrow> Phase2System" where
  "set_proxy i px s \<equiv> s\<lparr>proxies_of := (proxies_of s)(i := px)\<rparr>"

text \<open>The coordinator does not start a partition that has no shard of its own, or whose proxy it has no stub for.\<close>

definition started :: "(nat \<Rightarrow> Phase2Job) \<Rightarrow> nat \<Rightarrow> bool" where
  "started jobs i \<longleftrightarrow> 0 < job_count (jobs i) \<and> job_stub (jobs i)"

definition running :: "Phase2Proxy \<Rightarrow> bool" where
  "running px \<longleftrightarrow> \<not> exchange_failed px \<and> phase2_result px = None"

inductive phase2_step :: "SysConfig \<Rightarrow> (string \<times> int \<Rightarrow> bool) \<Rightarrow> (string \<times> int \<Rightarrow> bool) \<Rightarrow> nat \<Rightarrow> (nat \<Rightarrow> Phase2Job) \<Rightarrow> Phase2System \<Rightarrow> Phase2System \<Rightarrow> bool"
  for cfg reach disk f jobs where
  connect: "i < f \<Longrightarrow> started jobs i \<Longrightarrow> proxies_of s i = px \<Longrightarrow> running px \<Longrightarrow> \<not> peers_connected px
    \<Longrightarrow> \<forall>(peer, _, _)\<in>set (job_peers (jobs i)). started jobs peer
    \<Longrightarrow> phase2_step cfg reach disk f jobs s (set_proxy i (px\<lparr>peers_connected := True\<rparr>) s)"
| drain: "i < f \<Longrightarrow> proxies_of s i = px \<Longrightarrow> running px \<Longrightarrow> peers_connected px
    \<Longrightarrow> h < length (job_helpers (jobs i)) \<Longrightarrow> h \<notin> set (helpers_read px)
    \<Longrightarrow> phase2_step cfg reach disk f jobs s (set_proxy i (drain_helper cfg reach (jobs i) h (sys_files s) px) s)"
| decode: "i < f \<Longrightarrow> proxies_of s i = px \<Longrightarrow> running px \<Longrightarrow> peers_connected px
    \<Longrightarrow> length (helpers_read px) = length (job_helpers (jobs i)) \<Longrightarrow> decoded_shards px < job_count (jobs i)
    \<Longrightarrow> phase2_step cfg reach disk f jobs s (set_proxy i (decode_shard (jobs i) px) s)"
| send: "i < f \<Longrightarrow> proxies_of s i = px \<Longrightarrow> running px \<Longrightarrow> peers_connected px
    \<Longrightarrow> (peer, b, n) \<in> set (job_peers (jobs i)) \<Longrightarrow> sent_to px peer < decoded_shards px
    \<Longrightarrow> s' = set_proxy i (px\<lparr>sent_to := (sent_to px)(peer := sent_to px peer + 1)\<rparr>) s
    \<Longrightarrow> phase2_step cfg reach disk f jobs s
          (s'\<lparr>wires := (wires s)(i := (wires s i)(peer := wires s i peer @ [next_frame (jobs i) peer px]))\<rparr>)"
| recv: "i < f \<Longrightarrow> proxies_of s i = px \<Longrightarrow> running px \<Longrightarrow> peers_connected px
    \<Longrightarrow> (peer, b, n) \<in> set (job_peers (jobs i)) \<Longrightarrow> received_from px peer < n \<Longrightarrow> wires s peer i = fr # frs
    \<Longrightarrow> phase2_step cfg reach disk f jobs s
          ((set_proxy i (recv_shard (jobs i) peer b fr px) s)\<lparr>wires := (wires s)(peer := (wires s peer)(i := frs))\<rparr>)"
| publish: "i < f \<Longrightarrow> proxies_of s i = px \<Longrightarrow> running px \<Longrightarrow> job_write (jobs i)
    \<Longrightarrow> next_shard px < job_total (jobs i) \<Longrightarrow> write_ready px ! next_shard px
    \<Longrightarrow> phase2_step cfg reach disk f jobs s (set_proxy i (write_shard (jobs i) px) s)"
| finish: "i < f \<Longrightarrow> proxies_of s i = px \<Longrightarrow> phase2_result px = None \<Longrightarrow> exchange_failed px \<or> work_done (jobs i) px
    \<Longrightarrow> finish_phase2 cfg reach disk (jobs i) barrier px (sys_files s) = (cf, px')
    \<Longrightarrow> phase2_step cfg reach disk f jobs s ((set_proxy i px' s)\<lparr>sys_files := cf\<rparr>)"

inductive phase2_fault :: "nat \<Rightarrow> Phase2System \<Rightarrow> Phase2System \<Rightarrow> bool" for f where
  "i < f \<Longrightarrow> running (proxies_of s i) \<Longrightarrow> phase2_fault f s (set_proxy i ((proxies_of s i)\<lparr>exchange_failed := True\<rparr>) s)"

definition phase2_initial :: "SysConfig \<Rightarrow> (string \<times> int \<Rightarrow> bool) \<Rightarrow> (nat \<Rightarrow> Phase2Job) \<Rightarrow> cluster_files \<Rightarrow> Phase2System" where
  "phase2_initial cfg reach jobs cf =
     \<lparr>proxies_of = (\<lambda>i. if started jobs i then phase2_begin cfg reach (jobs i)
                        else (phase2_begin cfg reach (jobs i))\<lparr>phase2_result := Some (job_count (jobs i) = 0)\<rparr>),
      wires = (\<lambda>_ _. []), sys_files = cf\<rparr>"

definition phase2_reachable :: "SysConfig \<Rightarrow> (string \<times> int \<Rightarrow> bool) \<Rightarrow> (string \<times> int \<Rightarrow> bool) \<Rightarrow> nat \<Rightarrow> (nat \<Rightarrow> Phase2Job) \<Rightarrow> cluster_files \<Rightarrow> Phase2System \<Rightarrow> bool" where
  "phase2_reachable cfg reach disk f jobs cf s \<longleftrightarrow>
     (\<lambda>s s'. phase2_step cfg reach disk f jobs s s' \<or> phase2_fault f s s')\<^sup>*\<^sup>* (phase2_initial cfg reach jobs cf) s"


section \<open>What the proxies hold\<close>

definition shard :: "nat \<Rightarrow> nat \<Rightarrow> buffer \<Rightarrow> buffer" where
  "shard L s block = take L (drop (s * L) block)"

lemma shard_end: "s < S \<Longrightarrow> s * L + L \<le> S * (L :: nat)"
  using mult_le_mono1 [of "Suc s" S L] by simp

lemma length_shard: "s < S \<Longrightarrow> S * L \<le> length b \<Longrightarrow> length (shard L s b) = L"
  using shard_end [of s S L] by (simp add: shard_def)

lemma length_write_shard: "s < S \<Longrightarrow> S * L \<le> length b \<Longrightarrow> length d = L \<Longrightarrow> length (write_at (s * L) d b) = length b"
  using shard_end [of s S L] by (simp add: length_write_at)

lemma shard_write_at:
  assumes "s < S" "s' < S" "S * L \<le> length b" "length d = L"
  shows "shard L s (write_at (s' * L) d b) = (if s = s' then d else shard L s b)"
proof (rule nth_equalityI)
  have len: "length (write_at (s' * L) d b) = length b" by (rule length_write_shard [OF assms(2-4)])
  then show "length (shard L s (write_at (s' * L) d b)) = length (if s = s' then d else shard L s b)"
    using assms length_shard [OF assms(1), of L] by simp
  fix p assume "p < length (shard L s (write_at (s' * L) d b))"
  then have p: "p < L" "s * L + p < length b" using shard_end [OF assms(1), of L] assms(3) by (auto simp: shard_def)
  have bound: "s' * L \<le> length b" using shard_end [OF assms(2), of L] assms(3) by simp
  have "s' * L \<le> s * L + p \<and> s * L + p < s' * L + L \<longleftrightarrow> s = s'"
  proof (cases s s' rule: linorder_cases)
    case less
    then show ?thesis using shard_end [OF less, of L] p by linarith
  next
    case greater
    then show ?thesis using shard_end [OF greater, of L] p by linarith
  qed (use p in simp)
  then show "shard L s (write_at (s' * L) d b) ! p = (if s = s' then d else shard L s b) ! p"
    using p bound shard_end [OF assms(1), of L] assms(3,4) len by (auto simp: shard_def write_at_nth)
qed

lemma take_shards: "take (s * L) b @ shard L s b = take (Suc s * L) b"
  using take_add [of "s * L" L b] by (simp add: shard_def add.commute)

text \<open>Every shard belongs to one partition.\<close>

lemma partition_covers:
  assumes "s < S" "0 < f"
  obtains i where "i < f" "partition_start S f i \<le> s" "s < partition_start S f i + partition_size S f i"
proof -
  have "\<exists>i<m. partition_start S f i \<le> s \<and> s < partition_start S f i + partition_size S f i" if "s < partition_start S f m" for m
    using that
  proof (induction m)
    case (Suc m)
    then show ?case by (cases "s < partition_start S f m") (auto simp: partition_start_Suc less_Suc_eq)
  qed (simp add: partition_start_def)
  then show thesis using that assms by (metis partition_start_end)
qed

lemma partition_end:
  assumes "i < f"
  shows "partition_start S f i + partition_size S f i \<le> S"
proof -
  have "partition_start S f m \<le> partition_start S f f" if "m \<le> f" for m
    using that by (rule lift_Suc_mono_le [rotated]) (simp add: partition_start_Suc)
  then show ?thesis using assms partition_start_end [of f S] by (metis Suc_leI gr_implies_not0 neq0_conv partition_start_Suc)
qed

lemma partition_disjoint:
  assumes "partition_start S f i \<le> s" "s < partition_start S f i + partition_size S f i"
    and "partition_start S f j \<le> s" "s < partition_start S f j + partition_size S f j"
  shows "i = j"
proof -
  have mono: "partition_start S f m \<le> partition_start S f m'" if "m \<le> m'" for m m'
    using that by (rule lift_Suc_mono_le [rotated]) (simp add: partition_start_Suc)
  show ?thesis using assms mono [of "Suc i" j] mono [of "Suc j" i] by (cases i j rule: linorder_cases) (auto simp: partition_start_Suc)
qed


text \<open>
  The jobs of one repair: \<open>place\<close> is where each block is, \<open>blocks\<close> the true contents, \<open>F\<close> the failed blocks, \<open>hs\<close> the helpers.
  The last line says that the prepared tables decode every shard of the partition.
\<close>

definition phase2_job :: "SysConfig \<Rightarrow> nat \<Rightarrow> nat \<Rightarrow> (nat \<Rightarrow> (string \<times> int) \<times> string) \<Rightarrow> buffer list \<Rightarrow> nat list \<Rightarrow> nat list \<Rightarrow> nat \<Rightarrow> Phase2Job \<Rightarrow> bool" where
  "phase2_job cfg S L place blocks F hs i job \<longleftrightarrow>
     (let f = length F; b = partition_start S f i; n = partition_size S f i in
      job_partition job = i \<and> job_failed job = f \<and> job_begin job = b \<and> job_count job = n \<and> job_total job = S \<and> job_len job = L
      \<and> job_helpers job = map place hs \<and> job_target job = place (F ! i) \<and> (job_hybrid job \<longleftrightarrow> S * L < BlockSize cfg)
      \<and> job_peers job = map (\<lambda>j. (j, partition_start S f j, partition_size S f j)) (filter (\<lambda>j. j \<noteq> i) [0..<f])
      \<and> (\<forall>s rhs rec. b \<le> s \<and> s < b + n \<longrightarrow> (\<exists>rhs'.
           decode_glrc_ilp_helper_compact_prepared (map (\<lambda>h. take (n * L) (drop (b * L) (blocks ! h))) hs) (job_idxs job)
             (job_helper_tbls job) (job_inv_tbls job) (int f) (int (b * L)) (int (s * L)) (int L) rhs rec
           = Some (rhs', map (\<lambda>b. shard L s (blocks ! b)) F))))"

definition repair_geometry :: "SysConfig \<Rightarrow> nat \<Rightarrow> nat \<Rightarrow> buffer list \<Rightarrow> nat list \<Rightarrow> bool" where
  "repair_geometry cfg S L blocks F \<longleftrightarrow> 0 < length F \<and> 0 < L \<and> S * L \<le> BlockSize cfg \<and> BlockSize cfg < 2 ^ 31
     \<and> (\<forall>i\<in>set F. length (blocks ! i) = BlockSize cfg)"

text \<open>Which shards of its own block a proxy has.\<close>

definition shard_here :: "nat \<Rightarrow> nat \<Rightarrow> nat \<Rightarrow> Phase2Proxy \<Rightarrow> nat \<Rightarrow> bool" where
  "shard_here S f i px s \<longleftrightarrow>
     partition_start S f i \<le> s \<and> s < partition_start S f i + decoded_shards px
     \<or> (\<exists>j<f. j \<noteq> i \<and> partition_start S f j \<le> s \<and> s < partition_start S f j + received_from px j)"

definition helpers_ok :: "nat \<Rightarrow> nat \<Rightarrow> nat \<Rightarrow> buffer list \<Rightarrow> nat list \<Rightarrow> nat \<Rightarrow> Phase2Proxy \<Rightarrow> bool" where
  "helpers_ok S L f blocks hs i px \<longleftrightarrow> length (get_bufs px) = length hs \<and> distinct (helpers_read px) \<and> set (helpers_read px) \<subseteq> {..<length hs}
     \<and> (\<forall>h\<in>set (helpers_read px). get_bufs px ! h = take (partition_size S f i * L) (drop (partition_start S f i * L) (blocks ! (hs ! h))))"

definition buffers_ok :: "SysConfig \<Rightarrow> nat \<Rightarrow> nat \<Rightarrow> buffer list \<Rightarrow> nat list \<Rightarrow> nat \<Rightarrow> Phase2Proxy \<Rightarrow> bool" where
  "buffers_ok cfg S L blocks F i px \<longleftrightarrow> length (recovered_ptrs px) = length F \<and> (\<forall>t<length F. length (recovered_ptrs px ! t) = BlockSize cfg)
     \<and> (\<forall>t<length F. \<forall>s. partition_start S (length F) i \<le> s \<longrightarrow> s < partition_start S (length F) i + decoded_shards px
          \<longrightarrow> shard L s (recovered_ptrs px ! t) = shard L s (blocks ! (F ! t)))
     \<and> (\<forall>s<S. write_ready px ! s \<longrightarrow> shard L s (recovered_ptrs px ! i) = shard L s (blocks ! (F ! i)))"

definition counters_ok :: "nat \<Rightarrow> nat \<Rightarrow> nat \<Rightarrow> Phase2Proxy \<Rightarrow> bool" where
  "counters_ok S f i px \<longleftrightarrow> decoded_shards px \<le> partition_size S f i
     \<and> (\<forall>j<f. sent_to px j \<le> decoded_shards px \<and> received_from px j \<le> partition_size S f j)
     \<and> length (write_ready px) = S \<and> (\<forall>s<S. write_ready px ! s \<longleftrightarrow> shard_here S f i px s)"

definition stream_ok :: "nat \<Rightarrow> nat \<Rightarrow> buffer list \<Rightarrow> nat list \<Rightarrow> nat \<Rightarrow> Phase2Proxy \<Rightarrow> bool" where
  "stream_ok S L blocks F i px \<longleftrightarrow> next_shard px \<le> S \<and> write_stream px = take (next_shard px * L) (blocks ! (F ! i))"

definition proxy_ok :: "SysConfig \<Rightarrow> nat \<Rightarrow> nat \<Rightarrow> buffer list \<Rightarrow> nat list \<Rightarrow> nat list \<Rightarrow> nat \<Rightarrow> Phase2Proxy \<Rightarrow> bool" where
  "proxy_ok cfg S L blocks F hs i px \<longleftrightarrow> helpers_ok S L (length F) blocks hs i px \<and> buffers_ok cfg S L blocks F i px
     \<and> counters_ok S (length F) i px \<and> stream_ok S L blocks F i px"

lemmas proxy_ok_defs = proxy_ok_def helpers_ok_def buffers_ok_def counters_ok_def stream_ok_def shard_here_def

text \<open>Fields that no part of the invariant mentions.\<close>

lemma proxy_ok_flags:
  "proxy_ok cfg S L blocks F hs i (px\<lparr>peers_connected := c\<rparr>) \<longleftrightarrow> proxy_ok cfg S L blocks F hs i px"
  "proxy_ok cfg S L blocks F hs i (px\<lparr>exchange_failed := e\<rparr>) \<longleftrightarrow> proxy_ok cfg S L blocks F hs i px"
  "proxy_ok cfg S L blocks F hs i (px\<lparr>phase2_result := r\<rparr>) \<longleftrightarrow> proxy_ok cfg S L blocks F hs i px"
  by (simp_all add: proxy_ok_defs)

lemma begin_ok:
  assumes "phase2_job cfg S L place blocks F hs i job" "i < length F"
  shows "proxy_ok cfg S L blocks F hs i (phase2_begin cfg reach job)"
  using assms by (auto simp: proxy_ok_defs phase2_begin_def phase2_job_def Let_def)

lemma drain_ok:
  assumes job: "phase2_job cfg S L place blocks F hs i job" and px: "proxy_ok cfg S L blocks F hs i px"
    and h: "h < length hs" "h \<notin> set (helpers_read px)" and stored: "cluster_fetch cf (place (hs ! h)) = Some (blocks ! (hs ! h))"
    and len: "S * L \<le> length (blocks ! (hs ! h))" "i < length F" "0 < partition_size S (length F) i" "0 < L"
  shows "proxy_ok cfg S L blocks F hs i (drain_helper cfg reach job h cf px)"
proof -
  obtain a key where a: "place (hs ! h) = (a, key)" by fastforce
  let ?n = "partition_size S (length F) i" and ?b = "partition_start S (length F) i"
  have "(?b + ?n) * L \<le> S * L" using partition_end [OF len(2)] by (intro mult_le_mono1)
  then have "?b * L + ?n * L \<le> length (blocks ! (hs ! h))" using len(1) by (simp add: algebra_simps)
  then have "handleGetBreakdown key (BlockSize cfg) (?b * L) (int (?n * L)) (cf a) = take (?n * L) (drop (?b * L) (blocks ! (hs ! h)))"
    using stored len by (intro range_read_exact) (auto simp: cluster_fetch_def a)
  then show ?thesis using job px h
    by (auto simp: drain_helper_def phase2_job_def a Let_def proxy_ok_flags proxy_ok_defs nth_list_update)
qed

lemma all_helpers_read:
  assumes "helpers_ok S L f blocks hs i px" "length (helpers_read px) = length hs"
  shows "get_bufs px = map (\<lambda>h. take (partition_size S f i * L) (drop (partition_start S f i * L) (blocks ! h))) hs"
proof -
  have "card (set (helpers_read px)) = length hs" using assms by (simp add: helpers_ok_def distinct_card)
  then have "set (helpers_read px) = {..<length hs}" using assms(1) by (intro card_subset_eq) (auto simp: helpers_ok_def)
  then show ?thesis using assms(1) by (intro nth_equalityI) (auto simp: helpers_ok_def)
qed

text \<open>Storing a true shard in a buffer keeps the true shards that it has.\<close>

lemma write_true_shard:
  assumes "repair_geometry cfg S L blocks F" "t < length F" "s' < S" "length b = BlockSize cfg"
  shows "length (write_at (s' * L) (shard L s' (blocks ! (F ! t))) b) = BlockSize cfg"
    "s < S \<Longrightarrow> s = s' \<or> shard L s b = shard L s (blocks ! (F ! t)) \<Longrightarrow>
     shard L s (write_at (s' * L) (shard L s' (blocks ! (F ! t))) b) = shard L s (blocks ! (F ! t))"
proof -
  have len: "length (shard L s' (blocks ! (F ! t))) = L"
    using assms by (intro length_shard) (auto simp: repair_geometry_def)
  then show "length (write_at (s' * L) (shard L s' (blocks ! (F ! t))) b) = BlockSize cfg"
    using assms length_write_shard [OF assms(3), of L b] by (simp add: repair_geometry_def)
  show "shard L s (write_at (s' * L) (shard L s' (blocks ! (F ! t))) b) = shard L s (blocks ! (F ! t))"
    if "s < S" "s = s' \<or> shard L s b = shard L s (blocks ! (F ! t))"
    using that assms shard_write_at [OF that(1) assms(3) _ len, of b] by (auto simp: repair_geometry_def)
qed

lemma decode_ok:
  assumes geo: "repair_geometry cfg S L blocks F" and job: "phase2_job cfg S L place blocks F hs i job"
    and px: "proxy_ok cfg S L blocks F hs i px" and i: "i < length F"
    and all_read: "length (helpers_read px) = length hs" and more: "decoded_shards px < partition_size S (length F) i"
  shows "proxy_ok cfg S L blocks F hs i (decode_shard job px) \<and> exchange_failed (decode_shard job px) = exchange_failed px
    \<and> decoded_shards (decode_shard job px) = decoded_shards px + 1"
proof -
  let ?f = "length F" let ?b = "partition_start S ?f i" and ?n = "partition_size S ?f i"
  let ?s = "?b + decoded_shards px"
  have s: "?s < S" using partition_end [OF i, of S] more by simp
  have bufs: "get_bufs px = map (\<lambda>h. take (?n * L) (drop (?b * L) (blocks ! h))) hs"
    by (rule all_helpers_read) (use px all_read in \<open>simp_all add: proxy_ok_def\<close>)
  have laws: "?b \<le> s \<Longrightarrow> s < ?b + ?n \<Longrightarrow> \<exists>rhs'. decode_glrc_ilp_helper_compact_prepared
      (map (\<lambda>h. take (?n * L) (drop (?b * L) (blocks ! h))) hs) (job_idxs job) (job_helper_tbls job) (job_inv_tbls job) (int ?f)
      (int (?b * L)) (int (s * L)) (int L) rhs rec = Some (rhs', map (\<lambda>b. shard L s (blocks ! b)) F)" for s rhs rec
    using job unfolding phase2_job_def Let_def by blast
  obtain rhs' where dec: "decode_glrc_ilp_helper_compact_prepared (get_bufs px) (job_idxs job) (job_helper_tbls job) (job_inv_tbls job) (int ?f)
      (int (?b * L)) (int (?s * L)) (int L) (decode_rhs px) (shard_recovered px) = Some (rhs', map (\<lambda>b. shard L ?s (blocks ! b)) F)"
    using laws [of ?s "decode_rhs px" "shard_recovered px"] more unfolding bufs by auto
  let ?px = "mark_write_shard_ready ?s (px\<lparr>decode_rhs := rhs', shard_recovered := map (\<lambda>b. shard L ?s (blocks ! b)) F,
    recovered_ptrs := map (\<lambda>t. write_at (?s * L) (map (\<lambda>b. shard L ?s (blocks ! b)) F ! t) (recovered_ptrs px ! t)) [0..<?f],
    decoded_shards := decoded_shards px + 1\<rparr>)"
  have new: "decode_shard job px = ?px" using job dec by (simp add: decode_shard_def phase2_job_def Let_def)
  have B: "buffers_ok cfg S L blocks F i px" and C: "counters_ok S ?f i px" using px by (simp_all add: proxy_ok_def)
  note w = write_true_shard [OF geo _ s]
  have "buffers_ok cfg S L blocks F i ?px"
    using B C w i partition_end [OF i, of S] more
    by (auto simp: buffers_ok_def counters_ok_def mark_write_shard_ready_def nth_list_update less_Suc_eq)
  moreover have "counters_ok S ?f i ?px"
    using C more s by (auto simp: counters_ok_def mark_write_shard_ready_def nth_list_update shard_here_def less_Suc_eq le_Suc_eq)
  ultimately show ?thesis
    using px unfolding new by (auto simp: proxy_ok_def helpers_ok_def stream_ok_def mark_write_shard_ready_def)
qed

text \<open>The header survives the passage through 32 bits.\<close>

lemma small_word: "n < 2 ^ 32 \<Longrightarrow> unat (word_of_nat n :: 32 word) = n"
  by (simp add: unsigned_of_nat take_bit_nat_eq_self)

lemma recv_ok:
  assumes geo: "repair_geometry cfg S L blocks F" and job: "phase2_job cfg S L place blocks F hs i job"
    and px: "proxy_ok cfg S L blocks F hs i px" and i: "i < length F" and j: "j < length F" "j \<noteq> i"
    and more: "received_from px j < partition_size S (length F) j"
  defines "s \<equiv> partition_start S (length F) j + received_from px j"
  shows "proxy_ok cfg S L blocks F hs i (recv_shard job j (partition_start S (length F) j) (make_shard_header j s L, shard L s (blocks ! (F ! i))) px)
    \<and> recv_shard job j (partition_start S (length F) j) (make_shard_header j s L, shard L s (blocks ! (F ! i))) px
      = mark_write_shard_ready s (px\<lparr>recovered_ptrs := (recovered_ptrs px)[i := write_at (s * L) (shard L s (blocks ! (F ! i))) (recovered_ptrs px ! i)],
          received_from := (received_from px)(j := received_from px j + 1)\<rparr>)"
proof -
  let ?f = "length F"
  have s: "s < S" using partition_end [OF j(1), of S] more by (simp add: s_def)
  have L: "0 < L" "length (shard L s (blocks ! (F ! i))) = L"
    using geo i s by (auto simp: repair_geometry_def intro!: length_shard)
  have "S * L < 2 ^ 31" using geo by (simp add: repair_geometry_def)
  moreover have "S \<le> S * L" "L \<le> S * L" using L(1) s by simp_all
  moreover have "(2 :: nat) ^ 31 < 2 ^ 32" by simp
  ultimately have small: "s < 2 ^ 32" "L < 2 ^ 32" using s by linarith+
  then have L0: "(word_of_nat L :: 32 word) \<noteq> 0" using L(1) small_word [OF small(2)] by (metis less_irrefl unat_0)
  let ?px = "mark_write_shard_ready s (px\<lparr>recovered_ptrs := (recovered_ptrs px)[i := write_at (s * L) (shard L s (blocks ! (F ! i))) (recovered_ptrs px ! i)],
          received_from := (received_from px)(j := received_from px j + 1)\<rparr>)"
  have new: "recv_shard job j (partition_start S ?f j) (make_shard_header j s L, shard L s (blocks ! (F ! i))) px = ?px"
    using job L L0 small by (simp add: recv_shard_def recv_shard_frame_def make_shard_header_def phase2_job_def Let_def small_word s_def [symmetric])
  have B: "buffers_ok cfg S L blocks F i px" and C: "counters_ok S ?f i px" using px by (simp_all add: proxy_ok_def)
  note w = write_true_shard [OF geo i s]
  have "buffers_ok cfg S L blocks F i ?px"
    using B C w i partition_end [OF i, of S] s
    by (auto simp: buffers_ok_def counters_ok_def mark_write_shard_ready_def nth_list_update)
  moreover have "counters_ok S ?f i ?px"
    using C more s j by (auto simp: counters_ok_def mark_write_shard_ready_def nth_list_update shard_here_def less_Suc_eq s_def)
  ultimately show ?thesis
    using px unfolding new by (auto simp: proxy_ok_def helpers_ok_def stream_ok_def mark_write_shard_ready_def)
qed

lemma write_ok:
  assumes job: "phase2_job cfg S L place blocks F hs i job"
    and px: "proxy_ok cfg S L blocks F hs i px" and i: "i < length F" and more: "next_shard px < S" "write_ready px ! next_shard px"
  shows "proxy_ok cfg S L blocks F hs i (write_shard job px)"
proof -
  have "shard L (next_shard px) (recovered_ptrs px ! i) = shard L (next_shard px) (blocks ! (F ! i))"
    using px more by (simp add: proxy_ok_def buffers_ok_def)
  then have "write_stream (write_shard job px) = take (Suc (next_shard px) * L) (blocks ! (F ! i))"
    using px job take_shards by (simp add: write_shard_def phase2_job_def Let_def proxy_ok_def stream_ok_def shard_def del: mult_Suc)
  then show ?thesis using px more by (simp add: proxy_ok_defs write_shard_def)
qed

section \<open>The invariant of the exchange\<close>

definition phase2_setup :: "SysConfig \<Rightarrow> nat \<Rightarrow> nat \<Rightarrow> (nat \<Rightarrow> (string \<times> int) \<times> string) \<Rightarrow> buffer list \<Rightarrow> nat list \<Rightarrow> nat list
    \<Rightarrow> (nat \<Rightarrow> Phase2Job) \<Rightarrow> cluster_files \<Rightarrow> bool" where
  "phase2_setup cfg S L place blocks F hs jobs cf \<longleftrightarrow> repair_geometry cfg S L blocks F \<and> distinct F \<and> set F \<inter> set hs = {}
     \<and> inj_on place (set F \<union> set hs) \<and> (\<forall>i<length F. phase2_job cfg S L place blocks F hs i (jobs i))
     \<and> (\<forall>h\<in>set hs. length (blocks ! h) = BlockSize cfg \<and> cluster_fetch cf (place h) = Some (blocks ! h))"

definition frame_of :: "nat \<Rightarrow> buffer list \<Rightarrow> nat list \<Rightarrow> nat \<Rightarrow> nat \<Rightarrow> nat \<Rightarrow> frame" where
  "frame_of L blocks F i j s = (make_shard_header i s L, shard L s (blocks ! (F ! j)))"

definition links_ok :: "nat \<Rightarrow> nat \<Rightarrow> buffer list \<Rightarrow> nat list \<Rightarrow> Phase2System \<Rightarrow> bool" where
  "links_ok S L blocks F s \<longleftrightarrow> (\<forall>i<length F. \<forall>j<length F. i \<noteq> j \<longrightarrow>
     (let b = partition_start S (length F) i; got = received_from (proxies_of s j) i; sent = sent_to (proxies_of s i) j in
      got \<le> sent \<and> wires s i j = map (frame_of L blocks F i j) [b + got..<b + sent]))"

definition files_ok :: "(nat \<Rightarrow> (string \<times> int) \<times> string) \<Rightarrow> buffer list \<Rightarrow> nat list \<Rightarrow> cluster_files \<Rightarrow> Phase2System \<Rightarrow> bool" where
  "files_ok place blocks F cf s \<longleftrightarrow> (\<forall>a. cluster_fetch (sys_files s) a = cluster_fetch cf a
     \<or> (\<exists>i<length F. a = place (F ! i) \<and> cluster_fetch (sys_files s) a = Some (blocks ! (F ! i))))"

definition result_ok :: "(string \<times> int \<Rightarrow> bool) \<Rightarrow> (string \<times> int \<Rightarrow> bool) \<Rightarrow> (nat \<Rightarrow> (string \<times> int) \<times> string) \<Rightarrow> buffer list \<Rightarrow> nat list \<Rightarrow> (nat \<Rightarrow> Phase2Job) \<Rightarrow> Phase2System \<Rightarrow> nat \<Rightarrow> bool" where
  "result_ok reach disk place blocks F jobs s i \<longleftrightarrow>
     (let px = proxies_of s i in
      if \<not> started jobs i then phase2_result px = Some (job_count (jobs i) = 0)
      else (\<not> exchange_failed px \<longrightarrow> phase2_result px \<noteq> None \<longrightarrow> work_done (jobs i) px)
         \<and> (phase2_result px = Some True \<longrightarrow> \<not> exchange_failed px
              \<and> (job_write (jobs i) \<longrightarrow> \<not> job_hybrid (jobs i) \<longrightarrow> cluster_fetch (sys_files s) (place (F ! i)) = Some (blocks ! (F ! i))))
         \<and> (phase2_result px = Some False \<longrightarrow> exchange_failed px \<or> job_hybrid (jobs i)
              \<or> \<not> (reach (fst (place (F ! i))) \<and> disk (fst (place (F ! i))))))
     \<and> (peers_connected (proxies_of s i) \<longrightarrow> (\<forall>j<length F. started jobs j))"

definition phase2_inv :: "SysConfig \<Rightarrow> (string \<times> int \<Rightarrow> bool) \<Rightarrow> (string \<times> int \<Rightarrow> bool) \<Rightarrow> nat \<Rightarrow> nat \<Rightarrow> (nat \<Rightarrow> (string \<times> int) \<times> string) \<Rightarrow> buffer list \<Rightarrow> nat list \<Rightarrow> nat list
    \<Rightarrow> (nat \<Rightarrow> Phase2Job) \<Rightarrow> cluster_files \<Rightarrow> Phase2System \<Rightarrow> bool" where
  "phase2_inv cfg reach disk S L place blocks F hs jobs cf s \<longleftrightarrow> (\<forall>i<length F. proxy_ok cfg S L blocks F hs i (proxies_of s i))
     \<and> links_ok S L blocks F s \<and> files_ok place blocks F cf s \<and> (\<forall>i<length F. result_ok reach disk place blocks F jobs s i)"

lemma begin_fields [simp]:
  "phase2_result (phase2_begin cfg reach job) = None" "\<not> peers_connected (phase2_begin cfg reach job)"
  "sent_to (phase2_begin cfg reach job) = (\<lambda>_. 0)" "received_from (phase2_begin cfg reach job) = (\<lambda>_. 0)"
  by (simp_all add: phase2_begin_def)

lemma unfinished_started: "phase2_inv cfg reach disk S L place blocks F hs jobs cf s \<Longrightarrow> i < length F \<Longrightarrow> phase2_result (proxies_of s i) = None \<Longrightarrow> started jobs i"
  by (auto simp: phase2_inv_def result_ok_def Let_def split: if_splits)

lemma initial_inv:
  assumes "phase2_setup cfg S L place blocks F hs jobs cf"
  shows "phase2_inv cfg reach disk S L place blocks F hs jobs cf (phase2_initial cfg reach jobs cf)"
proof -
  have "proxy_ok cfg S L blocks F hs i (phase2_begin cfg reach (jobs i))" if "i < length F" for i
    by (rule begin_ok) (use assms that in \<open>auto simp: phase2_setup_def\<close>)
  then show ?thesis
    by (auto simp: phase2_inv_def phase2_initial_def links_ok_def files_ok_def result_ok_def proxy_ok_flags)
qed

text \<open>A step of one proxy that neither sends, receives nor ends.\<close>

lemma local_step_inv:
  assumes "phase2_inv cfg reach disk S L place blocks F hs jobs cf s" "i < length F" "phase2_result (proxies_of s i) = None"
    and "proxy_ok cfg S L blocks F hs i px" "sent_to px = sent_to (proxies_of s i)" "received_from px = received_from (proxies_of s i)"
    and "phase2_result px = None" "peers_connected px \<longrightarrow> peers_connected (proxies_of s i) \<or> (\<forall>j<length F. started jobs j)"
  shows "phase2_inv cfg reach disk S L place blocks F hs jobs cf (set_proxy i px s)"
  using assms unfinished_started [OF assms(1-3)] by (auto simp: phase2_inv_def links_ok_def files_ok_def result_ok_def Let_def)

text \<open>The file of a helper is never written.\<close>

lemma helper_file_kept:
  assumes "phase2_setup cfg S L place blocks F hs jobs cf" "phase2_inv cfg reach disk S L place blocks F hs jobs cf s" "h \<in> set hs"
  shows "cluster_fetch (sys_files s) (place h) = Some (blocks ! h)"
proof -
  have "place h \<noteq> place (F ! i)" if "i < length F" for i
  proof
    assume "place h = place (F ! i)"
    moreover have "F ! i \<in> set F" using that by simp
    ultimately have "h = F ! i" using assms(1,3) by (auto simp: phase2_setup_def dest: inj_onD)
    then show False using assms(1,3) \<open>F ! i \<in> set F\<close> by (auto simp: phase2_setup_def)
  qed
  then show ?thesis using assms by (metis phase2_inv_def files_ok_def phase2_setup_def)
qed

lemma peer_member:
  "phase2_job cfg S L place blocks F hs i job \<Longrightarrow> (peer, b, n) \<in> set (job_peers job) \<longleftrightarrow>
    peer < length F \<and> peer \<noteq> i \<and> b = partition_start S (length F) peer \<and> n = partition_size S (length F) peer"
  by (auto simp: phase2_job_def Let_def)

lemma send_inv:
  assumes init: "phase2_setup cfg S L place blocks F hs jobs cf" and inv: "phase2_inv cfg reach disk S L place blocks F hs jobs cf s" and i: "i < length F"
    and px: "proxies_of s i = px" "running px" and peer: "peer < length F" "peer \<noteq> i" and more: "sent_to px peer < decoded_shards px"
  shows "phase2_inv cfg reach disk S L place blocks F hs jobs cf ((set_proxy i (px\<lparr>sent_to := (sent_to px)(peer := sent_to px peer + 1)\<rparr>) s)
    \<lparr>wires := (wires s)(i := (wires s i)(peer := wires s i peer @ [next_frame (jobs i) peer px]))\<rparr>)"
proof -
  let ?b = "partition_start S (length F) i"
  have ok: "proxy_ok cfg S L blocks F hs i px" using inv i px by (auto simp: phase2_inv_def)
  have job: "phase2_job cfg S L place blocks F hs i (jobs i)" using init i by (simp add: phase2_setup_def)
  have "shard L (?b + sent_to px peer) (recovered_ptrs px ! peer) = shard L (?b + sent_to px peer) (blocks ! (F ! peer))"
    using ok more peer by (simp add: proxy_ok_def buffers_ok_def)
  then have frame: "next_frame (jobs i) peer px = frame_of L blocks F i peer (?b + sent_to px peer)"
    using job by (simp add: next_frame_def frame_of_def phase2_job_def Let_def shard_def)
  have "proxy_ok cfg S L blocks F hs i (px\<lparr>sent_to := (sent_to px)(peer := sent_to px peer + 1)\<rparr>)"
    using ok more by (auto simp: proxy_ok_defs)
  moreover have "result_ok reach disk place blocks F jobs s i" using inv i by (simp add: phase2_inv_def)
  ultimately show ?thesis using inv px peer frame
    by (auto simp: phase2_inv_def links_ok_def files_ok_def result_ok_def Let_def running_def)
qed

text \<open>The next frame of a connection is the shard that the receiver expects.\<close>

lemma recv_frame:
  assumes init: "phase2_setup cfg S L place blocks F hs jobs cf" and inv: "phase2_inv cfg reach disk S L place blocks F hs jobs cf s" and i: "i < length F"
    and px: "proxies_of s i = px" and peer: "peer < length F" "peer \<noteq> i"
    and more: "received_from px peer < partition_size S (length F) peer" and wire: "wires s peer i = fr # frs"
  defines "b \<equiv> partition_start S (length F) peer"
  defines "x \<equiv> b + received_from px peer"
  shows "frs = map (frame_of L blocks F peer i) [Suc x..<b + sent_to (proxies_of s peer) i]"
    "received_from px peer < sent_to (proxies_of s peer) i"
    "proxy_ok cfg S L blocks F hs i (recv_shard (jobs i) peer b fr px)"
    "recv_shard (jobs i) peer b fr px = mark_write_shard_ready x (px\<lparr>recovered_ptrs := (recovered_ptrs px)
       [i := write_at (x * L) (shard L x (blocks ! (F ! i))) (recovered_ptrs px ! i)], received_from := (received_from px)(peer := received_from px peer + 1)\<rparr>)"
proof -
  have ok: "proxy_ok cfg S L blocks F hs i px" using inv i px by (auto simp: phase2_inv_def)
  have job: "phase2_job cfg S L place blocks F hs i (jobs i)" and geo: "repair_geometry cfg S L blocks F"
    using init i by (simp_all add: phase2_setup_def)
  have link: "fr # frs = map (frame_of L blocks F peer i) [x..<b + sent_to (proxies_of s peer) i]"
    using inv i peer px wire by (auto simp: phase2_inv_def links_ok_def Let_def b_def x_def)
  then have "x < b + sent_to (proxies_of s peer) i" by (cases "x < b + sent_to (proxies_of s peer) i") auto
  then have frames: "frs = map (frame_of L blocks F peer i) [Suc x..<b + sent_to (proxies_of s peer) i]"
      "received_from px peer < sent_to (proxies_of s peer) i" and fr: "fr = (make_shard_header peer x L, shard L x (blocks ! (F ! i)))"
    using link by (auto simp: upt_conv_Cons frame_of_def x_def)
  show "frs = map (frame_of L blocks F peer i) [Suc x..<b + sent_to (proxies_of s peer) i]" by (rule frames)
  show "received_from px peer < sent_to (proxies_of s peer) i" by (rule frames)
  from recv_ok [OF geo job ok i peer more, folded b_def x_def, folded fr]
  show "proxy_ok cfg S L blocks F hs i (recv_shard (jobs i) peer b fr px)"
    "recv_shard (jobs i) peer b fr px = mark_write_shard_ready x (px\<lparr>recovered_ptrs := (recovered_ptrs px)
       [i := write_at (x * L) (shard L x (blocks ! (F ! i))) (recovered_ptrs px ! i)], received_from := (received_from px)(peer := received_from px peer + 1)\<rparr>)"
    by blast+
qed

lemma recv_inv:
  assumes init: "phase2_setup cfg S L place blocks F hs jobs cf" and inv: "phase2_inv cfg reach disk S L place blocks F hs jobs cf s" and i: "i < length F"
    and px: "proxies_of s i = px" "running px" and peer: "peer < length F" "peer \<noteq> i"
    and more: "received_from px peer < partition_size S (length F) peer" and wire: "wires s peer i = fr # frs"
  shows "phase2_inv cfg reach disk S L place blocks F hs jobs cf ((set_proxy i (recv_shard (jobs i) peer (partition_start S (length F) peer) fr px) s)
    \<lparr>wires := (wires s)(peer := (wires s peer)(i := frs))\<rparr>)"
proof -
  note new = recv_frame [OF init inv i px(1) peer more wire]
  have "result_ok reach disk place blocks F jobs s i" using inv i by (simp add: phase2_inv_def)
  then show ?thesis using inv px peer new
    by (auto simp: phase2_inv_def links_ok_def files_ok_def result_ok_def Let_def running_def mark_write_shard_ready_def)
qed

text \<open>A stream that is too short leaves the file alone; a complete one stores the block.\<close>

lemma stream_write:
  assumes "stream = take m block" "length block = BlockSize cfg"
  shows "RecoveryToDatanodeBreakdown cfg reach disk key stream ip port cf =
    (if reach (ip, port) \<and> disk (ip, port) \<and> BlockSize cfg \<le> m then (store_block cfg (\<lambda>_. True) 0 (((ip, port), key), block) cf, True) else (cf, False))"
proof (cases "BlockSize cfg \<le> m")
  case True
  then show ?thesis using whole_write [of block cfg] assms by simp
next
  case False
  then have "0 < BlockSize cfg" "length stream < BlockSize cfg" using assms by auto
  then have "length (stream_chunks (min kStreamChunkBytes (BlockSize cfg)) (BlockSize cfg) stream) \<noteq> BlockSize cfg"
    by (subst stream_chunks_complete) (auto simp: kStreamChunkBytes_def)
  then show ?thesis using False by (simp add: RecoveryToDatanodeBreakdown_def handleRecoveryBreakdown_def block_write_def Let_def fun_upd_idem)
qed

lemma finish_outcome:
  assumes geo: "repair_geometry cfg S L blocks F" and job: "phase2_job cfg S L place blocks F hs i job"
    and px: "proxy_ok cfg S L blocks F hs i px" and i: "i < length F"
    and fin: "finish_phase2 cfg reach disk job barrier px cf = (cf', px')"
  shows "\<exists>ok. px' = px\<lparr>phase2_result := Some (\<not> exchange_failed px \<and> ok)\<rparr>
    \<and> (cf' = cf \<or> cf' = store_block cfg (\<lambda>_. True) 0 (place (F ! i), blocks ! (F ! i)) cf)
    \<and> (ok \<longrightarrow> job_write job \<longrightarrow> \<not> job_hybrid job \<longrightarrow> cf' = store_block cfg (\<lambda>_. True) 0 (place (F ! i), blocks ! (F ! i)) cf)
    \<and> (reach (fst (place (F ! i))) \<longrightarrow> disk (fst (place (F ! i))) \<longrightarrow> \<not> job_hybrid job \<longrightarrow> (job_write job \<longrightarrow> next_shard px = S) \<longrightarrow> ok)"
proof -
  obtain ip port key where a: "place (F ! i) = ((ip, port), key)" by (metis prod.exhaust)
  have len: "length (blocks ! (F ! i)) = BlockSize cfg" using geo i by (simp add: repair_geometry_def)
  have full: "\<not> job_hybrid job \<Longrightarrow> S * L = BlockSize cfg" using geo job by (auto simp: repair_geometry_def phase2_job_def Let_def)
  have st: "write_stream px = take (next_shard px * L) (blocks ! (F ! i))" using px by (simp add: proxy_ok_def stream_ok_def)
  have target: "job_target job = ((ip, port), key)" and goal: "job_total job = S" using job a by (simp_all add: phase2_job_def Let_def)
  note wr = stream_write [OF st len, of reach disk key ip port cf]
  have fin': "px' = px\<lparr>phase2_result := Some (\<not> exchange_failed px \<and> ok)\<rparr> \<Longrightarrow> ?thesis" if
    "cf' = cf \<or> cf' = store_block cfg (\<lambda>_. True) 0 (((ip, port), key), blocks ! (F ! i)) cf"
    "ok \<Longrightarrow> job_write job \<Longrightarrow> \<not> job_hybrid job \<Longrightarrow> cf' = store_block cfg (\<lambda>_. True) 0 (((ip, port), key), blocks ! (F ! i)) cf"
    "reach (ip, port) \<Longrightarrow> disk (ip, port) \<Longrightarrow> \<not> job_hybrid job \<Longrightarrow> (job_write job \<Longrightarrow> next_shard px = S) \<Longrightarrow> ok" for ok
    using that unfolding a by (intro exI [of _ ok]) auto
  consider "\<not> job_write job" | "job_write job" "job_hybrid job" | "job_write job" "\<not> job_hybrid job" by blast
  then show ?thesis
  proof cases
    case 1
    then show ?thesis using fin by (intro fin' [of True]) (simp_all add: finish_phase2_def target)
  next
    case 2
    then show ?thesis using fin by (intro fin' [of "barrier \<and> next_shard px = S"]) (simp_all add: finish_phase2_def target goal)
  next
    case 3
    let ?ok = "reach (ip, port) \<and> disk (ip, port) \<and> BlockSize cfg \<le> next_shard px * L \<and> next_shard px = S"
    show ?thesis using fin 3 full by (intro fin' [of ?ok]) (auto simp: finish_phase2_def target goal wr split: if_splits)
  qed
qed

lemma finish_inv:
  assumes init: "phase2_setup cfg S L place blocks F hs jobs cf" and inv: "phase2_inv cfg reach disk S L place blocks F hs jobs cf s" and i: "i < length F"
    and px: "proxies_of s i = px" "phase2_result px = None" "exchange_failed px \<or> work_done (jobs i) px"
    and fin: "finish_phase2 cfg reach disk (jobs i) barrier px (sys_files s) = (cf', px')"
  shows "phase2_inv cfg reach disk S L place blocks F hs jobs cf ((set_proxy i px' s)\<lparr>sys_files := cf'\<rparr>)"
proof -
  have ok: "proxy_ok cfg S L blocks F hs i px" using inv i px by (auto simp: phase2_inv_def)
  have job: "phase2_job cfg S L place blocks F hs i (jobs i)" and geo: "repair_geometry cfg S L blocks F"
    using init i by (simp_all add: phase2_setup_def)
  have len: "length (blocks ! (F ! i)) = BlockSize cfg" using geo i by (simp add: repair_geometry_def)
  obtain b where px': "px' = px\<lparr>phase2_result := Some (\<not> exchange_failed px \<and> b)\<rparr>"
    and cf': "cf' = sys_files s \<or> cf' = store_block cfg (\<lambda>_. True) 0 (place (F ! i), blocks ! (F ! i)) (sys_files s)"
      "b \<Longrightarrow> job_write (jobs i) \<Longrightarrow> \<not> job_hybrid (jobs i) \<Longrightarrow> cf' = store_block cfg (\<lambda>_. True) 0 (place (F ! i), blocks ! (F ! i)) (sys_files s)"
      "reach (fst (place (F ! i))) \<Longrightarrow> disk (fst (place (F ! i))) \<Longrightarrow> \<not> job_hybrid (jobs i) \<Longrightarrow> (job_write (jobs i) \<longrightarrow> next_shard px = S) \<Longrightarrow> b"
    using finish_outcome [OF geo job ok i fin] by blast
  have fetch: "cluster_fetch cf' a = cluster_fetch (sys_files s) a \<or> a = place (F ! i) \<and> cluster_fetch cf' a = Some (blocks ! (F ! i))"
      "b \<Longrightarrow> job_write (jobs i) \<Longrightarrow> \<not> job_hybrid (jobs i) \<Longrightarrow> cluster_fetch cf' (place (F ! i)) = Some (blocks ! (F ! i))" for a
    using cf' by (auto simp: cluster_store.fetch_store [where cfg = cfg and bid = 0 and k = "place (F ! i)" and s = "sys_files s", OF len] split: if_splits)
  have other: "j = i" if "j < length F" "place (F ! j) = place (F ! i)" for j
  proof -
    have "F ! j = F ! i" using that i init by (auto simp: phase2_setup_def dest: inj_onD)
    then show ?thesis using that(1) i init by (simp add: phase2_setup_def nth_eq_iff_index_eq)
  qed
  have files: "files_ok place blocks F cf ((set_proxy i px' s)\<lparr>sys_files := cf'\<rparr>)"
    using inv fetch(1) i unfolding phase2_inv_def files_ok_def by simp metis
  have "result_ok reach disk place blocks F jobs ((set_proxy i px' s)\<lparr>sys_files := cf'\<rparr>) j" if "j < length F" for j
  proof (cases "j = i")
    case True
    have "result_ok reach disk place blocks F jobs s i" "job_total (jobs i) = S" using inv i job by (simp_all add: phase2_inv_def phase2_job_def Let_def)
    moreover have "\<not> exchange_failed px \<Longrightarrow> b \<or> job_hybrid (jobs i) \<or> \<not> (reach (fst (place (F ! i))) \<and> disk (fst (place (F ! i))))"
      using cf'(3) px(3) calculation(2) by (auto simp: work_done_def)
    ultimately show ?thesis unfolding True using px px' fetch(2) by (auto simp: result_ok_def work_done_def Let_def split: if_splits)
  next
    case False
    then have "cluster_fetch cf' (place (F ! j)) = cluster_fetch (sys_files s) (place (F ! j))" using fetch(1) other that by blast
    then show ?thesis using inv that False by (auto simp: phase2_inv_def result_ok_def Let_def)
  qed
  then show ?thesis using inv files ok px(1) px'
    by (auto simp: phase2_inv_def links_ok_def proxy_ok_flags Let_def)
qed

text \<open>The fields that the local steps leave alone.\<close>

lemma local_fields:
  "sent_to (drain_helper cfg reach job h cf px) = sent_to px" "received_from (drain_helper cfg reach job h cf px) = received_from px"
  "phase2_result (drain_helper cfg reach job h cf px) = phase2_result px" "peers_connected (drain_helper cfg reach job h cf px) = peers_connected px"
  "sent_to (decode_shard job px) = sent_to px" "received_from (decode_shard job px) = received_from px"
  "phase2_result (decode_shard job px) = phase2_result px" "peers_connected (decode_shard job px) = peers_connected px"
  "sent_to (write_shard job px) = sent_to px" "received_from (write_shard job px) = received_from px"
  "phase2_result (write_shard job px) = phase2_result px" "peers_connected (write_shard job px) = peers_connected px"
  by (auto simp: drain_helper_def decode_shard_def write_shard_def mark_write_shard_ready_def Let_def split: prod.splits option.splits)

lemma phase2_step_inv:
  assumes init: "phase2_setup cfg S L place blocks F hs jobs cf" and step: "phase2_step cfg reach disk (length F) jobs s s'"
    and inv: "phase2_inv cfg reach disk S L place blocks F hs jobs cf s"
  shows "phase2_inv cfg reach disk S L place blocks F hs jobs cf s'"
proof -
  have geo: "repair_geometry cfg S L blocks F" using init by (simp add: phase2_setup_def)
  have job: "phase2_job cfg S L place blocks F hs i (jobs i)" if "i < length F" for i using init that by (simp add: phase2_setup_def)
  have ok: "proxy_ok cfg S L blocks F hs i (proxies_of s i)" if "i < length F" for i using inv that by (simp add: phase2_inv_def)
  have fields: "job_helpers (jobs i) = map place hs" "job_total (jobs i) = S" "job_count (jobs i) = partition_size S (length F) i" if "i < length F" for i
    using job [OF that] by (simp_all add: phase2_job_def Let_def)
  show ?thesis using step
  proof cases
    case (connect i px)
    have "started jobs j" if "j < length F" for j using connect(2,7) that peer_member [OF job [OF connect(2)]] connect(3) by blast
    then show ?thesis unfolding connect(1) using connect ok
      by (intro local_step_inv [OF inv connect(2)]) (auto simp: proxy_ok_flags running_def)
  next
    case (drain i px h)
    then have h: "h < length hs" "hs ! h \<in> set hs" by (simp_all add: fields)
    have "S * L \<le> length (blocks ! (hs ! h))" using init h(2) by (simp add: phase2_setup_def repair_geometry_def)
    moreover have "0 < partition_size S (length F) i"
      using unfinished_started [OF inv drain(2)] drain by (simp add: running_def started_def fields)
    ultimately have "proxy_ok cfg S L blocks F hs i (drain_helper cfg reach (jobs i) h (sys_files s) px)"
      using drain ok helper_file_kept [OF init inv h(2)] geo h(1)
      by (intro drain_ok [OF job]) (auto simp: repair_geometry_def)
    then show ?thesis unfolding drain(1) using drain
      by (intro local_step_inv [OF inv drain(2)]) (auto simp: local_fields running_def)
  next
    case (decode i px)
    then have "proxy_ok cfg S L blocks F hs i (decode_shard (jobs i) px)"
      using decode_ok [OF geo job _ decode(2)] ok by (auto simp: fields)
    then show ?thesis unfolding decode(1) using decode
      by (intro local_step_inv [OF inv decode(2)]) (auto simp: local_fields running_def)
  next
    case (send i px peer b n s'')
    then show ?thesis unfolding send(1) send(8)
      using peer_member [OF job [OF send(2)]] by (intro send_inv [OF init inv send(2-4)]) auto
  next
    case (recv i px peer b n fr frs)
    then have "peer < length F" "peer \<noteq> i" "b = partition_start S (length F) peer" "n = partition_size S (length F) peer"
      using peer_member [OF job [OF recv(2)]] by auto
    then show ?thesis unfolding recv(1) using recv recv_inv [OF init inv recv(2-4)] by blast
  next
    case (publish i px)
    then have "proxy_ok cfg S L blocks F hs i (write_shard (jobs i) px)" using ok by (intro write_ok [OF job]) (auto simp: fields)
    then show ?thesis unfolding publish(1) using publish
      by (intro local_step_inv [OF inv publish(2)]) (auto simp: local_fields running_def)
  next
    case (finish i px barrier cf' px')
    then show ?thesis using finish_inv [OF init inv] by simp
  qed
qed

lemma phase2_reachable_inv:
  assumes init: "phase2_setup cfg S L place blocks F hs jobs cf" and "phase2_reachable cfg reach disk (length F) jobs cf s"
  shows "phase2_inv cfg reach disk S L place blocks F hs jobs cf s"
  using assms(2) unfolding phase2_reachable_def
proof (induction rule: rtranclp_induct)
  case base
  show ?case by (rule initial_inv [OF init])
next
  case (step s s')
  from step(2) show ?case
  proof
    assume "phase2_fault (length F) s s'"
    then show ?thesis
    proof cases
      case (1 i)
      have "proxy_ok cfg S L blocks F hs i (proxies_of s i)" using step(3) 1(2) by (simp add: phase2_inv_def)
      then show ?thesis unfolding 1(1) using 1 by (intro local_step_inv [OF step(3) 1(2)]) (auto simp: running_def proxy_ok_flags)
    qed
  qed (rule phase2_step_inv [OF init _ step(3)])
qed

section \<open>The exchange ends\<close>

text \<open>Without a failure only a state in which every proxy has answered is final: the exchange does not deadlock.\<close>

lemma phase2_progress:
  assumes init: "phase2_setup cfg S L place blocks F hs jobs cf" and inv: "phase2_inv cfg reach disk S L place blocks F hs jobs cf s"
    and all: "\<forall>j<length F. started jobs j" and sound: "\<forall>j<length F. \<not> exchange_failed (proxies_of s j)"
    and stuck: "\<nexists>s'. phase2_step cfg reach disk (length F) jobs s s'" and i: "i < length F"
  shows "phase2_result (proxies_of s i) \<noteq> None"
proof
  assume none: "phase2_result (proxies_of s i) = None"
  let ?f = "length F" and ?px = "proxies_of s"
  have job: "phase2_job cfg S L place blocks F hs j (jobs j)" if "j < ?f" for j using init that by (simp add: phase2_setup_def)
  have fields: "job_helpers (jobs j) = map place hs" "job_total (jobs j) = S" "job_count (jobs j) = partition_size S ?f j" if "j < ?f" for j
    using job [OF that] by (simp_all add: phase2_job_def Let_def)
  have ok: "proxy_ok cfg S L blocks F hs j (?px j)" if "j < ?f" for j using inv that by (simp add: phase2_inv_def)
  have run: "running (?px j)" if "j < ?f" "phase2_result (?px j) = None" for j using that sound by (simp add: running_def)
  have ended: "work_done (jobs j) (?px j)" if "j < ?f" "phase2_result (?px j) \<noteq> None" for j
    using inv that all sound by (auto simp: phase2_inv_def result_ok_def Let_def)
  have conn: "peers_connected (?px j)" if "j < ?f" for j
  proof (cases "phase2_result (?px j) = None")
    case True
    have "\<forall>(peer, _, _)\<in>set (job_peers (jobs j)). started jobs peer" using all peer_member [OF job [OF that]] by auto
    then show ?thesis using stuck phase2_step.connect [OF that _ refl run [OF that True]] all that by blast
  qed (use ended that in \<open>simp add: work_done_def\<close>)
  have dec: "decoded_shards (?px j) = partition_size S ?f j" if j: "j < ?f" for j
  proof (cases "phase2_result (?px j) = None")
    case True
    have "h \<in> set (helpers_read (?px j))" if "h < length hs" for h
      using stuck phase2_step.drain [where jobs = jobs, OF j refl run [OF j True] conn [OF j], of h] that fields(1) [OF j] by (metis length_map)
    then have "set (helpers_read (?px j)) = {..<length hs}" using ok [OF j] by (auto simp: proxy_ok_def helpers_ok_def)
    then have "length (helpers_read (?px j)) = length hs"
      using ok [OF j] by (metis card_lessThan distinct_card helpers_ok_def proxy_ok_def)
    then have "\<not> decoded_shards (?px j) < partition_size S ?f j"
      using stuck phase2_step.decode [where jobs = jobs, OF j refl run [OF j True] conn [OF j]] fields [OF j] by (metis length_map)
    then show ?thesis using ok [OF j] by (simp add: proxy_ok_def counters_ok_def)
  qed (use ended fields that in \<open>simp add: work_done_def\<close>)
  have sent: "sent_to (?px j) l = partition_size S ?f j" if "j < ?f" "l < ?f" "l \<noteq> j" for j l
  proof (cases "phase2_result (?px j) = None")
    case True
    have "\<not> sent_to (?px j) l < decoded_shards (?px j)"
      using stuck phase2_step.send [OF that(1) refl run [OF that(1) True] conn [OF that(1)] _ _ refl] peer_member [OF job [OF that(1)]] that by blast
    moreover have "sent_to (?px j) l \<le> decoded_shards (?px j)"
      using ok [OF that(1)] that(2) by (simp add: proxy_ok_def counters_ok_def)
    ultimately show ?thesis using dec [OF that(1)] by simp
  qed (use ended [OF that(1)] that fields [OF that(1)] peer_member [OF job [OF that(1)]] in \<open>fastforce simp: work_done_def\<close>)
  have got: "received_from (?px i) l = partition_size S ?f l" if l: "l < ?f" "l \<noteq> i" for l
  proof (rule ccontr)
    assume "received_from (?px i) l \<noteq> partition_size S ?f l"
    then have less: "received_from (?px i) l < partition_size S ?f l"
      using ok [OF i] l by (fastforce simp: proxy_ok_def counters_ok_def)
    have "wires s l i = map (frame_of L blocks F l i) [partition_start S ?f l + received_from (?px i) l..<partition_start S ?f l + partition_size S ?f l]"
      using inv l i sent [OF l(1) i] by (auto simp: phase2_inv_def links_ok_def Let_def)
    then obtain fr frs where "wires s l i = fr # frs" using less by (auto simp: upt_conv_Cons)
    then show False using stuck phase2_step.recv [OF i refl run [OF i none] conn [OF i]] less peer_member [OF job [OF i]] l by blast
  qed
  have "write_ready (?px i) ! x" if x: "x < S" for x
  proof -
    obtain l where "l < ?f" "partition_start S ?f l \<le> x" "x < partition_start S ?f l + partition_size S ?f l"
      using partition_covers [OF x, of ?f] i by (metis length_greater_0_conv less_nat_zero_code list.size(3))
    then have "shard_here S ?f i (?px i) x" using dec [OF i] got by (cases "l = i") (auto simp: shard_here_def)
    then show ?thesis using ok [OF i] x by (simp add: proxy_ok_def counters_ok_def)
  qed
  then have "\<not> (job_write (jobs i) \<and> next_shard (?px i) < S)"
    using stuck phase2_step.publish [where jobs = jobs, OF i refl run [OF i none]] fields [OF i] by metis
  then have "job_write (jobs i) \<longrightarrow> next_shard (?px i) = S" using ok [OF i] by (auto simp: proxy_ok_def stream_ok_def)
  then have "work_done (jobs i) (?px i)"
    using conn [OF i] dec [OF i] sent [OF i] got fields [OF i] peer_member [OF job [OF i]] by (auto simp: work_done_def)
  then show False using stuck phase2_step.finish [OF i refl none] by (metis surj_pair)
qed

text \<open>Every step, also a fault, uses up some of the work.\<close>

definition exchange_work :: "nat \<Rightarrow> (nat \<Rightarrow> Phase2Job) \<Rightarrow> nat \<Rightarrow> Phase2Proxy \<Rightarrow> nat" where
  "exchange_work f jobs i px = (\<Sum>j<f. (job_count (jobs i) - sent_to px j) + (job_count (jobs j) - received_from px j))"

definition proxy_work :: "nat \<Rightarrow> (nat \<Rightarrow> Phase2Job) \<Rightarrow> nat \<Rightarrow> Phase2Proxy \<Rightarrow> nat" where
  "proxy_work f jobs i px = (if phase2_result px = None then 1 else 0) + (if exchange_failed px then 0 else 1
     + (if peers_connected px then 0 else 1) + (length (job_helpers (jobs i)) - length (helpers_read px)) + (job_count (jobs i) - decoded_shards px)
     + exchange_work f jobs i px + (job_total (jobs i) - next_shard px))"

definition phase2_work :: "nat \<Rightarrow> (nat \<Rightarrow> Phase2Job) \<Rightarrow> Phase2System \<Rightarrow> nat" where
  "phase2_work f jobs s = (\<Sum>i<f. proxy_work f jobs i (proxies_of s i))"

lemma phase2_work_update:
  assumes "i < f" "proxies_of s' = (proxies_of s)(i := px)" "proxy_work f jobs i px < proxy_work f jobs i (proxies_of s i)"
  shows "phase2_work f jobs s' < phase2_work f jobs s"
  unfolding phase2_work_def using assms by (intro sum_strict_mono_ex1) auto

lemma exchange_work_less:
  assumes "j < f" "\<forall>l. job_count (jobs i) - sent_to px' l + (job_count (jobs l) - received_from px' l)
      \<le> job_count (jobs i) - sent_to px l + (job_count (jobs l) - received_from px l)"
    and "job_count (jobs i) - sent_to px' j + (job_count (jobs j) - received_from px' j)
      < job_count (jobs i) - sent_to px j + (job_count (jobs j) - received_from px j)"
  shows "exchange_work f jobs i px' < exchange_work f jobs i px"
  unfolding exchange_work_def using assms by (intro sum_strict_mono_ex1) auto

lemma failed_work: "running px \<Longrightarrow> proxy_work f jobs i (px\<lparr>exchange_failed := True\<rparr>) < proxy_work f jobs i px"
  by (simp add: proxy_work_def running_def)

lemma drain_work:
  assumes "helpers_ok S L n blocks hs i px" "h < length hs" "h \<notin> set (helpers_read px)" "running px" "length (job_helpers (jobs i)) = length hs"
  shows "proxy_work f jobs i (drain_helper cfg reach (jobs i) h cf px) < proxy_work f jobs i px"
proof -
  have "card (insert h (set (helpers_read px))) \<le> card {..<length hs}"
    using assms by (intro card_mono) (auto simp: helpers_ok_def)
  then have "length (helpers_read px) < length hs" using assms by (simp add: helpers_ok_def distinct_card)
  then show ?thesis using failed_work [OF assms(4)] assms
    by (auto simp: drain_helper_def Let_def running_def proxy_work_def exchange_work_def split: prod.splits)
qed

lemma phase2_step_work:
  assumes init: "phase2_setup cfg S L place blocks F hs jobs cf" and inv: "phase2_inv cfg reach disk S L place blocks F hs jobs cf s"
    and step: "phase2_step cfg reach disk (length F) jobs s s'"
  shows "phase2_work (length F) jobs s' < phase2_work (length F) jobs s"
proof -
  let ?f = "length F"
  have geo: "repair_geometry cfg S L blocks F" using init by (simp add: phase2_setup_def)
  have job: "phase2_job cfg S L place blocks F hs i (jobs i)" if "i < ?f" for i using init that by (simp add: phase2_setup_def)
  have ok: "proxy_ok cfg S L blocks F hs i (proxies_of s i)" if "i < ?f" for i using inv that by (simp add: phase2_inv_def)
  have fields: "job_helpers (jobs i) = map place hs" "job_total (jobs i) = S" "job_count (jobs i) = partition_size S ?f i" if "i < ?f" for i
    using job [OF that] by (simp_all add: phase2_job_def Let_def)
  show ?thesis using step
  proof cases
    case (connect i px)
    then show ?thesis by (intro phase2_work_update [OF connect(2)]) (auto simp: proxy_work_def running_def exchange_work_def)
  next
    case (drain i px h)
    then have "proxy_work ?f jobs i (drain_helper cfg reach (jobs i) h (sys_files s) px) < proxy_work ?f jobs i px"
      using ok [OF drain(2)] fields [OF drain(2)] by (intro drain_work) (auto simp: proxy_ok_def)
    then show ?thesis using drain by (intro phase2_work_update [OF drain(2)]) auto
  next
    case (decode i px)
    then have "exchange_failed (decode_shard (jobs i) px) = exchange_failed px" "decoded_shards (decode_shard (jobs i) px) = decoded_shards px + 1"
      using decode_ok [OF geo job [OF decode(2)] _ decode(2)] ok [OF decode(2)] fields [OF decode(2)] by auto
    moreover have "helpers_read (decode_shard (jobs i) px) = helpers_read px" "next_shard (decode_shard (jobs i) px) = next_shard px"
      by (auto simp: decode_shard_def mark_write_shard_ready_def Let_def split: option.splits)
    ultimately have "proxy_work ?f jobs i (decode_shard (jobs i) px) < proxy_work ?f jobs i px"
      using decode(4,7) by (simp add: proxy_work_def running_def exchange_work_def local_fields)
    then show ?thesis using decode by (intro phase2_work_update [OF decode(2)]) auto
  next
    case (send i px peer b n s'')
    let ?px = "px\<lparr>sent_to := (sent_to px)(peer := sent_to px peer + 1)\<rparr>"
    have "sent_to px peer < job_count (jobs i)" using send ok [OF send(2)] fields [OF send(2)] by (auto simp: proxy_ok_def counters_ok_def)
    moreover have "peer < ?f" using send peer_member [OF job [OF send(2)]] by auto
    ultimately have "exchange_work ?f jobs i ?px < exchange_work ?f jobs i px" by (intro exchange_work_less [of peer]) auto
    then show ?thesis using send by (intro phase2_work_update [OF send(2), of _ _ ?px]) (auto simp: proxy_work_def running_def)
  next
    case (recv i px peer b n fr frs)
    then have peer: "peer < ?f" "peer \<noteq> i" "b = partition_start S ?f peer" "n = partition_size S ?f peer"
      using peer_member [OF job [OF recv(2)]] by auto
    then have px': "recv_shard (jobs i) peer b fr px = mark_write_shard_ready (b + received_from px peer) (px\<lparr>recovered_ptrs := (recovered_ptrs px)
          [i := write_at ((b + received_from px peer) * L) (shard L (b + received_from px peer) (blocks ! (F ! i))) (recovered_ptrs px ! i)],
          received_from := (received_from px)(peer := received_from px peer + 1)\<rparr>)"
      using recv_frame(4) [OF init inv recv(2,3) peer(1,2) _ recv(8)] recv(7) by simp
    have "exchange_work ?f jobs i (recv_shard (jobs i) peer b fr px) < exchange_work ?f jobs i px"
      using recv(7) peer(1,4) fields(3) [OF peer(1)] by (intro exchange_work_less [of peer]) (auto simp: px' mark_write_shard_ready_def)
    then show ?thesis using recv
      by (intro phase2_work_update [OF recv(2), of _ _ "recv_shard (jobs i) peer b fr px"])
        (auto simp: proxy_work_def running_def px' mark_write_shard_ready_def)
  next
    case (publish i px)
    then show ?thesis by (intro phase2_work_update [OF publish(2)]) (auto simp: proxy_work_def running_def exchange_work_def write_shard_def)
  next
    case (finish i px barrier cf' px')
    obtain b where "px' = px\<lparr>phase2_result := Some b\<rparr>"
      using finish_outcome [OF geo job [OF finish(2)] _ finish(2) finish(6)] ok [OF finish(2)] finish(3) by blast
    then have "proxy_work ?f jobs i px' < proxy_work ?f jobs i px" using finish(4) by (simp add: proxy_work_def exchange_work_def)
    then show ?thesis using finish by (intro phase2_work_update [OF finish(2), of _ _ px']) auto
  qed
qed

end
