(* ===== verification/Phase2Repair.thy ===== *)
theory Phase2Repair
  imports Phase2Exchange
begin

text \<open>
  Phase 2 from the coordinator's side (\<^verbatim>\<open>recovery_glrc_ilp_phase2_breakdown_ex\<close> of \<^verbatim>\<open>coordinator.cpp\<close>): the requests that it sends,
  that they set up the exchange of \<open>Phase2Exchange\<close>, and what the exchange leaves on the datanodes.
\<close>

section \<open>The requests\<close>

text \<open>
  \<open>preset\<close> is the plan of a caller (the hybrid repair); \<open>shard_count_override\<close> its number of shards.  READY opens the listeners of
  all partitions but the first.
\<close>

definition stub_for :: "string list \<Rightarrow> GlrcPartitionShardPlan \<Rightarrow> bool" where
  "stub_for proxies part \<longleftrightarrow> proxy_key (part_proxy_ip part) (part_proxy_port part) \<in> set proxies"

definition phase2_plan :: "SysConfig \<Rightarrow> sorter \<Rightarrow> real \<Rightarrow> string \<Rightarrow> GlrcIlpRepairPlan option \<Rightarrow> nat list \<Rightarrow> GlrcIlpRepairPlan" where
  "phase2_plan cfg std_sort elapsed policy preset F =
     (case preset of Some plan \<Rightarrow> plan
      | None \<Rightarrow> glrc_solve_repair_plan std_sort elapsed (glrc_normalize_equation_policy policy) (cfg_k cfg) (cfg_r cfg) (cfg_z cfg) F)"

definition phase2_requests :: "SysConfig \<Rightarrow> int \<Rightarrow> bool \<Rightarrow> string list \<Rightarrow> sorter \<Rightarrow> real \<Rightarrow> string \<Rightarrow> GlrcIlpRepairPlan option \<Rightarrow> int \<Rightarrow> bool
    \<Rightarrow> coordinator \<Rightarrow> nat \<Rightarrow> int list \<Rightarrow> string + (bool \<times> Phase2Request) list" where
  "phase2_requests cfg GlrcShardCount GlrcPhase2WriteBack proxies std_sort elapsed policy preset shard_count_override share st sid failed =
     (let stripe = stripe_at st sid; f = length failed; F = map nat failed;
          nd = (\<lambda>i. node_at st (map2node (stripe_blocks stripe ! i))) in
      if CodeType cfg \<noteq> ''gLRC'' then Inl ''recovery_glrc_ilp_phase2 requires CodeType gLRC''
      else case first_invalid_id stripe failed of
        Some fid \<Rightarrow> Inl (''invalid failed block id: '' @ int_to_string fid)
      | None \<Rightarrow>
          let plan = phase2_plan cfg std_sort elapsed policy preset F in
          if \<not> success plan then Inl (if preset \<noteq> None \<and> error_message plan = [] then ''preset phase2 plan failed'' else error_message plan)
          else case phase2_build (if 0 < shard_count_override then shard_count_override else GlrcShardCount) (int (BlockSize cfg)) failed
                      (map (\<lambda>i. nd_cluster (nd i)) F) (map (\<lambda>i. repair_proxy_ip (nd i)) F) (map (\<lambda>i. repair_proxy_port (nd i)) F)
                      GlrcShardCount of
            Inl shard_err \<Rightarrow> Inl shard_err
          | Inr shard_plan \<Rightarrow>
              if \<exists>me\<in>set [1..<f]. 0 < part_shard_count (partitions shard_plan ! me) \<and> \<not> stub_for proxies (partitions shard_plan ! me)
              then Inl ''phase2 exchange acceptor READY failed''
              else Inr (map (\<lambda>me. (stub_for proxies (partitions shard_plan ! me),
                     fill_phase2_request GlrcPhase2WriteBack share (glrc_request st stripe F plan) shard_plan me)) [0..<f]))"

text \<open>The reply: success when every partition is.\<close>

definition phase2_success :: "nat \<Rightarrow> Phase2System \<Rightarrow> bool" where
  "phase2_success f s \<longleftrightarrow> (\<forall>i<f. phase2_result (proxies_of s i) = Some True)"

section \<open>Bounds\<close>

lemma sum_partition_sizes: "0 < f \<Longrightarrow> (\<Sum>i<f. partition_size S f i) = S"
proof -
  have "(\<Sum>i<m. partition_size S f i) = partition_start S f m" for m
    by (induction m) (simp_all add: partition_start_Suc, simp add: partition_start_def)
  then show "0 < f \<Longrightarrow> ?thesis" by (simp add: partition_start_end)
qed

lemma initial_work:
  assumes "phase2_setup cfg S L place blocks F hs jobs cf"
  shows "phase2_work (length F) jobs (phase2_initial cfg reach jobs cf) \<le> length F * (3 + length hs + 2 * S) + (length F + 1) * S"
proof -
  let ?f = "length F"
  have f: "0 < ?f" using assms by (simp add: phase2_setup_def repair_geometry_def)
  have fields: "job_helpers (jobs i) = map place hs" "job_total (jobs i) = S" "job_count (jobs i) = partition_size S ?f i" if "i < ?f" for i
    using assms that by (simp_all add: phase2_setup_def phase2_job_def Let_def)
  have ex: "exchange_work ?f jobs i px \<le> ?f * partition_size S ?f i + S" if "i < ?f" for i px
  proof -
    have "exchange_work ?f jobs i px \<le> (\<Sum>j<?f. partition_size S ?f i + partition_size S ?f j)"
      unfolding exchange_work_def using fields that by (intro sum_mono add_mono) auto
    then show ?thesis using sum_partition_sizes [OF f] by (simp add: sum.distrib)
  qed
  have "proxy_work ?f jobs i (proxies_of (phase2_initial cfg reach jobs cf) i) \<le> (3 + length hs + 2 * S) + (?f + 1) * partition_size S ?f i"
    if "i < ?f" for i
    using ex [OF that] fields [OF that] by (auto simp: proxy_work_def phase2_initial_def phase2_begin_def intro: le_trans [OF ex [OF that]])
  then have "phase2_work ?f jobs (phase2_initial cfg reach jobs cf) \<le> (\<Sum>i<?f. (3 + length hs + 2 * S) + (?f + 1) * partition_size S ?f i)"
    unfolding phase2_work_def by (intro sum_mono) simp
  also have "\<dots> = ?f * (3 + length hs + 2 * S) + (?f + 1) * S"
    using sum_partition_sizes [OF f, of S] by (simp add: sum.distrib sum_distrib_left [symmetric])
  finally show ?thesis .
qed

lemma phase2_run_bound:
  assumes init: "phase2_setup cfg S L place blocks F hs jobs cf"
    and run: "((\<lambda>s s'. phase2_step cfg reach disk (length F) jobs s s' \<or> phase2_fault (length F) s s') ^^ m) (phase2_initial cfg reach jobs cf) s"
  shows "m \<le> length F * (3 + length hs + 2 * S) + (length F + 1) * S"
proof -
  let ?step = "\<lambda>s s'. phase2_step cfg reach disk (length F) jobs s s' \<or> phase2_fault (length F) s s'" and ?s0 = "phase2_initial cfg reach jobs cf"
  have less: "phase2_work (length F) jobs s' < phase2_work (length F) jobs s" if "?step\<^sup>*\<^sup>* ?s0 s" "?step s s'" for s s'
    using that(2)
  proof
    assume "phase2_fault (length F) s s'"
    then show ?thesis
    proof cases
      case (1 i)
      then show ?thesis using failed_work [of "proxies_of s i" "length F" jobs i] by (intro phase2_work_update [OF 1(2)]) auto
    qed
  qed (use that(1) phase2_reachable_inv [OF init] phase2_step_work [OF init] phase2_reachable_def in metis)
  have "m + phase2_work (length F) jobs s \<le> phase2_work (length F) jobs ?s0" using run
  proof (induction m arbitrary: s)
    case (Suc m)
    then obtain t where t: "(?step ^^ m) ?s0 t" "?step t s" by auto
    then have "?step\<^sup>*\<^sup>* ?s0 t" by (metis rtranclp_power)
    then show ?case using Suc.IH [OF t(1)] less [OF _ t(2)] by fastforce
  qed simp
  then show ?thesis using initial_work [OF init, of reach] by simp
qed

section \<open>The requests set up the exchange\<close>

text \<open>The prepared tables decode every shard of a range.\<close>

lemma prepared_decodes_shard:
  assumes task: "repair_task k r z bs blocks F sel"
    and prep: "glrc_ilp_prepare_helper_decode k r z hs F sel = Some (A_inv, idxs, coefs)" and hs: "set hs \<subseteq> {..<k + r + z}"
    and range: "b \<le> s" "s < b + n" "(b + n) * L \<le> bs" "0 < L"
  shows "\<exists>rhs'. decode_glrc_ilp_helper_compact_prepared (map (\<lambda>h. take (n * L) (drop (b * L) (blocks ! h))) hs) idxs
      (map (\<lambda>c. ec_init_tables (length c) 1 c) coefs) (ec_init_tables (length F) (length F) A_inv) (int (length F))
      (int (b * L)) (int (s * L)) (int L) rhs rec = Some (rhs', map (\<lambda>b. shard L s (blocks ! b)) F)"
proof -
  have "(Suc s) * L \<le> (b + n) * L" "b * L \<le> s * L" using range by (intro mult_le_mono1; simp)+
  then have "decode_glrc_ilp_helper_compact (map (\<lambda>h. take (n * L) (drop (b * L) (blocks ! h))) hs) A_inv idxs coefs
      (int (length F)) (int (b * L)) (int (s * L)) (int L) = Some (map (\<lambda>b. shard L s (blocks ! b)) F)"
    using range(3) unfolding shard_def by (intro decode_glrc_ilp_helper_compact_result [OF task prep _ _ _ hs]) (simp_all add: algebra_simps)
  moreover obtain tss where "length A_inv = length F * length F" "idxs = map (map fst) tss" "coefs = map (map snd) tss"
    using prep by (auto simp: glrc_ilp_prepare_helper_decode_def Let_def dest: build_inverse_Some(1) split: if_splits option.splits)
  ultimately have "map_option snd (decode_glrc_ilp_helper_compact_prepared (map (\<lambda>h. take (n * L) (drop (b * L) (blocks ! h))) hs) idxs
      (map (\<lambda>c. ec_init_tables (length c) 1 c) coefs) (ec_init_tables (length F) (length F) A_inv) (int (length F))
      (int (b * L)) (int (s * L)) (int L) rhs rec) = Some (map (\<lambda>b. shard L s (blocks ! b)) F)"
    using prepared_eq_compact [of A_inv "int (length F)" idxs coefs "int L"] range(4) by simp
  then show ?thesis by auto
qed

text \<open>Every peer is listed once, so looking it up finds its entry.\<close>

lemma find_own: "distinct (map key xs) \<Longrightarrow> x \<in> set xs \<Longrightarrow> find (\<lambda>y. key y = key x) xs = Some x"
  by (induction xs) auto

lemma lookup_peer_shards_own:
  "map (\<lambda>q. let (begin, count) = the (lookup_peer_shards (fill_phase2_request wb share g splan i) (peer_partition_id q))
      in (nat (peer_partition_id q), nat begin, nat count)) (phase2_peers (fill_phase2_request wb share g splan i))
   = map (\<lambda>q. (nat (peer_partition_id q), nat (peer_shard_begin q), nat (peer_shard_count q))) (phase2_peers (fill_phase2_request wb share g splan i))"
proof (rule map_cong [OF refl])
  let ?rq = "fill_phase2_request wb share g splan i"
  have "map peer_partition_id (phase2_peers ?rq) = map int (filter (\<lambda>j. j \<noteq> i) [0..<length (partitions splan)])"
    by (simp add: fill_phase2_request_def Let_def)
  then have "distinct (map peer_partition_id (phase2_peers ?rq))" by (simp add: distinct_map)
  then show "(let (begin, count) = the (lookup_peer_shards ?rq (peer_partition_id q)) in (nat (peer_partition_id q), nat begin, nat count))
      = (nat (peer_partition_id q), nat (peer_shard_begin q), nat (peer_shard_count q))" if "q \<in> set (phase2_peers ?rq)" for q
    using that by (simp add: lookup_peer_shards_def find_own)
qed

lemma phase2_prepared:
  fixes failed :: "int list" and override gsc :: int
  assumes task: "repair_task k r z (BlockSize cfg) blocks F (selected_equation_indices plan)" and cfg: "cfg_k cfg = k" "cfg_r cfg = r" "cfg_z cfg = z"
    and hs: "helper_block_ids plan \<noteq> []" "set (helper_block_ids plan) \<subseteq> {..<k + r + z}" "\<forall>i < k + r + z. blk_id (stripe_blocks stripe ! i) = i"
    and dec: "glrc_ilp_decode_matrix_invertible k r z F (selected_equation_indices plan)"
      "helpers_cover k r z (helper_block_ids plan) F (selected_equation_indices plan)"
    and build: "phase2_build active (int (BlockSize cfg)) failed cids ips ports gsc = Inr splan" "length failed = length F"
    and bytes: "nat active * nat (stripe_byte_len splan) \<le> BlockSize cfg" "share \<or> nat active * nat (stripe_byte_len splan) = BlockSize cfg"
    and i: "i < length F"
  shows "\<exists>job. prepare_phase2 cfg stub (fill_phase2_request wb share (glrc_request st stripe F plan) splan i) = Inr job
    \<and> phase2_job cfg (nat active) (nat (stripe_byte_len splan)) (block_at st stripe) blocks F (helper_block_ids plan) i job
    \<and> job_write job = wb \<and> job_stub job = stub"
proof -
  let ?S = "nat active" and ?L = "nat (stripe_byte_len splan)" and ?f = "length F" and ?g = "glrc_request st stripe F plan"
  let ?hs = "helper_block_ids plan" and ?sel = "selected_equation_indices plan" and ?b = "partition_start (nat active) (length F)"
    and ?n = "partition_size (nat active) (length F)"
  note b = phase2_build_Inr [OF build(1), unfolded build(2)]
  have L: "0 < stripe_byte_len splan" using active_bytes_built(2) [OF build(1)] .
  have act: "active = int ?S" "0 < ?S" using b(2,3) by simp_all
  have rq: "gr_blockids ?g = ?hs" "gr_failed_block_ids ?g = F" "gr_selected_equation_indices ?g = ?sel" "gr_datanodeip ?g = [] \<longleftrightarrow> ?hs = []"
      "zip (zip (gr_datanodeip ?g) (gr_datanodeport ?g)) (gr_blockkeys ?g) = map (block_at st stripe) ?hs"
      "((gr_replaced_node_ips ?g ! i, gr_replaced_node_ports ?g ! i), gr_failed_block_keys ?g ! i) = block_at st stripe (F ! i)"
    using hs(2,3) i by (auto simp: glrc_request_def Let_def zip_request block_at_parts intro!: map_idI)
  have sel: "length ?sel = ?f" using task by (simp add: repair_task_def)
  obtain A_inv idxs coefs where prep: "glrc_ilp_prepare_helper_decode k r z ?hs F ?sel = Some (A_inv, idxs, coefs)"
    using prepare_helper_decode_iff [OF sel, of k r z ?hs] hs(1) dec by blast
  have part: "partitions splan ! j = build_partition (stripe_byte_len splan) failed cids ips ports (int (?b j)) (int (?n j)) j" if "j < ?f" for j
    using b(8,10) that by simp
  have parts: "length (partitions splan) = ?f" using b(10) by simp
  have bn: "int (?b i) + int (?n i) \<le> active" using partition_end [OF i, of ?S] act(1) by linarith
  have prod: "active * stripe_byte_len splan = int (?S * ?L)" using act(1) L by simp
  have bytes': "active * stripe_byte_len splan \<le> int (BlockSize cfg)" "0 < active * stripe_byte_len splan"
      "share \<or> active * stripe_byte_len splan = int (BlockSize cfg)"
    using bytes act L unfolding prod of_nat_le_iff of_nat_eq_iff by simp_all
  let ?rq = "fill_phase2_request wb share ?g splan i"
  have fields: "phase2_shard_count ?rq = active" "phase2_stripe_byte_len ?rq = stripe_byte_len splan" "phase2_shard_begin ?rq = int (?b i)"
      "phase2_shard_count_local ?rq = int (?n i)" "phase2_byte_off ?rq = int (?b i) * stripe_byte_len splan"
      "phase2_byte_len ?rq = int (?n i) * stripe_byte_len splan" "phase2_partition_id ?rq = int i" "phase2_do_write_back ?rq = wb"
      "phase2_share_proxy_node_bandwidth ?rq = share" "phase2_glrc ?rq = ?g"
    using part [OF i] b(7) by (simp_all add: fill_phase2_request_def Let_def build_partition_def)
  have geo: "valid_geometry cfg ?rq"
    unfolding valid_geometry_def Let_def fields using bytes' bn act by simp
  have peers: "map (\<lambda>q. let (begin, count) = the (lookup_peer_shards ?rq (peer_partition_id q)) in (nat (peer_partition_id q), nat begin, nat count))
      (phase2_peers ?rq) = map (\<lambda>j. (j, ?b j, ?n j)) (filter (\<lambda>j. j \<noteq> i) [0..<?f])"
    unfolding lookup_peer_shards_own using part by (auto simp: fill_phase2_request_def Let_def parts build_partition_def)
  have shards: "(?b i + ?n i) * ?L \<le> BlockSize cfg" using partition_end [OF i, of ?S] bytes(1) by (meson le_trans mult_le_mono1)
  have hybrid: "hybrid_partial_write cfg (fill_phase2_request wb share ?g splan i) \<longleftrightarrow> ?S * ?L < BlockSize cfg"
    using bytes unfolding hybrid_partial_write_def fields prod of_nat_less_iff by auto
  have cnt: "\<not> int (?n i) * stripe_byte_len splan < 0" using L by (simp add: mult_less_0_iff)
  show ?thesis
    using geo peers hybrid rq sel i L hs(1) prep prepared_decodes_shard [OF task prep hs(2) _ _ shards]
    by (auto simp: prepare_phase2_def phase2_job_def Let_def cfg fields cnt)
qed

text \<open>What the coordinator's checks give.\<close>

lemma phase2_requests_Inr:
  fixes failed :: "int list"
  assumes req: "phase2_requests cfg gsc wb proxies std_sort elapsed policy preset override share st sid failed = Inr rqs"
  defines "F \<equiv> map nat failed" and "stripe \<equiv> stripe_at st sid" and "active \<equiv> (if 0 < override then override else gsc)"
  defines "plan \<equiv> phase2_plan cfg std_sort elapsed policy preset F"
  obtains splan where "success plan" "set failed \<subseteq> {0..<int (length (stripe_blocks stripe))}" "CodeType cfg = ''gLRC''"
    "phase2_build active (int (BlockSize cfg)) failed (map (\<lambda>i. nd_cluster (node_at st (map2node (stripe_blocks stripe ! i)))) F)
       (map (\<lambda>i. repair_proxy_ip (node_at st (map2node (stripe_blocks stripe ! i)))) F)
       (map (\<lambda>i. repair_proxy_port (node_at st (map2node (stripe_blocks stripe ! i)))) F) gsc = Inr splan"
    "rqs = map (\<lambda>me. (stub_for proxies (partitions splan ! me), fill_phase2_request wb share (glrc_request st stripe F plan) splan me)) [0..<length failed]"
proof -
  let ?build = "phase2_build active (int (BlockSize cfg)) failed (map (\<lambda>i. nd_cluster (node_at st (map2node (stripe_blocks stripe ! i)))) F)
       (map (\<lambda>i. repair_proxy_ip (node_at st (map2node (stripe_blocks stripe ! i)))) F)
       (map (\<lambda>i. repair_proxy_port (node_at st (map2node (stripe_blocks stripe ! i)))) F) gsc"
  note rq = req [unfolded phase2_requests_def Let_def, folded F_def stripe_def active_def, folded plan_def]
  have code: "CodeType cfg = ''gLRC''" by (rule ccontr) (use rq in simp)
  have none: "first_invalid_id stripe failed = None" by (cases "first_invalid_id stripe failed") (use rq code in simp_all)
  have ok: "success plan" by (rule ccontr) (use rq code none in simp)
  obtain splan where splan: "?build = Inr splan" by (cases ?build) (use rq code none ok in simp_all)
  have "rqs = map (\<lambda>me. (stub_for proxies (partitions splan ! me), fill_phase2_request wb share (glrc_request st stripe F plan) splan me)) [0..<length failed]"
    using rq code none ok splan by (simp split: if_splits)
  with ok none [unfolded first_invalid_None] code splan show thesis by (intro that) auto
qed

text \<open>The shards of a standalone repair cover the block; those of the hybrid repair a prefix of it.\<close>

lemma active_shards_fit:
  fixes failed :: "int list"
  assumes "phase2_build active (int bs) failed cids ips ports gsc = Inr splan" "0 < gsc" "active \<le> gsc"
  shows "nat active * nat (stripe_byte_len splan) \<le> bs" "active = gsc \<Longrightarrow> nat active * nat (stripe_byte_len splan) = bs"
proof -
  note b = phase2_build_Inr [OF assms(1)]
  have L: "stripe_byte_len splan = int bs div gsc" "gsc dvd int bs" using b(6,8) assms(2) by auto
  have whole: "nat gsc * nat (stripe_byte_len splan) = bs"
    using L assms(2) by (metis dvd_mult_div_cancel nat_int nat_mult_distrib order_less_imp_le)
  have "nat active * nat (stripe_byte_len splan) \<le> nat gsc * nat (stripe_byte_len splan)" using assms(3) by (intro mult_le_mono1 nat_mono)
  then show "nat active * nat (stripe_byte_len splan) \<le> bs" by (simp only: whole)
  show "nat active * nat (stripe_byte_len splan) = bs" if "active = gsc" using whole that by simp
qed

lemma plan_valid_facts:
  assumes "plan_valid k r z F p" "0 < z" "set F \<subseteq> {..<k + r + z}"
  shows "glrc_codeword k r z bs blocks \<Longrightarrow> repair_task k r z bs blocks F (selected_equation_indices p)"
    "glrc_ilp_decode_matrix_invertible k r z F (selected_equation_indices p)"
    "helpers_cover k r z (helper_block_ids p) F (selected_equation_indices p)"
    "set (helper_block_ids p) \<subseteq> {..<k + r + z} - set F" "distinct F"
proof -
  show inv: "glrc_ilp_decode_matrix_invertible k r z F (selected_equation_indices p)"
    using assms(1) by (auto simp: plan_valid_def accepted_def Let_def)
  show "distinct F" using invertible_distinct [OF inv] by auto
  show "repair_task k r z bs blocks F (selected_equation_indices p)" if "glrc_codeword k r z bs blocks"
    using assms that invertible_distinct [OF inv] inv by (auto simp: repair_task_def plan_valid_def invertible_iff Let_def)
  show "helpers_cover k r z (helper_block_ids p) F (selected_equation_indices p)"
    using assms(1) union_helpers_cover [OF assms(2)] by (auto simp: plan_valid_def Let_def)
  show "set (helper_block_ids p) \<subseteq> {..<k + r + z} - set F"
    using assms(1) union_helpers_in_stripe by (fastforce simp: plan_valid_def Let_def)
qed

lemma phase2_repair_setup:
  fixes failed :: "int list"
  assumes req: "phase2_requests cfg gsc wb proxies std_sort elapsed policy preset override share st sid failed = Inr rqs"
    and cfg: "cfg_k cfg = k" "cfg_r cfg = r" "cfg_z cfg = z" and z: "0 < z" and small: "BlockSize cfg < 2 ^ 31"
    and cw: "glrc_codeword k r z (BlockSize cfg) blocks"
    and surv: "stripe_survives k r z st (stripe_at st sid) blocks (map nat failed) cf"
  defines "F \<equiv> map nat failed" and "active \<equiv> (if 0 < override then override else gsc)"
  defines "plan \<equiv> phase2_plan cfg std_sort elapsed policy preset F"
  assumes shards: "0 < gsc" "active \<le> gsc" "share \<or> active = gsc"
    and plan: "plan_valid k r z F plan" "helper_block_ids plan \<noteq> []"
  obtains L where
    "\<And>i. i < length F \<Longrightarrow> \<exists>job. prepare_phase2 cfg (fst (rqs ! i)) (snd (rqs ! i)) = Inr job"
    "\<And>jobs. (\<And>i. i < length F \<Longrightarrow> prepare_phase2 cfg (fst (rqs ! i)) (snd (rqs ! i)) = Inr (jobs i)) \<Longrightarrow>
       phase2_setup cfg (nat active) L (block_at st (stripe_at st sid)) blocks F (helper_block_ids plan) jobs cf
       \<and> (\<forall>i<length F. job_write (jobs i) = wb \<and> job_stub (jobs i) = fst (rqs ! i))"
    "active = gsc \<Longrightarrow> nat active * L = BlockSize cfg"
    "\<And>i. i < length F \<Longrightarrow> fst (rqs ! i) \<longleftrightarrow> (let nd = node_at st (map2node (stripe_blocks (stripe_at st sid) ! (F ! i)))
       in proxy_key (repair_proxy_ip nd) (repair_proxy_port nd) \<in> set proxies)"
proof -
  let ?stripe = "stripe_at st sid" and ?n = "k + r + z" and ?hs = "helper_block_ids plan" and ?sel = "selected_equation_indices plan"
  let ?nd = "\<lambda>i. node_at st (map2node (stripe_blocks ?stripe ! i))"
  obtain splan where ok: "set failed \<subseteq> {0..<int (length (stripe_blocks ?stripe))}"
    and build: "phase2_build active (int (BlockSize cfg)) failed (map (\<lambda>i. nd_cluster (?nd i)) F) (map (\<lambda>i. repair_proxy_ip (?nd i)) F)
       (map (\<lambda>i. repair_proxy_port (?nd i)) F) gsc = Inr splan"
    and rqs: "rqs = map (\<lambda>me. (stub_for proxies (partitions splan ! me), fill_phase2_request wb share (glrc_request st ?stripe F plan) splan me)) [0..<length failed]"
    by (rule phase2_requests_Inr [OF req, folded F_def active_def, folded plan_def])
  let ?L = "nat (stripe_byte_len splan)"
  have len: "length (stripe_blocks ?stripe) = ?n" and ids: "\<forall>i<?n. blk_id (stripe_blocks ?stripe ! i) = i" and inj: "inj_on (block_at st ?stripe) {..<?n}"
    and there: "\<And>i. i < ?n \<Longrightarrow> i \<notin> set F \<Longrightarrow> cluster_fetch cf (block_at st ?stripe i) = Some (blocks ! i)"
    using surv by (auto simp: stripe_survives_def glrc_placed_def F_def)
  have F: "set F \<subseteq> {..<?n}" using ok by (force simp: F_def len nat_less_iff)
  have lens: "i < ?n \<Longrightarrow> length (blocks ! i) = BlockSize cfg" for i by (rule codeword_length [OF cw])
  note p = plan_valid_facts [OF plan(1) z F]
  note fit = active_shards_fit [OF build shards(1,2)]
  have lf: "length failed = length F" by (simp add: F_def)
  have prepared: "\<exists>job. prepare_phase2 cfg (fst (rqs ! i)) (snd (rqs ! i)) = Inr job \<and> phase2_job cfg (nat active) ?L (block_at st ?stripe) blocks F ?hs i job
      \<and> job_write job = wb \<and> job_stub job = fst (rqs ! i)" if "i < length F" for i
    using phase2_prepared [OF p(1) [OF cw] cfg plan(2) _ ids p(2,3) build lf fit(1) _ that, of share "fst (rqs ! i)" wb st] p(4) fit(2) shards(3) that
    by (auto simp: rqs F_def)
  have geo: "repair_geometry cfg (nat active) ?L blocks F"
    using phase2_build_Inr(1) [OF build] active_bytes_built(2) [OF build] fit(1) small lens F by (auto simp: repair_geometry_def F_def)
  have "phase2_setup cfg (nat active) ?L (block_at st ?stripe) blocks F ?hs jobs cf \<and> (\<forall>i<length F. job_write (jobs i) = wb \<and> job_stub (jobs i) = fst (rqs ! i))"
    if given: "\<And>i. i < length F \<Longrightarrow> prepare_phase2 cfg (fst (rqs ! i)) (snd (rqs ! i)) = Inr (jobs i)" for jobs
  proof -
    have "inj_on (block_at st ?stripe) (set F \<union> set ?hs)" using F p(4) by (intro inj_on_subset [OF inj]) auto
    moreover have "phase2_job cfg (nat active) ?L (block_at st ?stripe) blocks F ?hs i (jobs i) \<and> job_write (jobs i) = wb \<and> job_stub (jobs i) = fst (rqs ! i)"
      if "i < length F" for i using prepared [OF that] given [OF that] by auto
    ultimately show ?thesis using geo p(4,5) there lens unfolding phase2_setup_def by blast
  qed
  moreover have "fst (rqs ! i) \<longleftrightarrow> (let nd = ?nd (F ! i) in proxy_key (repair_proxy_ip nd) (repair_proxy_port nd) \<in> set proxies)" if "i < length F" for i
    using that phase2_build_Inr(10) [OF build] by (auto simp: rqs stub_for_def build_partition_def F_def Let_def)
  ultimately show thesis using that [of ?L] prepared fit(2) by blast
qed

section \<open>Runs\<close>

text \<open>Success is reported only when the repair is complete.\<close>

lemma first_partition: "0 < S \<Longrightarrow> 0 < f \<Longrightarrow> 0 < partition_size S f 0"
  by (cases "S mod f") (auto simp: partition_size_def div_greater_zero_iff)

lemma phase2_success_started:
  assumes init: "phase2_setup cfg S L place blocks F hs jobs cf" and inv: "phase2_inv cfg reach disk S L place blocks F hs jobs cf s"
    and S: "0 < S" and ok: "phase2_success (length F) s"
  shows "\<forall>i<length F. started jobs i"
proof -
  have f: "0 < length F" and job: "phase2_job cfg S L place blocks F hs 0 (jobs 0)" using init by (auto simp: phase2_setup_def repair_geometry_def)
  have cnt: "job_count (jobs 0) \<noteq> 0" using first_partition [OF S f] job by (simp add: phase2_job_def Let_def)
  have "result_ok reach disk place blocks F jobs s 0" "phase2_result (proxies_of s 0) = Some True" using inv f ok by (auto simp: phase2_inv_def phase2_success_def)
  then have "peers_connected (proxies_of s 0)" using cnt by (auto simp: result_ok_def Let_def work_done_def split: if_splits)
  then show ?thesis using inv f by (auto simp: phase2_inv_def result_ok_def Let_def)
qed

lemma phase2_success_complete:
  assumes init: "phase2_setup cfg S L place blocks F hs jobs cf" and inv: "phase2_inv cfg reach disk S L place blocks F hs jobs cf s"
    and S: "0 < S" "S * L = BlockSize cfg" and ok: "phase2_success (length F) s" and i: "i < length F" "job_write (jobs i)"
  shows "cluster_fetch (sys_files s) (place (F ! i)) = Some (blocks ! (F ! i))"
proof -
  have "\<not> job_hybrid (jobs i)" using init i(1) S(2) by (auto simp: phase2_setup_def phase2_job_def Let_def)
  moreover have "started jobs i" using phase2_success_started [OF init inv S(1) ok] i(1) by simp
  moreover have "result_ok reach disk place blocks F jobs s i" "phase2_result (proxies_of s i) = Some True"
    using inv i(1) ok by (auto simp: phase2_inv_def phase2_success_def)
  ultimately show ?thesis using i(2) by (auto simp: result_ok_def Let_def)
qed

text \<open>With fewer shards than failed blocks the last partition is not started, and its peers wait for it in vain.\<close>

lemma too_few_shards:
  assumes init: "phase2_setup cfg S L place blocks F hs jobs cf" and inv: "phase2_inv cfg reach disk S L place blocks F hs jobs cf s"
    and S: "0 < S" "S < length F"
  shows "\<not> phase2_success (length F) s"
proof
  assume ok: "phase2_success (length F) s"
  let ?i = "length F - 1"
  have i: "?i < length F" using S by simp
  have "job_count (jobs ?i) = partition_size S (length F) ?i" using init i by (auto simp: phase2_setup_def phase2_job_def Let_def)
  then have "job_count (jobs ?i) = 0" using S by (simp add: partition_size_def)
  moreover have "started jobs ?i" using phase2_success_started [OF init inv S(1) ok] i by blast
  ultimately show False by (simp add: started_def)
qed

text \<open>A step is not a fault: with reachable nodes no step fails.\<close>

lemma phase2_step_sound:
  assumes init: "phase2_setup cfg S L place blocks F hs jobs cf" and inv: "phase2_inv cfg reach disk S L place blocks F hs jobs cf s"
    and reach: "\<forall>a. reach a" and step: "phase2_step cfg reach disk (length F) jobs s s'" and sound: "\<forall>j. \<not> exchange_failed (proxies_of s j)"
  shows "\<not> exchange_failed (proxies_of s' j)"
proof -
  let ?f = "length F"
  have geo: "repair_geometry cfg S L blocks F" using init by (simp add: phase2_setup_def)
  have job: "phase2_job cfg S L place blocks F hs i (jobs i)" if "i < ?f" for i using init that by (simp add: phase2_setup_def)
  have ok: "proxy_ok cfg S L blocks F hs i (proxies_of s i)" if "i < ?f" for i using inv that by (simp add: phase2_inv_def)
  show ?thesis using step
  proof cases
    case (drain i px h)
    have h: "h < length hs" "hs ! h \<in> set hs" and fields: "job_helpers (jobs i) = map place hs" "job_len (jobs i) = L"
        "job_begin (jobs i) = partition_start S ?f i" "job_count (jobs i) = partition_size S ?f i"
      using drain(2,6) job [OF drain(2)] by (auto simp: phase2_job_def Let_def)
    obtain a key where a: "place (hs ! h) = (a, key)" by fastforce
    let ?n = "partition_size S ?f i" and ?b = "partition_start S ?f i"
    have n: "0 < ?n * L" using unfinished_started [OF inv drain(2)] drain geo by (simp add: running_def started_def fields repair_geometry_def)
    have "(?b + ?n) * L \<le> S * L" using partition_end [OF drain(2)] by (intro mult_le_mono1)
    then have "?b * L + ?n * L \<le> length (blocks ! (hs ! h))"
      using init h(2) by (simp add: phase2_setup_def repair_geometry_def algebra_simps)
    then have "length (handleGetBreakdown key (BlockSize cfg) (?b * L) (int (?n * L)) (sys_files s a)) = ?n * L"
      using helper_file_kept [OF init inv h(2)] n by (subst range_read_exact [of _ _ "blocks ! (hs ! h)"]) (auto simp: cluster_fetch_def a)
    then show ?thesis using drain sound h(1) reach by (auto simp: drain_helper_def fields a Let_def)
  next
    case (decode i px)
    then have "length (helpers_read px) = length hs" "decoded_shards px < partition_size S ?f i" using job [OF decode(2)] by (auto simp: phase2_job_def Let_def)
    then show ?thesis using decode decode_ok [OF geo job [OF decode(2)] ok [OF decode(2)] decode(2)] sound by auto
  next
    case (recv i px peer b n fr frs)
    then have peer: "peer < ?f" "peer \<noteq> i" "b = partition_start S ?f peer" "n = partition_size S ?f peer"
      using peer_member [OF job [OF recv(2)]] by auto
    have "\<not> exchange_failed (recv_shard (jobs i) peer b fr px)"
      using recv_frame [OF init inv recv(2) _ peer(1,2)] recv peer sound by (auto simp: mark_write_shard_ready_def)
    then show ?thesis using recv sound by auto
  next
    case (finish i px barrier cf' px')
    obtain b where "px' = px\<lparr>phase2_result := Some b\<rparr>"
      using finish_outcome [OF geo job [OF finish(2)] _ finish(2) finish(6)] ok [OF finish(2)] finish(3) by blast
    then show ?thesis using finish sound by auto
  qed (use sound in \<open>auto simp: write_shard_def\<close>)
qed

lemma phase2_fault_free:
  assumes init: "phase2_setup cfg S L place blocks F hs jobs cf" and reach: "\<forall>a. reach a"
    and run: "(phase2_step cfg reach disk (length F) jobs)\<^sup>*\<^sup>* (phase2_initial cfg reach jobs cf) s"
  shows "phase2_reachable cfg reach disk (length F) jobs cf s" "\<forall>j. \<not> exchange_failed (proxies_of s j)"
proof -
  have "phase2_reachable cfg reach disk (length F) jobs cf s \<and> (\<forall>j. \<not> exchange_failed (proxies_of s j))" using run
  proof (induction rule: rtranclp_induct)
    case base
    have "reach a" for a using reach by blast
    then have "\<not> exchange_failed (proxies_of (phase2_initial cfg reach jobs cf) j)" for j by (simp add: phase2_initial_def phase2_begin_def)
    then show ?case unfolding phase2_reachable_def by blast
  next
    case (step s s')
    then show ?case using phase2_step_sound [OF init phase2_reachable_inv [OF init] reach step(2)] unfolding phase2_reachable_def
      by (metis (no_types, lifting) rtranclp.rtrancl_into_rtrancl)
  qed
  then show "phase2_reachable cfg reach disk (length F) jobs cf s" "\<forall>j. \<not> exchange_failed (proxies_of s j)" by auto
qed

text \<open>A run without faults that cannot go on has repaired every block.\<close>

lemma phase2_fault_free_succeeds:
  assumes init: "phase2_setup cfg S L place blocks F hs jobs cf" and up: "\<forall>a. reach a \<and> disk a" and S: "S * L = BlockSize cfg"
    and run: "(phase2_step cfg reach disk (length F) jobs)\<^sup>*\<^sup>* (phase2_initial cfg reach jobs cf) s"
    and all: "\<forall>j<length F. started jobs j" and stuck: "\<nexists>s'. phase2_step cfg reach disk (length F) jobs s s'"
  shows "phase2_success (length F) s"
  unfolding phase2_success_def
proof (intro allI impI)
  fix i assume i: "i < length F"
  note free = phase2_fault_free [OF init _ run]
  have inv: "phase2_inv cfg reach disk S L place blocks F hs jobs cf s" using phase2_reachable_inv [OF init free(1)] up by simp
  have "phase2_result (proxies_of s i) \<noteq> None" by (rule phase2_progress [OF init inv all _ stuck i]) (use free(2) up in simp)
  moreover have "\<not> job_hybrid (jobs i)" using init i S by (auto simp: phase2_setup_def phase2_job_def Let_def)
  moreover have "result_ok reach disk place blocks F jobs s i" using inv i by (simp add: phase2_inv_def)
  ultimately show "phase2_result (proxies_of s i) = Some True"
    using free(2) up all i by (cases "phase2_result (proxies_of s i)") (auto simp: result_ok_def Let_def)
qed

lemma phase2_run_exists:
  assumes init: "phase2_setup cfg S L place blocks F hs jobs cf"
  obtains s where "(phase2_step cfg reach disk (length F) jobs)\<^sup>*\<^sup>* (phase2_initial cfg reach jobs cf) s"
    "\<nexists>s'. phase2_step cfg reach disk (length F) jobs s s'"
proof -
  let ?step = "phase2_step cfg reach disk (length F) jobs" and ?s0 = "phase2_initial cfg reach jobs cf"
  have "\<exists>s'. ?step\<^sup>*\<^sup>* s s' \<and> (\<nexists>s''. ?step s' s'')" if "phase2_inv cfg reach disk S L place blocks F hs jobs cf s" for s
    using that
  proof (induction "phase2_work (length F) jobs s" arbitrary: s rule: less_induct)
    case less
    show ?case
    proof (cases "\<exists>t. ?step s t")
      case True
      then obtain t where t: "?step s t" ..
      from less(1) [OF phase2_step_work [OF init less(2) t] phase2_step_inv [OF init t less(2)]]
      show ?thesis using t by (meson converse_rtranclp_into_rtranclp)
    qed blast
  qed
  then show thesis using that initial_inv [OF init] by blast
qed

text \<open>A standalone repair: its own plan, all shards of the block.\<close>

definition phase2_session :: "SysConfig \<Rightarrow> int \<Rightarrow> bool \<Rightarrow> string list \<Rightarrow> sorter \<Rightarrow> real \<Rightarrow> string \<Rightarrow> coordinator \<Rightarrow> nat \<Rightarrow> int list \<Rightarrow> (nat \<Rightarrow> Phase2Job) \<Rightarrow> bool" where
  "phase2_session cfg GlrcShardCount GlrcPhase2WriteBack proxies std_sort elapsed policy st sid failed jobs \<longleftrightarrow>
     (case phase2_requests cfg GlrcShardCount GlrcPhase2WriteBack proxies std_sort elapsed policy None 0 False st sid failed of
        Inl _ \<Rightarrow> False
      | Inr rqs \<Rightarrow> \<forall>i<length failed. prepare_phase2 cfg (fst (rqs ! i)) (snd (rqs ! i)) = Inr (jobs i))"

lemma session_ids:
  assumes "phase2_session cfg gsc wb proxies std_sort elapsed policy st sid failed jobs"
    and "stripe_survives k r z st (stripe_at st sid) blocks F cf"
  shows "set failed \<subseteq> {0..<int (k + r + z)}" "nat ` set failed \<subseteq> {..<k + r + z}"
proof -
  obtain rqs where "phase2_requests cfg gsc wb proxies std_sort elapsed policy None 0 False st sid failed = Inr rqs"
    using assms(1) by (auto simp: phase2_session_def split: sum.splits)
  then have "set failed \<subseteq> {0..<int (length (stripe_blocks (stripe_at st sid)))}" by (rule phase2_requests_Inr)
  then show "set failed \<subseteq> {0..<int (k + r + z)}" using assms(2) by (simp add: stripe_survives_def glrc_placed_def)
  then show "nat ` set failed \<subseteq> {..<k + r + z}" by (force simp: nat_less_iff)
qed

lemma phase2_session_setup:
  fixes failed :: "int list" and gsc :: int
  assumes ses: "phase2_session cfg gsc wb proxies std_sort elapsed policy st sid failed jobs"
    and sorting: "std_sorting std_sort" "glrc_normalize_equation_policy policy \<in> set known_policies"
    and cfg: "cfg_k cfg = k" "cfg_r cfg = r" "cfg_z cfg = z" and z: "0 < z" and small: "BlockSize cfg < 2 ^ 31"
    and cw: "glrc_codeword k r z (BlockSize cfg) blocks"
    and surv: "stripe_survives k r z st (stripe_at st sid) blocks (map nat failed) cf"
  obtains L hs where "phase2_setup cfg (nat gsc) L (block_at st (stripe_at st sid)) blocks (map nat failed) hs jobs cf" "0 < gsc"
    "nat gsc * L = BlockSize cfg" "\<forall>i<length failed. job_write (jobs i) = wb"
    "\<And>i. i < length failed \<Longrightarrow> job_stub (jobs i) \<longleftrightarrow> (let nd = node_at st (map2node (stripe_blocks (stripe_at st sid) ! nat (failed ! i)))
       in proxy_key (repair_proxy_ip nd) (repair_proxy_port nd) \<in> set proxies)" "length hs \<le> k + r + z"
proof -
  let ?F = "map nat failed" and ?solve = "glrc_solve_repair_plan std_sort elapsed (glrc_normalize_equation_policy policy)"
  obtain rqs where req: "phase2_requests cfg gsc wb proxies std_sort elapsed policy None 0 False st sid failed = Inr rqs"
    and jobs: "\<And>i. i < length failed \<Longrightarrow> prepare_phase2 cfg (fst (rqs ! i)) (snd (rqs ! i)) = Inr (jobs i)"
    using ses by (auto simp: phase2_session_def split: sum.splits)
  obtain splan where ok: "success (?solve k r z ?F)" "set failed \<subseteq> {0..<int (length (stripe_blocks (stripe_at st sid)))}"
    and build: "phase2_build gsc (int (BlockSize cfg)) failed (map (\<lambda>i. nd_cluster (node_at st (map2node (stripe_blocks (stripe_at st sid) ! i)))) ?F)
       (map (\<lambda>i. repair_proxy_ip (node_at st (map2node (stripe_blocks (stripe_at st sid) ! i)))) ?F)
       (map (\<lambda>i. repair_proxy_port (node_at st (map2node (stripe_blocks (stripe_at st sid) ! i)))) ?F) gsc = Inr splan"
    and rqs: "rqs = map (\<lambda>me. (stub_for proxies (partitions splan ! me),
       fill_phase2_request wb False (glrc_request st (stripe_at st sid) ?F (?solve k r z ?F)) splan me)) [0..<length failed]"
    by (rule phase2_requests_Inr [OF req]) (auto simp: phase2_plan_def cfg)
  have gsc: "0 < gsc" and ne: "0 < length failed" using phase2_build_Inr(1,2) [OF build] by auto
  have "set ?F \<subseteq> {..<k + r + z}" using ok(2) surv by (force simp: stripe_survives_def glrc_placed_def nat_less_iff)
  note plan = repair_planner.sound [OF std_sorting.dispatch_planner [OF sorting(1)] z this ok(1)] and F = this
  have pv: "plan_valid k r z ?F (?solve k r z ?F)" using plan sorting(2) by (simp add: normalize_idem)
  have hs: "helper_block_ids (?solve k r z ?F) \<noteq> []"
    using jobs [OF ne] rqs ne by (auto simp: prepare_phase2_def fill_phase2_request_def glrc_request_def Let_def split: if_splits)
  have "distinct (helper_block_ids (?solve k r z ?F))"
    using repair_planner.plan_shape(5) [OF std_sorting.dispatch_planner [OF sorting(1)] z F ok(1)] sorting(2)
    by (simp add: normalize_idem strict_sorted_iff)
  then have len: "length (helper_block_ids (?solve k r z ?F)) \<le> k + r + z"
    using plan_valid_facts(4) [OF pv z F] card_mono [of "{..<k + r + z}" "set (helper_block_ids (?solve k r z ?F))"]
    by (simp add: distinct_card subset_iff)
  have pl: "phase2_plan cfg std_sort elapsed policy None ?F = ?solve k r z ?F" by (simp add: phase2_plan_def cfg)
  have act: "(if 0 < (0 :: int) then 0 else gsc) = gsc" by simp
  note plain = phase2_repair_setup [OF req cfg z small cw surv, unfolded act pl, OF gsc order_refl _ pv hs]
  show thesis
  proof (rule plain)
    fix L
    assume st: "\<And>jobs. (\<And>i. i < length ?F \<Longrightarrow> prepare_phase2 cfg (fst (rqs ! i)) (snd (rqs ! i)) = Inr (jobs i)) \<Longrightarrow>
        phase2_setup cfg (nat gsc) L (block_at st (stripe_at st sid)) blocks ?F (helper_block_ids (?solve k r z ?F)) jobs cf
        \<and> (\<forall>i<length ?F. job_write (jobs i) = wb \<and> job_stub (jobs i) = fst (rqs ! i))"
      and whole: "gsc = gsc \<Longrightarrow> nat gsc * L = BlockSize cfg"
      and stub: "\<And>i. i < length ?F \<Longrightarrow> fst (rqs ! i) \<longleftrightarrow> (let nd = node_at st (map2node (stripe_blocks (stripe_at st sid) ! (?F ! i)))
        in proxy_key (repair_proxy_ip nd) (repair_proxy_port nd) \<in> set proxies)"
    note s = st [of jobs, OF jobs]
    show thesis by (rule that [OF s [THEN conjunct1] gsc whole [OF refl] _ _ len]) (use s stub in \<open>auto simp: Let_def\<close>)
  qed simp
qed

text \<open>With a plan, shards that divide the block and stubs for all proxies the session is set up.\<close>

lemma phase2_session_exists:
  fixes failed :: "int list" and gsc :: int
  assumes sorting: "std_sorting std_sort" "glrc_normalize_equation_policy policy \<in> set known_policies"
    and cfg: "CodeType cfg = ''gLRC''" "cfg_k cfg = k" "cfg_r cfg = r" "cfg_z cfg = z" and z: "0 < z" and small: "BlockSize cfg < 2 ^ 31"
    and cw: "glrc_codeword k r z (BlockSize cfg) blocks"
    and surv: "stripe_survives k r z st (stripe_at st sid) blocks (map nat failed) cf"
    and ids: "failed \<noteq> []" "set failed \<subseteq> {0..<int (k + r + z)}" and gsc: "0 < gsc" "gsc dvd int (BlockSize cfg)" "0 < BlockSize cfg"
    and plan: "success (glrc_solve_repair_plan std_sort elapsed (glrc_normalize_equation_policy policy) k r z (map nat failed))"
      "helper_block_ids (glrc_solve_repair_plan std_sort elapsed (glrc_normalize_equation_policy policy) k r z (map nat failed)) \<noteq> []"
    and stubs: "\<And>i. i \<in> set failed \<Longrightarrow> (let nd = node_at st (map2node (stripe_blocks (stripe_at st sid) ! nat i))
       in proxy_key (repair_proxy_ip nd) (repair_proxy_port nd) \<in> set proxies)"
  obtains jobs where "phase2_session cfg gsc wb proxies std_sort elapsed policy st sid failed jobs"
proof -
  let ?stripe = "stripe_at st sid" and ?F = "map nat failed" and ?solve = "glrc_solve_repair_plan std_sort elapsed (glrc_normalize_equation_policy policy)"
  let ?nd = "\<lambda>i. node_at st (map2node (stripe_blocks ?stripe ! i))"
  have n: "length (stripe_blocks ?stripe) = k + r + z" using surv by (simp add: stripe_survives_def glrc_placed_def)
  have none: "first_invalid_id ?stripe failed = None" using ids(2) by (auto simp: first_invalid_None n)
  obtain splan where build: "phase2_build gsc (int (BlockSize cfg)) failed (map (\<lambda>i. nd_cluster (?nd i)) ?F) (map (\<lambda>i. repair_proxy_ip (?nd i)) ?F)
      (map (\<lambda>i. repair_proxy_port (?nd i)) ?F) gsc = Inr splan"
    using iffD2 [OF phase2_accepts_iff [of gsc "int (BlockSize cfg)" failed "map (\<lambda>i. nd_cluster (?nd i)) ?F" "map (\<lambda>i. repair_proxy_ip (?nd i)) ?F"
      "map (\<lambda>i. repair_proxy_port (?nd i)) ?F" gsc]] ids(1) gsc by auto
  have stub: "stub_for proxies (partitions splan ! i)" if "i < length failed" for i
    using that stubs [of "failed ! i"] phase2_build_Inr(10) [OF build] by (simp add: stub_for_def build_partition_def Let_def)
  obtain rqs where req: "phase2_requests cfg gsc wb proxies std_sort elapsed policy None 0 False st sid failed = Inr rqs"
    using none build plan(1) stub cfg by (auto simp: phase2_requests_def phase2_plan_def Let_def)
  have F: "set ?F \<subseteq> {..<k + r + z}" using ids(2) by (force simp: nat_less_iff)
  have "plan_valid k r z ?F (?solve k r z ?F)"
    using repair_planner.sound [OF std_sorting.dispatch_planner [OF sorting(1)] z F plan(1)] sorting(2) by (simp add: normalize_idem)
  note valid = this
  have "\<exists>job. prepare_phase2 cfg (fst (rqs ! i)) (snd (rqs ! i)) = Inr job" if "i < length failed" for i
    by (rule phase2_repair_setup [OF req cfg(2-4) z small cw surv]) (use gsc plan valid that in \<open>auto simp: phase2_plan_def cfg\<close>)
  then obtain jobs where "\<And>i. i < length failed \<Longrightarrow> prepare_phase2 cfg (fst (rqs ! i)) (snd (rqs ! i)) = Inr (jobs i)" by metis
  then have "phase2_session cfg gsc wb proxies std_sort elapsed policy st sid failed jobs" using req by (simp add: phase2_session_def)
  then show thesis by (rule that)
qed

lemma all_started:
  assumes "phase2_setup cfg S L place blocks F hs jobs cf" "length F \<le> S" "\<forall>i<length F. job_stub (jobs i)"
  shows "\<forall>i<length F. started jobs i"
  using assms by (auto simp: started_def phase2_setup_def phase2_job_def partition_size_def Let_def div_greater_zero_iff)

lemma phase2_session_runs:
  fixes failed :: "int list" and gsc :: int
  assumes "phase2_session cfg gsc wb proxies std_sort elapsed policy st sid failed jobs"
    and "std_sorting std_sort" "glrc_normalize_equation_policy policy \<in> set known_policies"
    and "cfg_k cfg = k" "cfg_r cfg = r" "cfg_z cfg = z" "0 < z" "BlockSize cfg < 2 ^ 31"
    and "glrc_codeword k r z (BlockSize cfg) blocks" "stripe_survives k r z st (stripe_at st sid) blocks (map nat failed) cf"
    and "length failed \<le> nat gsc" "\<forall>i<length failed. job_stub (jobs i)"
  obtains s where "phase2_reachable cfg (\<lambda>_. True) (\<lambda>_. True) (length failed) jobs cf s" "phase2_success (length failed) s"
proof -
  let ?F = "map nat failed"
  obtain L hs where init: "phase2_setup cfg (nat gsc) L (block_at st (stripe_at st sid)) blocks ?F hs jobs cf" and S: "nat gsc * L = BlockSize cfg"
    by (rule phase2_session_setup [OF assms(1-10)])
  obtain s where run: "(phase2_step cfg (\<lambda>_. True) (\<lambda>_. True) (length ?F) jobs)\<^sup>*\<^sup>* (phase2_initial cfg (\<lambda>_. True) jobs cf) s"
    and stuck: "\<nexists>s'. phase2_step cfg (\<lambda>_. True) (\<lambda>_. True) (length ?F) jobs s s'"
    by (rule phase2_run_exists [OF init])
  have started: "\<forall>i<length ?F. started jobs i" using all_started [OF init] assms(11,12) by simp
  show thesis
    using that phase2_fault_free(1) [OF init _ run] phase2_fault_free_succeeds [OF init _ S run started stuck] by simp
qed

end
