(* ===== verification/Config.thy ===== *)
theory Config
  imports Hmbr Layout "HOL-Library.Signed_Division"
begin

text \<open>
  The configuration of \<^verbatim>\<open>config.cpp\<close>: reading the parameter file, the derived code parameters and the checks that
  every process of the system runs before it starts.  The parsed XML file is an argument: the text of each child element
  of the root, \<open>Some None\<close> for an element without text.  An exception of \<^verbatim>\<open>std::stoi\<close>, a failed \<^verbatim>\<open>assert\<close> (the build
  does not define \<^verbatim>\<open>NDEBUG\<close>), a division by zero and an overflow of \<^verbatim>\<open>int\<close> end the process; each is a value of
  \<open>config_error\<close>.  \<^verbatim>\<open>double\<close> values are real numbers, as in the other theories.
\<close>

section \<open>Text and numbers\<close>

datatype config_error = Bad_text string | Int_overflow | Div_by_zero | Assertion_failed string

type_synonym elements = "string \<Rightarrow> string option option"

definition bindE :: "config_error + 'a \<Rightarrow> ('a \<Rightarrow> config_error + 'b) \<Rightarrow> config_error + 'b" where
  "bindE m f = (case m of Inl e \<Rightarrow> Inl e | Inr v \<Rightarrow> f v)"

lemma bindE_simps [simp]: "bindE (Inl e) f = Inl e" "bindE (Inr v) f = f v"
  by (simp_all add: bindE_def)

lemma bindE_Inr: "bindE m f = Inr w \<longleftrightarrow> (\<exists>v. m = Inr v \<and> f v = Inr w)"
  by (auto simp: bindE_def split: sum.splits)

definition int_range :: "int \<Rightarrow> bool" where
  "int_range v \<longleftrightarrow> - (2 ^ 31) \<le> v \<and> v < 2 ^ 31"

definition int_of :: "int \<Rightarrow> config_error + int" where
  "int_of v = (if int_range v then Inr v else Inl Int_overflow)"

definition int_div :: "int \<Rightarrow> int \<Rightarrow> config_error + int" where
  "int_div a b = (if b = 0 then Inl Div_by_zero else int_of (a sdiv b))"

definition int_mod :: "int \<Rightarrow> int \<Rightarrow> config_error + int" where
  "int_mod a b = (if b = 0 then Inl Div_by_zero else bindE (int_of (a sdiv b)) (\<lambda>_. Inr (a smod b)))"

definition assertE :: "bool \<Rightarrow> string \<Rightarrow> config_error + unit" where
  "assertE b msg = (if b then Inr () else Inl (Assertion_failed msg))"

lemma int_of_Inr [simp]: "int_of v = Inr w \<longleftrightarrow> w = v \<and> int_range v"
  by (auto simp: int_of_def)

lemma assertE_Inr [simp]: "assertE b msg = Inr u \<longleftrightarrow> b"
  by (simp add: assertE_def)

lemma int_div_Inr: "int_div a b = Inr q \<longleftrightarrow> b \<noteq> 0 \<and> q = a sdiv b \<and> int_range (a sdiv b)"
  by (auto simp: int_div_def)

text \<open>\<open>std::stod\<close> on decimal numbers: white space, sign, digits with an optional fraction, optional exponent.
  Hexadecimal numbers and the words for infinity and not-a-number are not read.\<close>

definition read_exponent :: "string \<Rightarrow> int" where
  "read_exponent s =
     (case s of c # rest \<Rightarrow>
        if c = CHR ''e'' \<or> c = CHR ''E'' then
          let neg = (case rest of d # _ \<Rightarrow> d = CHR ''-'' | [] \<Rightarrow> False);
              body = (case rest of d # ds \<Rightarrow> if d = CHR ''-'' \<or> d = CHR ''+'' then ds else rest | [] \<Rightarrow> rest);
              v = digits_value (takeWhile isdigit body)
          in if neg then - v else v
        else 0
      | [] \<Rightarrow> 0)"

definition stod :: "string \<Rightarrow> real option" where
  "stod s =
     (let rest = dropWhile isspace s;
          neg = (case rest of c # _ \<Rightarrow> c = CHR ''-'' | [] \<Rightarrow> False);
          body = (case rest of c # cs \<Rightarrow> if c = CHR ''+'' \<or> c = CHR ''-'' then cs else rest | [] \<Rightarrow> rest);
          whole = takeWhile isdigit body; after = drop (length whole) body;
          frac = (case after of c # cs \<Rightarrow> if c = CHR ''.'' then takeWhile isdigit cs else [] | [] \<Rightarrow> []);
          tail = (case after of c # cs \<Rightarrow> if c = CHR ''.'' then drop (length frac) cs else after | [] \<Rightarrow> []);
          ex = read_exponent tail;
          mant = of_int (digits_value (whole @ frac)) / 10 ^ length frac;
          v = (if ex \<ge> 0 then mant * 10 ^ nat ex else mant / 10 ^ nat (- ex))
      in if whole = [] \<and> frac = [] then None else Some (if neg then - v else v))"

definition trim_config_text :: "string option \<Rightarrow> string" where
  "trim_config_text text =
     (case text of None \<Rightarrow> []
      | Some value \<Rightarrow>
          let first = length (takeWhile isspace value); last = length value - length (takeWhile isspace (rev value))
          in if first < last then take (last - first) (drop first value) else [])"

section \<open>The configuration and its loader\<close>

record Config =
  c_AlignedSize :: int
  c_UnitSize :: int
  c_BlockSize :: int
  c_NodeBlockBandwidthMBps :: real
  c_alpha :: int
  c_z :: int
  c_n :: int
  c_k :: int
  c_r :: int
  c_DatanodeNumPerCluster :: int
  c_ClusterNum :: int
  c_CoordinatorIP :: string
  c_CoordinatorPort :: int
  c_ClientIP :: string
  c_ClientPort :: int
  c_AppendMode :: string
  c_CodeType :: string
  c_GlrcRepairMode :: string
  c_GlrcHybridP :: string
  c_GlrcEquationPolicy :: string
  c_GlrcHmbrP :: string
  c_GlrcHmbrEquationPolicy :: string
  c_GlrcShardCount :: int
  c_GlrcPipelineWindow :: int
  c_GlrcPhase2WriteBack :: bool
  c_N :: nat
  c_num_arry :: "int list"

definition default_config :: Config where
  "default_config =
     \<lparr>c_AlignedSize = 4096, c_UnitSize = 8 * 1024, c_BlockSize = 1024 * 1024, c_NodeBlockBandwidthMBps = 0,
      c_alpha = 2, c_z = 2, c_n = 2 * 2 * 2 + 2, c_k = 2 * 2 * 2 - 2 * 2, c_r = 2 * 2,
      c_DatanodeNumPerCluster = 0, c_ClusterNum = 0, c_CoordinatorIP = ''0.0.0.0'', c_CoordinatorPort = 55555,
      c_ClientIP = ''127.0.0.1'', c_ClientPort = 55555, c_AppendMode = ''UNILRC_MODE'', c_CodeType = ''UniLRC'',
      c_GlrcRepairMode = ''phase1'', c_GlrcHybridP = ''auto'', c_GlrcEquationPolicy = ''local-then-global'',
      c_GlrcHmbrP = ''auto'', c_GlrcHmbrEquationPolicy = ''global-first'', c_GlrcShardCount = 16,
      c_GlrcPipelineWindow = 0, c_GlrcPhase2WriteBack = True, c_N = 0, c_num_arry = []\<rparr>"

definition set_int :: "elements \<Rightarrow> string \<Rightarrow> ((int \<Rightarrow> int) \<Rightarrow> Config \<Rightarrow> Config) \<Rightarrow> Config \<Rightarrow> config_error + Config" where
  "set_int elem name upd c =
     (case elem name of None \<Rightarrow> Inr c
      | Some text \<Rightarrow> (case Option.bind text stoi of None \<Rightarrow> Inl (Bad_text name) | Some (v, _) \<Rightarrow> Inr (upd (\<lambda>_. v) c)))"

definition set_real :: "elements \<Rightarrow> string \<Rightarrow> ((real \<Rightarrow> real) \<Rightarrow> Config \<Rightarrow> Config) \<Rightarrow> Config \<Rightarrow> config_error + Config" where
  "set_real elem name upd c =
     (case elem name of None \<Rightarrow> Inr c
      | Some text \<Rightarrow> (case Option.bind text stod of None \<Rightarrow> Inl (Bad_text name) | Some v \<Rightarrow> Inr (upd (\<lambda>_. v) c)))"

definition set_text :: "elements \<Rightarrow> string \<Rightarrow> ((string \<Rightarrow> string) \<Rightarrow> Config \<Rightarrow> Config) \<Rightarrow> Config \<Rightarrow> config_error + Config" where
  "set_text elem name upd c =
     Inr (case elem name of None \<Rightarrow> c | Some text \<Rightarrow> upd (\<lambda>_. trim_config_text text) c)"

fun run_steps :: "(Config \<Rightarrow> config_error + Config) list \<Rightarrow> Config \<Rightarrow> config_error + Config" where
  "run_steps [] c = Inr c"
| "run_steps (s # ss) c = bindE (s c) (run_steps ss)"

definition load_write_back :: "elements \<Rightarrow> Config \<Rightarrow> config_error + Config" where
  "load_write_back elem c =
     Inr (case elem ''GlrcPhase2WriteBack'' of None \<Rightarrow> c
          | Some text \<Rightarrow> let v = trim_config_text text
              in c\<lparr>c_GlrcPhase2WriteBack := \<not> (v = ''0'' \<or> v = ''false'' \<or> v = ''FALSE'')\<rparr>)"

definition load_code_parameters :: "elements \<Rightarrow> Config \<Rightarrow> config_error + Config" where
  "load_code_parameters elem c =
     (if c_CodeType c = ''UniLRC'' then
        bindE (set_int elem ''alpha'' c_alpha_update c) (\<lambda>c.
        bindE (int_of (c_alpha c * c_z c)) (\<lambda>az.
        bindE (int_of (az * c_z c)) (\<lambda>azz.
        bindE (int_of (azz - az)) (\<lambda>k. Inr (c\<lparr>c_k := k, c_r := az\<rparr>)))))
      else if c_CodeType c = ''RS'' then
        run_steps [set_int elem ''k'' c_k_update, set_int elem ''r'' c_r_update] (c\<lparr>c_z := 0\<rparr>)
      else run_steps [set_int elem ''k'' c_k_update, set_int elem ''r'' c_r_update] c)"

definition load_length :: "Config \<Rightarrow> config_error + Config" where
  "load_length c =
     bindE (int_of (c_k c + c_r c)) (\<lambda>kr. bindE (int_of (kr + c_z c)) (\<lambda>n. Inr (c\<lparr>c_n := n\<rparr>)))"

text \<open>\<open>oob\<close> gives the result of converting a \<open>double\<close> that \<open>int\<close> cannot represent, which C++ leaves undefined.\<close>

definition groups_for :: "(int \<Rightarrow> int) \<Rightarrow> Config \<Rightarrow> nat \<Rightarrow> int" where
  "groups_for oob c i =
     (let v = \<lceil>(2 ^ i * real_of_int (c_k c) + of_int (c_r c)) / of_int (c_r c)\<rceil> in if int_range v then v else oob v)"

definition get_N :: "(int \<Rightarrow> int) \<Rightarrow> Config \<Rightarrow> nat" where
  "get_N oob c =
     (if c_ClusterNum c \<le> 0 \<or> c_r c \<le> 0 then 0
      else case find (\<lambda>i. groups_for oob c i \<le> c_ClusterNum c \<and> groups_for oob c (i + 1) > c_ClusterNum c) [0..<32] of
          Some i \<Rightarrow> i | None \<Rightarrow> 0)"

fun get_num_arry :: "(int \<Rightarrow> int) \<Rightarrow> Config \<Rightarrow> nat list \<Rightarrow> config_error + int list" where
  "get_num_arry oob c [] = Inr []"
| "get_num_arry oob c (i # is) =
     bindE (int_of (groups_for oob c (i - 1) * 2)) (\<lambda>t.
     bindE (int_of (t - groups_for oob c i)) (\<lambda>v.
     bindE (get_num_arry oob c is) (\<lambda>vs. Inr (v # vs))))"

definition load_groups :: "(int \<Rightarrow> int) \<Rightarrow> Config \<Rightarrow> config_error + Config" where
  "load_groups oob c =
     (let m = get_N oob c in
      bindE (get_num_arry oob (c\<lparr>c_N := m\<rparr>) [1..<m + 1]) (\<lambda>vs. Inr (c\<lparr>c_N := m, c_num_arry := vs\<rparr>)))"

definition load_parameters :: "elements \<Rightarrow> Config \<Rightarrow> config_error + Config" where
  "load_parameters elem = run_steps
     [set_int elem ''AlignedSize'' c_AlignedSize_update,
      set_int elem ''UnitSize'' c_UnitSize_update,
      set_int elem ''BlockSize'' (\<lambda>f. c_BlockSize_update (\<lambda>b. f b mod 2 ^ 32)),
      set_real elem ''NodeBlockBandwidthMBps'' c_NodeBlockBandwidthMBps_update,
      set_int elem ''z'' c_z_update,
      set_text elem ''CodeType'' c_CodeType_update,
      set_text elem ''GlrcRepairMode'' c_GlrcRepairMode_update,
      set_text elem ''GlrcEquationPolicy'' c_GlrcEquationPolicy_update,
      set_int elem ''GlrcShardCount'' c_GlrcShardCount_update,
      set_int elem ''GlrcPipelineWindow'' c_GlrcPipelineWindow_update,
      set_text elem ''GlrcHybridP'' c_GlrcHybridP_update,
      set_text elem ''GlrcHmbrP'' c_GlrcHmbrP_update,
      set_text elem ''GlrcHmbrEquationPolicy'' c_GlrcHmbrEquationPolicy_update,
      load_write_back elem]"

definition load_cluster :: "elements \<Rightarrow> Config \<Rightarrow> config_error + Config" where
  "load_cluster elem = run_steps
     [set_int elem ''DatanodeNumPerCluster'' c_DatanodeNumPerCluster_update,
      set_int elem ''ClusterNum'' c_ClusterNum_update,
      set_text elem ''CoordinatorIP'' c_CoordinatorIP_update,
      set_int elem ''CoordinatorPort'' c_CoordinatorPort_update,
      set_text elem ''ClientIP'' c_ClientIP_update,
      set_int elem ''ClientPort'' c_ClientPort_update,
      set_text elem ''AppendMode'' c_AppendMode_update]"

definition loadConfig :: "(int \<Rightarrow> int) \<Rightarrow> elements option \<Rightarrow> Config \<Rightarrow> config_error + Config" where
  "loadConfig oob doc c =
     (case doc of None \<Rightarrow> Inr c
      | Some elem \<Rightarrow>
          run_steps [load_parameters elem, load_code_parameters elem, load_length, load_cluster elem, load_groups oob] c)"

section \<open>The checks\<close>

fun all_checks :: "(config_error + unit) list \<Rightarrow> config_error + unit" where
  "all_checks [] = Inr ()"
| "all_checks (c # cs) = bindE c (\<lambda>_. all_checks cs)"

lemma all_checks_Inr: "all_checks cs = Inr u \<longleftrightarrow> (\<forall>c\<in>set cs. c = Inr ())"
  by (induction cs) (auto simp: bindE_Inr)

definition check_unit_size :: "Config \<Rightarrow> config_error + unit" where
  "check_unit_size c =
     (if c_UnitSize c mod 2 ^ 32 = 0 then Inl Div_by_zero
      else assertE (c_BlockSize c mod (c_UnitSize c mod 2 ^ 32) = 0) ''BlockSize must be divisible by UnitSize'')"

definition check_repair_mode :: "Config \<Rightarrow> config_error + unit" where
  "check_repair_mode c =
     (if c_CodeType c \<noteq> ''gLRC'' then Inr ()
      else all_checks
        [assertE (c_GlrcRepairMode c \<in> {''phase1'', ''phase2'', ''pipeline'', ''hybrid'', ''hmbr''})
           ''GlrcRepairMode must be phase1, phase2, pipeline, hybrid, or hmbr'',
         if c_GlrcRepairMode c \<noteq> ''phase1''
         then assertE (c_GlrcShardCount c > 0 \<and> c_BlockSize c mod c_GlrcShardCount c = 0) ''BlockSize must be divisible by GlrcShardCount''
         else Inr (),
         if c_GlrcRepairMode c = ''hmbr''
         then all_checks
           [assertE (c_GlrcShardCount c \<ge> 2) ''HMBR-LRC requires GlrcShardCount >= 2'',
            assertE (c_NodeBlockBandwidthMBps c > 0) ''HMBR-LRC requires positive NodeBlockBandwidthMBps'',
            assertE (c_GlrcHmbrEquationPolicy c \<in> {''global-first'', ''rule-based'', ''local-then-global'', ''local-first'', ''ilp-min-helper''})
              ''invalid GlrcHmbrEquationPolicy'']
         else Inr ()])"

definition check_unilrc :: "Config \<Rightarrow> config_error + unit" where
  "check_unilrc c =
     bindE (int_div (c_n c) (c_z c)) (\<lambda>q. all_checks
       [assertE (c_DatanodeNumPerCluster c > q) ''DatanodeNumPerCluster must be greater than n / z'',
        assertE (c_ClusterNum c > c_z c) ''ClusterNum must be greater than z''])"

definition check_azure :: "Config \<Rightarrow> config_error + unit" where
  "check_azure c =
     bindE (int_div (c_k c) (c_z c)) (\<lambda>q. bindE (int_of (q + 1)) (\<lambda>q1.
       bindE (assertE (c_DatanodeNumPerCluster c > q1) ''DatanodeNumPerCluster must be greater than k / z + 1'') (\<lambda>_.
       bindE (int_of (c_z c + 1)) (\<lambda>z1. assertE (c_ClusterNum c > z1) ''ClusterNum must be greater than z + 1''))))"

text \<open>The floating-point bound of the optimal code: a division by zero gives an infinity or not-a-number, and the
  comparison with the bound then holds exactly for the negative infinity.\<close>

definition optimal_bound_exceeded :: "Config \<Rightarrow> int \<Rightarrow> bool" where
  "optimal_bound_exceeded c r1 =
     (if c_z c = 0 then False
      else if r1 = 0 then c_k c < 0
      else real_of_int (c_ClusterNum c) > of_int \<lceil>real_of_int (c_k c) / of_int (c_z c) / of_int r1\<rceil> * of_int (c_z c) + 1)"

definition check_optimal :: "Config \<Rightarrow> config_error + unit" where
  "check_optimal c =
     bindE (int_of (c_r c + 1)) (\<lambda>r1. all_checks
       [assertE (c_DatanodeNumPerCluster c > r1) ''DatanodeNumPerCluster must be greater than r + 1'',
        assertE (optimal_bound_exceeded c r1) ''ClusterNum must be greater than std::ceil(1.0 * k / z / (r + 1)) * z + 1''])"

text \<open>\<open>a / b + (bool)(a % b)\<close>\<close>

definition rounded_up :: "int \<Rightarrow> int \<Rightarrow> config_error + int" where
  "rounded_up a b = bindE (int_div a b) (\<lambda>q. bindE (int_mod a b) (\<lambda>m. int_of (q + (if m \<noteq> 0 then 1 else 0))))"

definition uniform_clusters :: "Config \<Rightarrow> config_error + int" where
  "uniform_clusters c =
     bindE (int_of (c_k c + c_r c)) (\<lambda>kr. bindE (int_div kr (c_z c)) (\<lambda>q. bindE (int_mod kr (c_z c)) (\<lambda>m.
     bindE (int_of (q + 1)) (\<lambda>q1. bindE (int_of (c_r c + 1)) (\<lambda>r1.
     bindE (rounded_up q1 r1) (\<lambda>a. bindE (int_of (a * m)) (\<lambda>am.
     bindE (rounded_up q r1) (\<lambda>b. bindE (int_of (c_z c - m)) (\<lambda>zm. bindE (int_of (b * zm)) (\<lambda>bzm. int_of (am + bzm)))))))))))"

definition check_uniform :: "Config \<Rightarrow> config_error + unit" where
  "check_uniform c =
     bindE (assertE (c_DatanodeNumPerCluster c > c_r c) ''DatanodeNumPerCluster must be greater than r'') (\<lambda>_.
     bindE (uniform_clusters c) (\<lambda>m. assertE (c_ClusterNum c > m) ''ClusterNum is too small''))"

definition check_glrc :: "Config \<Rightarrow> config_error + unit" where
  "check_glrc c =
     bindE (assertE (c_z c > 0) ''z must be positive for gLRC'') (\<lambda>_.
     bindE (int_of (c_k c + c_r c)) (\<lambda>kr. bindE (int_of (kr + c_z c)) (\<lambda>krz. bindE (int_of (krz - 1)) (\<lambda>s.
     bindE (int_div s (c_z c)) (\<lambda>max_payload_per_group.
     bindE (assertE (max_payload_per_group \<ge> c_r c) ''the final balanced gLRC group must hold all r global parities'') (\<lambda>_.
     bindE (int_of (max_payload_per_group + 1)) (\<lambda>max_blocks_per_group. all_checks
       [assertE (c_DatanodeNumPerCluster c \<ge> max_blocks_per_group) ''DatanodeNumPerCluster must fit the largest gLRC placement group'',
        assertE (c_ClusterNum c \<ge> c_z c) ''ClusterNum must be at least z for gLRC''])))))))"

definition check_rs :: "Config \<Rightarrow> config_error + unit" where
  "check_rs c =
     bindE (int_of (c_k c + c_r c)) (\<lambda>n.
     bindE (assertE (c_DatanodeNumPerCluster c \<ge> 1) ''DatanodeNumPerCluster must be >= 1 for RS code'') (\<lambda>_.
     bindE (int_of (c_ClusterNum c * c_DatanodeNumPerCluster c)) (\<lambda>m.
       assertE (m \<ge> n) ''ClusterNum * DatanodeNumPerCluster must be >= (k + r) for RS code'')))"

definition validateConfig :: "Config \<Rightarrow> config_error + unit" where
  "validateConfig c = all_checks
     [check_unit_size c,
      assertE (c_AppendMode c \<in> {''REP_MODE'', ''UNILRC_MODE'', ''CACHED_MODE'', ''EQUIOX_MODE''}) ''AppendMode must be REP_MODE, UNILRC_MODE, or CACHED_MODE'',
      assertE (c_CodeType c \<in> {''UniLRC'', ''AzureLRC'', ''OptimalLRC'', ''UniformLRC'', ''gLRC'', ''RS''})
        ''CodeType must be UniLRC, AzureLRC, OptimalLRC, UniformLRC, gLRC, or RS'',
      check_repair_mode c,
      assertE (c_DatanodeNumPerCluster c > 0) ''DatanodeNumPerCluster must be greater than 0'',
      assertE (c_ClusterNum c > 0) ''ClusterNum must be greater than 0'',
      if c_CodeType c = ''UniLRC'' then check_unilrc c else Inr (),
      if c_CodeType c = ''AzureLRC'' then check_azure c else Inr (),
      if c_CodeType c = ''OptimalLRC'' then check_optimal c else Inr (),
      if c_CodeType c = ''UniformLRC'' then check_uniform c else Inr (),
      if c_CodeType c = ''gLRC'' then check_glrc c else Inr (),
      if c_CodeType c = ''RS'' then check_rs c else Inr ()]"

definition construct_config :: "(int \<Rightarrow> int) \<Rightarrow> elements option \<Rightarrow> config_error + Config" where
  "construct_config oob doc =
     bindE (loadConfig oob doc default_config) (\<lambda>c. bindE (validateConfig c) (\<lambda>_. Inr c))"

text \<open>\<open>getInstance\<close> keeps the first configuration for the life of the process.\<close>

definition getInstance :: "(int \<Rightarrow> int) \<Rightarrow> (string \<Rightarrow> elements option) \<Rightarrow> string \<Rightarrow> Config option \<Rightarrow> config_error + Config option \<times> Config" where
  "getInstance oob files path inst =
     (case inst of Some c \<Rightarrow> Inr (inst, c)
      | None \<Rightarrow> bindE (construct_config oob (files path)) (\<lambda>c. Inr (Some c, c)))"

section \<open>The fields keep their types\<close>

definition int_fields :: "Config \<Rightarrow> int list" where
  "int_fields c = [c_AlignedSize c, c_UnitSize c, c_alpha c, c_z c, c_n c, c_k c, c_r c, c_DatanodeNumPerCluster c,
     c_ClusterNum c, c_CoordinatorPort c, c_ClientPort c, c_GlrcShardCount c, c_GlrcPipelineWindow c]"

definition config_typed :: "Config \<Rightarrow> bool" where
  "config_typed c \<longleftrightarrow> list_all int_range (int_fields c) \<and> 0 \<le> c_BlockSize c \<and> c_BlockSize c < 2 ^ 32
     \<and> list_all int_range (c_num_arry c) \<and> length (c_num_arry c) = c_N c \<and> c_N c < 32"

definition keeps :: "(Config \<Rightarrow> bool) \<Rightarrow> (Config \<Rightarrow> config_error + Config) \<Rightarrow> bool" where
  "keeps P s \<longleftrightarrow> (\<forall>c c'. P c \<longrightarrow> s c = Inr c' \<longrightarrow> P c')"

lemma keepsD: "keeps P s \<Longrightarrow> s c = Inr c' \<Longrightarrow> P c \<Longrightarrow> P c'"
  by (auto simp: keeps_def)

lemma keeps_run_steps:
  assumes "\<forall>s\<in>set ss. keeps P s"
  shows "keeps P (run_steps ss)"
proof -
  have "P c'" if "run_steps ss c = Inr c'" "P c" for c c'
    using assms that by (induction ss arbitrary: c) (auto simp: bindE_Inr dest: keepsD)
  then show ?thesis by (simp add: keeps_def)
qed

lemma stoi_range: "stoi s = Some (v, m) \<Longrightarrow> int_range v"
  by (simp add: stoi_def Let_def int_range_def split: if_splits)

lemma keeps_set_int:
  assumes "\<And>c v. P c \<Longrightarrow> int_range v \<Longrightarrow> P (upd (\<lambda>_. v) c)"
  shows "keeps P (set_int elem name upd)"
  using assms stoi_range by (auto simp: keeps_def set_int_def bind_eq_Some_conv split: option.splits)

lemma keeps_set_real: "(\<And>c v. P c \<Longrightarrow> P (upd (\<lambda>_. v) c)) \<Longrightarrow> keeps P (set_real elem name upd)"
  by (auto simp: keeps_def set_real_def split: option.splits)

lemma keeps_set_text: "(\<And>c v. P c \<Longrightarrow> P (upd (\<lambda>_. v) c)) \<Longrightarrow> keeps P (set_text elem name upd)"
  by (auto simp: keeps_def set_text_def split: option.splits)

lemmas keeps_steps = keeps_set_int keeps_set_real keeps_set_text keeps_run_steps

lemma keeps_write_back: "keeps config_typed (load_write_back elem)"
  by (auto simp: keeps_def load_write_back_def config_typed_def int_fields_def Let_def split: option.splits)

lemma keeps_parameters: "keeps config_typed (load_parameters elem)"
  unfolding load_parameters_def
  by (rule keeps_run_steps, simp only: list.set ball_simps, intro conjI TrueI keeps_set_int keeps_set_real keeps_set_text keeps_write_back;
      simp add: config_typed_def int_fields_def)

lemma keeps_code_parameters: "keeps config_typed (load_code_parameters elem)"
proof -
  have steps: "keeps config_typed (run_steps [set_int elem ''k'' c_k_update, set_int elem ''r'' c_r_update])"
    "keeps config_typed (set_int elem ''alpha'' c_alpha_update)"
    by (auto intro!: keeps_steps simp: config_typed_def int_fields_def)
  have rs: "config_typed (c\<lparr>c_z := 0\<rparr>)" if "config_typed c" for c
    using that by (auto simp: config_typed_def int_fields_def int_range_def)
  show ?thesis unfolding keeps_def
  proof (intro allI impI)
    fix c c' assume c: "config_typed c" and load: "load_code_parameters elem c = Inr c'"
    consider "c_CodeType c = ''UniLRC''" | "c_CodeType c = ''RS''" | "c_CodeType c \<noteq> ''UniLRC''" "c_CodeType c \<noteq> ''RS''" by blast
    then show "config_typed c'"
    proof cases
      case 1
      then obtain c1 where "set_int elem ''alpha'' c_alpha_update c = Inr c1"
        and c': "c' = c1\<lparr>c_k := c_alpha c1 * c_z c1 * c_z c1 - c_alpha c1 * c_z c1, c_r := c_alpha c1 * c_z c1\<rparr>"
        and "int_range (c_alpha c1 * c_z c1 * c_z c1 - c_alpha c1 * c_z c1)" "int_range (c_alpha c1 * c_z c1)"
        using load by (auto simp: load_code_parameters_def bindE_Inr)
      then show ?thesis using keepsD [OF steps(2) _ c] by (auto simp: config_typed_def int_fields_def)
    next
      case 2
      then show ?thesis using load keepsD [OF steps(1) _ rs [OF c]] by (simp add: load_code_parameters_def)
    next
      case 3
      then show ?thesis using load keepsD [OF steps(1) _ c] by (simp add: load_code_parameters_def)
    qed
  qed
qed

lemma get_N_less: "get_N oob c < 32"
  by (auto simp: get_N_def find_Some_iff split: option.splits)

lemma get_num_arry_typed: "get_num_arry oob c is = Inr vs \<Longrightarrow> length vs = length is \<and> list_all int_range vs"
  by (induction "is" arbitrary: vs) (auto simp: bindE_Inr)

lemma keeps_typed: "keeps config_typed load_length" "keeps config_typed (load_cluster elem)" "keeps config_typed (load_groups oob)"
proof -
  show "keeps config_typed load_length" by (auto simp: keeps_def load_length_def bindE_Inr config_typed_def int_fields_def)
  show "keeps config_typed (load_cluster elem)" unfolding load_cluster_def
    by (rule keeps_run_steps) (auto intro!: keeps_steps simp: config_typed_def int_fields_def)
  show "keeps config_typed (load_groups oob)"
    by (auto simp: keeps_def load_groups_def Let_def bindE_Inr config_typed_def int_fields_def get_N_less dest!: get_num_arry_typed)
qed

lemma default_config_typed: "config_typed default_config"
  by (simp add: config_typed_def int_fields_def default_config_def int_range_def)

lemma loadConfig_typed:
  assumes "loadConfig oob doc c = Inr c'" "config_typed c"
  shows "config_typed c'"
proof (cases doc)
  case (Some elem)
  have "keeps config_typed (run_steps [load_parameters elem, load_code_parameters elem, load_length, load_cluster elem, load_groups oob])"
    by (rule keeps_run_steps) (simp add: keeps_parameters keeps_code_parameters keeps_typed)
  from keepsD [OF this _ assms(2)] show ?thesis using assms(1) by (simp add: loadConfig_def Some)
qed (use assms in \<open>simp add: loadConfig_def\<close>)

section \<open>What an accepted configuration guarantees\<close>

definition config_sized :: "Config \<Rightarrow> bool" where
  "config_sized c \<longleftrightarrow> c_n c = c_k c + c_r c + c_z c"

lemma keeps_sized: "keeps config_sized (load_cluster elem)" "keeps config_sized (load_groups oob)"
  by (auto intro!: keeps_steps simp: load_cluster_def config_sized_def keeps_def [of _ "load_groups oob"] load_groups_def Let_def bindE_Inr)

lemma loadConfig_sized:
  assumes "loadConfig oob (Some elem) c = Inr c'"
  shows "c_n c' = c_k c' + c_r c' + c_z c'"
proof -
  obtain c1 c2 c3 where "load_length c1 = Inr c2" "load_cluster elem c2 = Inr c3" "load_groups oob c3 = Inr c'"
    using assms by (auto simp: loadConfig_def bindE_Inr)
  moreover from this(1) have "config_sized c2" by (auto simp: load_length_def bindE_Inr config_sized_def)
  ultimately show ?thesis using keepsD [OF keeps_sized(1)] keepsD [OF keeps_sized(2)] by (auto simp: config_sized_def)
qed

lemma construct_config_Inr:
  assumes "construct_config oob doc = Inr c"
  shows "\<exists>elem. doc = Some elem \<and> loadConfig oob doc default_config = Inr c \<and> validateConfig c = Inr ()"
proof -
  have load: "loadConfig oob doc default_config = Inr c" "validateConfig c = Inr ()"
    using assms by (auto simp: construct_config_def bindE_Inr)
  moreover have "validateConfig default_config \<noteq> Inr ()"
    by (simp add: validateConfig_def all_checks_Inr default_config_def del: all_checks.simps)
  ultimately show ?thesis by (cases doc) (auto simp: loadConfig_def)
qed

text \<open>The largest payload group, as the check computes it.\<close>

definition ceil_group :: "nat \<Rightarrow> nat \<Rightarrow> nat \<Rightarrow> nat" where
  "ceil_group k r z = (k + r + z - 1) div z"

lemma ceil_group_eq:
  assumes "0 < z"
  shows "ceil_group k r z = (k + r) div z + (if (k + r) mod z = 0 then 0 else 1)"
proof -
  let ?q = "(k + r) div z" and ?m = "(k + r) mod z"
  have e: "k + r + z - 1 = ?q * z + (?m + z - 1)" using assms div_mult_mod_eq [of "k + r" z] by simp
  have "(?m + z - 1) div z = (if ?m = 0 then 0 else 1)"
    using assms mod_less_divisor [OF assms, of "k + r"] by (auto simp: div_nat_eqI)
  moreover have "(?q * z + (?m + z - 1)) div z = ?q + (?m + z - 1) div z" using assms by (simp only: div_mult_self3)
  ultimately show ?thesis unfolding ceil_group_def e by simp
qed

lemma payload_of_group:
  "g < z \<Longrightarrow> group_start k r z (Suc g) = group_start k r z g + ((k + r) div z + (if small_groups k r z \<le> g then 1 else 0))"
  by (simp add: group_start_Suc payload_blocks_nat)

lemma payload_group_le_ceil: "g < z \<Longrightarrow> group_start k r z (Suc g) - group_start k r z g \<le> ceil_group k r z"
  by (auto simp: payload_of_group ceil_group_eq small_groups_def)

lemma last_group_is_ceil:
  assumes "z = Suc m"
  shows "group_start k r z z = group_start k r z m + ceil_group k r z"
  unfolding assms using payload_of_group [of m "Suc m" k r] by (auto simp: ceil_group_eq small_groups_def split: if_splits)

lemma placement_group_fits:
  assumes "g < z"
  shows "length (glrc_build_placement_groups k r z ! g) \<le> ceil_group k r z + 1"
  using assms payload_group_le_ceil [OF assms, of k r] by (simp add: placement_groups_eq)

lemma last_group_holds_globals:
  assumes "0 < z" "r \<le> ceil_group k r z"
  shows "glrc_global_blocks_in_group (int z - 1) (int k) (int r) (int z) = int r"
proof -
  obtain m where m: "z = Suc m" using assms(1) by (cases z) auto
  then have mz: "m < z" "int z - 1 = int m" by simp_all
  have "payload_start_loop (int m) (int k) (int r) (int z) = int (group_start k r z m)" by (rule payload_start_loop_eq) (use mz in simp)
  moreover have "glrc_payload_blocks_in_group (int m) (int k) (int r) (int z) = int (ceil_group k r z)"
  proof -
    have "small_groups k r z \<le> m \<longleftrightarrow> (k + r) mod z \<noteq> 0" unfolding small_groups_def m by auto
    then show ?thesis using payload_blocks_nat [OF mz(1), of k r] ceil_group_eq [OF assms(1), of k r] by simp
  qed
  moreover have "k + r = group_start k r z m + ceil_group k r z" using last_group_is_ceil [OF m, of k r] assms(1) by (simp add: group_start_z)
  ultimately show ?thesis using assms(2) mz by (simp add: glrc_global_blocks_in_group_def Let_def)
qed

lemma check_glrc_Inr:
  assumes "check_glrc c = Inr ()" "c_k c = int k" "c_r c = int r"
  shows "\<exists>z. c_z c = int z \<and> 0 < z \<and> r \<le> ceil_group k r z \<and> int (ceil_group k r z + 1) \<le> c_DatanodeNumPerCluster c
     \<and> int z \<le> c_ClusterNum c"
proof -
  from assms(1) have z: "0 < c_z c"
    and q: "c_r c \<le> (c_k c + c_r c + c_z c - 1) sdiv c_z c" "(c_k c + c_r c + c_z c - 1) sdiv c_z c + 1 \<le> c_DatanodeNumPerCluster c"
      "c_z c \<le> c_ClusterNum c"
    by (auto simp: check_glrc_def bindE_Inr int_div_Inr all_checks_Inr)
  from z have cz: "c_z c = int (nat (c_z c))" "0 < nat (c_z c)" by simp_all
  then have "(c_k c + c_r c + c_z c - 1) sdiv c_z c = int (ceil_group k r (nat (c_z c)))"
    by (simp add: sdiv_nonneg ceil_group_def assms zdiv_int of_nat_diff)
  then show ?thesis using cz q assms(2,3) by (intro exI [of _ "nat (c_z c)"]) simp
qed

text \<open>The sharded repair modes get a plan, HMBR a split.\<close>

lemma repair_mode_shards:
  assumes "check_repair_mode c = Inr ()" "c_CodeType c = ''gLRC''" "c_GlrcRepairMode c \<noteq> ''phase1''" "0 < c_BlockSize c"
    and "failed \<noteq> []" "length cids = length failed" "length ips = length failed" "length ports = length failed"
  shows "\<exists>plan. phase2_build (c_GlrcShardCount c) (c_BlockSize c) failed cids ips ports 0 = Inr plan"
proof -
  have "0 < c_GlrcShardCount c" "c_BlockSize c smod c_GlrcShardCount c = 0"
    using assms(1-4) by (auto simp: check_repair_mode_def bindE_Inr smod_nonneg)
  then show ?thesis using assms(4-) by (cases failed) (auto simp: phase2_build_def Let_def)
qed

lemma repair_mode_split:
  assumes "check_repair_mode c = Inr ()" "c_CodeType c = ''gLRC''" "c_GlrcRepairMode c = ''hmbr''" "0 < c_BlockSize c"
    and "c_GlrcHmbrP c = ''auto''" "1 \<le> helpers" "1 \<le> failed"
  shows "\<exists>s. glrc_hmbr_build_shard_split (c_GlrcShardCount c) (c_BlockSize c) helpers failed
     (c_NodeBlockBandwidthMBps c) (c_NodeBlockBandwidthMBps c) (c_GlrcHmbrP c) = Inr s"
proof -
  have "2 \<le> c_GlrcShardCount c" "c_BlockSize c smod c_GlrcShardCount c = 0" "0 < c_NodeBlockBandwidthMBps c"
    using assms(1-4) by (auto simp: check_repair_mode_def bindE_Inr smod_nonneg)
  then show ?thesis using assms(4-) by (auto simp: glrc_hmbr_build_shard_split_def hmbr_choice_def split: prod.splits)
qed

text \<open>\<open>get_N\<close> finds the largest exponent whose groups fit the clusters.\<close>

definition exact_groups :: "Config \<Rightarrow> nat \<Rightarrow> int" where
  "exact_groups c i = \<lceil>(2 ^ i * real_of_int (c_k c) + of_int (c_r c)) / of_int (c_r c)\<rceil>"

lemma exact_groups_step:
  assumes "0 < c_k c" "0 < c_r c"
  shows "exact_groups c i \<le> exact_groups c (Suc i)" "exact_groups c (Suc i) \<le> 2 * exact_groups c i" "0 < exact_groups c i"
proof -
  define x where "x = 2 ^ i * real_of_int (c_k c) / of_int (c_r c)"
  have "0 < x" using assms by (simp add: x_def)
  moreover have e: "exact_groups c i = \<lceil>x + 1\<rceil>" "exact_groups c (Suc i) = \<lceil>2 * x + 1\<rceil>"
    using assms by (simp_all add: exact_groups_def x_def add_divide_distrib mult.assoc)
  ultimately show "exact_groups c i \<le> exact_groups c (Suc i)" "0 < exact_groups c i"
    by (simp_all only: e) (auto intro: ceiling_mono simp: zero_less_ceiling)
  have "2 * x + 1 \<le> of_int (2 * \<lceil>x + 1\<rceil>)" using le_of_int_ceiling [of x] by (simp del: le_of_int_ceiling)
  then show "exact_groups c (Suc i) \<le> 2 * exact_groups c i" unfolding e by (simp only: ceiling_le_iff)
qed

lemma get_N_is_maximal:
  assumes "0 < c_k c" "0 < c_r c" "c_ClusterNum c < 2 ^ 30" "exact_groups c 0 \<le> c_ClusterNum c" "c_ClusterNum c < exact_groups c 32"
  shows "exact_groups c i \<le> c_ClusterNum c \<longleftrightarrow> i \<le> get_N oob c"
proof -
  let ?C = "c_ClusterNum c" and ?t = "exact_groups c"
  note step = exact_groups_step [OF assms(1,2)]
  have mono: "?t i \<le> ?t j" if "i \<le> j" for i j using lift_Suc_mono_le [of ?t, OF step(1) that] .
  define m where "m = (LEAST i. ?C < ?t (Suc i))"
  have m: "?C < ?t (Suc m)" unfolding m_def using LeastI [of "\<lambda>i. ?C < ?t (Suc i)" 31] assms(5) by simp
  have m31: "m \<le> 31" unfolding m_def using assms(5) by (intro Least_le) simp
  have le: "?t i \<le> ?C" if "i \<le> m" for i
    using that assms(4) not_less_Least [of "i - 1" "\<lambda>i. ?C < ?t (Suc i)"] by (cases i) (auto simp: m_def)
  have exact: "groups_for oob c i = ?t i" if "i \<le> Suc m" for i
  proof -
    have "?t i \<le> 2 * ?C" using that le [of "i - 1"] step(2) [of "i - 1"] le [of i] step(3) [of i] by (cases "i \<le> m") (auto simp: le_Suc_eq)
    then have "int_range (?t i)" using assms(3) step(3) [of i] by (simp add: int_range_def)
    then show ?thesis by (simp add: groups_for_def exact_groups_def Let_def)
  qed
  have "0 < ?C" using assms(4) step(3) [of 0] by simp
  moreover have "find (\<lambda>i. groups_for oob c i \<le> ?C \<and> groups_for oob c (i + 1) > ?C) [0..<32] = Some m"
    unfolding find_Some_iff using m m31 le exact by (intro exI [of _ m]) (auto simp: not_less le)
  ultimately have N: "get_N oob c = m" using assms(2) by (simp add: get_N_def)
  have "m < i \<Longrightarrow> ?C < ?t i" using m mono [of "Suc m" i] by simp
  then show ?thesis using le [of i] N by (metis not_le)
qed

section \<open>The shipped configuration\<close>

text \<open>The elements of \<^verbatim>\<open>config/parameterConfiguration.xml\<close>.\<close>

definition shipped_elements :: elements where
  "shipped_elements = map_of
     [(''AlignedSize'', Some ''4096''), (''UnitSize'', Some ''8192''), (''BlockSize'', Some ''67108864''),
      (''NodeBlockBandwidthMBps'', Some ''125''), (''GlrcRepairMode'', Some ''hmbr''), (''GlrcHybridP'', Some ''auto''),
      (''GlrcHmbrP'', Some ''auto''), (''GlrcHmbrEquationPolicy'', Some ''global-first''),
      (''GlrcEquationPolicy'', Some ''local-then-global''), (''GlrcShardCount'', Some ''128''),
      (''GlrcPipelineWindow'', Some ''0''), (''GlrcPhase2WriteBack'', Some ''true''), (''DatanodeNumPerCluster'', Some ''14''),
      (''ClusterNum'', Some ''2''), (''CoordinatorIP'', Some ''172.16.3.15''), (''CoordinatorPort'', Some ''55555''),
      (''ClientIP'', Some ''172.16.3.248''), (''ClientPort'', Some ''55555''), (''AppendMode'', Some ''UNILRC_MODE''),
      (''alpha'', Some ''2''), (''CodeType'', Some ''gLRC''), (''k'', Some ''24''), (''r'', Some ''2''), (''z'', Some ''2'')]"

lemma shipped_accepted:
  "case construct_config (\<lambda>_. 0) (Some shipped_elements) of Inl _ \<Rightarrow> False
   | Inr c \<Rightarrow> c_CodeType c = ''gLRC'' \<and> c_k c = 24 \<and> c_r c = 2 \<and> c_z c = 2 \<and> c_GlrcRepairMode c = ''hmbr''"
  by code_simp

text \<open>With the shipped values no exponent fits, and the search converts numbers that \<open>int\<close> cannot hold.\<close>

lemma shipped_search_leaves_int:
  "c_k c = 24 \<Longrightarrow> c_r c = 2 \<Longrightarrow> c_ClusterNum c = 2 \<Longrightarrow> exact_groups c 0 > c_ClusterNum c \<and> \<not> int_range (exact_groups c 31)"
  by (simp add: exact_groups_def int_range_def)

section \<open>Helpers of the tool box\<close>

definition erase_at :: "nat \<Rightarrow> 'a list \<Rightarrow> 'a list" where
  "erase_at i xs = take i xs @ drop (Suc i) xs"

definition remove_common_zeros :: "int list \<Rightarrow> int list \<Rightarrow> int list \<Rightarrow> int list \<times> int list \<times> int list" where
  "remove_common_zeros vec1 vec2 vec3 =
     (if length vec1 \<noteq> length vec2 \<or> length vec2 \<noteq> length vec3 then (vec1, vec2, vec3)
      else let indices_to_remove = filter (\<lambda>i. vec1 ! i = 0 \<and> vec2 ! i = 0 \<and> vec3 ! i = 0) [0..<length vec1]
           in fold (\<lambda>i (a, b, c). (erase_at i a, erase_at i b, erase_at i c)) (rev indices_to_remove) (vec1, vec2, vec3))"

lemma erase_filtered:
  assumes "n \<le> length xs"
  shows "fold erase_at (rev (filter P [0..<n])) xs = map ((!) xs) (filter (\<lambda>i. \<not> P i) [0..<n]) @ drop n xs"
  using assms
proof (induction n arbitrary: xs)
  case (Suc n)
  show ?case
  proof (cases "P n")
    case True
    have "map ((!) (erase_at n xs)) (filter (\<lambda>i. \<not> P i) [0..<n]) = map ((!) xs) (filter (\<lambda>i. \<not> P i) [0..<n])"
      using Suc.prems by (auto simp: erase_at_def nth_append)
    then show ?thesis using True Suc.prems Suc.IH [of "erase_at n xs"] by (simp add: erase_at_def)
  next
    case False
    then show ?thesis using Suc.prems Suc.IH [of xs] by (simp add: Cons_nth_drop_Suc)
  qed
qed simp

lemma fold_triple:
  "fold (\<lambda>i (a, b, c). (f i a, f i b, f i c)) is (a, b, c) = (fold f is a, fold f is b, fold f is c)"
  by (induction "is" arbitrary: a b c) auto

lemma remove_common_zeros_keeps_the_rest:
  assumes "length vec1 = length vec2" "length vec2 = length vec3"
  defines "js \<equiv> filter (\<lambda>i. \<not> (vec1 ! i = 0 \<and> vec2 ! i = 0 \<and> vec3 ! i = 0)) [0..<length vec1]"
  shows "remove_common_zeros vec1 vec2 vec3 = (map ((!) vec1) js, map ((!) vec2) js, map ((!) vec3) js)"
proof -
  let ?P = "\<lambda>i. vec1 ! i = 0 \<and> vec2 ! i = 0 \<and> vec3 ! i = 0"
  have "fold erase_at (rev (filter ?P [0..<length vec1])) v = map ((!) v) js" if "length v = length vec1" for v :: "int list"
    using erase_filtered [of "length vec1" v ?P] that unfolding js_def by simp
  then show ?thesis using assms(1,2) by (simp only: remove_common_zeros_def Let_def fold_triple) simp
qed

text \<open>The value of \<open>random_generate_kv\<close>: whole alphabets, then a loop whose bound shrinks as the value grows.\<close>

definition alphabet :: string where
  "alphabet = map char_of [65::nat..<91]"

function kv_tail :: "int \<Rightarrow> int \<Rightarrow> string \<Rightarrow> string" where
  "kv_tail value_length i v =
     (if i < value_length - int (length v) then kv_tail value_length (i + 1) (v @ [char_of (65 + i)]) else v)"
  by auto
termination by (relation "measure (\<lambda>(l, i, v). nat (l - int (length v) - i))") auto

declare kv_tail.simps [simp del]

definition kv_value :: "string \<Rightarrow> int \<Rightarrow> string" where
  "kv_value v value_length =
     (if value_length = 0 then v else kv_tail value_length 0 (v @ concat (replicate (nat (value_length sdiv 26)) alphabet)))"

lemma length_kv_tail: "0 \<le> i \<Longrightarrow> int (length (kv_tail l i v)) = int (length v) + max 0 ((l - int (length v) - i + 1) div 2)"
proof (induction l i v rule: kv_tail.induct)
  case (1 l i v)
  show ?case
  proof (cases "i < l - int (length v)")
    case True
    then show ?thesis using 1 by (simp add: kv_tail.simps [of l i v] max_def)
  next
    case False
    then show ?thesis by (simp add: kv_tail.simps [of l i v])
  qed
qed

lemma kv_value_is_short:
  assumes "0 \<le> l"
  shows "int (length (kv_value [] l)) = l - l mod 26 div 2"
proof -
  have "int (length (concat (replicate (nat (l sdiv 26)) alphabet))) = l div 26 * 26"
    using assms by (simp add: sdiv_nonneg length_concat sum_list_replicate alphabet_def pos_imp_zdiv_nonneg_iff)
  then show ?thesis using assms by (simp add: kv_value_def length_kv_tail) presburger
qed

end
