(* ===== verification/Bandwidth.thy ===== *)
theory Bandwidth
  imports Prelude
begin

text \<open>
  The bandwidth limits of \<^verbatim>\<open>link_bandwidth.h\<close>.  A clock reading is a number of nanoseconds; \<^verbatim>\<open>double\<close> values are real
  numbers, a \<^verbatim>\<open>duration_cast\<close> truncates and a sleep lasts at least the given time.  The threads of a process that share a limiter
  are a step relation: a thread reserves its next transfer, at a clock reading taken under the mutex, only after its
  previous call has returned.
\<close>

section \<open>Transfer times\<close>

text \<open>The transfer time of a chunk, whose size is far below the range of \<^verbatim>\<open>size_t\<close>.\<close>

definition transfer_seconds :: "nat \<Rightarrow> real \<Rightarrow> real" where
  "transfer_seconds nbytes bw =
     (if bw \<le> 0 \<or> nbytes = 0 then 0 else of_nat nbytes / (bw * 1024 * 1024))"

definition sleep_for_bandwidth_remainder :: "real \<Rightarrow> real \<Rightarrow> real" where
  "sleep_for_bandwidth_remainder expected_sec elapsed_sec = (if expected_sec > elapsed_sec then expected_sec - elapsed_sec else 0)"

text \<open>The time that a write or read in chunks of 64 KiB takes, from the outcome and the duration of each chunk.\<close>

fun node_paced :: "real \<Rightarrow> nat \<Rightarrow> (bool \<times> real) list \<Rightarrow> bool \<times> real" where
  "node_paced bw len [] = (len = 0, 0)"
| "node_paced bw len ((ok, elapsed) # os) =
     (if len = 0 then (True, 0)
      else let n = min (64 * 1024) len;
               t = elapsed + sleep_for_bandwidth_remainder (transfer_seconds n bw) elapsed
           in if ok then case node_paced bw (len - n) os of (done_ok, rest) \<Rightarrow> (done_ok, t + rest) else (False, t))"

lemma transfer_seconds_add:
  "transfer_seconds (a + b) bw = transfer_seconds a bw + transfer_seconds b bw"
  by (simp add: transfer_seconds_def add_divide_distrib)

lemma node_paced_takes_its_time:
  "node_paced bw len os = (True, t) \<Longrightarrow> transfer_seconds len bw \<le> t"
proof (induction bw len os arbitrary: t rule: node_paced.induct)
  case (1 bw len)
  then show ?case by (simp add: transfer_seconds_def)
next
  case (2 bw len ok elapsed os)
  show ?case
  proof (cases "len = 0")
    case True
    then show ?thesis using 2 by (simp add: transfer_seconds_def)
  next
    case False
    let ?n = "min (64 * 1024) len"
    obtain rest where rest: "ok" "node_paced bw (len - ?n) os = (True, rest)"
      "t = elapsed + sleep_for_bandwidth_remainder (transfer_seconds ?n bw) elapsed + rest"
      using False 2(2) by (auto simp: Let_def split: if_splits prod.splits)
    have "transfer_seconds (len - ?n) bw \<le> rest" using 2(1) [OF False refl refl rest(1,2)] .
    moreover have "transfer_seconds len bw = transfer_seconds ?n bw + transfer_seconds (len - ?n) bw"
      unfolding transfer_seconds_add [symmetric] by simp
    ultimately show ?thesis using rest(3) by (auto simp: sleep_for_bandwidth_remainder_def split: if_splits)
  qed
qed

section \<open>The shared limiter\<close>

record SharedBandwidthLimiter =
  bandwidth_mbps :: real
  next_slot :: int

definition nanoseconds :: "real \<Rightarrow> int" where
  "nanoseconds sec = \<lfloor>sec * 10 ^ 9\<rfloor>"

definition snap_back :: "int \<Rightarrow> int \<Rightarrow> int" where
  "snap_back now slot = (if slot > now + 30 * 10 ^ 9 then now else slot)"

definition limiter_reset :: "int \<Rightarrow> SharedBandwidthLimiter \<Rightarrow> SharedBandwidthLimiter" where
  "limiter_reset now lm = lm\<lparr>next_slot := now\<rparr>"

text \<open>Both calls return the limiter and the time at which the caller continues.\<close>

definition wait_for_transfer :: "int \<Rightarrow> nat \<Rightarrow> SharedBandwidthLimiter \<Rightarrow> SharedBandwidthLimiter \<times> int" where
  "wait_for_transfer now nbytes lm =
     (if bandwidth_mbps lm \<le> 0 \<or> nbytes = 0 then (lm, now)
      else let sec = transfer_seconds nbytes (bandwidth_mbps lm);
               slot = snap_back now (next_slot lm);
               start = (if slot > now then slot else now)
           in (lm\<lparr>next_slot := start + nanoseconds sec\<rparr>, start))"

definition account_after_io :: "int \<Rightarrow> nat \<Rightarrow> real \<Rightarrow> SharedBandwidthLimiter \<Rightarrow> SharedBandwidthLimiter \<times> int" where
  "account_after_io now nbytes io_elapsed_sec lm =
     (if bandwidth_mbps lm \<le> 0 \<or> nbytes = 0 then (lm, now)
      else let ideal = transfer_seconds nbytes (bandwidth_mbps lm);
               credit = min (max 0 io_elapsed_sec) ideal;
               slot = snap_back now (next_slot lm);
               start = (if slot > now then slot else now);
               slot' = start + nanoseconds ideal;
               sleep_sec = max 0 (of_int (slot' - now) / 10 ^ 9 - credit)
           in (lm\<lparr>next_slot := slot'\<rparr>, if sleep_sec > 0 then now + \<lceil>sleep_sec * 10 ^ 9\<rceil> else now))"

datatype SharedBandwidthPace = Primary | DrainThenAccount

datatype limiter_call = Wait nat | Account nat real

text \<open>The calls of one shared write or read of \<open>len\<close> bytes, from the outcome and the duration of each chunk of 1 MiB.\<close>

fun shared_calls :: "SharedBandwidthPace \<Rightarrow> nat \<Rightarrow> (bool \<times> real) list \<Rightarrow> limiter_call list" where
  "shared_calls pace len [] = []"
| "shared_calls pace len ((ok, elapsed) # os) =
     (if len = 0 then []
      else let n = min (1024 * 1024) len
           in (case pace of Primary \<Rightarrow> [Wait n] | DrainThenAccount \<Rightarrow> if ok then [Account n elapsed] else [])
              @ (if ok then shared_calls pace (len - n) os else []))"

fun call_bytes :: "limiter_call \<Rightarrow> nat" where
  "call_bytes (Wait n) = n"
| "call_bytes (Account n _) = n"

lemma shared_calls_sizes: "c \<in> set (shared_calls pace len os) \<Longrightarrow> 0 < call_bytes c \<and> call_bytes c \<le> 1024 * 1024"
  by (induction pace len os rule: shared_calls.induct) (auto simp: Let_def split: if_splits SharedBandwidthPace.splits)

lemma shared_calls_cover:
  "list_all fst os \<Longrightarrow> len \<le> length os * (1024 * 1024) \<Longrightarrow> sum_list (map call_bytes (shared_calls pace len os)) = len"
proof (induction pace len os rule: shared_calls.induct)
  case (2 pace len ok elapsed os)
  have "sum_list (map call_bytes (shared_calls pace (len - min (1024 * 1024) len) os)) = len - min (1024 * 1024) len" if "len \<noteq> 0"
  proof -
    have "len - min (1024 * 1024) len \<le> length os * (1024 * 1024)" using 2(3) by auto
    then show ?thesis using 2(1) [OF that refl] 2(2) by simp
  qed
  then show ?case using 2(2) by (auto simp: Let_def split: SharedBandwidthPace.splits)
qed simp

section \<open>Threads that share a limiter\<close>

text \<open>A reservation: its start and the bytes it stands for.  The newest is first.\<close>

record pacing =
  pace_limiter :: SharedBandwidthLimiter
  pace_clock :: int
  pace_wake :: "nat \<Rightarrow> int"
  pace_slots :: "(nat \<times> int \<times> nat) list"

definition limiter_call :: "int \<Rightarrow> limiter_call \<Rightarrow> SharedBandwidthLimiter \<Rightarrow> SharedBandwidthLimiter \<times> int" where
  "limiter_call now c lm = (case c of Wait n \<Rightarrow> wait_for_transfer now n lm | Account n e \<Rightarrow> account_after_io now n e lm)"

definition slot_ns :: "real \<Rightarrow> nat \<Rightarrow> int" where
  "slot_ns bw n = nanoseconds (transfer_seconds n bw)"

inductive pacing_step :: "nat \<Rightarrow> pacing \<Rightarrow> pacing \<Rightarrow> bool" for threads where
  call: "t < threads \<Longrightarrow> pace_clock s \<le> now \<Longrightarrow> pace_wake s t \<le> now \<Longrightarrow> 0 < call_bytes c \<Longrightarrow> call_bytes c \<le> 1024 * 1024
    \<Longrightarrow> limiter_call now c (pace_limiter s) = (lm', wake)
    \<Longrightarrow> pacing_step threads s
         \<lparr>pace_limiter = lm', pace_clock = now, pace_wake = (pace_wake s)(t := wake),
          pace_slots = (t, next_slot lm' - slot_ns (bandwidth_mbps lm') (call_bytes c), call_bytes c) # pace_slots s\<rparr>"

definition pacing_start :: "real \<Rightarrow> int \<Rightarrow> pacing" where
  "pacing_start bw now =
     \<lparr>pace_limiter = \<lparr>bandwidth_mbps = bw, next_slot = now\<rparr>, pace_clock = now, pace_wake = (\<lambda>_. now), pace_slots = []\<rparr>"

definition pacing_reachable :: "nat \<Rightarrow> real \<Rightarrow> int \<Rightarrow> pacing \<Rightarrow> bool" where
  "pacing_reachable threads bw now s \<longleftrightarrow> (pacing_step threads)\<^sup>*\<^sup>* (pacing_start bw now) s"

lemma slot_ns_bounds:
  assumes "0 < bw"
  shows "0 \<le> slot_ns bw n" "n \<le> m \<Longrightarrow> slot_ns bw n \<le> slot_ns bw m" "of_nat n * 10 ^ 9 / (bw * 1024 * 1024) < of_int (slot_ns bw n) + 1"
  using assms by (auto simp: slot_ns_def nanoseconds_def transfer_seconds_def divide_right_mono intro!: floor_mono)

definition slot_start :: "int \<Rightarrow> SharedBandwidthLimiter \<Rightarrow> int" where
  "slot_start now lm = max now (snap_back now (next_slot lm))"

lemma limiter_call_slot:
  assumes "limiter_call now c lm = (lm', wake)" "0 < bandwidth_mbps lm" "0 < call_bytes c"
  shows "lm' = lm\<lparr>next_slot := slot_start now lm + slot_ns (bandwidth_mbps lm) (call_bytes c)\<rparr>" "slot_start now lm \<le> wake"
proof -
  let ?st = "slot_start now lm"
  have st: "(if snap_back now (next_slot lm) > now then snap_back now (next_slot lm) else now) = ?st" by (simp add: slot_start_def)
  show "lm' = lm\<lparr>next_slot := ?st + slot_ns (bandwidth_mbps lm) (call_bytes c)\<rparr>"
    using assms st by (cases c) (auto simp: limiter_call_def wait_for_transfer_def account_after_io_def slot_ns_def Let_def split: if_splits)
  show "?st \<le> wake"
  proof (cases c)
    case (Wait n)
    then show ?thesis using assms by (auto simp: limiter_call_def wait_for_transfer_def slot_start_def Let_def split: if_splits)
  next
    case (Account n e)
    let ?i = "transfer_seconds n (bandwidth_mbps lm)"
    define sl where "sl = max 0 (of_int (?st + nanoseconds ?i - now) / 10 ^ 9 - min (max 0 e) ?i)"
    have w: "wake = (if sl > 0 then now + \<lceil>sl * 10 ^ 9\<rceil> else now)"
      using assms(1-3) st by (auto simp: Account limiter_call_def account_after_io_def sl_def Let_def)
    have "of_int (?st + nanoseconds ?i - now) / 10 ^ 9 - ?i \<le> sl" unfolding sl_def by (simp add: max_def min_def)
    then have "of_int (?st + nanoseconds ?i - now) - ?i * 10 ^ 9 \<le> sl * 10 ^ 9" by (simp add: field_simps)
    moreover have "?i * 10 ^ 9 - 1 < of_int (nanoseconds ?i)" by (simp add: nanoseconds_def)
    ultimately have "of_int (?st - now - 1) < sl * 10 ^ 9" by simp
    then show ?thesis using w by (auto simp: less_ceiling_iff) linarith
  qed
qed

section \<open>The slots of a link do not overlap\<close>

fun spaced :: "real \<Rightarrow> int \<Rightarrow> (nat \<times> int \<times> nat) list \<Rightarrow> bool" where
  "spaced bw end_ns [] \<longleftrightarrow> True"
| "spaced bw end_ns ((t, st, n) # ss) \<longleftrightarrow> st + slot_ns bw n \<le> end_ns \<and> spaced bw st ss"

definition waiting :: "int \<Rightarrow> (nat \<times> int \<times> nat) list \<Rightarrow> nat list" where
  "waiting now ss = map fst (filter (\<lambda>(t, st, n). now < st) ss)"

definition pacing_inv :: "nat \<Rightarrow> real \<Rightarrow> pacing \<Rightarrow> bool" where
  "pacing_inv threads bw s \<longleftrightarrow>
     bandwidth_mbps (pace_limiter s) = bw \<and> spaced bw (next_slot (pace_limiter s)) (pace_slots s)
     \<and> (\<forall>(t, st, n) \<in> set (pace_slots s). t < threads \<and> st \<le> pace_wake s t)
     \<and> distinct (waiting (pace_clock s) (pace_slots s))
     \<and> (\<forall>now \<ge> pace_clock s. next_slot (pace_limiter s) - now
           \<le> slot_ns bw (1024 * 1024) * (1 + int (length (waiting now (pace_slots s)))))"

lemma waiting_later: "now \<le> later \<Longrightarrow> distinct (waiting now ss) \<Longrightarrow> distinct (waiting later ss)"
  by (induction ss) (auto simp: waiting_def split: if_splits)

lemma pacing_backlog:
  assumes "pacing_inv threads bw s" "0 < bw" "t < threads" "pace_clock s \<le> now" "pace_wake s t \<le> now"
  shows "next_slot (pace_limiter s) \<le> now + int threads * slot_ns bw (1024 * 1024)"
proof -
  let ?w = "waiting now (pace_slots s)"
  have "distinct ?w" using assms(1,4) waiting_later by (auto simp: pacing_inv_def)
  moreover have "set ?w \<subseteq> {..<threads} - {t}" using assms(1,5) by (fastforce simp: waiting_def pacing_inv_def)
  ultimately have "length ?w \<le> threads - 1"
    using card_mono [of "{..<threads} - {t}" "set ?w"] assms(3) by (simp add: distinct_card)
  then have "1 + int (length ?w) \<le> int threads" using assms(3) by linarith
  then have "slot_ns bw (1024 * 1024) * (1 + int (length ?w)) \<le> slot_ns bw (1024 * 1024) * int threads"
    using slot_ns_bounds(1) [OF assms(2)] by (intro mult_left_mono)
  moreover have "next_slot (pace_limiter s) - now \<le> slot_ns bw (1024 * 1024) * (1 + int (length ?w))"
    using assms(1,4) by (simp add: pacing_inv_def)
  ultimately show ?thesis by (simp add: mult.commute)
qed

lemma pacing_inv_start: "0 < bw \<Longrightarrow> pacing_inv threads bw (pacing_start bw now)"
  using slot_ns_bounds(1) [of bw "1024 * 1024"] by (auto simp: pacing_inv_def pacing_start_def waiting_def)

lemma waiting_Cons: "waiting now ((t, st, n) # ss) = (if now < st then t # waiting now ss else waiting now ss)"
  by (simp add: waiting_def)

lemma pacing_inv_step:
  assumes "pacing_step threads s s'" "pacing_inv threads bw s" "0 < bw" "int threads * slot_ns bw (1024 * 1024) \<le> 30 * 10 ^ 9"
  shows "pacing_inv threads bw s'"
  using assms(1)
proof cases
  case (call t now c lm' wake)
  let ?lm = "pace_limiter s" and ?D = "slot_ns bw (1024 * 1024)" and ?n = "call_bytes c" and ?st = "slot_start now (pace_limiter s)"
  have bw: "bandwidth_mbps ?lm = bw" using assms(2) by (simp add: pacing_inv_def)
  note slot = limiter_call_slot [OF call(7), unfolded bw, OF assms(3) call(5)]
  have "snap_back now (next_slot ?lm) = next_slot ?lm"
    using pacing_backlog [OF assms(2,3) call(2,3,4)] assms(4) by (simp add: snap_back_def)
  then have st: "?st = max now (next_slot ?lm)" by (simp add: slot_start_def)
  have s': "pace_limiter s' = lm'" "pace_clock s' = now" "pace_wake s' = (pace_wake s)(t := wake)"
    "pace_slots s' = (t, ?st, ?n) # pace_slots s" "next_slot lm' = ?st + slot_ns bw ?n" "bandwidth_mbps lm' = bw"
    using call(1) slot(1) bw by simp_all
  have D: "slot_ns bw ?n \<le> ?D" "0 \<le> ?D" using slot_ns_bounds [OF assms(3)] call(6) by blast+
  have old: "spaced bw (next_slot ?lm) (pace_slots s)" "\<And>u a n. (u, a, n) \<in> set (pace_slots s) \<Longrightarrow> u < threads \<and> a \<le> pace_wake s u"
    "distinct (waiting (pace_clock s) (pace_slots s))"
    "\<And>\<tau>. pace_clock s \<le> \<tau> \<Longrightarrow> next_slot ?lm - \<tau> \<le> ?D * (1 + int (length (waiting \<tau> (pace_slots s))))"
    using assms(2) by (auto simp: pacing_inv_def)
  have spaced: "spaced bw ?st (pace_slots s)"
    using old(1) st by (cases "pace_slots s") auto
  have t_new: "t \<notin> set (waiting now (pace_slots s))" using old(2) [of t] call(4) by (fastforce simp: waiting_def)
  have wakes: "\<forall>(u, a, n) \<in> set (pace_slots s'). u < threads \<and> a \<le> pace_wake s' u"
  proof -
    have "a \<le> wake" if "(t, a, n) \<in> set (pace_slots s)" for a n
      using old(2) [OF that] call(4) slot(2) st by simp
    then show ?thesis using old(2) slot(2) call(2) by (auto simp: s')
  qed
  have backlog: "next_slot lm' - \<tau> \<le> ?D * (1 + int (length (waiting \<tau> (pace_slots s'))))" if "now \<le> \<tau>" for \<tau>
  proof (cases "\<tau> < ?st")
    case True
    then have "?st = next_slot ?lm" using st that by simp
    then show ?thesis using old(4) [of \<tau>] that call(3) True D by (simp add: s' waiting_Cons algebra_simps)
  next
    case False
    have "?D * 1 \<le> ?D * (1 + int (length (waiting \<tau> (pace_slots s'))))" using D(2) by (intro mult_left_mono) auto
    then show ?thesis using False D(1) by (simp add: s')
  qed
  have "distinct (waiting now (pace_slots s'))"
    using waiting_later [OF call(3) old(3)] t_new by (simp add: s' waiting_Cons)
  then show ?thesis using spaced wakes backlog unfolding pacing_inv_def by (simp add: s')
qed

lemma pacing_reachable_inv:
  assumes "pacing_reachable threads bw now s" "0 < bw" "int threads * slot_ns bw (1024 * 1024) \<le> 30 * 10 ^ 9"
  shows "pacing_inv threads bw s"
  using assms(1) unfolding pacing_reachable_def
  by (induction rule: rtranclp_induct) (auto intro: pacing_inv_start pacing_inv_step assms)

lemma spaced_append: "spaced bw e (xs @ ys) \<Longrightarrow> \<exists>e'. spaced bw e' ys"
  by (induction bw e xs rule: spaced.induct) auto

lemma spaced_prefix: "spaced bw e (xs @ ys) \<Longrightarrow> spaced bw e xs"
  by (induction bw e xs rule: spaced.induct) auto

lemma spaced_bytes:
  assumes "0 < bw" "spaced bw e (mid @ [(t, st, n)])"
  shows "of_nat (sum_list (map (snd \<circ> snd) (mid @ [(t, st, n)]))) * 10 ^ 9 / (bw * 1024 * 1024)
       \<le> of_int (e - st) + (real (length mid) + 1)"
  using assms(2)
proof (induction mid arbitrary: e)
  case Nil
  then show ?case using slot_ns_bounds(3) [OF assms(1), of n] by simp
next
  case (Cons m mid)
  obtain u a l where m: "m = (u, a, l)" by (cases m)
  let ?r = "bw * 1024 * 1024"
  have "of_nat (sum_list (map (snd \<circ> snd) (mid @ [(t, st, n)]))) * 10 ^ 9 / ?r \<le> of_int (a - st) + (real (length mid) + 1)"
    by (rule Cons.IH) (use Cons.prems in \<open>simp add: m\<close>)
  moreover have "of_nat l * 10 ^ 9 / ?r \<le> of_int (slot_ns bw l) + 1" using slot_ns_bounds(3) [OF assms(1), of l] by simp
  moreover have "of_int (slot_ns bw l) \<le> real_of_int (e - a)" using Cons.prems by (simp add: m)
  ultimately show ?case by (simp add: m distrib_right add_divide_distrib comp_def)
qed

end
