(* ===== verification/Spec2Isabelle.thy ===== *)
theory Spec2Isabelle
  imports LocalRepair PortSession Hybrid Phase2Repair Config Bandwidth
begin

text \<open>
  \<^bold>\<open>A verification library for MLRC.\<close>

  MLRC is a prototype storage system for locally repairable codes. A client cuts objects into stripes
  of \<open>k\<close> data blocks; proxies encode \<open>r\<close> global and \<open>z\<close> local parities; datanodes hold the blocks;
  when blocks are lost, the coordinator plans a repair and proxies carry it out, centrally
  (phase 1), by byte-range partitions (phase 2), through chains of partial sums (pipeline), as a
  mix of the last two (hybrid) or as two lanes (HMBR). This library models the coding and planning
  core of the C++ sources under \<^verbatim>\<open>src/project\<close> and the parts of the services that compute with
  it.

  \<^bold>\<open>Conventions.\<close> An \<^verbatim>\<open>unsigned char\<close> is an 8-bit word, a block or matrix is a list of bytes in the
  row-major order of the source, an output parameter is a result, a \<^verbatim>\<open>bool\<close> return with an error
  string is a sum or option. Counts and indices that the callers keep non-negative are \<open>nat\<close>;
  where the source tests signs or divides, the arguments are \<open>int\<close> with C's truncating division.
  \<^verbatim>\<open>size_t\<close> products in the estimates wrap at 64 bits; \<^verbatim>\<open>double\<close> is idealised to \<open>real\<close>. Wall-clock
  times are a parameter \<open>elapsed\<close>; \<^verbatim>\<open>std::sort\<close> with a partial key is a parameter with the contract
  of the standard (locale \<open>std_sorting\<close>, interpreted by the stable sort).

  \<^bold>\<open>Theories and the code they model.\<close>
  \<^item> \<open>Prelude\<close>: shared types, simp collections, loop and list lemmas.
  \<^item> \<open>GF256\<close> (\<^verbatim>\<open>unilrc_encoder.h/.cpp\<close>): tables, \<^verbatim>\<open>gf_mul\<close>, \<^verbatim>\<open>gf_inv\<close>, \<^verbatim>\<open>gf_pow\<close>; the locale
    \<open>byte_field\<close> and its interpretation; bytes as an instance of the class of fields.
  \<^item> \<open>GaussJordan\<close>: \<^verbatim>\<open>gf_invert_matrix\<close> with the invariant of its elimination loop.
  \<^item> \<open>Kernel\<close>: multiplication tables, the dot-product kernels (portable path), \<^verbatim>\<open>xor_avx\<close>.
  \<^item> \<open>Layout\<close>: group arithmetic and placement groups (also \<^verbatim>\<open>glrc_repair_ilp.cpp\<close>).
  \<^item> \<open>Codes\<close>: generator matrices, encoders, partial encoders, single-block decoders of all codes.
  \<^item> \<open>Decode\<close>, \<open>Recovery\<close>: multi-failure decoding in its six variants; the locale \<open>parity_code\<close>
    says what parity equations promise, its interpretation \<open>glrc\<close> that the encoder keeps it.
  \<^item> \<open>LocalRepair\<close>: correctness of the single-block local decoders.
  \<^item> \<open>RepairPlan\<close>, \<open>RepairSearch\<close>, \<open>Planner\<close> (\<^verbatim>\<open>glrc_repair_ilp.cpp\<close>): recovery equations, the four
    equation policies and their dispatcher; the locale \<open>repair_planner\<close> is the contract every policy
    is proved to meet (a refinement of \<open>decodable\<close>).
  \<^item> \<open>ShardPlan\<close> (\<^verbatim>\<open>glrc_shard_plan.cpp\<close>), \<open>Hmbr\<close> (\<^verbatim>\<open>glrc_hmbr.cpp\<close>), \<open>Hybrid\<close>
    (\<^verbatim>\<open>glrc_hybrid.cpp\<close>): partitions, lanes and the split point; the locale \<open>range_tiling\<close> states
    that byte ranges tile a block and is interpreted for partitions, slices and lanes.
  \<^item> \<open>Pipeline\<close>, \<open>PipelineFlow\<close> (\<^verbatim>\<open>glrc_pipeline_codec.cpp\<close>, \<^verbatim>\<open>glrc_pipeline_plan.cpp\<close>, the byte
    computation of \<^verbatim>\<open>proxy_glrc_pipeline.cpp\<close>): coefficient rows, chain plans and what a chain sums.
  \<^item> \<open>PortAllocator\<close>, \<open>PortSession\<close> (\<^verbatim>\<open>GlrcPipelinePortAllocator\<close> of \<^verbatim>\<open>coordinator.cpp\<close>, \<^verbatim>\<open>config.h\<close>): the
    listener ports of the pipeline; the locale \<open>fresh_ports\<close> is the contract of a source of ports,
    interpreted for the ports an allocator used and for the ports in flight; \<open>session_reachable\<close> is the
    step relation of all sessions.
  \<^item> \<open>Metadata\<close> (\<^verbatim>\<open>meta_definition.h\<close>, \<^verbatim>\<open>coordinator.h\<close>): the coordinator's tables; the locale \<open>ordered_map\<close> is
    the contract of \<^verbatim>\<open>std::map\<close>, interpreted by ordered association lists.
  \<^item> \<open>Placement\<close>, \<open>PlacementProps\<close>, \<open>PlacementFrame\<close> (\<^verbatim>\<open>coordinator.cpp\<close>): the placement of a stripe for each
    code, the upload plans, what a placement puts where and what it leaves alone.
  \<^item> \<open>AppendPlan\<close> (\<^verbatim>\<open>generateAppendPlan\<close>, \<^verbatim>\<open>Client::get_append_slice_plans\<close>): the slices of an append on both sides.
  \<^item> \<open>SingleRepair\<close>, \<open>ProxyRepair\<close> (\<^verbatim>\<open>coordinator.cpp\<close>, \<^verbatim>\<open>proxy.cpp\<close>): the requests for one lost block and what the
    proxies compute from them.
  \<^item> \<open>Service\<close>, \<open>ServiceInv\<close>, \<open>ServiceRuns\<close> (\<^verbatim>\<open>coordinator.cpp\<close>): the RPC handlers over the metadata, the step
    relation \<open>service_reachable\<close> with its invariant, and runs of the commit and delete protocols.  Handlers
    run one at a time; a handler that does not return is \<open>None\<close>; random draws, RPC outcomes and the
    XML document are arguments.
  \<^item> \<open>Datanode\<close>, \<open>RangeCommit\<close> (\<^verbatim>\<open>datanode.cpp\<close>): the storage handlers over a map from keys to files, parity slices,
    and the barrier that publishes a block received in ranges, with the step relation \<open>commit_step\<close> of its
    threads; the locale \<open>block_store\<close> is the contract of a store of blocks, interpreted for one datanode and,
    in \<open>UploadProps\<close>, for all of them.
  \<^item> \<open>UploadPath\<close>, \<open>UploadProps\<close> (\<^verbatim>\<open>client.cpp\<close>, \<^verbatim>\<open>toolbox.cpp\<close>, \<^verbatim>\<open>proxy.cpp\<close>): \<^verbatim>\<open>Client::set\<close>, \<^verbatim>\<open>scheduleAppend2Datanode\<close>
    and \<^verbatim>\<open>deleteBlock\<close>, and what an upload or a deletion leaves on the datanodes.  The proxies of an upload
    run one after the other, in any order, and each sends its slices in any order.
  \<^item> \<open>MultiRepair\<close> (\<^verbatim>\<open>coordinator.cpp\<close>, \<^verbatim>\<open>proxy.cpp\<close>): the repair of several blocks through one proxy, from the
    coordinator's request to the files of the datanodes.  Which nodes answer and which disks work are arguments.
  \<^item> \<open>Phase2Exchange\<close>, \<open>Phase2Repair\<close> (\<^verbatim>\<open>proxy_glrc_phase2.cpp\<close>, \<^verbatim>\<open>coordinator.cpp\<close>): the parallel repair; \<open>phase2_step\<close> is the
    step relation of the threads of all proxies, with queues of frames between them, \<open>phase2_fault\<close> an error at any
    moment; the requests of the coordinator are shown to set up the invariant of the exchange.
  \<^item> \<open>Config\<close> (\<^verbatim>\<open>config.cpp\<close>, \<^verbatim>\<open>toolbox.cpp\<close>): loading and checking the configuration, every exception, failed assertion,
    division by zero and overflow of \<^verbatim>\<open>int\<close> an error value; the texts of the XML elements are an argument.
  \<^item> \<open>Bandwidth\<close> (\<^verbatim>\<open>link_bandwidth.h\<close>): the limiters of a link; \<open>pacing_step\<close> is the step relation of the threads that share
    one.

  \<^bold>\<open>What the properties below show.\<close> The field, matrix inversion and the kernels compute what they should
  (C1--C4); an encoded stripe satisfies the parity equations and the groups partition it (C5, C6); the
  decoders return exactly the lost blocks or fail (C7--C9); every policy's plan is sound, complete and,
  where promised, optimal (C10--C13); the split point stays in range (C14); pipelines deliver the sums the
  hub decodes, with a limit stated as a theorem (C15--C17). Listener ports are
  private to their proxy and recovery, stay in their band and are found when there are enough of them
  (C18--C20). The coordinator's metadata stays consistent, and an upload is placed, stored and read back after a
  loss (C21--C24). Several lost blocks are repaired through one proxy (C25) and in parallel, in every interleaving,
  without deadlock, and not at all with too few shards (C26--C28). A single-block repair that never returns is
  exhibited, appends are sliced exactly and alike on both sides, racks and groups are kept apart and combined,
  an upload is answered, a deletion can block the service, and a deleted stripe is gone (C29--C35). Datanodes
  merge parity slices exactly and publish blocks atomically, and the barrier always ends (C36--C38). An accepted
  configuration is usable by the other parts, and a shared link keeps its bandwidth (C39, C40).

  \<^bold>\<open>Fuel and bounds.\<close> No definition uses fuel: every loop is a fold or a recursion with a proved
  measure. The planners' completeness is stated for \<open>k + r < 256\<close> (distinct field elements) and
  stripe widths below \<^verbatim>\<open>INT_MAX\<close>.

  \<^bold>\<open>Not modelled.\<close> The AVX2 assembly kernels (the build without \<^verbatim>\<open>ENABLE_AVX2_ASM\<close> is modelled);
  sockets and timeouts, and the pacing of the links beside the models that use them (an error of any of them is a fault of the models that
  have threads); gRPC messages and generated code; XML parsing
  (\<^verbatim>\<open>tinyxml2\<close>); console drivers; \<^verbatim>\<open>lrc.cpp\<close>, which calls a third-party library. What the operating system answers to a bind
  probe and the clock are arguments of the allocator (\<open>probe\<close>). Of the coordinator, the reads
  \<^verbatim>\<open>getStripe\<close>, \<^verbatim>\<open>getBlocks\<close> and \<^verbatim>\<open>getValue\<close>, the clock readings of the repair calls, the older upload path
  (\<^verbatim>\<open>uploadOriginKeyValue\<close>, \<^verbatim>\<open>generate_placement\<close>) and the conventional lane of the HMBR repair are not modelled.
\<close>

unbundle bit_operations_syntax

section \<open>A sample stripe\<close>

text \<open>
  The witnesses below run on one small stripe: \<open>k = 4\<close> data blocks of two bytes, \<open>r = 2\<close> global
  and \<open>z = 2\<close> local parities, encoded by the model's own encoder.
\<close>

definition sample_data :: "buffer list" where
  "sample_data = [[1, 2], [3, 4], [5, 6], [7, 8]]"

definition sample_stripe :: "buffer list" where
  "sample_stripe = sample_data @ encode_glrc 4 2 2 sample_data (replicate 4 (replicate 2 0)) 2"

lemma sample_data_ok: "blocks_ok 4 2 sample_data"
  by (simp add: sample_data_def blocks_ok_def)

lemma sample_codeword: "glrc_codeword 4 2 2 2 sample_stripe"
  using encode_glrc_codeword [OF sample_data_ok, of 2 2] by (simp add: sample_stripe_def)

lemma sample_groups: "glrc_build_placement_groups 4 2 2 = [[0, 1, 2, 6], [3, 4, 5, 7]]"
  by code_simp

lemma upt_2: "[0..<2] = [0, 1 :: nat]"
  by code_simp

lemma sample_params: "glrc_params 4 2 2"
  by (simp add: glrc_params_def INT_MAX_def)

lemma sample_task: "repair_task 4 2 2 2 sample_stripe [0, 3] [0, 1]"
  using sample_codeword by (simp add: repair_task_def)

lemma sample_home: "home_group 4 2 2 0 = 0" "home_group 4 2 2 3 = 1"
  by code_simp+

lemma sample_invertible: "glrc_ilp_decode_matrix_invertible 4 2 2 [0, 3] [0, 1]"
  using home_equations_invertible(1) [of 2 4 2 "[0, 3]"] by (simp add: sample_home)

lemma sample_cover: "helpers_cover 4 2 2 [1, 2, 4, 5, 6, 7] [0, 3] [0, 1]"
  by (auto simp: helpers_cover_def glrc_eq_local sample_groups split: if_splits)

lemma sample_blocks: "sample_stripe ! 0 = [1, 2]" "sample_stripe ! 3 = [7, 8]"
  by (simp_all add: sample_stripe_def sample_data_def)

lemma sample_one_per_group: "glrc_failures_at_most_one_per_group 4 2 2 [0, 3]"
  by (simp add: failures_at_most_one_per_group_iff sample_home)

lemma sample_decodable: "decodable 4 2 2 [0, 3]"
  by (rule one_per_group_decodable) (simp_all add: sample_one_per_group)

definition sample_plan :: GlrcIlpRepairPlan where
  "sample_plan = glrc_solve_repair_plan (\<lambda>key. sort_key key) 0 ''ceph'' 4 2 2 [0]"

lemma sample_plan_facts:
  "success sample_plan" "selected_equation_indices sample_plan = [0]" "helper_block_ids sample_plan = [1, 2, 6]"
proof -
  have "accepted 4 2 2 [0] [0]" using single_failure_accepted(1) [of 2 4 2 0] by (simp add: sample_home)
  then have eq: "sample_plan = plan_with 4 2 2 [0] [0] (failed_plan [0])\<lparr>ilp_solve_time_sec := 0\<rparr>"
    unfolding sample_plan_def glrc_solve_repair_plan_def glrc_normalize_equation_policy_def Let_def
    by (simp add: local_then_global_run sample_home)
  have "helpers_of 4 2 2 [0] [0] = [1, 2, 6]" by code_simp
  then show "success sample_plan" "selected_equation_indices sample_plan = [0]" "helper_block_ids sample_plan = [1, 2, 6]"
    by (simp_all add: eq)
qed

section \<open>The field\<close>


text \<open>
  C2. The log/antilog product of two bytes equals the schoolbook product modulo
  \<open>x\<^sup>8 + x\<^sup>4 + x\<^sup>3 + x\<^sup>2 + 1\<close>: the XOR, over the set bits \<open>i\<close> of the second factor, of the first
  factor multiplied \<open>i\<close> times by the generator \<open>x\<close>.
\<close>

theorem gf_mul_is_polynomial_product:
  "gf_mul a b = fold (\<lambda>i acc. if bit b i then acc XOR (xtime ^^ i) a else acc) [0..<8] 0"
  by (rule gf_mul_shift_add)

text \<open>
  The square-and-multiply loop computes powers: \<open>gf_pow b e\<close> is the product of \<open>e\<close> copies
  of \<open>b\<close>, for every 32-bit exponent, zero included.
\<close>

theorem gf_pow_is_power: "gf_pow base e = ((\<lambda>acc. gf_mul acc base) ^^ unat e) 1"
proof -
  have "GF (((\<lambda>acc. gf_mul acc base) ^^ m) 1) = GF base ^ m" for m
    by (induction m) (simp_all add: GF_hom mult.commute del: gf256.inject)
  then have "GF (gf_pow base e) = GF (((\<lambda>acc. gf_mul acc base) ^^ unat e) 1)"
    by (simp add: gf_pow_def gf_pow_loop_eq GF_hom del: gf256.inject)
  then show ?thesis by (rule GF_eqD)
qed

text \<open>
  C3. Gauss-Jordan inversion is exact: it returns 0 with a two-sided inverse in the output
  matrix, or -1 and then the input has no inverse at all.
\<close>

theorem gf_invert_matrix_correct:
  assumes "length m = n * n" "length m0 = n * n"
  shows "case gf_invert_matrix m m0 n of (ret, m', inv_m) \<Rightarrow>
     (ret = 0 \<and> length inv_m = n * n
       \<and> left_inverse n (ent n inv_m) (ent n m) \<and> left_inverse n (ent n m) (ent n inv_m))
     \<or> (ret = - 1 \<and> (\<nexists>B. left_inverse n B (ent n m)))"
proof -
  obtain ret m' inv_m where run: "gf_invert_matrix m m0 n = (ret, m', inv_m)" by (cases "gf_invert_matrix m m0 n")
  show ?thesis
    using gf_invert_matrix_run [OF assms run] gf_invert_matrix_inverse [OF assms, of m' inv_m]
    by (auto simp: run split: if_splits dest: left_inverse_trivial_kernel)
qed

theorem gf_invert_matrix_correct_witness:
  "fst (gf_invert_matrix [1, 2, 3, 4] [0, 0, 0, 0] 2) = 0
   \<and> left_inverse 2 (ent 2 (snd (snd (gf_invert_matrix [1, 2, 3, 4] [0, 0, 0, 0] 2)))) (ent 2 [1, 2, 3, 4])"
proof -
  have "fst (gf_invert_matrix [1, 2, 3, 4] [0, 0, 0, 0] 2) = 0" by code_simp
  then show ?thesis
    using gf_invert_matrix_correct [of "[1, 2, 3, 4]" 2 "[0, 0, 0, 0]"] by (auto split: prod.splits)
qed

section \<open>Encoding\<close>

text \<open>
  The 32-byte table built for a coefficient with 64-bit lane arithmetic holds exactly the
  products the dot-product kernels look up: the coefficient times 0..15, then times the
  sixteen multiples of 16.
\<close>

theorem gf_vect_mul_init_products:
  "gf_vect_mul_init c =
     map (\<lambda>i. gf_mul c (word_of_nat i)) [0..<16] @ map (\<lambda>i. gf_mul c (word_of_nat (16 * i))) [0..<16]"
  by (metis append_take_drop_id gf_vect_mul_init_eq_bytes gf_vect_mul_init_bytes_low gf_vect_mul_init_bytes_high)

text \<open>
  C4. \<open>encode_data\<close> multiplies: every byte of every output block is the GF(256) inner product
  of the matrix row with the column of data bytes at that offset.
\<close>

theorem encode_data_is_matrix_product:
  assumes "blocks_ok rows len coding" "l < rows" "i < len"
  shows "GF (encode_data len k rows matrix data coding ! l ! i)
       = (\<Sum>j<k. GF (matrix ! (l * k + j)) * GF (data ! j ! i))"
  using assms by (rule encode_data_nth)

theorem encode_data_is_matrix_product_witness:
  "GF (encode_data 1 2 1 [3, 5] [[7], [9]] [[0]] ! 0 ! 0) = GF 3 * GF 7 + GF 5 * GF 9"
  using encode_data_is_matrix_product [of 1 1 "[[0]]" 0 0 2 "[3, 5]" "[[7], [9]]"]
  by (simp add: blocks_ok_def numeral_2_eq_2 lessThan_Suc add.commute)

text \<open>
  The generator matrix of the gLRC code in closed form: identity rows for the data blocks,
  Cauchy rows \<open>1 / (i XOR j)\<close> for the global parities, and for the local parity of a group the
  coefficients of the group's data blocks plus the rows of the group's global parities.
\<close>

theorem gen_glrc_matrix_closed_form:
  assumes "length e = (k + r + z) * k" "0 < z" "a < k + r + z" "j < k"
  shows "cell k (gen_glrc_matrix e k r z) a j
       = (if a < k then delta a j else if a < k + r then cauchy a j else glrc_local_row k r z (a - (k + r)) j)"
  using assms by (rule gen_glrc_matrix_cell)

text \<open>
  C5. A stripe produced by the gLRC encoder satisfies all \<open>z + r\<close> parity equations the repair
  planner and the decoders work with, at every byte offset.
\<close>

theorem encoded_stripe_satisfies_equations:
  assumes "blocks_ok k bs data" "0 < z" "i < bs" "e < z + r"
  defines "stripe \<equiv> data @ encode_glrc k r z data (replicate (r + z) (replicate bs 0)) bs"
  shows "(\<Sum>b<k + r + z. glrc_eq k r z e b * GF (stripe ! b ! i)) = 0"
proof -
  have cw: "glrc_codeword k r z bs stripe"
    unfolding stripe_def using assms(1) by (rule encode_glrc_codeword)
  show ?thesis
  proof (cases "e < z")
    case True
    then show ?thesis using cw assms by (blast intro: glrc_local_equation)
  next
    case False
    then have "glrc_eq k r z e = glrc_eq k r z (z + (e - z))" "e - z < r" using assms(4) by auto
    then show ?thesis using glrc_global_equation [OF cw assms(2,3)] by metis
  qed
qed

theorem encoded_stripe_satisfies_equations_witness:
  "(\<Sum>b<8. glrc_eq 4 2 2 3 b * GF (sample_stripe ! b ! 1)) = 0"
  using encoded_stripe_satisfies_equations [OF sample_data_ok, of 2 1 3 2] by (simp add: sample_stripe_def)

text \<open>
  Encoding a partially filled stripe is encoding it padded with zero blocks: the partial
  encoder on the first \<open>d\<close> data blocks returns the parities of the full encoder on those blocks
  followed by \<open>k - d\<close> zero blocks.
\<close>

theorem partial_encode_glrc_is_zero_padding:
  assumes "blocks_ok (r + z) bs parity" "length data = d" "d \<le> k"
  shows "partial_encode_glrc k r z d data parity bs
       = encode_glrc k r z (data @ replicate (k - d) (replicate bs 0)) parity bs"
  unfolding partial_encode_glrc_def encode_glrc_def
  by (rule partial_encode_with_zero_padding [where R = "k + r + z"])
    (use assms length_glrc_matrix [of k r z] in \<open>simp_all add: glrc_encode_matrix_def\<close>)

section \<open>Layout\<close>

text \<open>
  C6. The placement groups partition the stripe: there are \<open>z\<close> of them, every block of the
  stripe is in exactly one, the group the code computes for a data or global block is the one
  that holds it, and the local parity of group \<open>g\<close> is in group \<open>g\<close>.
\<close>

theorem placement_groups_partition_stripe:
  assumes "0 < z" "b < k + r + z"
  shows "length (glrc_build_placement_groups k r z) = z
     \<and> (\<exists>!g. g < z \<and> b \<in> set (glrc_build_placement_groups k r z ! g))
     \<and> b \<in> set (glrc_build_placement_groups k r z !
          (if b < k + r then nat (glrc_payload_group_id (int b) (int k) (int r) (int z)) else b - (k + r)))"
  using placement_groups_partition [OF assms] group_of_less [of b k r z] assms
  by (auto simp: in_placement_group group_of_def)

theorem placement_groups_partition_stripe_witness:
  "4 \<in> set (glrc_build_placement_groups 4 2 2 ! nat (glrc_payload_group_id 4 4 2 2))"
  using placement_groups_partition_stripe [of 2 4 4 2] by simp

text \<open>
  Group sizes are balanced and exhaust the payload: the \<open>k + r\<close> payload blocks are divided
  so that any two groups differ by at most one block, and each group's data and global blocks
  add up to its payload.
\<close>

theorem group_sizes_balanced:
  assumes "g < z" "h < z"
  shows "\<bar>glrc_payload_blocks_in_group (int g) (int k) (int r) (int z)
          - glrc_payload_blocks_in_group (int h) (int k) (int r) (int z)\<bar> \<le> 1
     \<and> (\<Sum>i<z. glrc_payload_blocks_in_group (int i) (int k) (int r) (int z)) = int (k + r)
     \<and> glrc_data_blocks_in_group (int g) (int k) (int r) (int z)
        + glrc_global_blocks_in_group (int g) (int k) (int r) (int z)
        = glrc_payload_blocks_in_group (int g) (int k) (int r) (int z)"
  using assms data_and_global_blocks [OF assms(1)] payload_blocks_total [of z k r]
  by (simp add: payload_blocks_nat)

section \<open>Decoding\<close>

text \<open>
  C7. Local repair: given the other blocks of the failed block's placement group, in any order,
  \<open>decode_glrc\<close> returns the failed block, whichever kind of block it is.
\<close>

theorem decode_glrc_repairs_any_block:
  assumes "glrc_codeword k r z bs blocks" "0 < z" "k + r < 256" "b < k + r + z"
    and "distinct idxs" "set idxs = set (glrc_build_placement_groups k r z ! home_group k r z b) - {b}"
    and "length res = bs"
  shows "decode_glrc k r z (length idxs) idxs (map ((!) blocks) idxs) res bs b = blocks ! b"
  using assms by (intro decode_glrc_recovers) (auto simp: group_survivors_def)

theorem decode_glrc_repairs_any_block_witness:
  "decode_glrc 4 2 2 3 [2, 6, 1] (map ((!) sample_stripe) [2, 6, 1]) [0, 0] 2 0 = [1, 2]"
proof -
  have "set [2, 6, 1] = set (glrc_build_placement_groups 4 2 2 ! home_group 4 2 2 0) - {0}"
    by (auto simp: sample_groups sample_home)
  then show ?thesis
    using decode_glrc_repairs_any_block [OF sample_codeword, of 0 "[2, 6, 1]" "[0, 0]"]
    by (simp add: sample_blocks numeral_3_eq_3)
qed

text \<open>
  C8. Multi-failure repair is exact: on an encoded stripe \<open>decode_glrc_ilp\<close> returns precisely the
  failed blocks when the helper list is not empty, the decode matrix of the selected equations
  is invertible and the helpers contain every surviving block the equations use, and it fails
  in every other case.
\<close>

theorem decode_glrc_ilp_exact:
  assumes "repair_task k r z bs blocks F sel"
  shows "decode_glrc_ilp k r z bs hs (map ((!) blocks) hs) F sel =
     (if hs \<noteq> [] \<and> glrc_ilp_decode_matrix_invertible k r z F sel \<and> helpers_cover k r z hs F sel
      then Some (map ((!) blocks) F) else None)"
  using assms by (rule decode_glrc_ilp_result)

theorem decode_glrc_ilp_exact_witness:
  "decode_glrc_ilp 4 2 2 2 [1, 2, 4, 5, 6, 7] (map ((!) sample_stripe) [1, 2, 4, 5, 6, 7]) [0, 3] [0, 1]
     = Some [[1, 2], [7, 8]]"
  using decode_glrc_ilp_exact [OF sample_task, of "[1, 2, 4, 5, 6, 7]"]
  by (simp add: sample_invertible sample_cover sample_blocks del: One_nat_def)

text \<open>
  C9. Decoding a byte range writes exactly that range: inside it every output buffer holds the
  failed block's bytes, outside it is what it was, under the same conditions as for whole
  blocks.
\<close>

theorem decode_glrc_ilp_range_exact:
  assumes "repair_task k r z bs blocks F sel" "F \<noteq> []"
    and "blocks_ok (length F) bs fresh" and "off + len \<le> bs" "0 < len"
  shows "decode_glrc_ilp_range k r z (int bs) hs (map ((!) blocks) hs) F sel (int off) (int len) fresh =
     (if glrc_ilp_decode_matrix_invertible k r z F sel \<and> helpers_cover k r z hs F sel
      then Some (map (\<lambda>t. take off (fresh ! t) @ take len (drop off (blocks ! (F ! t))) @ drop (off + len) (fresh ! t))
        [0..<length F]) else None)"
  using decode_glrc_ilp_range_result [OF assms] by (simp add: patch_def)

theorem decode_glrc_ilp_range_exact_witness:
  "decode_glrc_ilp_range 4 2 2 2 [1, 2, 4, 5, 6, 7] (map ((!) sample_stripe) [1, 2, 4, 5, 6, 7]) [0, 3] [0, 1]
     1 1 [[0, 0], [0, 0]] = Some [[0, 2], [0, 8]]"
  using decode_glrc_ilp_range_exact [OF sample_task, of "[[0, 0], [0, 0]]" 1 1 "[1, 2, 4, 5, 6, 7]"]
  by (simp add: sample_invertible sample_cover sample_blocks blocks_ok_def upt_2 del: One_nat_def) simp

text \<open>
  The prepared decoder, which takes multiplication tables computed once and reuses its
  buffers, returns the same blocks as the decoder that builds the tables on every call,
  whatever the reused buffers held.
\<close>

theorem prepared_decoder_equals_plain:
  assumes "length A_inv = nat f * nat f" "length idxs = length coefs"
    and "\<And>i. i < length idxs \<Longrightarrow> length (idxs ! i) = length (coefs ! i)" "range_len \<noteq> 0"
  shows "map_option snd (decode_glrc_ilp_helper_compact_prepared ptrs idxs
       (map (\<lambda>c. ec_init_tables (length c) 1 c) coefs) (ec_init_tables (nat f) (nat f) A_inv) f
       base off range_len rhs recovered)
     = decode_glrc_ilp_helper_compact ptrs A_inv idxs coefs f base off range_len"
  using assms by (rule prepared_eq_compact)

text \<open>
  The decode matrix check decides recoverability: if it accepts, two encoded stripes that
  agree on the surviving blocks agree on the failed ones; if it rejects a selection of the
  right size, the selected equations leave a nonzero assignment of the failed blocks undetected.
\<close>

theorem decode_matrix_check_decides:
  assumes "F \<noteq> []" "length sel = length F"
  shows "glrc_ilp_decode_matrix_invertible k r z F sel \<longleftrightarrow>
     (\<forall>x. (\<forall>ei<length F. (\<Sum>t<length F. glrc_eq k r z (sel ! ei) (F ! t) * x t) = 0) \<longrightarrow> (\<forall>t<length F. x t = 0))"
  using assms by (simp add: invertible_iff trivial_kernel_def mvec_def glrc.failed_coefs_def)

section \<open>Repair planning\<close>



text \<open>
  C11. Every policy plans completely: within the code's parameter limits a planner succeeds if and
  only if some selection of parity equations has an invertible decode matrix for the failed
  blocks. The heuristic policies and the exhaustive one agree on what is repairable.
\<close>

theorem any_policy_success_iff_decodable:
  assumes "std_sorting std_sort" "glrc_normalize_equation_policy policy \<in> set known_policies"
    and "glrc_params k r z" "set F \<subseteq> {..<k + r + z}"
  shows "success (glrc_solve_repair_plan std_sort elapsed policy k r z F) \<longleftrightarrow>
     (\<exists>sel. set sel \<subseteq> {..<z + r} \<and> glrc_ilp_decode_matrix_invertible k r z F sel)"
  using repair_planner.success_iff_decodable [OF std_sorting.dispatch_planner [OF assms(1,2)] assms(3,4)]
  by (simp add: decodable_def)

theorem any_policy_success_iff_decodable_witness:
  "success (glrc_solve_repair_plan (\<lambda>key. sort_key key) 0 ''ilp'' 4 2 2 [0, 3])"
proof -
  have "glrc_normalize_equation_policy ''ilp'' \<in> set known_policies" by code_simp
  from any_policy_success_iff_decodable [OF stable.std_sorting_axioms this sample_params, of "[0, 3]" 0]
  show ?thesis using sample_decodable by (auto simp: decodable_def)
qed

text \<open>
  C12. The exhaustive planner is optimal: no decodable selection of equations, in any order, needs
  fewer helper blocks than the plan it returns.
\<close>

theorem ilp_plan_has_fewest_helpers:
  assumes "0 < z" "set F \<subseteq> {..<k + r + z}" "success (glrc_solve_repair_ilp elapsed k r z F)"
    and "set sel \<subseteq> {..<z + r}" "glrc_ilp_decode_matrix_invertible k r z F sel"
  shows "helper_block_count (glrc_solve_repair_ilp elapsed k r z F)
     \<le> length (union_helpers sel (all_recovery_equations k r z) F)"
proof -
  have ne: "F \<noteq> []" using assms(5) by (simp add: invertible_iff)
  have same: "helpers_of k r z F (sorted_list_of_set (set sel)) = helpers_of k r z F sel"
    by (rule union_helpers_set_cong) simp
  show ?thesis using ne
  proof (cases rule: ilp_solution [of F k r z elapsed])
    case (found best)
    then show ?thesis using accepted_sorted [OF assms(4,5,1,2)] same by (metis plan_with_simps(4))
  next
    case (none t msg)
    then show ?thesis using assms(3) by (simp add: failed_plan_def empty_plan_def)
  qed
qed

theorem ilp_plan_has_fewest_helpers_witness:
  "helper_block_count (glrc_solve_repair_ilp 0 4 2 2 [0, 3]) \<le> 6"
proof -
  have "success (glrc_solve_repair_ilp 0 4 2 2 [0, 3])"
    by (rule ilp.complete) (simp_all add: sample_params sample_decodable)
  moreover have "length (union_helpers [0, 1] (all_recovery_equations 4 2 2) [0, 3]) = 6" by code_simp
  ultimately show ?thesis
    using ilp_plan_has_fewest_helpers [of 2 "[0, 3]" 4 2 0 "[0, 1]"] sample_invertible by simp
qed

text \<open>
  C13. The local-first planner returns the best decodable selection in its own order: most local
  equations, then most failed blocks covered by local equations, then fewest helpers, then the
  lexicographically least list of equation indices.
\<close>

theorem local_first_plan_is_best:
  assumes "0 < z" "set F \<subseteq> {..<k + r + z}" "success (glrc_solve_repair_local_first elapsed k r z F)"
    and "set sel \<subseteq> {..<z + r}" "sorted_wrt (<) sel" "glrc_ilp_decode_matrix_invertible k r z F sel"
  shows "candidate_key k r z F (selected_equation_indices (glrc_solve_repair_local_first elapsed k r z F))
     \<le> candidate_key k r z F sel"
proof -
  have ne: "F \<noteq> []" using assms(6) by (simp add: invertible_iff)
  have same: "sorted_list_of_set (set sel) = sel"
    using assms(5) by (simp add: strict_sorted_equal)
  show ?thesis using ne
  proof (cases rule: local_first_solution [of F k r z elapsed])
    case (found best)
    then show ?thesis using accepted_sorted [OF assms(4,6,1,2)] same by (metis plan_with_simps(3))
  next
    case (none t msg)
    then show ?thesis using assms(3) by (simp add: failed_plan_def empty_plan_def)
  qed
qed

theorem local_first_plan_is_best_witness:
  "candidate_key 4 2 2 [0, 3] (selected_equation_indices (glrc_solve_repair_local_first 0 4 2 2 [0, 3]))
     \<le> candidate_key 4 2 2 [0, 3] [0, 1]"
proof -
  have "success (glrc_solve_repair_local_first 0 4 2 2 [0, 3])"
    by (rule local_first.complete) (simp_all add: sample_params sample_decodable)
  then show ?thesis
    using local_first_plan_is_best [of 2 "[0, 3]" 4 2 0 "[0, 1]"] sample_invertible by simp
qed

text \<open>
  If no placement group has lost more than one block, every known policy finds a repair plan
  (the precondition of the pipeline's fast path).
\<close>

theorem one_failure_per_group_is_planned:
  assumes "std_sorting std_sort" "glrc_normalize_equation_policy policy \<in> set known_policies"
    and "glrc_params k r z" "glrc_failures_at_most_one_per_group k r z F"
  shows "success (glrc_solve_repair_plan std_sort elapsed policy k r z F)"
proof (rule repair_planner.complete [OF std_sorting.dispatch_planner [OF assms(1,2)] assms(3)])
  show "set F \<subseteq> {..<k + r + z}" "decodable k r z F"
    using assms(3,4) by (auto simp: glrc_params_def failures_at_most_one_per_group_iff intro: one_per_group_decodable)
qed

text \<open>
  A policy name the dispatcher does not know, under none of its aliases, is refused: the plan
  is not a success and its error message names the policy.
\<close>

theorem unknown_policy_refused:
  assumes "policy \<notin> {''local-then-global'', ''ceph-style'', ''ceph'', ''local-first'', ''global-first'',
     ''hmbr-rule'', ''rule-based'', ''ilp-min-helper'', ''ilp'', []}"
  shows "glrc_solve_repair_plan std_sort elapsed policy k r z F =
     empty_plan\<lparr>failed_block_ids := F, error_message := ''unknown GlrcEquationPolicy: '' @ policy\<rparr>"
  by (rule dispatch_unknown)
    (use assms in \<open>simp add: glrc_normalize_equation_policy_def known_policies_def\<close>)

text \<open>
  A single failure is repaired locally: the default policy selects the failed block's own
  group equation and reads exactly the other blocks of that group.
\<close>

theorem single_failure_repaired_in_group:
  fixes elapsed :: real
  assumes "0 < z" "k + r < 256" "b < k + r + z"
  defines "plan \<equiv> \<lambda>std_sort. glrc_solve_repair_local_then_global std_sort elapsed k r z [b]"
  shows "success (plan std_sort) \<and> selected_equation_indices (plan std_sort) = [home_group k r z b]
     \<and> set (helper_block_ids (plan std_sort)) = set (glrc_build_placement_groups k r z ! home_group k r z b) - {b}"
  using single_failure_accepted [OF assms(1-3)] home_group_less [OF assms(1,3)]
  by (auto simp: plan_def local_then_global_run set_union_helpers involved_blocks_nth)

text \<open>
  The recursive enumeration behind the exhaustive planners lists every \<open>f\<close>-element subset of
  the candidates, as strictly increasing position lists, and nothing else, and lists none twice.
\<close>

theorem enumerate_combinations_complete:
  "set (enumerate_combinations n f 0 []) = {ys. sorted_wrt (<) ys \<and> set ys \<subseteq> {0..<n} \<and> length ys = f}
   \<and> distinct (enumerate_combinations n f 0 [])"
  by (simp add: enumerate_combinations_set enumerate_combinations_distinct)

section \<open>Distributed decoding\<close>

text \<open>
  The shard planner accepts exactly the well-formed requests: at least one failed block,
  positive shard count and block size, a block size divisible by the global shard count, and
  one cluster, proxy address and port per failed block; everything else is an error value.
\<close>

theorem phase2_build_accepts_iff:
  "(\<exists>plan. phase2_build active bsize failed cids ips ports gsc = Inr plan) \<longleftrightarrow>
     failed \<noteq> [] \<and> 1 \<le> active \<and> 1 \<le> bsize \<and> (if gsc > 0 then gsc else active) dvd bsize
     \<and> length cids = length failed \<and> length ips = length failed \<and> length ports = length failed"
  by (rule phase2_accepts_iff)

text \<open>
  Phase 2 end to end: every partition of the shard plan decodes, from the helpers' bytes of its
  own range only, that range of all failed blocks, and the partitions' results concatenate to
  the failed blocks.
\<close>

theorem phase2_partitions_rebuild_blocks:
  assumes task: "repair_task k r z bs blocks F sel"
    and prep: "glrc_ilp_prepare_helper_decode k r z hs F sel = Some (A_inv, idxs, coefs)"
    and hs: "set hs \<subseteq> {..<k + r + z}"
    and plan: "phase2_build S (int bs) failed cids ips ports 0 = Inr plan" and t: "t < length F"
  shows "concat (map (\<lambda>p. the (decode_glrc_ilp_helper_compact
       (map (\<lambda>b. take (nat (byte_len p)) (drop (nat (byte_off p)) (blocks ! b))) hs)
       A_inv idxs coefs (int (length F)) (byte_off p) (byte_off p) (byte_len p)) ! t) (partitions plan))
     = blocks ! (F ! t)"
proof -
  have whole: "active_bytes plan = bs" using active_bytes_whole [OF plan] by simp
  have len: "length (blocks ! (F ! t)) = bs" by (rule failed_block_length [OF task t])
  have "concat (map (\<lambda>p. the (decode_glrc_ilp_helper_compact
       (map (\<lambda>b. take (nat (byte_len p)) (drop (nat (byte_off p)) (blocks ! b))) hs)
       A_inv idxs coefs (int (length F)) (byte_off p) (byte_off p) (byte_len p)) ! t) (partitions plan))
     = concat (map (\<lambda>(off, n). take n (drop off (blocks ! (F ! t)))) (partition_ranges plan))"
    using phase2_partition_decodes [OF task prep hs plan] whole t
    by (simp add: partition_ranges_def comp_def cong: map_cong)
  also have "\<dots> = blocks ! (F ! t)"
    using partitions.reassemble [of plan "blocks ! (F ! t)"] plan whole len unfolding built_plan_def by fastforce
  finally show ?thesis .
qed

text \<open>
  The HMBR split gives each lane at least one shard, and the two lanes' byte ranges, one after
  the other, are the whole block.
\<close>

theorem hmbr_lanes_rebuild_block:
  assumes "glrc_hmbr_build_shard_split S bsize h f brp bconv cfg = Inr s" "length xs = nat bsize"
  shows "1 \<le> rp_shard_count s \<and> 1 \<le> conv_shard_count s \<and> rp_shard_count s + conv_shard_count s = S
     \<and> take (nat (rp_byte_size s)) (drop (nat (rp_byte_offset s)) xs)
       @ take (nat (conv_byte_size s)) (drop (nat (conv_byte_offset s)) xs) = xs"
  using hmbr_split_facts [OF assms(1)] hmbr_lanes_join [OF assms] by simp

text \<open>
  The automatic HMBR split balances the lanes: the continuous share equalises the estimated
  repair-pipelining and conventional times, and the integer split differs from it by at most one
  shard.
\<close>

theorem hmbr_auto_split_balances:
  assumes "glrc_hmbr_build_shard_split S bsize h f brp bconv ''auto'' = Inr s"
  shows "rp_continuous_shards s / of_int S * of_int f / brp
       = (1 - rp_continuous_shards s / of_int S) * of_int (h + f - 1) / bconv
     \<and> \<bar>of_int (rp_shard_count s) - rp_continuous_shards s\<bar> \<le> 1"
proof -
  from hmbr_split_cases [OF assms] have "0 < h" "0 < f" "0 < brp" "0 < bconv" "2 \<le> S" by metis+
  from hmbr_auto_balances(1) [OF this] show ?thesis using hmbr_auto_rounding [OF assms] by simp
qed

text \<open>
  C14. The hybrid split point is a legal shard index: with at least two shards, whatever the
  configuration string, the bandwidth and the plan, the chosen \<open>p\<close> is between 0 and \<open>S - 1\<close>.
\<close>

theorem hybrid_choice_in_range:
  assumes "2 \<le> S"
  shows "0 \<le> split_p (glrc_hybrid_choose_p k r z f S bsize link plan hub direct failed cfg)
     \<and> split_p (glrc_hybrid_choose_p k r z f S bsize link plan hub direct failed cfg) \<le> S - 1"
  using assms by (rule choose_p_range)

theorem hybrid_choice_in_range_witness:
  "split_p (glrc_hybrid_choose_p 4 2 2 2 4 8 1 None 0 0 [0, 1] ''7'') \<le> 3"
  using hybrid_choice_in_range [of 4 4 2 2 2 8 1 None 0 0 "[0, 1]" "''7''"] by simp

text \<open>
  The local search for the split point never loses: the point it returns is estimated no
  slower than the rounded continuous optimum it starts from.
\<close>

theorem hybrid_scan_no_worse_than_start:
  assumes "2 \<le> S" "discretize_p evaluate pc S = (v, t2, tp)"
    and "max (fst (evaluate (max 1 (min (S - 1) (lround pc))))) (snd (evaluate (max 1 (min (S - 1) (lround pc))))) < score_limit"
  shows "max (fst (evaluate v)) (snd (evaluate v))
     \<le> max (fst (evaluate (max 1 (min (S - 1) (lround pc))))) (snd (evaluate (max 1 (min (S - 1) (lround pc)))))"
  using discretize_p_result [OF assms(1,2)] assms(3) by simp

text \<open>
  The estimate charges the right partition: the shard count the cost model uses for the
  hottest partition is the largest shard count of the partitions the shard planner really
  builds.
\<close>

theorem estimate_uses_largest_partition:
  assumes "phase2_build active bsize failed cids ips ports gsc = Inr plan"
  shows "max_partition_shard_count active (int (length failed)) = Max (part_shard_count ` set (partitions plan))"
  using assms by (rule max_partition_is_built)

section \<open>Pipelined repair\<close>


lemma gf256_two [simp]: "(2 :: gf256) = 0"
  using gf256_add_self [of 1] by (simp only: one_add_one)



definition sample_lookup :: "GlrcPipelineNodeLookup list" where
  "sample_lookup = map (\<lambda>i. \<lparr>node_id = int i, datanode_ip = ''d'', datanode_port = 1, proxy_ip = ''p'', proxy_port = 2,
     block_key = ''b'' @ to_string i\<rparr>) [0..<8]"

lemma sample_lookup_complete: "lookup_complete 8 sample_lookup"
  by (auto simp: lookup_complete_def sample_lookup_def)

lemma sample_involved:
  "involved_blocks (all_recovery_equations 4 2 2 ! 0) = [0, 1, 2, 6]"
  "involved_blocks (all_recovery_equations 4 2 2 ! 2) = [0, 1, 2, 3, 4]"
  by (simp_all add: involved_blocks_nth sample_groups upt_rec)

text \<open>
  C15. The pipeline planner succeeds on every request it should: when the hub and the selected
  equations exist, every block's node is known with its addresses, and every selected equation
  has a surviving block, a chain is built for each selected equation.
\<close>

theorem pipeline_plan_is_built:
  assumes "length nl = k + r + z" "\<And>x. x \<in> set nl \<Longrightarrow> proxy_ip x \<noteq> [] \<and> datanode_ip x \<noteq> []"
    and "hub < k + r + z" "set F \<subseteq> {..<k + r + z}" "set (selected_equation_indices rplan) \<subseteq> {..<z + r}"
    and "\<And>e. e \<in> set (selected_equation_indices rplan) \<Longrightarrow>
       \<exists>b \<in> set (involved_blocks (all_recovery_equations k r z ! e)). b \<notin> set F"
  shows "\<exists>p. glrc_build_pipeline_plan k r z F rplan (all_recovery_equations k r z) (int hub) nl epoch = Inr p
     \<and> length (hub_chains p) + length (local_direct_chains p) = length (selected_equation_indices rplan)"
proof -
  have "\<exists>p. glrc_build_pipeline_plan k r z F rplan (all_recovery_equations k r z) (int hub) nl epoch = Inr p"
    using assms by (intro pipeline_plan_succeeds) (auto simp: lookup_complete_def filter_empty_conv)
  then show ?thesis using pipeline_plan_chain_count by blast
qed

theorem pipeline_plan_is_built_witness:
  "\<exists>p. glrc_build_pipeline_plan 4 2 2 [0] sample_plan (all_recovery_equations 4 2 2) (int 5) sample_lookup 7 = Inr p
     \<and> length (hub_chains p) + length (local_direct_chains p) = 1"
  using pipeline_plan_is_built [of sample_lookup 4 2 2 5 "[0]" sample_plan 7] sample_lookup_complete
  by (auto simp: lookup_complete_def sample_plan_facts sample_involved)



text \<open>
  C17. What a local-direct chain delivers: the sink receives the failed block multiplied by the
  block's own local coefficient (1 for parity blocks, \<open>1 / (b XOR (k + r))\<close> for data blocks), so
  the payload is the lost block itself only after division by that coefficient.
\<close>

theorem local_direct_delivers_scaled_block:
  assumes "glrc_build_pipeline_plan k r z F rplan (all_recovery_equations k r z) hub_id nl epoch = Inr p"
    and "c \<in> set (local_direct_chains p)" "glrc_codeword k r z bs blocks" "distinct F" "set F \<subseteq> {..<k + r + z}"
  shows "\<exists>b \<in> set F. local_direct_failed_block_id c = int b
     \<and> run_chain LOCAL_LINEAR bs ((!) blocks) (nat hub_id) c
        = map (gf_mul (glrc_local_block_coefficient (int b) (int k) (int r))) (blocks ! b)"
  using local_direct_sink_payload [OF assms] by metis

theorem local_direct_delivers_scaled_block_witness:
  "\<exists>p c. glrc_build_pipeline_plan 4 2 2 [0] sample_plan (all_recovery_equations 4 2 2) (int 5) sample_lookup 7 = Inr p
     \<and> c \<in> set (local_direct_chains p) \<and> local_direct_failed_block_id c = 0
     \<and> run_chain LOCAL_LINEAR 2 ((!) sample_stripe) 5 c \<noteq> sample_stripe ! 0"
proof -
  let ?eqs = "all_recovery_equations 4 2 2"
  obtain p where p: "glrc_build_pipeline_plan 4 2 2 [0] sample_plan ?eqs (int 5) sample_lookup 7 = Inr p"
    using pipeline_plan_succeeds [of 4 2 2 sample_lookup 5 "[0]" sample_plan 7] sample_lookup_complete
    by (auto simp: sample_involved sample_plan_facts)
  have "0 < length ?eqs" "eq_type (?eqs ! 0) = LOCAL" by code_simp+
  then have "local_direct_set [0] ?eqs [0] = [0]" by (simp add: local_direct_set_def sample_involved)
  then obtain c where c: "c \<in> set (local_direct_chains p)"
    using pipeline_plan_direct_chains [OF p] by (auto simp: sample_plan_facts)
  have "glrc_local_block_coefficient 0 4 2 = gf_inv 6" "gf_mul (gf_inv 6) 1 \<noteq> 1" by code_simp+
  then show ?thesis
    using local_direct_delivers_scaled_block [OF p c sample_codeword] p c
    by (auto simp: sample_blocks)
qed

text \<open>
  The coefficient check at a hop is exact: a received coefficient row is accepted if and only
  if it is the row of that equation; any altered, missing or extra coefficient is an error.
\<close>

theorem coefficient_row_check_exact:
  assumes "0 < z" "e < z + r"
  shows "glrc_pipeline_verify_coef_row k r z e row = Inr () \<longleftrightarrow> row = glrc_pipeline_build_coef_row k r z e"
  using assms by (rule verify_accepts_iff)

text \<open>
  The degenerate hub chain: when the hub is the only surviving block of an equation, the chain's
  head and its tail are the same block, which is added twice, so the hub's right-hand side is all
  zeros whatever the block holds.
\<close>

theorem hub_only_chain_is_zero:
  assumes "hops chain = [h]" "hub_is_chain_tail chain" "hop_block_id h = hub"
  shows "run_chain codec len stripe hub chain = replicate len 0"
  using assms by (rule run_chain_hub_only)

section \<open>Listener ports\<close>

definition sample_hosts :: "GlrcPipelineNodeLookup list" where
  "sample_hosts = map (\<lambda>i. \<lparr>node_id = int i, datanode_ip = ''d'', datanode_port = 1, proxy_ip = ''p'',
     proxy_port = 50405 + 2 * int i, block_key = ''b'' @ to_string i\<rparr>) [0..<8]"

definition sample_pipeline :: "string + GlrcPipelinePlan" where
  "sample_pipeline = glrc_build_pipeline_plan 4 2 2 [0, 1] (empty_plan\<lparr>selected_equation_indices := [0, 2]\<rparr>)
     (all_recovery_equations 4 2 2) 2 sample_hosts 7"

lemma sample_pipeline_built:
  obtains p where "sample_pipeline = Inr p" "exchange_epoch p = 7" "set (plan_proxies p) \<subseteq> {''p''} \<times> {50409, 50411, 50413, 50417}"
    "length (plan_proxies p) = 7"
proof -
  have "(case sample_pipeline of Inl _ \<Rightarrow> None | Inr p \<Rightarrow> Some (exchange_epoch p, plan_proxies p)) =
    Some (7, [(''p'', 50417), (''p'', 50409), (''p'', 50409), (''p'', 50413), (''p'', 50411), (''p'', 50409), (''p'', 50409)])"
    by code_simp
  then show ?thesis using that by (auto split: sum.splits)
qed

lemma reserved_ports_initial [simp]: "reserved_ports initial_session key = {}"
  by (simp add: reserved_ports_def initial_session_def)




text \<open>
  C19. In every state that allocations, releases and resets can reach, a port in flight for a proxy is one of
  that proxy's band: it is never in flight for a proxy with another index on the same machine, it stays below the
  ephemeral range, and it is not an exchange port of the conventional repair that may run beside the pipeline.
\<close>

theorem inflight_ports_stay_in_band:
  assumes "session_reachable one s" "p \<in> s_inflight_ports s (proxy_key ip g)"
  shows "20000 \<le> p \<and> p < 32000
    \<and> (p \<in> s_inflight_ports s (proxy_key ip' g') \<longrightarrow> pipeline_proxy_index one g' = pipeline_proxy_index one g)
    \<and> (0 \<le> part \<longrightarrow> part < 8 \<longrightarrow> 0 \<le> epoch \<longrightarrow> p \<noteq> phase2_exchange_port one g'' part epoch)"
proof -
  obtain hub where g: "0 \<le> pipeline_proxy_index one g" "p \<in> half_band one (pipeline_proxy_index one g) hub"
    using reachable_inflight [OF assms] .
  note range = half_band_range [OF pipeline_proxy_index_valid [OF g(1)] g(2)]
  have "pipeline_proxy_index one g' = pipeline_proxy_index one g" if p': "p \<in> s_inflight_ports s (proxy_key ip' g')"
  proof -
    obtain hub' where "p \<in> half_band one (pipeline_proxy_index one g') hub'" using reachable_inflight [OF assms(1) p'] .
    then have "half_band one (pipeline_proxy_index one g) hub \<inter> half_band one (pipeline_proxy_index one g') hub' \<noteq> {}"
      using g(2) by blast
    then show ?thesis using half_bands_disjoint by (metis Pair_inject)
  qed
  moreover have "p \<noteq> phase2_exchange_port one g'' part epoch" if "0 \<le> part" "part < 8" "0 \<le> epoch"
    using range(1) phase2_exchange_port_range(2) [OF that, of one g''] by linarith
  ultimately show ?thesis using range by blast
qed

theorem inflight_ports_stay_in_band_witness:
  "\<exists>p s' a'. allocate False (0, \<lambda>_. True) ''h'' 50405 False 0 0 initial_session (new_allocator 3) = (p, s', a')
     \<and> 20000 \<le> p \<and> p < 32000 \<and> p \<noteq> phase2_exchange_port False 50405 2 3"
proof -
  obtain p s' a' where al: "allocate False (0, \<lambda>_. True) ''h'' 50405 False 0 0 initial_session (new_allocator 3) = (p, s', a')"
    by (metis prod_cases3)
  have "slot_cursor False (proxy_key ''h'' 50405) initial_session = 0" by (simp add: initial_session_def slot_cursor_def)
  then have "0 < p"
    by (intro allocate_finds_port [OF _ _ _ _ _ al])
       (simp_all add: blocked_ports_new port_half_eq pipeline_proxy_index_def port_consts)
  then have "p \<in> s_inflight_ports s' (proxy_key ''h'' 50405)" using allocate_success(2) [OF al] by simp
  moreover have "session_reachable False s'" using session_reachable.alloc [OF session_reachable.start _ _ _ al] by simp
  ultimately show ?thesis
    using inflight_ports_stay_in_band [of False s' p "''h''" 50405 "''h''" 50405 2 3 50405] al by auto
qed

text \<open>
  C20. The search for ports does not give up early: when the proxies of a plan have valid indices and their ports
  can be bound, and for every proxy the reserved ports and the listeners the plan needs there fit in half a band,
  the plan gets all its ports.
\<close>

theorem enough_ports_are_found:
  assumes "session_reachable one s" "0 \<le> exchange_epoch plan"
    and "\<forall>(ip, g)\<in>set (plan_proxies plan). 0 \<le> pipeline_proxy_index one g"
    and "\<forall>i j. \<forall>p\<in>{20000..<32000}. snd (probes i j) p"
    and "\<forall>key. finite (reserved_ports s key)"
    and "\<forall>key. card (reserved_ports s key)
           + length (filter (\<lambda>(ip, g). proxy_key ip g = key) (plan_proxies plan)) \<le> nat (port_half one)"
  shows "\<exists>cps s' a'. allocate_plan_ports one probes plan s = (None, cps, s', a')"
  using assms by (rule plan_ports_succeed)

theorem enough_ports_are_found_witness:
  "\<exists>p cps s' a'. sample_pipeline = Inr p
     \<and> allocate_plan_ports False (\<lambda>_ _. (0, \<lambda>_. True)) p initial_session = (None, cps, s', a')"
proof -
  obtain p where p: "sample_pipeline = Inr p" "exchange_epoch p = 7"
    "set (plan_proxies p) \<subseteq> {''p''} \<times> {50409, 50411, 50413, 50417}" "length (plan_proxies p) = 7"
    by (rule sample_pipeline_built)
  have "length (filter P (plan_proxies p)) \<le> 75" for P
    using order.trans [OF length_filter_le, of "plan_proxies p" 75 P] p(4) by simp
  then have "\<exists>cps s' a'. allocate_plan_ports False (\<lambda>_ _. (0, \<lambda>_. True)) p initial_session = (None, cps, s', a')"
    using p by (intro enough_ports_are_found) (auto simp: session_reachable.start port_half_eq pipeline_proxy_index_def port_consts)
  then show ?thesis using p(1) by blast
qed

section \<open>The coordinator's metadata\<close>

definition sample_doc :: "XmlCluster list" where
  "sample_doc =
     [\<lparr>xml_id = ''0'', xml_proxy = ''10.0.0.1:50005'',
       xml_nodes = map (\<lambda>p. \<lparr>xml_uri = ''10.0.0.1:'' @ p, xml_node_proxy = None\<rparr>) [''1'', ''2'', ''3'', ''4'']\<rparr>,
      \<lparr>xml_id = ''1'', xml_proxy = ''10.0.0.2:50005'',
       xml_nodes = map (\<lambda>p. \<lparr>xml_uri = ''10.0.0.2:'' @ p, xml_node_proxy = None\<rparr>) [''1'', ''2'', ''3'', ''4'']\<rparr>]"

definition sample_config :: SysConfig where
  "sample_config = \<lparr>CodeType = ''gLRC'', AppendMode = ''UNILRC_MODE'', BlockSize = 2, UnitSize = 1, ClusterNum = 2,
     cfg_n = 8, cfg_k = 4, cfg_r = 2, cfg_z = 2\<rparr>"

definition sample_coordinator :: coordinator where
  "sample_coordinator = the (init_clusterinfo sample_doc initial_coordinator)"

lemma sample_loads: "init_clusterinfo sample_doc initial_coordinator = Some sample_coordinator"
proof -
  have "list_all cluster_parses sample_doc" by code_simp
  then show ?thesis using init_clusterinfo_iff [of sample_doc initial_coordinator] by (auto simp: sample_coordinator_def)
qed

lemma sample_reachable: "service_reachable cfg sample_doc sample_coordinator"
  by (rule service_reachable.start [OF sample_loads])

lemma sample_nodes: "sum_list (map (\<lambda>xc. length (xml_nodes xc)) sample_doc) = 8"
  by (simp add: sample_doc_def)

lemma sample_free: "\<not> m_mutex_held sample_coordinator"
  using init_clusterinfo_loaded [OF sample_loads] by (simp add: loaded_def bookkeeping_def initial_coordinator_def)






lemma sample_first: "m_cur_stripe_id sample_coordinator = 0"
  using init_clusterinfo_loaded [OF sample_loads] by (simp add: loaded_def bookkeeping_def initial_coordinator_def)

lemma sample_config_simps: "CodeType sample_config = ''gLRC''" "cfg_k sample_config = 4" "cfg_r sample_config = 2" "cfg_z sample_config = 2"
  "cfg_n sample_config = 4 + 2 + 2" "BlockSize sample_config = 2"
  by (simp_all add: sample_config_def)

lemma sample_upload:
  "\<exists>st' reply. uploadSetValue sample_config (\<lambda>_. []) (\<lambda>_. [True]) ''client'' (BlockSize sample_config * 4) sample_coordinator = Some (st', OK, reply)
    \<and> length (stripe_blocks (stripe_at st' 0)) = 8 \<and> (\<forall>b\<in>set (stripe_blocks (stripe_at st' 0)). map2stripe b = 0) \<and> \<not> m_mutex_held st'"
proof -
  have inv: "service_inv sample_config (4 + 2 + 2) sample_coordinator"
    using service_reachable_inv [OF sample_reachable [of sample_config]] by (simp add: sample_nodes)
  from glrc_upload_accepted [OF inv sample_config_simps(1-5) _ sample_free, of "\<lambda>_. [True]" "\<lambda>_. []" "''client''"]
  show ?thesis unfolding sample_first by (auto simp: glrc_placed_def)
qed

definition sample_memory :: buffer where
  "sample_memory = map word_of_nat [0..<16]"









lemma sample_small: "0 < (2 :: nat)" "BlockSize sample_config < 2 ^ 31"
  by (simp_all add: sample_config_simps)

lemma sample_ilp: "glrc_normalize_equation_policy ''ilp'' \<in> set known_policies"
  by code_simp

lemma sample_pair_plan:
  "success (glrc_solve_repair_plan (\<lambda>key. sort_key key) 0 (glrc_normalize_equation_policy ''ilp'') 4 2 2 [0, 3])"
  "helper_block_ids (glrc_solve_repair_plan (\<lambda>key. sort_key key) 0 (glrc_normalize_equation_policy ''ilp'') 4 2 2 [0, 3]) \<noteq> []"
proof -
  let ?p = "glrc_solve_repair_plan (\<lambda>key. sort_key key) 0 (glrc_normalize_equation_policy ''ilp'') 4 2 2 [0, 3]"
  have pol: "glrc_normalize_equation_policy (glrc_normalize_equation_policy ''ilp'') \<in> set known_policies" by code_simp
  note planner = std_sorting.dispatch_planner [OF stable.std_sorting_axioms pol, of 0]
  show ok: "success ?p" by (rule repair_planner.complete [OF planner]) (simp_all add: sample_params sample_decodable)
  have "plan_valid 4 2 2 [0, 3] ?p" using repair_planner.sound [OF planner _ _ ok] by simp
  then have sel: "selected_equation_indices ?p \<noteq> []" "set (selected_equation_indices ?p) \<subseteq> {..<4}"
    and hs: "helper_block_ids ?p = union_helpers (selected_equation_indices ?p) (all_recovery_equations 4 2 2) [0, 3]"
    using repair_planner.plan_shape(2) [OF planner _ _ ok] by (auto simp: plan_valid_def Let_def)
  obtain e where e: "e \<in> set (selected_equation_indices ?p)" "e < 4" using sel by (cases "selected_equation_indices ?p") auto
  have "\<forall>e\<in>{..<4}. \<exists>b\<in>set (involved_blocks (all_recovery_equations 4 2 2 ! e)). b \<notin> {0, 3}" by code_simp
  then obtain b where "b \<in> set (involved_blocks (all_recovery_equations 4 2 2 ! e))" "b \<notin> set [0, 3]" using e(2) by (metis empty_set lessThan_iff list.simps(15))
  then have "b \<in> set (helper_block_ids ?p)" using e(1) unfolding hs set_union_helpers by blast
  then show "helper_block_ids ?p \<noteq> []" by (metis empty_iff empty_set)
qed

text \<open>The uploaded sample stripe with two of its blocks gone.\<close>

lemma sample_survivors:
  obtains st' blocks cf where "glrc_codeword 4 2 2 2 blocks" "stripe_survives 4 2 2 st' (stripe_at st' 0) blocks [0, 3] cf"
    "cluster_fetch cf (block_at st' (stripe_at st' 0) 0) = None"
    "\<And>i. i < 8 \<Longrightarrow> (let nd = node_at st' (map2node (stripe_blocks (stripe_at st' 0) ! i))
       in proxy_key (repair_proxy_ip nd) (repair_proxy_port nd) \<in> set (init_proxyinfo st'))"
proof -
  obtain st' reply where
    u: "uploadSetValue sample_config (\<lambda>_. []) (\<lambda>_. [True]) ''client'' (BlockSize sample_config * 4) sample_coordinator = Some (st', OK, reply)"
    using sample_upload by blast
  let ?stripe = "stripe_at st' (m_cur_stripe_id sample_coordinator)" and ?blocks = "client_stripe 4 2 2 sample_config sample_memory"
  have inv: "service_inv sample_config (4 + 2 + 2) sample_coordinator"
    using service_reachable_inv [OF sample_reachable [of sample_config]] by (simp add: sample_nodes)
  have len: "length sample_memory = (4 + 2 + 2) * BlockSize sample_config" by (simp add: sample_memory_def sample_config_simps)
  have gs: "set [0, 1] = {..<2 :: nat}" by auto
  note up = glrc_upload_stored [OF inv sample_config_simps(1-5) _ sample_free _ u len gs,
    where orders = "\<lambda>g. [0..<length (blockkeys (generate_add_plans sample_config st' ?stripe ! g))]"]
  obtain cf1 where stored: "stripe_stored st' ?stripe ?blocks (\<lambda>_ _. None) cf1"
    using up(5) [of "\<lambda>n. replicate n 0" "\<lambda>_ _. None"] by (auto simp: lessThan_atLeast0)
  have placed: "glrc_placed 4 2 2 ?stripe" "inj_on (block_at st' ?stripe) {..<8}" using up(1,2) by (auto simp: lessThan_atLeast0)
  then have n: "length (stripe_blocks ?stripe) = 8" by (simp add: glrc_placed_def)
  let ?cf = "DelInDatanode (block_at st' ?stripe 0) (DelInDatanode (block_at st' ?stripe 3) cf1)"
  have gone: "cluster_fetch ?cf (block_at st' ?stripe 0) = None" by (simp add: cluster_store.fetch_discard)
  have "cluster_fetch ?cf (block_at st' ?stripe i) = Some (?blocks ! i)" if "i < 8" "i \<noteq> 0" "i \<noteq> 3" for i
    using stored that n inj_on_contraD [OF placed(2), of i 0] inj_on_contraD [OF placed(2), of i 3]
    by (simp add: stripe_stored_def cluster_store.fetch_discard)
  then have surv: "stripe_survives 4 2 2 st' ?stripe ?blocks [0, 3] ?cf" using placed by (simp add: stripe_survives_def)
  have cw: "glrc_codeword 4 2 2 2 ?blocks" using client_stripe_codeword(1) [OF _ len] by (simp add: sample_config_simps)
  have "(let nd = node_at st' (map2node (stripe_blocks ?stripe ! i))
       in proxy_key (repair_proxy_ip nd) (repair_proxy_port nd) \<in> set (init_proxyinfo st'))" if "i < 8" for i
    using uploaded_node(2,3) [OF inv sample_config_simps(1-5) _ sample_free _ u, of i] that by simp
  then show thesis using that [OF cw] surv gone by (simp add: sample_first)
qed

lemma sample_session:
  assumes "gsc dvd 2" "0 < gsc"
  obtains st' blocks cf jobs where "glrc_codeword 4 2 2 (BlockSize sample_config) blocks"
    "stripe_survives 4 2 2 st' (stripe_at st' 0) blocks (map nat [0, 3]) cf" "cluster_fetch cf (block_at st' (stripe_at st' 0) 0) = None"
    "phase2_session sample_config gsc True (init_proxyinfo st') (\<lambda>key. sort_key key) 0 ''ilp'' st' 0 [0, 3] jobs"
    "\<forall>i<length [0, 3 :: int]. job_stub (jobs i)"
proof -
  obtain st' blocks cf where st: "glrc_codeword 4 2 2 2 blocks" "stripe_survives 4 2 2 st' (stripe_at st' 0) blocks [0, 3] cf"
    "cluster_fetch cf (block_at st' (stripe_at st' 0) 0) = None"
    and stub: "\<And>i. i < 8 \<Longrightarrow> (let nd = node_at st' (map2node (stripe_blocks (stripe_at st' 0) ! i))
       in proxy_key (repair_proxy_ip nd) (repair_proxy_port nd) \<in> set (init_proxyinfo st'))"
    by (rule sample_survivors) (rule that)
  have cw: "glrc_codeword 4 2 2 (BlockSize sample_config) blocks" and surv: "stripe_survives 4 2 2 st' (stripe_at st' 0) blocks (map nat [0, 3]) cf"
    using st by (simp_all add: sample_config_simps)
  obtain jobs where jobs: "phase2_session sample_config gsc True (init_proxyinfo st') (\<lambda>key. sort_key key) 0 ''ilp'' st' 0 [0, 3] jobs"
    by (rule phase2_session_exists [OF stable.std_sorting_axioms sample_ilp sample_config_simps(1-4) sample_small cw surv])
      (use sample_pair_plan stub assms in \<open>auto simp: sample_config_simps\<close>)
  have "job_stub (jobs i)" if "i < length [0, 3 :: int]" for i
    by (rule phase2_session_setup [OF jobs stable.std_sorting_axioms sample_ilp sample_config_simps(2-4) sample_small cw surv])
      (use stub [of 0] stub [of 3] that in \<open>auto simp: less_Suc_eq\<close>)
  then show thesis using that cw surv st(3) jobs by blast
qed





text \<open>
  C28. With fewer shards than failed blocks the parallel repair never succeeds: the coordinator does not start the partitions that got
  no shard, and the proxies of the others wait for them.
\<close>

theorem too_few_shards_never_repair:
  fixes failed :: "int list"
  assumes "phase2_session cfg shard_total do_write proxies std_sort elapsed policy st sid failed jobs"
    and "std_sorting std_sort" "glrc_normalize_equation_policy policy \<in> set known_policies"
    and "cfg_k cfg = k" "cfg_r cfg = r" "cfg_z cfg = z" "0 < z" "BlockSize cfg < 2 ^ 31"
    and "glrc_codeword k r z (BlockSize cfg) blocks" "stripe_survives k r z st (stripe_at st sid) blocks (map nat failed) cf"
    and "nat shard_total < length failed" "phase2_reachable cfg reach disk (length failed) jobs cf s"
  shows "\<not> phase2_success (length failed) s"
proof -
  obtain L hs where init: "phase2_setup cfg (nat shard_total) L (block_at st (stripe_at st sid)) blocks (map nat failed) hs jobs cf" and S: "0 < shard_total"
    by (rule phase2_session_setup [OF assms(1-10)])
  from too_few_shards [OF init phase2_reachable_inv [OF init]] assms(11,12) S show ?thesis by simp
qed

theorem too_few_shards_never_repair_witness:
  "\<exists>st' cf jobs. phase2_session sample_config 1 True (init_proxyinfo st') (\<lambda>key. sort_key key) 0 ''ilp'' st' 0 [0, 3] jobs
    \<and> (\<forall>s. phase2_reachable sample_config (\<lambda>_. True) (\<lambda>_. True) 2 jobs cf s \<longrightarrow> \<not> phase2_success 2 s)"
proof -
  obtain st' blocks cf jobs where cw: "glrc_codeword 4 2 2 (BlockSize sample_config) blocks"
    and surv: "stripe_survives 4 2 2 st' (stripe_at st' 0) blocks (map nat [0, 3]) cf" and gone: "cluster_fetch cf (block_at st' (stripe_at st' 0) 0) = None"
    and jobs: "phase2_session sample_config 1 True (init_proxyinfo st') (\<lambda>key. sort_key key) 0 ''ilp'' st' 0 [0, 3] jobs"
    and stubs: "\<forall>i<length [0, 3 :: int]. job_stub (jobs i)"
    by (rule sample_session [of 1]) (simp, simp, rule that)
  show ?thesis
    using too_few_shards_never_repair [OF jobs stable.std_sorting_axioms sample_ilp sample_config_simps(2-4) sample_small cw surv,
      where reach = "\<lambda>_. True" and disk = "\<lambda>_. True"] jobs by (auto simp: numeral_2_eq_2)
qed

text \<open>
  C29. The repair of a single block of such a stripe does not return: every node of the cluster already holds a block of
  the stripe, and the coordinator draws nodes until it finds one that does not.
\<close>

theorem glrc_single_repair_never_returns:
  fixes k r z :: nat
  assumes "service_reachable cfg doc st" "sum_list (map (\<lambda>xc. length (xml_nodes xc)) doc) = k + r + z"
    and "CodeType cfg = ''gLRC''" "cfg_k cfg = k" "cfg_r cfg = r" "cfg_z cfg = z" "cfg_n cfg = k + r + z"
    and "0 < z" "\<not> m_mutex_held st" "\<forall>i. list_ex id (take 3 (att i))"
    and "uploadSetValue cfg rnd att key (BlockSize cfg * k) st = Some (st', OK, reply)" "b < k + r + z"
  shows "recovery_one_block cfg st' drawn (m_cur_stripe_id st) b = None"
proof -
  have inv: "service_inv cfg (k + r + z) st" using service_reachable_inv [OF assms(1)] assms(2) by simp
  have "\<forall>c. \<forall>v\<in>set (cl_nodes (cluster_at st' c)). nd_stripes (node_at st' v) (m_cur_stripe_id st) \<noteq> None"
    using glrc_upload_accepted [OF inv assms(3-10), of rnd key] assms(11) by auto
  then show ?thesis by (rule recovery_glrc_never [OF assms(3-6,8,12)])
qed

theorem glrc_single_repair_never_returns_witness:
  "\<exists>st' reply. uploadSetValue sample_config (\<lambda>_. []) (\<lambda>_. [True]) ''client'' 8 sample_coordinator = Some (st', OK, reply)
    \<and> recovery_one_block sample_config st' [0, 1, 2, 3] 0 5 = None"
proof -
  obtain st' reply where u: "uploadSetValue sample_config (\<lambda>_. []) (\<lambda>_. [True]) ''client'' (BlockSize sample_config * 4) sample_coordinator = Some (st', OK, reply)"
    using sample_upload by blast
  have "sum_list (map (\<lambda>xc. length (xml_nodes xc)) sample_doc) = 4 + 2 + 2" by (simp add: sample_nodes)
  from glrc_single_repair_never_returns [OF sample_reachable this sample_config_simps(1-5) _ sample_free _ u, of 5 "[0, 1, 2, 3]"]
  show ?thesis using u by (simp add: sample_first sample_config_simps(6))
qed


text \<open>
  C30. An append touches exactly its bytes: byte \<open>q\<close> of data block \<open>b\<close> is in a slice of the plan iff its position in the
  stripe is one of the \<open>a\<close> positions from \<open>o0\<close> on, and the parity slice covers every offset that is touched.
\<close>

theorem append_slices_are_exact:
  assumes "0 < U" "0 < k" "mode = ''UNILRC_MODE'' \<or> mode = ''CACHED_MODE''" "parity_slice mode U k o0 a = Some (psize, poff)" "b < k"
  shows "(slice_has (data_slices U k o0 a) b q \<longleftrightarrow> o0 \<le> logical_offset U k b q \<and> logical_offset U k b q < o0 + a)
    \<and> (slice_has (data_slices U k o0 a) b q \<longrightarrow> poff \<le> int q \<and> int q < poff + int psize)"
proof -
  have iff: "slice_has (data_slices U k o0 a) b q \<longleftrightarrow> o0 \<le> logical_offset U k b q \<and> logical_offset U k b q < o0 + a"
    using data_slices_exact [OF assms(1,2), of o0 a] assms(5) by (simp add: slice_inv_def)
  then show ?thesis using parity_slice_covers [OF assms(1,2) _ _ assms(3,4)] unit_of_logical [OF assms(1,5), of q] by metis
qed

theorem append_slices_are_exact_witness:
  "slice_has (data_slices 2 3 1 6) 0 1 \<and> slice_has (data_slices 2 3 1 6) 0 2 \<and> \<not> slice_has (data_slices 2 3 1 6) 0 3"
  using append_slices_are_exact [of 2 3 "''CACHED_MODE''" 1 6 _ _ 0 1] append_slices_are_exact [of 2 3 "''CACHED_MODE''" 1 6 _ _ 0 2]
    append_slices_are_exact [of 2 3 "''CACHED_MODE''" 1 6 _ _ 0 3]
  by (simp add: parity_slice_def Let_def logical_offset_def)

text \<open>
  C31. The client and the coordinator cut an append the same way: the slice sizes that the client sends to each cluster are
  those that the plan of the cluster expects, and with \<open>z\<close> dividing \<open>r\<close> they add up to the size announced for the plan.
\<close>

theorem client_and_coordinator_agree_on_append:
  assumes "generateAppendPlan cfg st stripe o0 a = Some plans" "plans \<noteq> []"
    and "get_append_slice_plans cfg (AppendMode cfg) o0 a = Some (node_sizes, data_nums, data_sizes, par, b0)"
    and "cfg_n cfg = stripe_n stripe" "cfg_k cfg = stripe_k stripe" "cfg_r cfg = stripe_r stripe" "cfg_z cfg = stripe_z stripe"
    and "stripe_n stripe = stripe_k stripe + stripe_r stripe + stripe_z stripe"
  shows "node_sizes = map sizes plans
    \<and> (stripe_z stripe dvd stripe_r stripe \<longrightarrow> map sum_list node_sizes = map append_size plans)"
proof -
  have eq: "node_sizes = map sizes plans" by (rule client_plan_agrees(1) [OF assms])
  obtain par' where "plans = map (append_plan cfg st stripe o0 a par' (with_parity (stripe_k stripe) (stripe_n stripe) par'
       (data_slices (UnitSize cfg) (stripe_k stripe) o0 a))) [0..<stripe_z stripe]"
    using generateAppendPlan_Some [OF assms(1,2)] by blast
  then have len: "length plans = stripe_z stripe" by simp
  have "map sum_list node_sizes = map append_size plans" if "stripe_z stripe dvd stripe_r stripe"
    using append_plan_sizes [OF assms(1,2) _ assms(8) that] len by (intro nth_equalityI) (auto simp: eq)
  then show ?thesis using eq by blast
qed

definition sample_append_config :: SysConfig where
  "sample_append_config = \<lparr>CodeType = ''UniLRC'', AppendMode = ''UNILRC_MODE'', BlockSize = 2, UnitSize = 1, ClusterNum = 2,
     cfg_n = 8, cfg_k = 4, cfg_r = 2, cfg_z = 2\<rparr>"

theorem client_and_coordinator_agree_on_append_witness:
  "\<exists>plans node_sizes rest. generateAppendPlan sample_append_config initial_coordinator (new_stripe sample_append_config 0 ''c'') 1 3 = Some plans
    \<and> get_append_slice_plans sample_append_config ''UNILRC_MODE'' 1 3 = Some (node_sizes, rest)
    \<and> map sum_list node_sizes = map append_size plans"
proof -
  let ?cfg = sample_append_config and ?s = "new_stripe sample_append_config 0 ''c''"
  have s: "stripe_n ?s = 8" "stripe_k ?s = 4" "stripe_r ?s = 2" "stripe_z ?s = 2" "cfg_n ?cfg = 8" "cfg_k ?cfg = 4" "cfg_r ?cfg = 2"
    "cfg_z ?cfg = 2" "AppendMode ?cfg = ''UNILRC_MODE''" by (simp_all add: new_stripe_def sample_append_config_def)
  obtain plans where p: "generateAppendPlan ?cfg initial_coordinator ?s 1 3 = Some plans" "plans \<noteq> []"
  proof -
    obtain par where "parity_slice ''UNILRC_MODE'' (UnitSize ?cfg) 4 1 3 = Some par"
      by (simp add: parity_slice_def Let_def case_prod_beta)
    then show ?thesis using that by (simp add: generateAppendPlan_def Let_def s del: One_nat_def) (simp add: sample_append_config_def new_stripe_def)
  qed
  obtain ns dn ds par b0 where g: "get_append_slice_plans ?cfg (AppendMode ?cfg) 1 3 = Some (ns, dn, ds, par, b0)"
    by (cases "get_append_slice_plans ?cfg (AppendMode ?cfg) 1 3") (auto simp: get_append_slice_plans_def Let_def s)
  from client_and_coordinator_agree_on_append [OF p g] p g show ?thesis by (auto simp: s)
qed


text \<open>
  C32. The placements of UniLRC, AzureLRC, OptimalLRC and UniformLRC never put two blocks of a stripe on one node; a block is on a
  node of the cluster recorded for it, and two blocks share a cluster exactly when they are in one group, as long as
  there are as many clusters as groups.
\<close>

theorem group_placement_separates_blocks:
  assumes "place_stripe cfg rnd stripe st = Some (st', stripe')" "CodeType cfg \<noteq> ''gLRC''" "known_code (CodeType cfg)"
    and "tables_ok st" "stripe_blocks stripe = []" "group_to_blocks stripe = []"
    and "i < stripe_n stripe" "j < stripe_n stripe"
    and "0 \<le> map2group (stripe_blocks stripe' ! i)" "map2group (stripe_blocks stripe' ! i) < int (ClusterNum cfg)"
    and "0 \<le> map2group (stripe_blocks stripe' ! j)" "map2group (stripe_blocks stripe' ! j) < int (ClusterNum cfg)"
  shows "length (stripe_blocks stripe') = stripe_n stripe
    \<and> (map2node (stripe_blocks stripe' ! i) = map2node (stripe_blocks stripe' ! j) \<longleftrightarrow> i = j)
    \<and> map2node (stripe_blocks stripe' ! i) \<in> set (cl_nodes (cluster_at st (map2cluster (stripe_blocks stripe' ! i))))
    \<and> (map2cluster (stripe_blocks stripe' ! i) = map2cluster (stripe_blocks stripe' ! j)
         \<longleftrightarrow> map2group (stripe_blocks stripe' ! i) = map2group (stripe_blocks stripe' ! j))"
proof -
  from assms(1-3) obtain grp where p: "place_by_group cfg grp rnd stripe st = Some (st', stripe')"
    by (auto simp: place_stripe_def known_code_def Let_def initialize_optimal_lrc_stripe_placement_def initialize_uniform_lrc_stripe_placement_def
        initialize_unilrc_and_azurelrc_stripe_placement_def split: if_splits)
  note s = place_by_group_sound [OF p assms(4-6)]
  obtain gi gj where g: "map2group (stripe_blocks stripe' ! i) = int gi" "map2group (stripe_blocks stripe' ! j) = int gj"
    using assms(9,11) nonneg_int_cases by metis
  have "gi < ClusterNum cfg" "gj < ClusterNum cfg" using assms(10,12) by (simp_all add: g)
  from cluster_of_group_inj [OF this, of "stripe_id stripe"]
  have "map2cluster (stripe_blocks stripe' ! i) = map2cluster (stripe_blocks stripe' ! j) \<longleftrightarrow> gi = gj"
    using s(3) [OF assms(7)] s(3) [OF assms(8)] by (simp add: g)
  moreover have "map2node (stripe_blocks stripe' ! i) = map2node (stripe_blocks stripe' ! j) \<longleftrightarrow> i = j"
    using s(1,2) assms(7,8) nth_eq_iff_index_eq [of "map map2node (stripe_blocks stripe')" i j] by simp
  moreover have "map2node (stripe_blocks stripe' ! i) \<in> set (cl_nodes (cluster_at st (map2cluster (stripe_blocks stripe' ! i))))"
    using s(3) [OF assms(7)] by blast
  ultimately show ?thesis using s(1) by (simp add: g)
qed

definition sample_pair :: coordinator where
  "sample_pair = initial_coordinator\<lparr>m_node_table := [(0, default_node), (1, default_node)],
     m_cluster_table := [(0, default_cluster\<lparr>cl_nodes := [0, 1]\<rparr>)]\<rparr>"

definition sample_pair_config :: SysConfig where
  "sample_pair_config = \<lparr>CodeType = ''AzureLRC'', AppendMode = ''UNILRC_MODE'', BlockSize = 2, UnitSize = 1, ClusterNum = 1,
     cfg_n = 2, cfg_k = 1, cfg_r = 0, cfg_z = 1\<rparr>"

lemma sample_pair_placed:
  "\<exists>st' stripe'. place_stripe sample_pair_config (\<lambda>_. [0, 1]) (new_stripe sample_pair_config 0 ''c'') sample_pair = Some (st', stripe')
    \<and> map map2group (stripe_blocks stripe') = [0, 0]"
  by (simp add: place_stripe_def initialize_unilrc_and_azurelrc_stripe_placement_def place_by_group_def place_block_def new_stripe_def
      sample_pair_config_def unilrc_azure_group_def randomly_select_a_node_def update_stripe_info_in_node_def sample_pair_def
      initial_coordinator_def cluster_at_def node_at_def tbl_get_def default_cluster_def default_node_def set_node_def enter_block_def
      set_cluster_def Let_def add_to_map_def numeral_2_eq_2 smod_nonneg)


theorem group_placement_separates_blocks_witness:
  "\<exists>st' stripe'. place_stripe sample_pair_config (\<lambda>_. [0, 1]) (new_stripe sample_pair_config 0 ''c'') sample_pair = Some (st', stripe')
    \<and> map2node (stripe_blocks stripe' ! 0) \<noteq> map2node (stripe_blocks stripe' ! 1)
    \<and> map2cluster (stripe_blocks stripe' ! 0) = map2cluster (stripe_blocks stripe' ! 1)"
proof -
  obtain st' stripe' where p: "place_stripe sample_pair_config (\<lambda>_. [0, 1]) (new_stripe sample_pair_config 0 ''c'') sample_pair = Some (st', stripe')"
    and g: "map map2group (stripe_blocks stripe') = [0, 0]" using sample_pair_placed by - (elim exE conjE, rule that, assumption+)
  have "length (stripe_blocks stripe') = 2" using arg_cong [OF g, of length] by simp
  then have g': "map2group (stripe_blocks stripe' ! 0) = 0" "map2group (stripe_blocks stripe' ! 1) = 0"
    using arg_cong [OF g, of "\<lambda>l. l ! 0"] arg_cong [OF g, of "\<lambda>l. l ! 1"] by simp_all
  have "tables_ok sample_pair" by (simp add: tables_ok_def tbl_ok_def sample_pair_def initial_coordinator_def)
  then show ?thesis
    using group_placement_separates_blocks [OF p, of 0 1] p g'
    by (auto simp: new_stripe_def sample_pair_config_def known_code_def)
qed

text \<open>
  A block of a local group that is spread over several racks is the XOR of the parts that the racks send: each rack
  combines its surviving blocks of the group with the weights of the repair, in any split of the group.
\<close>

theorem cross_rack_parts_rebuild_block:
  assumes "glrc_codeword k r z (BlockSize cfg) blocks" "0 < z" "k + r < 256" "b < k + r + z"
    and "distinct (concat others @ own)"
    and "set (concat others @ own) = set (glrc_build_placement_groups k r z ! home_group k r z b) - {b}"
    and "length real_res = BlockSize cfg" "length res = BlockSize cfg"
    and "\<forall>buf\<in>set bufs. length buf = BlockSize cfg" "length bufs = length others"
  shows "cross_rack_xor cfg
      (map (\<lambda>(buf, ids). decode_uniform_lrc k r z (length ids) ids (map ((!) blocks) ids) buf (BlockSize cfg) b) (zip bufs others))
      (decode_uniform_lrc k r z (length own) own (map ((!) blocks) own) res (BlockSize cfg) b) real_res = blocks ! b"
  unfolding decode_uniform_eq_glrc
  by (rule cross_rack_recovers [OF assms(1-4) _ assms(7-10)]) (use assms(5,6) in \<open>simp add: group_survivors_def\<close>)



text \<open>
  C34. Deleting a key that is not committed answers the client but leaves the coordinator's mutex locked: no later
  deletion, report, question or upload returns.
\<close>

theorem deleting_unknown_key_blocks_service:
  assumes "m_object_commit_table st key = None" "\<not> m_mutex_held st"
  shows "\<exists>st'. delByKey key pick st = Some (st', None)
    \<and> (\<forall>key' pick'. delByKey key' pick' st' = None) \<and> (\<forall>sid pick'. delByStripe sid pick' st' = None)
    \<and> (\<forall>key' opp i c. reportCommitAbort key' opp i c st' = None) \<and> (\<forall>key' opp i. checkCommitAbort key' opp i st' = None)
    \<and> (\<forall>plans att. plans \<noteq> [] \<longrightarrow> upload_plans plans att st' = None)"
  by (rule delete_unknown_key [OF assms])

theorem deleting_unknown_key_blocks_service_witness:
  "\<exists>st'. delByKey ''client'' 0 initial_coordinator = Some (st', None) \<and> reportCommitAbort ''0_0'' SET 0 True st' = None"
proof -
  have "m_object_commit_table initial_coordinator ''client'' = None" "\<not> m_mutex_held initial_coordinator"
    by (simp_all add: initial_coordinator_def)
  from deleting_unknown_key_blocks_service [OF this, of 0] show ?thesis by blast
qed



text \<open>
  The repair of UniformLRC and OptimalLRC numbers the groups of a local group differently from their placement: for
  UniformLRC with \<open>k = 4\<close>, \<open>r = 2\<close>, \<open>z = 2\<close> the repair of block 0 also reads group 1, which belongs to the other local
  group; for OptimalLRC with \<open>k = 4\<close>, \<open>r = 1\<close>, \<open>z = 2\<close> the repair of block 2 asks for group 4 of three groups.
\<close>

lemma recovery_groups_differ_from_placement:
  "uniform_groups 4 2 2 = [0, 0, 0, 1, 1, 1, 0, 1]" "get_recovery_group_ids ''UniformLRC'' 4 2 2 0 = [0, 1]"
  "map (optimal_group 4 1 2) [0..<7] = map Some [0, 0, 1, 1, 2, 0, 1]" "get_recovery_group_ids ''OptimalLRC'' 4 1 2 2 = [2, 3, 4]"
  by code_simp+

section \<open>Datanodes\<close>



text \<open>
  C37. The commit of a block that arrives in ranges is atomic: in every interleaving of the threads that receive the parts,
  wait and publish, with connections that break and waits that time out, the block file is what it was before or the
  complete block; a part that is told success finds the complete block.
\<close>

theorem hybrid_commit_is_atomic:
  assumes "commit_reachable cfg temp_path final_path n part fs s" "parts_of cfg n part block" "temp_path \<noteq> final_path" "fs temp_path = None"
  shows "cs_files s final_path \<in> {fs final_path, Some block}
    \<and> (\<forall>i<n. cs_phase s i = Returned True \<longrightarrow> cs_files s final_path = Some block)"
  using commit_reachable_inv [OF assms] by (simp add: commit_inv_def result_inv_def)

text \<open>A run of two parts that both return success.\<close>

definition sample_part :: "nat \<Rightarrow> range_part" where
  "sample_part i = (if i = 0 then \<lparr>rp_offset = 0, rp_size = 1, rp_recv = [5]\<rparr> else \<lparr>rp_offset = 1, rp_size = 1, rp_recv = [6]\<rparr>)"

lemma sample_parts: "parts_of sample_config 2 sample_part [5, 6]"
  unfolding parts_of_def sample_config_simps
proof (intro conjI allI impI)
  fix i :: nat assume "i < 2"
  then have i: "i = 0 \<or> i = 1" by auto
  then show "0 < rp_size (sample_part i)" "rp_offset (sample_part i) + rp_size (sample_part i) \<le> 2" by (auto simp: sample_part_def)
  show "\<exists>got. rp_recv (sample_part i) = take got (take (rp_size (sample_part i)) (drop (rp_offset (sample_part i)) [5, 6]))"
    using i by (intro exI [of _ 1]) (auto simp: sample_part_def)
  show "\<exists>j<2. rp_offset (sample_part j) \<le> i \<and> i < rp_offset (sample_part j) + rp_size (sample_part j)"
    using i by (intro exI [of _ i]) (auto simp: sample_part_def)
qed simp

lemma sample_range_writes:
  "fst (range_write sample_config ''t'' 0 1 [5] (\<lambda>_. None)) = [''t'' \<mapsto> [5, 0]]" "snd (range_write sample_config ''t'' 0 1 [5] (\<lambda>_. None))"
  "range_write sample_config ''t'' 1 1 [6] [''t'' \<mapsto> [5, 0]] = ([''t'' \<mapsto> [5, 6]], True)"
  by (simp_all add: range_write_def sample_config_simps stream_chunks.simps kStreamChunkBytes_def write_at_def Let_def)

lemma sample_commit_run:
  obtains s where "commit_reachable sample_config ''t'' ''b'' 2 sample_part (\<lambda>_. None) s" "cs_phase s 0 = Returned True" "cs_phase s 1 = Returned True"
proof -
  let ?step = "commit_step sample_config ''t'' ''b'' 2 sample_part"
  define s0 where "s0 = commit_start (\<lambda>_. None)"
  define s1 where "s1 = s0\<lparr>cs_files := [''t'' \<mapsto> [5, 0]], cs_phase := (cs_phase s0)(0 := Written), cs_durable := (cs_durable s0)(0 := True \<and> True)\<rparr>"
  define s2 where "s2 = s1\<lparr>cs_files := [''t'' \<mapsto> [5, 6]], cs_phase := (cs_phase s1)(1 := Written), cs_durable := (cs_durable s1)(1 := True \<and> True)\<rparr>"
  define e1 where "e1 = enter_slot True None"
  define s3 where "s3 = s2\<lparr>cs_slot := Some e1, cs_phase := (cs_phase s2)(0 := (if arrived e1 = 2 then Publishing (all_parts_ok e1) else Waiting))\<rparr>"
  define e2 where "e2 = enter_slot True (Some e1)"
  define s4 where "s4 = s3\<lparr>cs_slot := Some e2, cs_phase := (cs_phase s3)(1 := (if arrived e2 = 2 then Publishing (all_parts_ok e2) else Waiting))\<rparr>"
  define s5 where "s5 = s4\<lparr>cs_files := [''b'' \<mapsto> [5, 6]], cs_phase := (cs_phase s4)(1 := Published True)\<rparr>"
  define s6 where "s6 = s5\<lparr>cs_slot := leave_slot (finish_slot True e2), cs_phase := (cs_phase s5)(1 := Returned True)\<rparr>"
  define e3 where "e3 = finish_slot True e2\<lparr>waiters := 1\<rparr>"
  define s7 where "s7 = s6\<lparr>cs_slot := leave_slot e3, cs_phase := (cs_phase s6)(0 := Returned (commit_ok e3))\<rparr>"
  note defs = s0_def commit_start_def s1_def s2_def s3_def s4_def s5_def s6_def s7_def e1_def e2_def e3_def enter_slot_def fresh_slot_def
    finish_slot_def leave_slot_def expire_slot_def
  have "?step s0 s1" unfolding s1_def
    by (rule commit_step.receive) (use sample_range_writes(1,2) in \<open>simp_all add: s0_def commit_start_def sample_part_def prod_eq_iff\<close>)
  moreover have "?step s1 s2" unfolding s2_def
    by (rule commit_step.receive) (use sample_range_writes(3) in \<open>simp_all add: s0_def s1_def commit_start_def sample_part_def\<close>)
  moreover have "?step s2 s3" unfolding s3_def
    by (rule commit_step.arrive) (simp_all add: defs)
  moreover have "?step s3 s4" unfolding s4_def
    by (rule commit_step.arrive) (simp_all add: defs)
  moreover have "?step s4 s5" unfolding s5_def
    by (rule commit_step.publish [where should_commit = True and rename_ok = True and sync_ok = True])
      (simp_all add: defs publish_files_def fun_eq_iff)
  moreover have "?step s5 s6" unfolding s6_def
    by (rule commit_step.finish) (simp_all add: defs)
  moreover have "?step s6 s7" unfolding s7_def
    by (rule commit_step.wake [where st = e3]) (simp_all add: defs)
  ultimately have "commit_reachable sample_config ''t'' ''b'' 2 sample_part (\<lambda>_. None) s7"
    unfolding commit_reachable_def s0_def [symmetric] by (meson rtranclp.rtrancl_into_rtrancl rtranclp.rtrancl_refl)
  moreover have "cs_phase s7 0 = Returned True" "cs_phase s7 1 = Returned True" by (simp_all add: defs)
  ultimately show thesis by (rule that)
qed

theorem hybrid_commit_is_atomic_witness:
  "\<exists>s. commit_reachable sample_config ''t'' ''b'' 2 sample_part (\<lambda>_. None) s \<and> cs_files s ''b'' = Some [5, 6]"
proof -
  obtain s where s: "commit_reachable sample_config ''t'' ''b'' 2 sample_part (\<lambda>_. None) s" "cs_phase s 0 = Returned True"
    by (rule sample_commit_run)
  from hybrid_commit_is_atomic [OF s(1) sample_parts] s show ?thesis by auto
qed

text \<open>
  C38. The commit ends: no run has more than four steps per part, and a state from which no step is possible is one in which every
  part has returned.
\<close>

theorem hybrid_commit_terminates:
  assumes "commit_reachable cfg temp_path final_path n part fs s" "parts_of cfg n part block" "temp_path \<noteq> final_path" "fs temp_path = None"
  shows "(\<forall>m. (commit_step cfg temp_path final_path n part ^^ m) (commit_start fs) s \<longrightarrow> m \<le> 4 * n)
    \<and> ((\<nexists>s'. commit_step cfg temp_path final_path n part s s') \<longrightarrow> (\<forall>i<n. \<exists>b. cs_phase s i = Returned b))"
proof -
  have "commit_work n (commit_start fs) = 4 * n" by (simp add: commit_work_def commit_start_def part_work_def)
  then have "\<forall>m. (commit_step cfg temp_path final_path n part ^^ m) (commit_start fs) s \<longrightarrow> m \<le> 4 * n"
    using commit_run_bound by fastforce
  then show ?thesis using commit_step_enabled [OF commit_reachable_inv [OF assms]] by blast
qed

theorem hybrid_commit_terminates_witness:
  "\<exists>s. commit_reachable sample_config ''t'' ''b'' 2 sample_part (\<lambda>_. None) s
    \<and> (\<forall>m. (commit_step sample_config ''t'' ''b'' 2 sample_part ^^ m) (commit_start (\<lambda>_. None)) s \<longrightarrow> m \<le> 8)"
proof -
  obtain s where s: "commit_reachable sample_config ''t'' ''b'' 2 sample_part (\<lambda>_. None) s" by (rule sample_commit_run)
  from hybrid_commit_terminates [OF s sample_parts] s show ?thesis by auto
qed

section \<open>Configuration and links\<close>





end
